(* ===== verification/Prelude.thy ===== *)
theory Prelude
  imports Main "HOL-Library.Word" "HOL-Library.Char_ord" "HOL-Library.List_Lexorder"
begin

text \<open>
  Shared vocabulary of the development: the Go standard-library operations the analyzer
  uses on strings (decimal formatting, joining, prefix tests), Go's three-way comparison
  functions with the laws a sort needs, loops with an early exit, and the collections of
  rewrite rules the component theories fill.

  Go strings are byte strings; they are modelled as \<open>string\<close> (lists of 8-bit characters),
  and Go's \<open><\<close> on strings is the lexicographic order of \<open>List_Lexorder\<close>.
\<close>

unbundle bit_operations_syntax

named_theorems go_const \<open>values of the constants declared in the Go sources\<close>
named_theorems key_rules \<open>rules that take a formatted key apart\<close>

section \<open>Splitting formatted strings\<close>

text \<open>
  The analyzer keys its maps by formatted strings. \<open>split_on\<close> cuts a string at every
  occurrence of a separator; it is how the injectivity of such keys is shown.
\<close>

fun prep :: "string \<Rightarrow> string list \<Rightarrow> string list" where
  "prep p [] = [p]"
| "prep p (q # qs) = (p @ q) # qs"

fun split_on :: "char \<Rightarrow> string \<Rightarrow> string list" where
  "split_on c [] = [[]]"
| "split_on c (x # xs) = (if x = c then [] # split_on c xs else prep [x] (split_on c xs))"

lemma split_on_nonempty [simp]: "split_on c xs \<noteq> []"
  by (induction xs) (auto elim: prep.elims)

lemma prep_Nil [simp]: "qs \<noteq> [] \<Longrightarrow> prep [] qs = qs"
  by (cases qs) auto

lemma prep_prep: "qs \<noteq> [] \<Longrightarrow> prep a (prep b qs) = prep (a @ b) qs"
  by (cases qs) auto

lemma split_on_free_append [key_rules]:
  "c \<notin> set p \<Longrightarrow> split_on c (p @ xs) = prep p (split_on c xs)"
proof (induction p)
  case Nil
  then show ?case by simp
next
  case (Cons a p)
  then show ?case by (auto simp: prep_prep)
qed

lemma split_on_free [key_rules]: "c \<notin> set p \<Longrightarrow> split_on c p = [p]"
  using split_on_free_append [of c p "[]"] by simp

lemma split_on_sep: "split_on c (xs @ c # ys) = split_on c xs @ split_on c ys"
proof (induction xs)
  case Nil
  then show ?case by simp
next
  case (Cons x xs)
  then show ?case by (cases "split_on c xs") auto
qed

section \<open>Decimal formatting\<close>

text \<open>Go's \<open>%d\<close> verb and \<open>strconv.Itoa\<close>.\<close>

fun show_nat :: "nat \<Rightarrow> string" where
  "show_nat n = (if n < 10 then [char_of (48 + n)] else show_nat (n div 10) @ [char_of (48 + n mod 10)])"

declare show_nat.simps [simp del]

definition show_int :: "int \<Rightarrow> string" where
  "show_int i = (if i < 0 then CHR ''-'' # show_nat (nat (- i)) else show_nat (nat i))"

definition read_nat :: "string \<Rightarrow> nat" where
  "read_nat s = foldl (\<lambda>a c. 10 * a + (of_char c - 48)) 0 s"

lemma read_show_nat [simp]: "read_nat (show_nat n) = n"
proof (induction n rule: show_nat.induct)
  case (1 n)
  show ?case
  proof (cases "n < 10")
    case True
    then show ?thesis by (subst show_nat.simps) (simp add: read_nat_def)
  next
    case False
    have "read_nat (show_nat n) = 10 * read_nat (show_nat (n div 10)) + n mod 10"
      using False by (subst show_nat.simps) (simp add: read_nat_def)
    with 1 False show ?thesis by simp
  qed
qed

lemma show_nat_inj [simp]: "show_nat m = show_nat n \<longleftrightarrow> m = n"
  by (metis read_show_nat)

lemma show_nat_digits: "c \<in> set (show_nat n) \<Longrightarrow> 48 \<le> (of_char c :: nat) \<and> (of_char c :: nat) < 58"
proof (induction n rule: show_nat.induct)
  case (1 n)
  have d: "48 \<le> (of_char (char_of (48 + m mod 10)) :: nat) \<and> (of_char (char_of (48 + m mod 10)) :: nat) < 58" for m :: nat
    by simp
  show ?case
  proof (cases "n < 10")
    case True
    with 1 d [of n] show ?thesis by (auto simp: show_nat.simps [of n])
  next
    case False
    with 1 d [of n] show ?thesis by (auto simp: show_nat.simps [of n])
  qed
qed

lemma show_nat_free [simp]:
  "(of_char c :: nat) < 48 \<or> 58 \<le> (of_char c :: nat) \<Longrightarrow> c \<notin> set (show_nat n)"
  using show_nat_digits [of c n] by auto

lemma show_nat_nonempty [simp]: "show_nat n \<noteq> []"
  by (subst show_nat.simps) simp

lemma show_int_free [simp]:
  "c \<noteq> CHR ''-'' \<Longrightarrow> (of_char c :: nat) < 48 \<or> 58 \<le> (of_char c :: nat) \<Longrightarrow> c \<notin> set (show_int n)"
  by (simp add: show_int_def)

lemma show_nat_no_minus: "show_nat n \<noteq> CHR ''-'' # xs"
proof
  assume "show_nat n = CHR ''-'' # xs"
  then have "CHR ''-'' \<in> set (show_nat n)" by simp
  then show False by simp
qed

lemma show_int_inj [simp]: "show_int i = show_int j \<longleftrightarrow> i = j"
proof
  assume "show_int i = show_int j"
  then show "i = j"
    using show_nat_no_minus [of "nat i"] show_nat_no_minus [of "nat j", symmetric]
    by (auto simp: show_int_def split: if_splits)
qed simp

section \<open>Joining, prefixes and trimming\<close>

text \<open>
  \<open>strings.Join\<close>, \<open>strings.HasPrefix\<close> and \<open>strings.TrimSpace\<close>. White space is Unicode's: besides
  the ASCII characters it has the code points listed by their UTF-8 bytes in \<open>wide_spaces\<close>.
\<close>

fun strings_Join :: "string list \<Rightarrow> string \<Rightarrow> string" where
  "strings_Join [] sep = []"
| "strings_Join [x] sep = x"
| "strings_Join (x # y # ys) sep = x @ sep @ strings_Join (y # ys) sep"

definition strings_HasPrefix :: "string \<Rightarrow> string \<Rightarrow> bool" where
  "strings_HasPrefix s p \<longleftrightarrow> take (length p) s = p"

definition ascii_space :: "char \<Rightarrow> bool" where
  "ascii_space c \<longleftrightarrow> (let n = (of_char c :: nat) in n = 32 \<or> (9 \<le> n \<and> n \<le> 13))"

definition wide_spaces :: "string list" where
  "wide_spaces =
     [[CHR 0xC2, CHR 0x85], [CHR 0xC2, CHR 0xA0], [CHR 0xE1, CHR 0x9A, CHR 0x80], [CHR 0xE2, CHR 0x80, CHR 0x80],
      [CHR 0xE2, CHR 0x80, CHR 0x81], [CHR 0xE2, CHR 0x80, CHR 0x82], [CHR 0xE2, CHR 0x80, CHR 0x83], [CHR 0xE2, CHR 0x80, CHR 0x84],
      [CHR 0xE2, CHR 0x80, CHR 0x85], [CHR 0xE2, CHR 0x80, CHR 0x86], [CHR 0xE2, CHR 0x80, CHR 0x87], [CHR 0xE2, CHR 0x80, CHR 0x88],
      [CHR 0xE2, CHR 0x80, CHR 0x89], [CHR 0xE2, CHR 0x80, CHR 0x8A], [CHR 0xE2, CHR 0x80, CHR 0xA8], [CHR 0xE2, CHR 0x80, CHR 0xA9],
      [CHR 0xE2, CHR 0x80, CHR 0xAF], [CHR 0xE2, CHR 0x81, CHR 0x9F], [CHR 0xE3, CHR 0x80, CHR 0x80]]"

fun trimLeading :: "string list \<Rightarrow> string \<Rightarrow> string" where
  "trimLeading wide [] = []"
| "trimLeading wide (c # s) =
     (if ascii_space c then trimLeading wide s
      else case find (\<lambda>w. strings_HasPrefix (c # s) w) wide of
          None \<Rightarrow> c # s
        | Some w \<Rightarrow> trimLeading wide (drop (length w - 1) s))"

definition strings_TrimSpace :: "string \<Rightarrow> string" where
  "strings_TrimSpace s = rev (trimLeading (map rev wide_spaces) (rev (trimLeading wide_spaces s)))"

lemma HasPrefix_append [simp]: "strings_HasPrefix (p @ s) p"
  by (simp add: strings_HasPrefix_def)

lemma HasPrefix_iff: "strings_HasPrefix s p \<longleftrightarrow> (\<exists>r. s = p @ r)"
  by (metis HasPrefix_append append_take_drop_id strings_HasPrefix_def)

section \<open>Three-way comparison\<close>

text \<open>
  Go's comparison functions return a negative, zero or positive number. \<open>go_compare\<close> holds
  the laws of a total preorder, which is what \<open>slices.SortFunc\<close> relies on;
  \<open>go_total_compare\<close> adds that only equal values compare as zero, so that the sorted order
  of a set of values is unique.
\<close>

locale go_compare =
  fixes compare :: "'a \<Rightarrow> 'a \<Rightarrow> int"
  assumes flip: "compare x y < 0 \<longleftrightarrow> 0 < compare y x"
    and le_trans: "compare x y \<le> 0 \<Longrightarrow> compare y z \<le> 0 \<Longrightarrow> compare x z \<le> 0"
begin

lemma zero_sym: "compare x y = 0 \<longleftrightarrow> compare y x = 0"
  using flip [of x y] flip [of y x] by linarith

lemma refl [simp]: "compare x x = 0"
  using flip [of x x] by linarith

lemma zero_trans: "compare x y = 0 \<Longrightarrow> compare y z = 0 \<Longrightarrow> compare x z = 0"
  using le_trans [of x y z] le_trans [of z y x] zero_sym [of x y] zero_sym [of y z] flip [of z x] flip [of x z]
  by force

lemma le_total: "compare x y \<le> 0 \<or> compare y x \<le> 0"
  using flip [of x y] by linarith

lemma less_le_trans: "compare x y < 0 \<Longrightarrow> compare y z \<le> 0 \<Longrightarrow> compare x z < 0"
  using flip [of x z] flip [of z x] flip [of x y] flip [of y x] le_trans [of y z x] le_trans [of z x y] zero_sym [of x z] by linarith

lemma le_less_trans: "compare x y \<le> 0 \<Longrightarrow> compare y z < 0 \<Longrightarrow> compare x z < 0"
  using flip [of x z] flip [of z x] flip [of y z] flip [of z y] le_trans [of z x y] zero_sym [of x z] by linarith

lemma less_trans: "compare x y < 0 \<Longrightarrow> compare y z < 0 \<Longrightarrow> compare x z < 0"
  using less_le_trans [of x y z] by simp

end

locale go_total_compare = go_compare +
  assumes zero_eq: "compare x y = 0 \<Longrightarrow> x = y"
begin

lemma zero_iff [simp]: "compare x y = 0 \<longleftrightarrow> x = y"
  using zero_eq by auto

lemma trichotomy: "x = y \<or> compare x y < 0 \<or> compare y x < 0"
  using flip [of x y] zero_eq [of x y] flip [of y x] by linarith

lemma le_antisym: "compare x y \<le> 0 \<Longrightarrow> compare y x \<le> 0 \<Longrightarrow> x = y"
  using flip [of x y] zero_eq [of x y] by linarith

end

text \<open>\<open>cmp.Compare\<close> on ordered types.\<close>

definition cmp_Compare :: "'a::linorder \<Rightarrow> 'a \<Rightarrow> int" where
  "cmp_Compare x y = (if x < y then - 1 else if y < x then 1 else 0)"

interpretation cmp: go_total_compare cmp_Compare
  by unfold_locales (auto simp: cmp_Compare_def split: if_splits)

text \<open>
  The comparison chains of the analyzer return the first non-zero entry of a list of
  field comparisons.
\<close>

fun first_nonzero :: "int list \<Rightarrow> int" where
  "first_nonzero [] = 0"
| "first_nonzero (c # cs) = (if c \<noteq> 0 then c else first_nonzero cs)"

lemma first_nonzero_zero: "first_nonzero cs = 0 \<longleftrightarrow> (\<forall>c\<in>set cs. c = 0)"
  by (induction cs) auto

lemma go_compare_on: "go_compare c \<Longrightarrow> go_compare (\<lambda>x y. c (f x) (f y))"
  by (auto simp: go_compare_def)

lemma go_compare_chain:
  "\<forall>c\<in>set cs. go_compare c \<Longrightarrow> go_compare (\<lambda>x y. first_nonzero (map (\<lambda>c. c x y) cs))"
proof (induction cs)
  case Nil
  then show ?case by unfold_locales auto
next
  case (Cons c cs)
  then have c: "go_compare c" and r: "go_compare (\<lambda>x y. first_nonzero (map (\<lambda>c. c x y) cs))"
    by auto
  show ?case
  proof
    fix x y
    show "first_nonzero (map (\<lambda>c. c x y) (c # cs)) < 0 \<longleftrightarrow> 0 < first_nonzero (map (\<lambda>c. c y x) (c # cs))"
      using go_compare.flip [OF c, of x y] go_compare.flip [OF r, of x y] go_compare.zero_sym [OF c, of x y] by auto
  next
    fix x y z
    assume a: "first_nonzero (map (\<lambda>c. c x y) (c # cs)) \<le> 0"
      and b: "first_nonzero (map (\<lambda>c. c y z) (c # cs)) \<le> 0"
    then have "c x y \<le> 0" "c y z \<le> 0" by (auto split: if_splits)
    show "first_nonzero (map (\<lambda>c. c x z) (c # cs)) \<le> 0"
    proof (cases "c x y = 0 \<and> c y z = 0")
      case True
      then have "c x z = 0"
        using go_compare.zero_trans [OF c, of x y z] by simp
      with True a b show ?thesis using go_compare.le_trans [OF r, of x y z] by simp
    next
      case False
      then have "c x z < 0"
        using \<open>c x y \<le> 0\<close> \<open>c y z \<le> 0\<close> go_compare.less_le_trans [OF c, of x y z]
          go_compare.le_less_trans [OF c, of x y z] by fastforce
      then show ?thesis by simp
    qed
  qed
qed

text \<open>\<open>slices.Compare\<close> and \<open>slices.CompareFunc\<close>: element by element, then by length.\<close>

fun slices_CompareFunc :: "('a \<Rightarrow> 'a \<Rightarrow> int) \<Rightarrow> 'a list \<Rightarrow> 'a list \<Rightarrow> int" where
  "slices_CompareFunc c [] [] = 0"
| "slices_CompareFunc c [] (y # ys) = - 1"
| "slices_CompareFunc c (x # xs) [] = 1"
| "slices_CompareFunc c (x # xs) (y # ys) = (if c x y \<noteq> 0 then c x y else slices_CompareFunc c xs ys)"

lemma go_compare_list:
  assumes c: "go_compare c"
  shows "go_compare (slices_CompareFunc c)"
proof
  fix xs ys
  show "slices_CompareFunc c xs ys < 0 \<longleftrightarrow> 0 < slices_CompareFunc c ys xs"
  proof (induction xs arbitrary: ys)
    case Nil
    then show ?case by (cases ys) auto
  next
    case (Cons x xs)
    then show ?case
      using go_compare.flip [OF c, of x] go_compare.zero_sym [OF c, of x]
      by (cases ys) auto
  qed
next
  fix xs ys zs
  assume "slices_CompareFunc c xs ys \<le> 0" "slices_CompareFunc c ys zs \<le> 0"
  then show "slices_CompareFunc c xs zs \<le> 0"
  proof (induction xs arbitrary: ys zs)
    case Nil
    then show ?case by (cases zs) auto
  next
    case (Cons x xs)
    then obtain y ys' z zs' where e: "ys = y # ys'" "zs = z # zs'"
      by (cases ys; cases zs) auto
    have le: "c x y \<le> 0" "c y z \<le> 0" using Cons.prems e by (auto split: if_splits)
    show ?case
    proof (cases "c x y = 0 \<and> c y z = 0")
      case True
      then have "c x z = 0"
        using go_compare.zero_trans [OF c, of x y z] by simp
      with True Cons e show ?thesis by auto
    next
      case False
      then have "c x z < 0"
        using le go_compare.less_le_trans [OF c, of x y z] go_compare.le_less_trans [OF c, of x y z]
        by fastforce
      with e show ?thesis by simp
    qed
  qed
qed

lemma slices_CompareFunc_zero:
  "(\<And>x y. c x y = 0 \<Longrightarrow> x = y) \<Longrightarrow> slices_CompareFunc c xs ys = 0 \<Longrightarrow> xs = ys"
  by (induction c xs ys rule: slices_CompareFunc.induct) (auto split: if_splits)

section \<open>Loops with an early exit\<close>

text \<open>
  A Go \<open>for\<close> loop whose body may leave the loop: the body returns whether to go on, and the
  state; the loop returns whether it ran to its end.
\<close>

fun for_each :: "('s \<Rightarrow> 'a \<Rightarrow> bool \<times> 's) \<Rightarrow> 's \<Rightarrow> 'a list \<Rightarrow> bool \<times> 's" where
  "for_each f s [] = (True, s)"
| "for_each f s (x # xs) = (case f s x of (go, s') \<Rightarrow> if go then for_each f s' xs else (False, s'))"

lemma for_each_invariant:
  "P s \<Longrightarrow> (\<And>s x. x \<in> set xs \<Longrightarrow> P s \<Longrightarrow> P (snd (f s x))) \<Longrightarrow> P (snd (for_each f s xs))"
proof (induction xs arbitrary: s)
  case Nil
  then show ?case by simp
next
  case (Cons x xs)
  obtain go s' where f: "f s x = (go, s')" by force
  have "P (snd (f s x))" using Cons.prems by simp
  then have "P s'" by (simp add: f)
  then show ?case using Cons.IH [of s'] Cons.prems(2) by (simp add: f)
qed

lemma for_each_stop:
  "\<not> fst (for_each f s xs) \<Longrightarrow> (\<And>s x. x \<in> set xs \<Longrightarrow> \<not> fst (f s x) \<Longrightarrow> Q (snd (f s x)))
    \<Longrightarrow> Q (snd (for_each f s xs))"
proof (induction xs arbitrary: s)
  case Nil
  then show ?case by simp
next
  case (Cons x xs)
  obtain go s' where f: "f s x = (go, s')" by force
  show ?case
  proof (cases go)
    case True
    then show ?thesis using Cons.IH [of s'] Cons.prems by (simp add: f)
  next
    case False
    then show ?thesis using Cons.prems(2) [of x s] by (simp add: f)
  qed
qed

end
