(* ===== verification/Go_Library.thy ===== *)
theory Go_Library
  imports Prelude "HOL-Library.Multiset" "HOL-Library.AList"
begin

text \<open>
  The part of Go's standard library the validators of the repository use, beyond the
  prelude: error values, string searches, and the lexical path functions of
  \<open>path/filepath\<close> on a system whose separator is the slash.
\<close>

section \<open>Error values\<close>

text \<open>
  \<open>fmt.Errorf\<close> with its format and arguments, and with an error wrapped by the verb \<open>%w\<close>. A
  function that returns an \<open>error\<close> returns an option, whose \<open>None\<close> is \<open>nil\<close>.
\<close>

datatype go_error =
    Errorf string "string list"
  | Wrapf string "string list" go_error

text \<open>A sequence of checks that each end the function with their error.\<close>

fun first_error :: "go_error option list \<Rightarrow> go_error option" where
  "first_error [] = None"
| "first_error (None # es) = first_error es"
| "first_error (Some e # es) = Some e"

lemma first_error_None [simp]: "first_error es = None \<longleftrightarrow> (\<forall>e\<in>set es. e = None)"
  by (induction es rule: first_error.induct) auto

definition error_when :: "bool \<Rightarrow> string \<Rightarrow> string list \<Rightarrow> go_error option" where
  "error_when failed format arguments = (if failed then Some (Errorf format arguments) else None)"

lemma error_when_None [simp]: "error_when failed format arguments = None \<longleftrightarrow> \<not> failed"
  by (simp add: error_when_def)

definition wrap_error :: "string \<Rightarrow> string list \<Rightarrow> go_error option \<Rightarrow> go_error option" where
  "wrap_error format arguments = map_option (Wrapf format arguments)"

lemma wrap_error_None [simp]: "wrap_error format arguments e = None \<longleftrightarrow> e = None"
  by (simp add: wrap_error_def)

section \<open>Searching strings\<close>

fun strings_Contains :: "string \<Rightarrow> string \<Rightarrow> bool" where
  "strings_Contains [] p = (p = [])"
| "strings_Contains (c # s) p = (strings_HasPrefix (c # s) p \<or> strings_Contains s p)"

definition strings_ContainsAny :: "string \<Rightarrow> char list \<Rightarrow> bool" where
  "strings_ContainsAny s chars = list_ex (\<lambda>c. c \<in> set chars) s"

text \<open>\<open>strings.ToLower\<close> on ASCII letters; the code compares its result with ASCII words without \<open>i\<close> and \<open>k\<close>,
  the two letters that other code points are lowered to.\<close>

definition strings_ToLower :: "string \<Rightarrow> string" where
  "strings_ToLower = map (\<lambda>c. let n = (of_char c :: nat) in if 65 \<le> n \<and> n \<le> 90 then char_of (n + 32) else c)"

section \<open>Calls that may fail\<close>

text \<open>A call that may fail, followed by the code that uses its result; a check before the code; an error wrapped.\<close>

definition and_then :: "go_error + 'a \<Rightarrow> ('a \<Rightarrow> go_error + 'b) \<Rightarrow> go_error + 'b" where
  "and_then r f = (case r of Inl e \<Rightarrow> Inl e | Inr x \<Rightarrow> f x)"

definition checked :: "go_error option \<Rightarrow> go_error + 'a \<Rightarrow> go_error + 'a" where
  "checked check r = (case check of Some e \<Rightarrow> Inl e | None \<Rightarrow> r)"

definition wrapping :: "string \<Rightarrow> string list \<Rightarrow> go_error + 'a \<Rightarrow> go_error + 'a" where
  "wrapping format arguments r = (case r of Inl e \<Rightarrow> Inl (Wrapf format arguments e) | Inr x \<Rightarrow> Inr x)"

lemma and_then_Inr [simp]: "and_then r f = Inr y \<longleftrightarrow> (\<exists>x. r = Inr x \<and> f x = Inr y)"
  by (cases r) (simp_all add: and_then_def)

lemma checked_Inr [simp]: "checked check r = Inr y \<longleftrightarrow> check = None \<and> r = Inr y"
  by (cases check) (simp_all add: checked_def)

lemma wrapping_Inr [simp]: "wrapping format arguments r = Inr y \<longleftrightarrow> r = Inr y"
  by (cases r) (simp_all add: wrapping_def)

section \<open>Slash paths\<close>

text \<open>
  \<open>filepath.Clean\<close> drops empty and \<open>.\<close> elements, resolves \<open>..\<close> against the element before it, and
  drops \<open>..\<close> at the root. \<open>filepath.Base\<close> is the last element, \<open>filepath.Ext\<close> its suffix from the final dot.
\<close>

definition cleanStep :: "bool \<Rightarrow> string list \<Rightarrow> string \<Rightarrow> string list" where
  "cleanStep rooted out element =
     (if element = [] \<or> element = ''.'' then out
      else if element = ''..'' then
        (if out \<noteq> [] \<and> last out \<noteq> ''..'' then butlast out
         else if rooted then out else out @ [element])
      else out @ [element])"

definition filepath_IsAbs :: "string \<Rightarrow> bool" where
  "filepath_IsAbs path = strings_HasPrefix path ''/''"

definition filepath_Clean :: "string \<Rightarrow> string" where
  "filepath_Clean path =
     (let rooted = filepath_IsAbs path;
          cleaned = (if rooted then ''/'' else []) @ strings_Join (foldl (cleanStep rooted) [] (split_on CHR ''/'' path)) ''/''
      in if cleaned = [] then ''.'' else cleaned)"

definition filepath_Base :: "string \<Rightarrow> string" where
  "filepath_Base path =
     (if path = [] then ''.''
      else let stripped = rev (dropWhile (\<lambda>c. c = CHR ''/'') (rev path))
           in if stripped = [] then ''/'' else last (split_on CHR ''/'' stripped))"

definition filepath_Ext :: "string \<Rightarrow> string" where
  "filepath_Ext path =
     (let element = last (split_on CHR ''/'' path)
      in if CHR ''.'' \<in> set element then CHR ''.'' # rev (takeWhile (\<lambda>c. c \<noteq> CHR ''.'') (rev element)) else [])"

text \<open>
  \<open>filepath.Join\<close> of two elements. \<open>filepath.Rel\<close> is used on absolute paths only, where it always
  returns: it goes up from what the base has beside the common elements. \<open>ToSlash\<close> and \<open>FromSlash\<close> are the
  identity where the separator is a slash.
\<close>

definition filepath_Join :: "string \<Rightarrow> string \<Rightarrow> string" where
  "filepath_Join a b = (if a = [] \<and> b = [] then [] else filepath_Clean (if a = [] then b else if b = [] then a else a @ ''/'' @ b))"

fun dropCommon :: "string list \<Rightarrow> string list \<Rightarrow> string list \<times> string list" where
  "dropCommon (a # as) (b # bs) = (if a = b then dropCommon as bs else (a # as, b # bs))"
| "dropCommon as bs = (as, bs)"

definition filepath_Rel :: "string \<Rightarrow> string \<Rightarrow> string" where
  "filepath_Rel base target =
     (let (up, down) = dropCommon (split_on CHR ''/'' (filepath_Clean base)) (split_on CHR ''/'' (filepath_Clean target))
      in if filepath_Clean base = filepath_Clean target then ''.''
         else strings_Join (map (\<lambda>_. ''..'') (filter (\<lambda>element. element \<noteq> []) up) @ filter (\<lambda>element. element \<noteq> []) down) ''/'')"

section \<open>Maps and sets built by loops\<close>

text \<open>A map is an association list updated in the order of the insertions.\<close>

lemma update_new: "k \<notin> fst ` set al \<Longrightarrow> AList.update k v al = al @ [(k, v)]"
  by (induction al) auto

lemma foldl_update_new:
  "distinct (map fst al @ map f xs) \<Longrightarrow> foldl (\<lambda>m x. AList.update (f x) (g x) m) al xs = al @ map (\<lambda>x. (f x, g x)) xs"
  by (induction xs arbitrary: al) (auto simp: update_new)

lemma covering_permutes:
  assumes "distinct xs" "set xs \<subseteq> set ys" "length ys = card (set xs)"
  shows "mset xs = mset ys"
proof -
  have "card (set xs) \<le> card (set ys)" "card (set ys) \<le> length ys" using assms(2) by (auto intro: card_mono card_length)
  then have c: "card (set xs) = card (set ys)" "card (set ys) = length ys" using assms(3) by simp_all
  have "set xs = set ys" by (rule card_subset_eq) (use assms(2) c in auto)
  moreover have "distinct ys" using c by (rule_tac card_distinct) simp
  ultimately show ?thesis using assms(1) set_eq_iff_mset_eq_distinct by blast
qed

section \<open>Sorting\<close>

text \<open>
  \<open>slices.SortFunc\<close> on a total preorder. The values the code sorts compare as equal only
  when they have the same key, so that the order among equal values, which the library leaves
  open, matters only where a theorem says so.
\<close>

fun insertBy :: "('a \<Rightarrow> 'a \<Rightarrow> int) \<Rightarrow> 'a \<Rightarrow> 'a list \<Rightarrow> 'a list" where
  "insertBy compare x [] = [x]"
| "insertBy compare x (y # ys) = (if compare x y \<le> 0 then x # y # ys else y # insertBy compare x ys)"

definition slices_SortFunc :: "('a \<Rightarrow> 'a \<Rightarrow> int) \<Rightarrow> 'a list \<Rightarrow> 'a list" where
  "slices_SortFunc compare xs = foldr (insertBy compare) xs []"

fun slices_IsSorted :: "'a::linorder list \<Rightarrow> bool" where
  "slices_IsSorted (x # y # ys) = (x \<le> y \<and> slices_IsSorted (y # ys))"
| "slices_IsSorted _ = True"

lemma slices_IsSorted_iff [simp]: "slices_IsSorted xs = sorted xs"
proof (induction xs rule: slices_IsSorted.induct)
  case (1 x y ys)
  then show ?case by (simp only: slices_IsSorted.simps sorted2)
qed auto

lemma mset_insertBy [simp]: "mset (insertBy compare x xs) = add_mset x (mset xs)"
  by (induction xs) auto

lemma mset_SortFunc [simp]: "mset (slices_SortFunc compare xs) = mset xs"
  unfolding slices_SortFunc_def by (induction xs) auto

lemma set_SortFunc [simp]: "set (slices_SortFunc compare xs) = set xs"
  by (metis mset_SortFunc set_mset_mset)

lemma length_SortFunc [simp]: "length (slices_SortFunc compare xs) = length xs"
  by (metis mset_SortFunc size_mset)

context go_compare
begin

lemma insertBy_sorted:
  "sorted_wrt (\<lambda>x y. compare x y \<le> 0) xs \<Longrightarrow> sorted_wrt (\<lambda>x y. compare x y \<le> 0) (insertBy compare x xs)"
proof (induction xs)
  case Nil
  then show ?case by simp
next
  case (Cons y ys)
  have "set (insertBy compare x ys) = insert x (set ys)" by (metis mset_insertBy set_mset_add_mset_insert set_mset_mset)
  with Cons show ?case using le_total [of x y] le_trans [of x y] by auto
qed

lemma SortFunc_sorted: "sorted_wrt (\<lambda>x y. compare x y \<le> 0) (slices_SortFunc compare xs)"
  unfolding slices_SortFunc_def by (induction xs) (auto simp: insertBy_sorted)

end

lemma SortFunc_id: "sorted_wrt (\<lambda>x y. compare x y \<le> 0) xs \<Longrightarrow> slices_SortFunc compare xs = xs"
proof (induction xs)
  case (Cons x xs)
  then show ?case by (cases xs) (simp_all add: slices_SortFunc_def)
qed (simp add: slices_SortFunc_def)

lemma cmp_le: "cmp_Compare x y \<le> 0 \<longleftrightarrow> x \<le> (y :: 'a::linorder)"
  by (auto simp: cmp_Compare_def)

lemma SortFunc_key_sorted: "sorted (map f (slices_SortFunc (\<lambda>x y. cmp_Compare (f x) (f y)) xs))" for f :: "'a \<Rightarrow> 'b::linorder"
proof -
  have "go_compare (\<lambda>x y. cmp_Compare (f x) (f y))" by (rule go_compare_on) (rule cmp.go_compare_axioms)
  from go_compare.SortFunc_sorted [OF this, of xs] show ?thesis by (simp add: cmp_le sorted_map)
qed

lemma SortFunc_key_id: "sorted (map f xs) \<Longrightarrow> slices_SortFunc (\<lambda>x y. cmp_Compare (f x) (f y)) xs = xs" for f :: "'a \<Rightarrow> 'b::linorder"
  by (rule SortFunc_id) (simp add: cmp_le sorted_map)

section \<open>Go's 64-bit integers\<close>

definition int64 :: "int \<Rightarrow> int" where
  "int64 x = signed_take_bit 63 x"

lemma int64_exact: "- (2 ^ 63) \<le> x \<Longrightarrow> x < 2 ^ 63 \<Longrightarrow> int64 x = x"
  unfolding int64_def by (rule signed_take_bit_int_eq_self) simp_all

end
