(* ===== verification/Execution_Plan.thy ===== *)
theory Execution_Plan
  imports Go_Library
begin

text \<open>
  Execution plans of the soundness gate and their validation
  (\<open>internal/soundnessgate/plan_model.go\<close>, with the identifier and path checks of
  \<open>model.go\<close>). The digests of JSON encodings are parameters, collected in \<open>planDigests\<close>.

  The results: the depth-first search for dependency cycles returns and accepts exactly the
  acyclic graphs; accepted shards partition their census; an accepted plan fits its budget.
\<close>

section \<open>The data of a plan\<close>

record WorkspaceBinding =
  Root :: string
  workspaceDigest :: string

record ArtifactBinding =
  artifactPath :: string
  artifactDigest :: string

record ToolchainBinding =
  GoVersion :: string
  GOOS :: string
  GOARCH :: string
  toolchainDigest :: string

record ResourceBudget =
  CPUUnits :: int
  MemoryBytes :: int
  MaximumWorkers :: int
  RunnerClass :: string
  SerialReference :: bool

record ResourceReservation =
  reservedCPU :: int
  reservedMemory :: int
  WorkerSlots :: int

record PlanCommandBinding =
  WorkUnitID :: string
  SubgateID :: string
  WorkingDirectory :: string
  Command :: "string list"
  CommandDigest :: string
  BinaryDigest :: string
  ReservedResources :: ResourceReservation
  ExclusivityGroups :: "string list"
  Distributable :: bool
  TimeoutSeconds :: int

record PlanDependencyBinding =
  dependentID :: string
  Requires :: "string list"

record PlanCensusBinding =
  censusID :: string
  Kind :: string
  censusMembers :: "string list"
  censusDigest :: string

record PlanShardBinding =
  shardID :: string
  shardUnit :: string
  shardCensus :: string
  Mode :: string
  Iteration :: int
  shardMembers :: "string list"
  TotalWeight :: int
  shardTimeout :: int

record PopulationRequirement =
  populationID :: string
  Minimum :: int

record PlanExpectedReportBinding =
  reportUnit :: string
  reportSubgate :: string
  ReportFile :: string
  reportCommandDigest :: string
  RequiredRegistrationIDs :: "string list"
  RequiredPopulations :: "PopulationRequirement list"

record ExecutionPlan =
  FormatVersion :: int
  PlanID :: string
  Profile :: string
  Workspace :: WorkspaceBinding
  Manifest :: ArtifactBinding
  Registry :: ArtifactBinding
  Toolchain :: ToolchainBinding
  Resources :: ResourceBudget
  Commands :: "PlanCommandBinding list"
  Dependencies :: "PlanDependencyBinding list"
  Censuses :: "PlanCensusBinding list"
  Shards :: "PlanShardBinding list"
  ExpectedReports :: "PlanExpectedReportBinding list"

definition ExecutionPlanFormatVersion :: int where [go_const]: "ExecutionPlanFormatVersion = 1"
definition maximumPlanWorkers :: int where [go_const]: "maximumPlanWorkers = 1024"
definition maximumTimeoutSeconds :: int where [go_const]: "maximumTimeoutSeconds = 86400"

text \<open>SHA-256 of the JSON encoding of a plan without its identity, and of the identity fields of its parts.\<close>

record planDigests =
  digestOfPlan :: "ExecutionPlan \<Rightarrow> string"
  digestOfToolchain :: "string \<times> string \<times> string \<Rightarrow> string"
  digestOfCommand :: "string \<times> string \<times> string list \<Rightarrow> string"
  digestOfCensus :: "string \<times> string \<times> string list \<Rightarrow> string"

section \<open>Identifiers, paths and digests\<close>

definition validateIdentifier :: "string \<Rightarrow> string \<Rightarrow> go_error option" where
  "validateIdentifier name v = first_error
     [error_when (strings_TrimSpace v = []) ''%s is empty'' [name],
      error_when (v \<noteq> strings_TrimSpace v) ''%s %q has surrounding whitespace'' [name, v]]"

fun validateEachIdentifier :: "string \<Rightarrow> nat \<Rightarrow> string set \<Rightarrow> string list \<Rightarrow> go_error option" where
  "validateEachIdentifier name index seen [] = None"
| "validateEachIdentifier name index seen (v # vs) = first_error
     [validateIdentifier (name @ ''['' @ show_nat index @ '']'') v,
      error_when (v \<in> seen) ''%s contains duplicate %q'' [name, v],
      validateEachIdentifier name (Suc index) (insert v seen) vs]"

definition validateCanonicalIdentifiers :: "string \<Rightarrow> string list \<Rightarrow> go_error option" where
  "validateCanonicalIdentifiers name vs = first_error
     [validateEachIdentifier name 0 {} vs,
      error_when (\<not> slices_IsSorted vs) ''%s must use canonical lexical order'' [name]]"

definition validateRepositoryPath :: "string \<Rightarrow> string \<Rightarrow> bool \<Rightarrow> go_error option" where
  "validateRepositoryPath name path allowDot = first_error
     [error_when (strings_TrimSpace path = [] \<or> filepath_IsAbs path \<or> strings_Contains path [char_of (92::nat)])
        ''%s %q must be a repository-relative slash path'' [name, path],
      error_when (filepath_Clean path \<noteq> path \<or> \<not> allowDot \<and> path = ''.'' \<or> path = ''..'' \<or> strings_HasPrefix path ''../'')
        ''%s %q is not a clean repository-relative path'' [name, path],
      error_when (path = ''.git'' \<or> strings_HasPrefix path ''.git/'') ''%s %q may not address git metadata'' [name, path]]"

definition validateReportFile :: "nat \<Rightarrow> string \<Rightarrow> go_error option" where
  "validateReportFile index path = first_error
     [validateRepositoryPath (''soundness manifest subgates['' @ show_nat index @ ''].report_file'') path False,
      error_when (filepath_Base path \<noteq> path) ''soundness manifest subgates[%d].report_file %q must be a file name''
        [show_nat index, path],
      error_when (filepath_Ext path \<noteq> ''.json'') ''soundness manifest subgates[%d].report_file %q must use .json''
        [show_nat index, path]]"

definition digestPattern :: "string \<Rightarrow> bool" where
  "digestPattern digest \<longleftrightarrow>
     strings_HasPrefix digest ''sha256:'' \<and> length digest = 71 \<and>
     list_all (\<lambda>c. c \<in> set ''0123456789abcdef'') (drop 7 digest)"

definition ValidateDigest :: "string \<Rightarrow> string \<Rightarrow> go_error option" where
  "ValidateDigest name digest =
     error_when (\<not> digestPattern digest) ''%s %q is not a canonical SHA-256 digest'' [name, digest]"

definition isKnownProfile :: "string \<Rightarrow> bool" where
  "isKnownProfile profile \<longleftrightarrow>
     profile = ''consumer'' \<or> profile = ''harness'' \<or> profile = ''semantic'' \<or> profile = ''complete''"

section \<open>Workspace, artifacts, toolchain and resources\<close>

definition validateWorkspace :: "WorkspaceBinding \<Rightarrow> go_error option" where
  "validateWorkspace binding = first_error
     [error_when (Root binding \<noteq> ''.'')
        ''soundness execution plan workspace root = %q, want repository root %q'' [Root binding, ''.''],
      wrap_error ''validate soundness execution plan workspace digest: %w'' []
        (ValidateDigest ''soundness execution plan workspace digest'' (workspaceDigest binding))]"

definition validateArtifact :: "string \<Rightarrow> ArtifactBinding \<Rightarrow> go_error option" where
  "validateArtifact name binding = first_error
     [validateRepositoryPath (''soundness execution plan '' @ name @ '' path'') (artifactPath binding) False,
      wrap_error ''validate soundness execution plan %s digest: %w'' [name]
        (ValidateDigest (''soundness execution plan '' @ name @ '' digest'') (artifactDigest binding))]"

definition validateToolchain :: "planDigests \<Rightarrow> ToolchainBinding \<Rightarrow> go_error option" where
  "validateToolchain digests binding = first_error
     [validateIdentifier ''soundness execution plan toolchain go_version'' (GoVersion binding),
      validateIdentifier ''soundness execution plan toolchain goos'' (GOOS binding),
      validateIdentifier ''soundness execution plan toolchain goarch'' (GOARCH binding),
      wrap_error ''validate soundness execution plan toolchain digest: %w'' []
        (ValidateDigest ''soundness execution plan toolchain digest'' (toolchainDigest binding)),
      error_when (toolchainDigest binding \<noteq> digestOfToolchain digests (GoVersion binding, GOOS binding, GOARCH binding))
        ''soundness execution plan toolchain digest does not match its identity fields'' []]"

definition validateResources :: "ResourceBudget \<Rightarrow> go_error option" where
  "validateResources budget = first_error
     [error_when (CPUUnits budget \<le> 0 \<or> MemoryBytes budget \<le> 0 \<or> MaximumWorkers budget \<le> 0 \<or>
          MaximumWorkers budget > maximumPlanWorkers)
        ''soundness execution plan has invalid resource budget'' [],
      validateIdentifier ''soundness execution plan runner_class'' (RunnerClass budget)]"

section \<open>Commands\<close>

definition isShellEvaluator :: "string \<Rightarrow> string \<Rightarrow> bool" where
  "isShellEvaluator executable firstArgument =
     (let executable = strings_ToLower executable; firstArgument = strings_ToLower firstArgument
      in (executable = ''sh'' \<or> executable = ''bash'' \<or> executable = ''zsh'') \<and> firstArgument = ''-c'' \<or>
         (executable = ''pwsh'' \<or> executable = ''powershell'') \<and> (firstArgument = ''-command'' \<or> firstArgument = ''-c''))"

fun validateArguments :: "nat \<Rightarrow> nat \<Rightarrow> string list \<Rightarrow> go_error option" where
  "validateArguments index argumentIndex [] = None"
| "validateArguments index argumentIndex (argument # arguments) = first_error
     [error_when (strings_TrimSpace argument = [] \<or> strings_ContainsAny argument [char_of (0::nat), char_of (13::nat), char_of (10::nat)])
        ''soundness execution plan commands[%d].command[%d] is unsafe'' [show_nat index, show_nat argumentIndex],
      validateArguments index (Suc argumentIndex) arguments]"

definition unsafeExecutable :: "string \<Rightarrow> bool" where
  "unsafeExecutable executable \<longleftrightarrow>
     strings_HasPrefix executable ''/'' \<or> strings_Contains executable [char_of (92::nat)] \<or>
     executable = ''..'' \<or> strings_HasPrefix executable ''../'' \<or> strings_Contains executable ''/../''"

definition validateSafeCommandVector :: "nat \<Rightarrow> string list \<Rightarrow> go_error option" where
  "validateSafeCommandVector index command = (case command of
       [] \<Rightarrow> Some (Errorf ''soundness execution plan commands[%d].command is empty'' [show_nat index])
     | executable # arguments \<Rightarrow> first_error
         [validateArguments index 0 command,
          error_when (unsafeExecutable executable)
            ''soundness execution plan commands[%d] executable %q is unsafe'' [show_nat index, executable],
          error_when (case arguments of [] \<Rightarrow> False | argument # _ \<Rightarrow> isShellEvaluator executable argument)
            ''soundness execution plan commands[%d] uses an unsafe shell evaluation vector'' [show_nat index]])"

definition planCommandDigest :: "planDigests \<Rightarrow> PlanCommandBinding \<Rightarrow> string" where
  "planCommandDigest digests command =
     digestOfCommand digests (SubgateID command, WorkingDirectory command, Command command)"

definition commandField :: "nat \<Rightarrow> string \<Rightarrow> string" where
  "commandField index field = ''soundness execution plan commands['' @ show_nat index @ ''].'' @ field"

definition validatePlanCommand :: "planDigests \<Rightarrow> ResourceBudget \<Rightarrow> nat \<Rightarrow> PlanCommandBinding \<Rightarrow> go_error option" where
  "validatePlanCommand digests resources index command =
     (let reserved = ReservedResources command in first_error
     [validateIdentifier (commandField index ''subgate_id'') (SubgateID command),
      validateRepositoryPath (commandField index ''working_directory'') (WorkingDirectory command) True,
      validateSafeCommandVector index (Command command),
      wrap_error ''validate soundness execution plan command digest: %w'' []
        (ValidateDigest (commandField index ''command_digest'') (CommandDigest command)),
      error_when (CommandDigest command \<noteq> planCommandDigest digests command)
        ''soundness execution plan command %q digest does not match its identity fields'' [WorkUnitID command],
      wrap_error ''validate soundness execution plan binary digest: %w'' []
        (ValidateDigest (commandField index ''binary_digest'') (BinaryDigest command)),
      error_when (reservedCPU reserved \<le> 0 \<or> reservedMemory reserved \<le> 0 \<or> WorkerSlots reserved \<le> 0)
        ''soundness execution plan command %q has invalid reserved resources'' [WorkUnitID command],
      error_when (reservedCPU reserved > CPUUnits resources \<or> reservedMemory reserved > MemoryBytes resources \<or>
          WorkerSlots reserved > MaximumWorkers resources)
        ''soundness execution plan command %q exceeds the plan resource budget'' [WorkUnitID command],
      validateCanonicalIdentifiers (commandField index ''exclusivity_groups'') (ExclusivityGroups command),
      error_when (TimeoutSeconds command \<le> 0 \<or> TimeoutSeconds command > maximumTimeoutSeconds)
        ''soundness execution plan command %q has invalid timeout'' [WorkUnitID command]])"

text \<open>
  The loop over the commands collects them by their work unit; a prior entry is a duplicate,
  and each identifier must not precede the one before it.
\<close>

fun collectPlanCommands ::
  "planDigests \<Rightarrow> ResourceBudget \<Rightarrow> nat \<Rightarrow> (string \<times> PlanCommandBinding) list \<Rightarrow> string \<Rightarrow> PlanCommandBinding list
    \<Rightarrow> go_error + (string \<times> PlanCommandBinding) list" where
  "collectPlanCommands digests resources index byID previousID [] = Inr byID"
| "collectPlanCommands digests resources index byID previousID (command # commands) =
     (case first_error
        [validateIdentifier (commandField index ''work_unit_id'') (WorkUnitID command),
         error_when (map_of byID (WorkUnitID command) \<noteq> None)
           ''soundness execution plan contains duplicate work unit %q'' [WorkUnitID command],
         error_when (previousID \<noteq> [] \<and> WorkUnitID command < previousID)
           ''soundness execution plan commands must use canonical work-unit order'' [],
         validatePlanCommand digests resources index command] of
       Some e \<Rightarrow> Inl e
     | None \<Rightarrow> collectPlanCommands digests resources (Suc index) (AList.update (WorkUnitID command) command byID)
         (WorkUnitID command) commands)"

definition validatePlanCommands ::
  "planDigests \<Rightarrow> PlanCommandBinding list \<Rightarrow> ResourceBudget \<Rightarrow> go_error + (string \<times> PlanCommandBinding) list" where
  "validatePlanCommands digests commands resources =
     (if commands = [] then Inl (Errorf ''soundness execution plan has no commands'' [])
      else collectPlanCommands digests resources 0 [] [] commands)"

section \<open>Dependencies\<close>

text \<open>
  The depth-first search for a cycle. \<open>visiting\<close> holds the work units on the current search
  path: a visit adds its unit, which was not in the set, and deletes it before it returns, so
  the set is passed down. \<open>visited\<close> is threaded through the search. The error of a cycle is
  a parameter, since the manifest runs the same search with its own message.
\<close>

definition requires :: "(string \<times> string list) list \<Rightarrow> string \<Rightarrow> string list" where
  "requires dependencies workUnitID = (case map_of dependencies workUnitID of Some ids \<Rightarrow> ids | None \<Rightarrow> [])"

function visitUnit ::
    "(string \<Rightarrow> go_error) \<Rightarrow> (string \<times> string list) list \<Rightarrow> string set \<Rightarrow> string set \<Rightarrow> string \<Rightarrow> go_error + string set"
  and visitUnits ::
    "(string \<Rightarrow> go_error) \<Rightarrow> (string \<times> string list) list \<Rightarrow> string set \<Rightarrow> string set \<Rightarrow> string list \<Rightarrow> go_error + string set"
where
  "visitUnit cycle dependencies visiting visited workUnitID =
     (if workUnitID \<in> visiting then Inl (cycle workUnitID)
      else if workUnitID \<in> visited then Inr visited
      else case visitUnits cycle dependencies (insert workUnitID visiting) visited (requires dependencies workUnitID) of
          Inl e \<Rightarrow> Inl e
        | Inr visited' \<Rightarrow> Inr (insert workUnitID visited'))"
| "visitUnits cycle dependencies visiting visited [] = Inr visited"
| "visitUnits cycle dependencies visiting visited (dependencyID # dependencyIDs) =
     (case visitUnit cycle dependencies visiting visited dependencyID of
        Inl e \<Rightarrow> Inl e
      | Inr visited' \<Rightarrow> visitUnits cycle dependencies visiting visited' dependencyIDs)"
  by pat_completeness auto

lemma no_requires: "v \<notin> set (map fst dependencies) \<Longrightarrow> requires dependencies v = []"
  unfolding requires_def map_of_eq_None_iff [symmetric] set_map by simp

lemma unvisited_less:
  assumes "requires dependencies v \<noteq> []" and "v \<notin> visiting"
  shows "card (set (map fst dependencies) - insert v visiting) < card (set (map fst dependencies) - visiting)"
proof (rule psubset_card_mono)
  have "v \<in> set (map fst dependencies)" using assms(1) no_requires by blast
  with assms(2) show "set (map fst dependencies) - insert v visiting \<subset> set (map fst dependencies) - visiting" by blast
qed simp

termination visitUnit
proof (relation "measures
    [(\<lambda>p. case p of Inl (_, d, visiting, _, _) \<Rightarrow> card (set (map fst d) - visiting)
        | Inr (_, d, visiting, _, ids) \<Rightarrow> if ids = [] then 0 else card (set (map fst d) - visiting)),
     (\<lambda>p. case p of Inl _ \<Rightarrow> 1 | Inr (_, _, _, _, ids) \<Rightarrow> 2 * length ids)]", goal_cases)
  case 1
  show ?case by simp
next
  case (2 cycle dependencies visiting visited v)
  show ?case
  proof (cases "requires dependencies v = []")
    case True
    then show ?thesis by (cases "card (set (map fst dependencies) - visiting) = 0") (simp_all del: card_eq_0_iff card_0_eq set_map)
  next
    case False
    then show ?thesis using unvisited_less [OF False 2(1)] by (simp del: set_map)
  qed
next
  case (3 cycle dependencies visiting visited v vs)
  then show ?case by simp
next
  case (4 cycle dependencies visiting visited v vs visited')
  then show ?case
    by (cases "card (set (map fst dependencies) - visiting) = 0") (simp_all del: card_eq_0_iff card_0_eq set_map)
qed

declare visitUnit.simps [simp del]

definition dependencyCycle :: "string \<Rightarrow> go_error" where
  "dependencyCycle workUnitID = Errorf ''soundness execution plan dependency cycle includes %q'' [workUnitID]"

text \<open>The loop visits the keys of the map in any order; \<open>order\<close> is the one taken.\<close>

definition validateDependencyCycles :: "(string \<times> string list) list \<Rightarrow> string list \<Rightarrow> go_error option" where
  "validateDependencyCycles dependencies order =
     (case visitUnits dependencyCycle dependencies {} {} order of Inl e \<Rightarrow> Some e | Inr _ \<Rightarrow> None)"

fun validateRequired :: "(string \<times> PlanCommandBinding) list \<Rightarrow> string \<Rightarrow> string list \<Rightarrow> go_error option" where
  "validateRequired commands workUnitID [] = None"
| "validateRequired commands workUnitID (requiredID # requiredIDs) = first_error
     [error_when (requiredID = workUnitID) ''soundness execution plan work unit %q depends on itself'' [workUnitID],
      error_when (map_of commands requiredID = None)
        ''soundness execution plan work unit %q depends on unknown work unit %q'' [workUnitID, requiredID],
      validateRequired commands workUnitID requiredIDs]"

fun collectPlanDependencies ::
  "(string \<times> PlanCommandBinding) list \<Rightarrow> nat \<Rightarrow> (string \<times> string list) list \<Rightarrow> string \<Rightarrow> PlanDependencyBinding list
    \<Rightarrow> go_error + (string \<times> string list) list" where
  "collectPlanDependencies commands index byID previousID [] = Inr byID"
| "collectPlanDependencies commands index byID previousID (dependency # dependencies) =
     (case first_error
        [error_when (map_of commands (dependentID dependency) = None)
           ''soundness execution plan dependency references unknown work unit %q'' [dependentID dependency],
         error_when (map_of byID (dependentID dependency) \<noteq> None)
           ''soundness execution plan contains duplicate dependency binding %q'' [dependentID dependency],
         error_when (previousID \<noteq> [] \<and> dependentID dependency < previousID)
           ''soundness execution plan dependencies must use canonical work-unit order'' [],
         validateCanonicalIdentifiers (''soundness execution plan dependencies['' @ show_nat index @ ''].requires'')
           (Requires dependency),
         validateRequired commands (dependentID dependency) (Requires dependency)] of
       Some e \<Rightarrow> Inl e
     | None \<Rightarrow> collectPlanDependencies commands (Suc index)
         (AList.update (dependentID dependency) (Requires dependency) byID) (dependentID dependency) dependencies)"

definition validatePlanDependencies ::
  "PlanDependencyBinding list \<Rightarrow> (string \<times> PlanCommandBinding) list \<Rightarrow> go_error option" where
  "validatePlanDependencies dependencies commands =
     (if length dependencies \<noteq> length commands
      then Some (Errorf ''soundness execution plan dependency count = %d, want exactly %d''
        [show_nat (length dependencies), show_nat (length commands)])
      else case collectPlanDependencies commands 0 [] [] dependencies of
          Inl e \<Rightarrow> Some e
        | Inr byID \<Rightarrow> validateDependencyCycles byID (map fst byID))"

section \<open>Censuses, shards and expected reports\<close>

definition planCensusDigest :: "planDigests \<Rightarrow> PlanCensusBinding \<Rightarrow> string" where
  "planCensusDigest digests census = digestOfCensus digests (censusID census, Kind census, censusMembers census)"

definition censusField :: "nat \<Rightarrow> string \<Rightarrow> string" where
  "censusField index field = ''soundness execution plan censuses['' @ show_nat index @ ''].'' @ field"

fun collectPlanCensuses ::
  "planDigests \<Rightarrow> nat \<Rightarrow> (string \<times> PlanCensusBinding) list \<Rightarrow> string \<Rightarrow> PlanCensusBinding list
    \<Rightarrow> go_error + (string \<times> PlanCensusBinding) list" where
  "collectPlanCensuses digests index byID previousID [] = Inr byID"
| "collectPlanCensuses digests index byID previousID (census # censuses) =
     (case first_error
        [validateIdentifier (censusField index ''id'') (censusID census),
         error_when (map_of byID (censusID census) \<noteq> None)
           ''soundness execution plan contains duplicate census %q'' [censusID census],
         error_when (previousID \<noteq> [] \<and> censusID census < previousID)
           ''soundness execution plan censuses must use canonical id order'' [],
         validateIdentifier (censusField index ''kind'') (Kind census),
         error_when (censusMembers census = []) ''soundness execution plan census %q has no members'' [censusID census],
         validateCanonicalIdentifiers (censusField index ''member_ids'') (censusMembers census),
         wrap_error ''validate soundness execution plan census digest: %w'' []
           (ValidateDigest (censusField index ''digest'') (censusDigest census)),
         error_when (censusDigest census \<noteq> planCensusDigest digests census)
           ''soundness execution plan census %q digest does not match its members'' [censusID census]] of
       Some e \<Rightarrow> Inl e
     | None \<Rightarrow> collectPlanCensuses digests (Suc index) (AList.update (censusID census) census byID) (censusID census) censuses)"

definition validatePlanCensuses ::
  "planDigests \<Rightarrow> PlanCensusBinding list \<Rightarrow> go_error + (string \<times> PlanCensusBinding) list" where
  "validatePlanCensuses digests censuses =
     (if censuses = [] then Inl (Errorf ''soundness execution plan has no censuses'' [])
      else collectPlanCensuses digests 0 [] [] censuses)"

type_synonym populationKey = "string \<times> string \<times> int"

definition populationKeyOf :: "PlanShardBinding \<Rightarrow> populationKey" where
  "populationKeyOf shard = (shardCensus shard, Mode shard, Iteration shard)"

text \<open>The members of a shard must be members of the census and new to the population.\<close>

fun claimMembers ::
  "PlanShardBinding \<Rightarrow> string list \<Rightarrow> string set \<Rightarrow> string list \<Rightarrow> go_error + string set" where
  "claimMembers shard census members [] = Inr members"
| "claimMembers shard census members (memberID # memberIDs) =
     (if memberID \<notin> set census
      then Inl (Errorf ''soundness execution plan shard %q contains unknown census member %q'' [shardID shard, memberID])
      else if memberID \<in> members
      then Inl (Errorf ''soundness execution plan census %q mode %q iteration %d member %q overlaps shards''
        [shardCensus shard, Mode shard, show_int (Iteration shard), memberID])
      else claimMembers shard census (insert memberID members) memberIDs)"

definition shardField :: "nat \<Rightarrow> string \<Rightarrow> string" where
  "shardField index field = ''soundness execution plan shards['' @ show_nat index @ ''].'' @ field"

record shardScan =
  scanPrevious :: string
  seenIDs :: "string set"
  seenMembers :: "(populationKey \<times> string set) list"
  seenCensuses :: "string set"

definition validateShardFields ::
  "(string \<times> PlanCommandBinding) list \<Rightarrow> (string \<times> PlanCensusBinding) list \<Rightarrow> shardScan \<Rightarrow> nat \<Rightarrow> PlanShardBinding
    \<Rightarrow> go_error option" where
  "validateShardFields commands censuses scan index shard = first_error
     [validateIdentifier (shardField index ''id'') (shardID shard),
      error_when (shardID shard \<in> seenIDs scan) ''soundness execution plan contains duplicate shard %q'' [shardID shard],
      error_when (scanPrevious scan \<noteq> [] \<and> shardID shard < scanPrevious scan)
        ''soundness execution plan shards must use canonical id order'' [],
      error_when (map_of commands (shardUnit shard) = None)
        ''soundness execution plan shard %q references unknown work unit %q'' [shardID shard, shardUnit shard],
      error_when (map_of censuses (shardCensus shard) = None)
        ''soundness execution plan shard %q references unknown census %q'' [shardID shard, shardCensus shard],
      validateIdentifier (shardField index ''mode'') (Mode shard),
      error_when (Iteration shard \<le> 0 \<or> TotalWeight shard \<le> 0 \<or> shardTimeout shard \<le> 0 \<or>
          shardTimeout shard > maximumTimeoutSeconds)
        ''soundness execution plan shard %q has invalid execution bounds'' [shardID shard],
      error_when (shardMembers shard = []) ''soundness execution plan shard %q has no members'' [shardID shard],
      validateCanonicalIdentifiers (shardField index ''member_ids'') (shardMembers shard)]"

definition membersSeen :: "shardScan \<Rightarrow> populationKey \<Rightarrow> string set" where
  "membersSeen scan key = (case map_of (seenMembers scan) key of Some members \<Rightarrow> members | None \<Rightarrow> {})"

definition censusMembersOf :: "(string \<times> PlanCensusBinding) list \<Rightarrow> string \<Rightarrow> string list" where
  "censusMembersOf censuses cid = (case map_of censuses cid of Some census \<Rightarrow> censusMembers census | None \<Rightarrow> [])"

fun scanShards ::
  "(string \<times> PlanCommandBinding) list \<Rightarrow> (string \<times> PlanCensusBinding) list \<Rightarrow> nat \<Rightarrow> shardScan \<Rightarrow> PlanShardBinding list
    \<Rightarrow> go_error + shardScan" where
  "scanShards commands censuses index scan [] = Inr scan"
| "scanShards commands censuses index scan (shard # shards) =
     (case validateShardFields commands censuses scan index shard of
        Some e \<Rightarrow> Inl e
      | None \<Rightarrow>
          (case claimMembers shard (censusMembersOf censuses (shardCensus shard))
                  (membersSeen scan (populationKeyOf shard)) (shardMembers shard) of
             Inl e \<Rightarrow> Inl e
           | Inr members \<Rightarrow> scanShards commands censuses (Suc index)
               \<lparr>scanPrevious = shardID shard, seenIDs = insert (shardID shard) (seenIDs scan),
                seenMembers = AList.update (populationKeyOf shard) members (seenMembers scan),
                seenCensuses = insert (shardCensus shard) (seenCensuses scan)\<rparr> shards))"

fun checkPopulations ::
  "(string \<times> PlanCensusBinding) list \<Rightarrow> (populationKey \<times> string set) list \<Rightarrow> go_error option" where
  "checkPopulations censuses [] = None"
| "checkPopulations censuses ((key, members) # rest) = first_error
     [error_when (card members \<noteq> length (censusMembersOf censuses (fst key)))
        ''soundness execution plan shards incompletely cover census %q mode %q iteration %d''
        [fst key, fst (snd key), show_int (snd (snd key))],
      checkPopulations censuses rest]"

fun checkCensusesSeen :: "string set \<Rightarrow> string list \<Rightarrow> go_error option" where
  "checkCensusesSeen seen [] = None"
| "checkCensusesSeen seen (cid # cids) = first_error
     [error_when (cid \<notin> seen) ''soundness execution plan shards incompletely cover census %q'' [cid],
      checkCensusesSeen seen cids]"

definition validatePlanShards ::
  "PlanShardBinding list \<Rightarrow> (string \<times> PlanCommandBinding) list \<Rightarrow> (string \<times> PlanCensusBinding) list \<Rightarrow> go_error option" where
  "validatePlanShards shards commands censuses =
     (case scanShards commands censuses 0 \<lparr>scanPrevious = [], seenIDs = {}, seenMembers = [], seenCensuses = {}\<rparr> shards of
        Inl e \<Rightarrow> Some e
      | Inr scan \<Rightarrow> first_error
          [checkPopulations censuses (seenMembers scan), checkCensusesSeen (seenCensuses scan) (map fst censuses)])"

fun validatePopulations ::
  "string \<Rightarrow> nat \<Rightarrow> nat \<Rightarrow> string set \<Rightarrow> string \<Rightarrow> PopulationRequirement list \<Rightarrow> go_error option" where
  "validatePopulations unit index populationIndex seen previousID [] = None"
| "validatePopulations unit index populationIndex seen previousID (population # populations) = first_error
     [validateIdentifier (''soundness execution plan expected_reports['' @ show_nat index @ ''].required_populations['' @
        show_nat populationIndex @ ''].id'') (populationID population),
      error_when (Minimum population \<le> 0)
        ''soundness execution plan expected report %q population %q has non-positive minimum'' [unit, populationID population],
      error_when (populationID population \<in> seen)
        ''soundness execution plan expected report %q contains duplicate population %q'' [unit, populationID population],
      error_when (previousID \<noteq> [] \<and> populationID population < previousID)
        ''soundness execution plan expected report %q populations must use canonical id order'' [unit],
      validatePopulations unit index (Suc populationIndex) (insert (populationID population) seen)
        (populationID population) populations]"

fun validateReports ::
  "(string \<times> PlanCommandBinding) list \<Rightarrow> nat \<Rightarrow> string set \<Rightarrow> string \<Rightarrow> PlanExpectedReportBinding list \<Rightarrow> go_error option" where
  "validateReports commands index seen previousID [] = None"
| "validateReports commands index seen previousID (report # reports) =
     (case map_of commands (reportUnit report) of
        None \<Rightarrow> Some (Errorf ''soundness execution plan expected report references unknown work unit %q'' [reportUnit report])
      | Some command \<Rightarrow> first_error
          [error_when (reportUnit report \<in> seen)
             ''soundness execution plan contains duplicate expected report %q'' [reportUnit report],
           error_when (previousID \<noteq> [] \<and> reportUnit report < previousID)
             ''soundness execution plan expected reports must use canonical work-unit order'' [],
           error_when (reportSubgate report \<noteq> SubgateID command \<or> reportCommandDigest report \<noteq> CommandDigest command)
             ''soundness execution plan expected report %q has mismatched command binding'' [reportUnit report],
           validateReportFile index (ReportFile report),
           validateCanonicalIdentifiers
             (''soundness execution plan expected_reports['' @ show_nat index @ ''].required_registration_ids'')
             (RequiredRegistrationIDs report),
           error_when (RequiredPopulations report = [])
             ''soundness execution plan expected report %q has no required populations'' [reportUnit report],
           validatePopulations (reportUnit report) index 0 {} [] (RequiredPopulations report),
           validateReports commands (Suc index) (insert (reportUnit report) seen) (reportUnit report) reports])"

definition validatePlanExpectedReports ::
  "PlanExpectedReportBinding list \<Rightarrow> (string \<times> PlanCommandBinding) list \<Rightarrow> go_error option" where
  "validatePlanExpectedReports reports commands =
     (if length reports \<noteq> length commands
      then Some (Errorf ''soundness execution plan expected report count = %d, want exactly %d''
        [show_nat (length reports), show_nat (length commands)])
      else validateReports commands 0 {} [] reports)"

section \<open>The whole plan\<close>

definition CalculateID :: "planDigests \<Rightarrow> ExecutionPlan \<Rightarrow> string" where
  "CalculateID digests plan = digestOfPlan digests (plan\<lparr>PlanID := []\<rparr>)"

definition Validate :: "planDigests \<Rightarrow> ExecutionPlan \<Rightarrow> go_error option" where
  "Validate digests plan =
     (case first_error
        [error_when (FormatVersion plan \<noteq> ExecutionPlanFormatVersion)
           ''soundness execution plan format_version = %d, want %d''
           [show_int (FormatVersion plan), show_int ExecutionPlanFormatVersion],
         wrap_error ''validate soundness execution plan id: %w'' []
           (ValidateDigest ''soundness execution plan plan_id'' (PlanID plan)),
         error_when (PlanID plan \<noteq> CalculateID digests plan)
           ''soundness execution plan id = %q, want %q from canonical content'' [PlanID plan, CalculateID digests plan],
         error_when (\<not> isKnownProfile (Profile plan))
           ''soundness execution plan profile = %q, want a reviewed profile'' [Profile plan],
         validateWorkspace (Workspace plan),
         validateArtifact ''manifest'' (Manifest plan),
         validateArtifact ''registry'' (Registry plan),
         validateToolchain digests (Toolchain plan),
         validateResources (Resources plan)] of
       Some e \<Rightarrow> Some e
     | None \<Rightarrow>
         (case validatePlanCommands digests (Commands plan) (Resources plan) of
            Inl e \<Rightarrow> Some e
          | Inr commands \<Rightarrow>
              (case validatePlanDependencies (Dependencies plan) commands of
                 Some e \<Rightarrow> Some e
               | None \<Rightarrow>
                   (case validatePlanCensuses digests (Censuses plan) of
                      Inl e \<Rightarrow> Some e
                    | Inr censuses \<Rightarrow> first_error
                        [validatePlanShards (Shards plan) commands censuses,
                         validatePlanExpectedReports (ExpectedReports plan) commands]))))"

section \<open>The cycle search accepts exactly the acyclic graphs\<close>

definition requirement :: "(string \<times> string list) list \<Rightarrow> (string \<times> string) set" where
  "requirement dependencies = {(v, w). w \<in> set (requires dependencies v)}"

definition searched :: "(string \<times> string list) list \<Rightarrow> string set \<Rightarrow> bool" where
  "searched dependencies visited \<longleftrightarrow>
     (\<forall>v\<in>visited. set (requires dependencies v) \<subseteq> visited \<and> (v, v) \<notin> (requirement dependencies)\<^sup>+)"

lemma searched_closed:
  assumes "searched dependencies visited" and "(v, w) \<in> (requirement dependencies)\<^sup>*" and "v \<in> visited"
  shows "w \<in> visited"
  using assms(2,3) by (induction rule: rtrancl_induct) (use assms(1) in \<open>auto simp: searched_def requirement_def\<close>)

lemma searched_insert:
  assumes v: "searched dependencies visited" "set (requires dependencies v) \<subseteq> visited" "v \<notin> visited"
  shows "searched dependencies (insert v visited)"
proof -
  have "(v, v) \<notin> (requirement dependencies)\<^sup>+"
  proof
    assume "(v, v) \<in> (requirement dependencies)\<^sup>+"
    then obtain w where "(v, w) \<in> requirement dependencies" "(w, v) \<in> (requirement dependencies)\<^sup>*"
      by (meson tranclD)
    then have "v \<in> visited" using searched_closed [OF v(1)] v(2) by (auto simp: requirement_def)
    with v(3) show False by simp
  qed
  with v show ?thesis by (auto simp: searched_def)
qed

lemma visit_sound:
  "visitUnit cycle dependencies visiting visited v = Inr visited' \<Longrightarrow> searched dependencies visited
    \<Longrightarrow> visited \<inter> visiting = {} \<Longrightarrow>
    searched dependencies visited' \<and> visited \<subseteq> visited' \<and> visited' \<inter> visiting = {} \<and> v \<in> visited'"
  "visitUnits cycle dependencies visiting visited vs = Inr visited' \<Longrightarrow> searched dependencies visited
    \<Longrightarrow> visited \<inter> visiting = {} \<Longrightarrow>
    searched dependencies visited' \<and> visited \<subseteq> visited' \<and> visited' \<inter> visiting = {} \<and> set vs \<subseteq> visited'"
proof (induction cycle dependencies visiting visited v and cycle dependencies visiting visited vs
    arbitrary: visited' and visited' rule: visitUnit_visitUnits.induct)
  case (1 cycle dependencies visiting visited v)
  note step = 1(2) [unfolded visitUnit.simps [of _ _ _ _ v]]
  have v: "v \<notin> visiting" using step by (auto split: if_splits)
  show ?case
  proof (cases "v \<in> visited")
    case True
    then show ?thesis using step 1(3,4) v by auto
  next
    case False
    then obtain V where V: "visitUnits cycle dependencies (insert v visiting) visited (requires dependencies v) = Inr V"
      and e: "visited' = insert v V" using step v by (auto split: sum.splits)
    have "searched dependencies V" "visited \<subseteq> V" "V \<inter> insert v visiting = {}" "set (requires dependencies v) \<subseteq> V"
      using 1(1) [OF v False V] 1(3,4) False by auto
    then show ?thesis using searched_insert [of dependencies V v] v e by auto
  qed
next
  case (2 cycle dependencies visiting visited)
  then show ?case by simp
next
  case (3 cycle dependencies visiting visited v vs)
  then obtain V where V: "visitUnit cycle dependencies visiting visited v = Inr V"
    and e: "visitUnits cycle dependencies visiting V vs = Inr visited'" by (auto split: sum.splits)
  show ?case using 3(1) [OF V] 3(2) [OF V e] 3(4,5) by auto
qed

lemma visit_cycle:
  "visitUnit cycle dependencies visiting visited v = Inl e \<Longrightarrow> \<forall>u\<in>visiting. (u, v) \<in> (requirement dependencies)\<^sup>+
    \<Longrightarrow> \<exists>u. (u, u) \<in> (requirement dependencies)\<^sup>+"
  "visitUnits cycle dependencies visiting visited vs = Inl e
    \<Longrightarrow> \<forall>u\<in>visiting. \<forall>w\<in>set vs. (u, w) \<in> (requirement dependencies)\<^sup>+
    \<Longrightarrow> \<exists>u. (u, u) \<in> (requirement dependencies)\<^sup>+"
proof (induction cycle dependencies visiting visited v and cycle dependencies visiting visited vs
    rule: visitUnit_visitUnits.induct)
  case (1 cycle dependencies visiting visited v)
  show ?case
  proof (cases "v \<in> visiting")
    case True
    then show ?thesis using 1(3) by blast
  next
    case False
    then have v: "v \<notin> visited"
      and r: "visitUnits cycle dependencies (insert v visiting) visited (requires dependencies v) = Inl e"
      using 1(2) by (auto simp: visitUnit.simps [of _ _ _ _ v] split: if_splits sum.splits)
    have "\<forall>w\<in>set (requires dependencies v). (v, w) \<in> requirement dependencies" by (simp add: requirement_def)
    then have "\<forall>u\<in>insert v visiting. \<forall>w\<in>set (requires dependencies v). (u, w) \<in> (requirement dependencies)\<^sup>+"
      using 1(3) by (auto intro: trancl_into_trancl)
    then show ?thesis using 1(1) [OF False v r] by blast
  qed
next
  case (2 cycle dependencies visiting visited)
  then show ?case by simp
next
  case (3 cycle dependencies visiting visited v vs)
  show ?case
  proof (cases "visitUnit cycle dependencies visiting visited v")
    case (Inl e')
    then have "e' = e" using 3(3) by simp
    then show ?thesis using 3(1) Inl 3(4) by auto
  next
    case (Inr V)
    then show ?thesis using 3(2) [OF Inr] 3(3,4) by auto
  qed
qed

lemma cycles_exact:
  assumes "set (map fst dependencies) \<subseteq> set order"
  shows "validateDependencyCycles dependencies order = None \<longleftrightarrow> acyclic (requirement dependencies)"
proof
  assume "validateDependencyCycles dependencies order = None"
  then obtain V where V: "visitUnits dependencyCycle dependencies {} {} order = Inr V"
    by (auto simp: validateDependencyCycles_def split: sum.splits)
  have V: "searched dependencies V" "set order \<subseteq> V" using visit_sound(2) [OF V] by (auto simp: searched_def)
  show "acyclic (requirement dependencies)"
    unfolding acyclic_def
  proof (intro allI notI)
    fix v
    assume c: "(v, v) \<in> (requirement dependencies)\<^sup>+"
    then have "requires dependencies v \<noteq> []" by (auto dest!: tranclD simp: requirement_def)
    then have "v \<in> V" using no_requires [of v dependencies] assms V(2) by blast
    with c V(1) show False by (auto simp: searched_def)
  qed
next
  assume a: "acyclic (requirement dependencies)"
  show "validateDependencyCycles dependencies order = None"
  proof (cases "visitUnits dependencyCycle dependencies {} {} order")
    case (Inl e)
    then have "\<exists>u. (u, u) \<in> (requirement dependencies)\<^sup>+" by (rule visit_cycle(2)) simp
    with a show ?thesis by (auto simp: acyclic_def)
  qed (simp add: validateDependencyCycles_def)
qed

text \<open>
  The cycle search accepts exactly the dependency graphs without a cycle, in whatever order
  the map yields its keys; being a total function, it returns on every graph.
\<close>

theorem dependency_cycles_exact:
  assumes "set (map fst dependencies) \<subseteq> set order"
  shows "validateDependencyCycles dependencies order = None \<longleftrightarrow> acyclic (requirement dependencies)"
  by (rule cycles_exact [OF assms])

theorem dependency_cycles_exact_witness:
  "validateDependencyCycles [(''a'', [''b'']), (''b'', [])] [''b'', ''a''] = None \<and>
   acyclic (requirement [(''a'', [''b'']), (''b'', [])]) \<and>
   validateDependencyCycles [(''a'', [''b'']), (''b'', [''a''])] [''a'', ''b''] \<noteq> None"
proof -
  have "validateDependencyCycles [(''a'', [''b'']), (''b'', [])] [''b'', ''a''] = None" by code_simp
  moreover have "validateDependencyCycles [(''a'', [''b'']), (''b'', [''a''])] [''a'', ''b''] \<noteq> None" by code_simp
  ultimately show ?thesis
    using dependency_cycles_exact [of "[(''a'', [''b'']), (''b'', [])]" "[''b'', ''a'']"] by simp
qed

section \<open>Accepted shards partition their census\<close>

lemma claimMembers_claims:
  "claimMembers shard census members ids = Inr members' \<Longrightarrow>
    members' = members \<union> set ids \<and> distinct ids \<and> members \<inter> set ids = {} \<and> set ids \<subseteq> set census"
  by (induction shard census members ids rule: claimMembers.induct) (auto split: if_splits)

definition shardsOf :: "populationKey \<Rightarrow> PlanShardBinding list \<Rightarrow> PlanShardBinding list" where
  "shardsOf key shards = filter (\<lambda>s. populationKeyOf s = key) shards"

definition claimed :: "populationKey \<Rightarrow> PlanShardBinding list \<Rightarrow> string list" where
  "claimed key shards = concat (map shardMembers (shardsOf key shards))"

lemma claimed_snoc:
  "claimed key (shards @ [s]) = claimed key shards @ (if populationKeyOf s = key then shardMembers s else [])"
  by (simp add: claimed_def shardsOf_def)

definition scanned :: "(string \<times> PlanCensusBinding) list \<Rightarrow> PlanShardBinding list \<Rightarrow> shardScan \<Rightarrow> bool" where
  "scanned censuses shards scan \<longleftrightarrow>
     (\<forall>key. membersSeen scan key = set (claimed key shards) \<and> distinct (claimed key shards) \<and>
        set (claimed key shards) \<subseteq> set (censusMembersOf censuses (fst key))) \<and>
     (\<forall>s\<in>set shards. populationKeyOf s \<in> fst ` set (seenMembers scan)) \<and>
     distinct (map fst (seenMembers scan)) \<and> seenCensuses scan = shardCensus ` set shards"

lemma membersSeen_update:
  "membersSeen (scan\<lparr>seenMembers := AList.update key members (seenMembers scan)\<rparr>) key' =
    (if key' = key then members else membersSeen scan key')"
  by (simp add: membersSeen_def update_conv')

lemma scanned_step:
  assumes "scanned censuses shards scan"
    and "claimMembers s (censusMembersOf censuses (shardCensus s)) (membersSeen scan (populationKeyOf s)) (shardMembers s) = Inr members"
  shows "scanned censuses (shards @ [s])
    \<lparr>scanPrevious = p, seenIDs = ids, seenMembers = AList.update (populationKeyOf s) members (seenMembers scan),
      seenCensuses = insert (shardCensus s) (seenCensuses scan)\<rparr>"
proof -
  note m = claimMembers_claims [OF assms(2)]
  have seen: "membersSeen \<lparr>scanPrevious = p, seenIDs = ids,
        seenMembers = AList.update (populationKeyOf s) members (seenMembers scan), seenCensuses = cs\<rparr> key =
      (if key = populationKeyOf s then members else membersSeen scan key)" for key cs
    using membersSeen_update [where scan = scan and key = "populationKeyOf s" and members = members and key' = key] by (simp add: membersSeen_def)
  have c: "fst (populationKeyOf s) = shardCensus s" by (simp add: populationKeyOf_def)
  let ?scan = "\<lparr>scanPrevious = p, seenIDs = ids, seenMembers = AList.update (populationKeyOf s) members (seenMembers scan),
      seenCensuses = insert (shardCensus s) (seenCensuses scan)\<rparr>"
  have "membersSeen ?scan key = set (claimed key (shards @ [s])) \<and> distinct (claimed key (shards @ [s])) \<and>
      set (claimed key (shards @ [s])) \<subseteq> set (censusMembersOf censuses (fst key))" for key
  proof -
    have k: "membersSeen scan key = set (claimed key shards)" "distinct (claimed key shards)"
      "set (claimed key shards) \<subseteq> set (censusMembersOf censuses (fst key))"
      using assms(1) unfolding scanned_def by blast+
    show ?thesis
    proof (cases "populationKeyOf s = key")
      case True
      then have "membersSeen ?scan key = members" unfolding seen by simp
      then show ?thesis using k m c True by (auto simp: claimed_snoc)
    next
      case False
      then show ?thesis using k by (simp add: seen claimed_snoc)
    qed
  qed
  moreover have "\<forall>t\<in>set (shards @ [s]). populationKeyOf t \<in> fst ` set (seenMembers ?scan)"
    using assms(1) by (auto simp: scanned_def dom_update)
  moreover have "distinct (map fst (seenMembers ?scan))" "seenCensuses ?scan = shardCensus ` set (shards @ [s])"
    using assms(1) by (auto simp: scanned_def distinct_update)
  ultimately show ?thesis unfolding scanned_def by blast
qed

lemma scanShards_scanned:
  "scanShards commands censuses index scan shards = Inr scan' \<Longrightarrow> scanned censuses before scan
    \<Longrightarrow> scanned censuses (before @ shards) scan'"
proof (induction shards arbitrary: index scan before)
  case Nil
  then show ?case by simp
next
  case (Cons s shards)
  then obtain members where
    m: "claimMembers s (censusMembersOf censuses (shardCensus s)) (membersSeen scan (populationKeyOf s)) (shardMembers s) = Inr members"
    and r: "scanShards commands censuses (Suc index)
       \<lparr>scanPrevious = shardID s, seenIDs = insert (shardID s) (seenIDs scan),
          seenMembers = AList.update (populationKeyOf s) members (seenMembers scan),
          seenCensuses = insert (shardCensus s) (seenCensuses scan)\<rparr> shards = Inr scan'"
    by (auto split: option.splits sum.splits)
  show ?case using Cons.IH [OF r scanned_step [OF Cons.prems(2) m]] by simp
qed

lemma checkPopulations_None:
  "checkPopulations censuses populations = None \<longleftrightarrow>
    (\<forall>(key, members)\<in>set populations. card members = length (censusMembersOf censuses (fst key)))"
  by (induction censuses populations rule: checkPopulations.induct) auto

lemma checkCensusesSeen_None: "checkCensusesSeen seen cids = None \<longleftrightarrow> set cids \<subseteq> seen"
  by (induction seen cids rule: checkCensusesSeen.induct) auto

text \<open>
  C13. Accepted shards partition their census: for each census, mode and iteration that has a
  shard, the members of its shards together are the members of the census, each exactly once,
  and every census has a shard.
\<close>

theorem accepted_shards_partition:
  assumes "validatePlanShards shards commands censuses = None"
  shows "(\<forall>s\<in>set shards. mset (claimed (populationKeyOf s) shards) = mset (censusMembersOf censuses (shardCensus s))) \<and>
    fst ` set censuses \<subseteq> shardCensus ` set shards"
proof -
  let ?start = "\<lparr>scanPrevious = [], seenIDs = {}, seenMembers = [], seenCensuses = {}\<rparr>"
  obtain scan where r: "scanShards commands censuses 0 ?start shards = Inr scan"
    and p: "checkPopulations censuses (seenMembers scan) = None"
    and c: "checkCensusesSeen (seenCensuses scan) (map fst censuses) = None"
    using assms by (auto simp: validatePlanShards_def split: sum.splits)
  have "scanned censuses [] ?start" by (simp add: scanned_def membersSeen_def claimed_def shardsOf_def)
  then have s: "scanned censuses shards scan" using scanShards_scanned [OF r, of "[]"] by simp
  have "mset (claimed (populationKeyOf t) shards) = mset (censusMembersOf censuses (shardCensus t))" if t: "t \<in> set shards" for t
  proof (rule covering_permutes)
    obtain members where e: "(populationKeyOf t, members) \<in> set (seenMembers scan)" using s t by (fastforce simp: scanned_def)
    then have "membersSeen scan (populationKeyOf t) = members" using s by (simp add: membersSeen_def scanned_def)
    moreover have "membersSeen scan (populationKeyOf t) = set (claimed (populationKeyOf t) shards)"
      using s unfolding scanned_def by blast
    ultimately have "members = set (claimed (populationKeyOf t) shards)" by simp
    then show "length (censusMembersOf censuses (shardCensus t)) = card (set (claimed (populationKeyOf t) shards))"
      using p e by (auto simp: checkPopulations_None populationKeyOf_def)
  qed (use s in \<open>auto simp: scanned_def populationKeyOf_def\<close>)
  then show ?thesis using c s by (auto simp: checkCensusesSeen_None scanned_def)
qed

definition sampleShard :: "string \<Rightarrow> string list \<Rightarrow> PlanShardBinding" where
  "sampleShard name members = \<lparr>shardID = name, shardUnit = ''u'', shardCensus = ''c'', Mode = ''race'', Iteration = 1,
     shardMembers = members, TotalWeight = 1, shardTimeout = 60\<rparr>"

definition sampleCensus :: PlanCensusBinding where
  "sampleCensus = \<lparr>censusID = ''c'', Kind = ''tests'', censusMembers = [''x'', ''y'', ''z''], censusDigest = []\<rparr>"

definition sampleCommand :: "string \<Rightarrow> int \<Rightarrow> string list \<Rightarrow> PlanCommandBinding" where
  "sampleCommand name cpu groups =
     \<lparr>WorkUnitID = name, SubgateID = name, WorkingDirectory = ''.'', Command = [''go'', ''test''],
      CommandDigest = ''sha256:'' @ replicate 64 CHR ''a'', BinaryDigest = ''sha256:'' @ replicate 64 CHR ''b'',
      ReservedResources = \<lparr>reservedCPU = cpu, reservedMemory = 1, WorkerSlots = 1\<rparr>,
      ExclusivityGroups = groups, Distributable = False, TimeoutSeconds = 60\<rparr>"

theorem accepted_shards_partition_witness:
  "mset (claimed (''c'', ''race'', 1) [sampleShard ''s1'' [''x'', ''z''], sampleShard ''s2'' [''y'']]) = {#''x'', ''y'', ''z''#}"
proof -
  have "validatePlanShards [sampleShard ''s1'' [''x'', ''z''], sampleShard ''s2'' [''y'']]
     [(''u'', sampleCommand ''u'' 1 [])] [(''c'', sampleCensus)] = None" by code_simp
  from accepted_shards_partition [OF this] show ?thesis
    by (simp add: sampleShard_def populationKeyOf_def censusMembersOf_def sampleCensus_def)
qed

section \<open>What an accepted plan guarantees the scheduler\<close>

definition unitIDs :: "ExecutionPlan \<Rightarrow> string list" where
  "unitIDs plan = map WorkUnitID (Commands plan)"

definition dependencyBindings :: "ExecutionPlan \<Rightarrow> (string \<times> string list) list" where
  "dependencyBindings plan = map (\<lambda>d. (dependentID d, Requires d)) (Dependencies plan)"

definition fitsBudget :: "ResourceBudget \<Rightarrow> PlanCommandBinding \<Rightarrow> bool" where
  "fitsBudget resources command \<longleftrightarrow>
     0 < reservedCPU (ReservedResources command) \<and> reservedCPU (ReservedResources command) \<le> CPUUnits resources \<and>
     0 < reservedMemory (ReservedResources command) \<and> reservedMemory (ReservedResources command) \<le> MemoryBytes resources"

definition schedulable :: "ExecutionPlan \<Rightarrow> bool" where
  "schedulable plan \<longleftrightarrow>
     0 < CPUUnits (Resources plan) \<and> 0 < MemoryBytes (Resources plan) \<and> 0 < MaximumWorkers (Resources plan) \<and>
     (\<forall>c\<in>set (Commands plan). fitsBudget (Resources plan) c) \<and>
     distinct (unitIDs plan) \<and>
     distinct (map fst (dependencyBindings plan)) \<and> fst ` set (dependencyBindings plan) = set (unitIDs plan) \<and>
     (\<forall>(v, ids)\<in>set (dependencyBindings plan). set ids \<subseteq> set (unitIDs plan)) \<and>
     acyclic (requirement (dependencyBindings plan))"

lemma fits_budget:
  "validatePlanCommand digests resources index command = None \<Longrightarrow> fitsBudget resources command"
  by (simp add: validatePlanCommand_def Let_def fitsBudget_def)

lemma collectPlanCommands_ok:
  "collectPlanCommands digests resources index byID previousID commands = Inr byID' \<Longrightarrow> distinct (map fst byID) \<Longrightarrow>
    byID' = byID @ map (\<lambda>c. (WorkUnitID c, c)) commands \<and> distinct (map fst byID') \<and>
    (\<forall>c\<in>set commands. fitsBudget resources c)"
proof (induction commands arbitrary: index byID previousID)
  case Nil
  then show ?case by simp
next
  case (Cons c commands)
  have new: "WorkUnitID c \<notin> fst ` set byID" and ok: "validatePlanCommand digests resources index c = None"
    and r: "collectPlanCommands digests resources (Suc index) (byID @ [(WorkUnitID c, c)]) (WorkUnitID c) commands = Inr byID'"
    using Cons.prems(1) by (auto simp: update_new map_of_eq_None_iff split: option.splits)
  have "distinct (map fst (byID @ [(WorkUnitID c, c)]))" using Cons.prems(2) new by auto
  note ih = Cons.IH [OF r this]
  show ?case
  proof (intro conjI)
    show "byID' = byID @ map (\<lambda>c. (WorkUnitID c, c)) (c # commands)" using ih by simp
    show "distinct (map fst byID')" using ih by blast
    show "\<forall>c\<in>set (c # commands). fitsBudget resources c" using ih fits_budget [OF ok] by simp
  qed
qed

lemma validateRequired_None:
  "validateRequired commands v ids = None \<longleftrightarrow> v \<notin> set ids \<and> set ids \<subseteq> fst ` set commands"
  by (induction commands v ids rule: validateRequired.induct) (auto simp: map_of_eq_None_iff)

lemma collectPlanDependencies_ok:
  "collectPlanDependencies commands index byID previousID dependencies = Inr byID' \<Longrightarrow> distinct (map fst byID) \<Longrightarrow>
    byID' = byID @ map (\<lambda>d. (dependentID d, Requires d)) dependencies \<and> distinct (map fst byID') \<and>
    (\<forall>d\<in>set dependencies. dependentID d \<in> fst ` set commands \<and> set (Requires d) \<subseteq> fst ` set commands)"
proof (induction dependencies arbitrary: index byID previousID)
  case Nil
  then show ?case by simp
next
  case (Cons d dependencies)
  have new: "dependentID d \<notin> fst ` set byID" and known: "dependentID d \<in> fst ` set commands"
    and ok: "validateRequired commands (dependentID d) (Requires d) = None"
    and r: "collectPlanDependencies commands (Suc index) (byID @ [(dependentID d, Requires d)]) (dependentID d) dependencies = Inr byID'"
    using Cons.prems(1) by (auto simp: update_new map_of_eq_None_iff split: option.splits dest!: map_of_SomeD intro: rev_image_eqI)
  have "distinct (map fst (byID @ [(dependentID d, Requires d)]))" using Cons.prems(2) new by auto
  note ih = Cons.IH [OF r this]
  show ?case
  proof (intro conjI)
    show "byID' = byID @ map (\<lambda>d. (dependentID d, Requires d)) (d # dependencies)" using ih by simp
    show "distinct (map fst byID')" using ih by blast
    show "\<forall>d\<in>set (d # dependencies). dependentID d \<in> fst ` set commands \<and> set (Requires d) \<subseteq> fst ` set commands"
      using ih ok known by (simp add: validateRequired_None)
  qed
qed

lemma accepted_schedulable:
  assumes "Validate digests plan = None"
  shows "schedulable plan"
proof -
  obtain commands where r: "validateResources (Resources plan) = None"
    and c: "validatePlanCommands digests (Commands plan) (Resources plan) = Inr commands"
    and d: "validatePlanDependencies (Dependencies plan) commands = None"
    using assms by (auto simp: Validate_def split: option.splits sum.splits)
  have commands: "commands = map (\<lambda>c. (WorkUnitID c, c)) (Commands plan)" "distinct (map fst commands)"
    "\<forall>c\<in>set (Commands plan). fitsBudget (Resources plan) c"
    using c collectPlanCommands_ok [of digests "Resources plan" 0 "[]" "[]" "Commands plan" commands]
    by (auto simp: validatePlanCommands_def split: if_splits)
  have units: "fst ` set commands = set (unitIDs plan)" by (auto simp: commands(1) unitIDs_def image_image)
  obtain byID where b: "collectPlanDependencies commands 0 [] [] (Dependencies plan) = Inr byID"
    and l: "length (Dependencies plan) = length commands"
    and cycles: "validateDependencyCycles byID (map fst byID) = None"
    using d by (auto simp: validatePlanDependencies_def split: if_splits sum.splits)
  have byID: "byID = dependencyBindings plan" "distinct (map fst byID)"
    and known: "\<forall>d\<in>set (Dependencies plan). dependentID d \<in> set (unitIDs plan) \<and> set (Requires d) \<subseteq> set (unitIDs plan)"
    using collectPlanDependencies_ok [OF b] by (auto simp: units dependencyBindings_def)
  have "fst ` set (dependencyBindings plan) = set (unitIDs plan)"
  proof (rule card_subset_eq)
    show "fst ` set (dependencyBindings plan) \<subseteq> set (unitIDs plan)" using known by (auto simp: dependencyBindings_def)
    have "card (set (map fst byID)) = length (Dependencies plan)"
      using byID by (simp add: distinct_card dependencyBindings_def del: set_map)
    moreover have "card (fst ` set commands) = length commands"
      using distinct_card [OF commands(2)] by simp
    ultimately show "card (fst ` set (dependencyBindings plan)) = card (set (unitIDs plan))"
      using l by (simp add: byID(1) units)
  qed simp
  then show ?thesis
    using r commands byID known cycles cycles_exact [of byID "map fst byID"]
    by (auto simp: schedulable_def validateResources_def unitIDs_def dependencyBindings_def o_def)
qed

text \<open>
  C14. An accepted plan can be scheduled: every command fits the budget on its own, work units
  have distinct identifiers, every unit has one dependency binding, bindings name only units of
  the plan, and the dependencies have no cycle.
\<close>

theorem accepted_plan_schedulable:
  "Validate digests plan = None \<Longrightarrow> schedulable plan"
  by (rule accepted_schedulable)

text \<open>A plan with two units, the second requiring the first, and one shard for each.\<close>

definition sampleDigest :: string where
  "sampleDigest = ''sha256:'' @ replicate 64 CHR ''a''"

definition sampleDigests :: planDigests where
  "sampleDigests = \<lparr>digestOfPlan = \<lambda>_. sampleDigest, digestOfToolchain = \<lambda>_. sampleDigest,
     digestOfCommand = \<lambda>_. sampleDigest, digestOfCensus = \<lambda>_. sampleDigest\<rparr>"

definition sampleReport :: "string \<Rightarrow> PlanExpectedReportBinding" where
  "sampleReport name = \<lparr>reportUnit = name, reportSubgate = name, ReportFile = name @ ''.json'',
     reportCommandDigest = sampleDigest, RequiredRegistrationIDs = [],
     RequiredPopulations = [\<lparr>populationID = ''p'', Minimum = 1\<rparr>]\<rparr>"

definition samplePlan :: ExecutionPlan where
  "samplePlan = \<lparr>FormatVersion = 1, PlanID = sampleDigest, Profile = ''semantic'',
     Workspace = \<lparr>Root = ''.'', workspaceDigest = sampleDigest\<rparr>,
     Manifest = \<lparr>artifactPath = ''m.json'', artifactDigest = sampleDigest\<rparr>,
     Registry = \<lparr>artifactPath = ''r.json'', artifactDigest = sampleDigest\<rparr>,
     Toolchain = \<lparr>GoVersion = ''go'', GOOS = ''linux'', GOARCH = ''arm64'', toolchainDigest = sampleDigest\<rparr>,
     Resources = \<lparr>CPUUnits = 4, MemoryBytes = 8, MaximumWorkers = 2, RunnerClass = ''local'', SerialReference = False\<rparr>,
     Commands = [sampleCommand ''a'' 2 [''g''], sampleCommand ''b'' 3 []],
     Dependencies = [\<lparr>dependentID = ''a'', Requires = []\<rparr>, \<lparr>dependentID = ''b'', Requires = [''a'']\<rparr>],
     Censuses = [sampleCensus\<lparr>censusDigest := sampleDigest\<rparr>],
     Shards = [(sampleShard ''s1'' [''x'', ''z''])\<lparr>shardUnit := ''a''\<rparr>, (sampleShard ''s2'' [''y''])\<lparr>shardUnit := ''b''\<rparr>],
     ExpectedReports = [sampleReport ''a'', sampleReport ''b'']\<rparr>"

theorem accepted_plan_schedulable_witness:
  "Validate sampleDigests samplePlan = None \<and> schedulable samplePlan"
proof -
  have "Validate sampleDigests samplePlan = None" by code_simp
  then show ?thesis using accepted_plan_schedulable by blast
qed

end
