(* ===== verification/Evidence.thy ===== *)
theory Evidence imports Execution_Plan begin
text \<open>
  The evidence exchanged between the producers of the soundness gate, its census and the gate
  (\<open>internal/soundnessevidence/model.go\<close>, \<open>registry.go\<close>): executed cases, the observation derived from
  them, the registry of what must be observed, and the census that compares the two.

  The package has copies of \<open>validateIdentifier\<close> and of the check of canonical string lists of the
  package \<open>soundnessgate\<close>, with the same text; they are modelled once, in \<open>Execution_Plan\<close>. Go's
  \<open>int\<close> is unbounded here; an optional number, a pointer in the code, is an option.
\<close>

section \<open>Observations\<close>

definition ObservationFormatVersion :: int where [go_const]: "ObservationFormatVersion = 2"
definition RegistryFormatVersion :: int where [go_const]: "RegistryFormatVersion = 2"

definition LayerGenerated :: string where [go_const]: "LayerGenerated = ''generated''"
definition LayerMetamorphic :: string where [go_const]: "LayerMetamorphic = ''metamorphic''"
definition LayerFuzz :: string where [go_const]: "LayerFuzz = ''fuzz''"
definition LayerDeterminism :: string where [go_const]: "LayerDeterminism = ''determinism''"

definition BoundaryProductionAnalyzer :: string where [go_const]: "BoundaryProductionAnalyzer = ''production-analyzer''"
definition BoundaryIndependentModel :: string where [go_const]: "BoundaryIndependentModel = ''independent-model''"
definition BoundaryIndependentOracle :: string where [go_const]: "BoundaryIndependentOracle = ''independent-boundary-oracle''"
definition BoundaryMetamorphicAnalyzer :: string where [go_const]: "BoundaryMetamorphicAnalyzer = ''metamorphic-analyzer''"
definition BoundaryFuzzDecoder :: string where [go_const]: "BoundaryFuzzDecoder = ''fuzz-decoder''"
definition BoundaryDeterminismAnalyzer :: string where [go_const]: "BoundaryDeterminismAnalyzer = ''determinism-analyzer''"

record ObservationBinding =
  bindingRun :: string
  bindingWorkspace :: string
  bindingManifest :: string
  bindingCommand :: string
  bindingSubgate :: string

record ObservationResult =
  resultOutcome :: string
  CaseCount :: int
  resultDiagnostics :: int

record SemanticCase =
  caseID :: string
  caseCategory :: string
  caseLayer :: string
  caseFeature :: string
  caseBoundary :: string
  caseBoundaries :: "string list"
  caseOutcome :: string
  caseDiagnostics :: int
  caseStages :: "string list"
  caseProperties :: "string list"
  caseDimensions :: "string list"

record SemanticObservation =
  obsFormat :: int
  obsBinding :: ObservationBinding
  RegistrationID :: string
  obsCategory :: string
  obsLayer :: string
  obsFeature :: string
  ProducerID :: string
  obsTest :: string
  obsBoundary :: string
  obsBoundaries :: "string list"
  obsResult :: ObservationResult
  obsStages :: "string list"
  obsProperties :: "string list"
  obsDimensions :: "string list"
  obsCases :: "SemanticCase list"

definition validLayer :: "string \<Rightarrow> bool" where
  "validLayer layer \<longleftrightarrow> layer \<in> {''rule-contract'', ''owner-route'', ''must-report'', ''must-not-report'', ''must-be-inconclusive'',
     ''artifact-parity'', ''production-integration'', LayerGenerated, LayerMetamorphic, LayerFuzz, ''mutation'', LayerDeterminism}"

definition validBoundary :: "string \<Rightarrow> bool" where
  "validBoundary boundary \<longleftrightarrow> boundary \<in> {''catalog-validation'', BoundaryProductionAnalyzer, BoundaryIndependentModel,
     BoundaryIndependentOracle, BoundaryMetamorphicAnalyzer, BoundaryFuzzDecoder, ''mutation-runner'', BoundaryDeterminismAnalyzer,
     ''aggregate-adversarial''}"

definition validOutcome :: "string \<Rightarrow> bool" where
  "validOutcome outcome \<longleftrightarrow> outcome \<in> {''must-report'', ''must-not-report'', ''must-be-inconclusive'', ''model-agrees'',
     ''relation-preserved'', ''property-detected'', ''mutant-killed'', ''deterministic'', ''route-executed'', ''gate-rejected''}"

text \<open>The stages in the order of \<open>canonicalStageSet\<close>.\<close>

definition stageOrder :: "string list" where
  "stageOrder = [''source-extraction'', ''identity'', ''graph-construction'', ''propagation'', ''refinement'', ''aggregation'', ''reporting'']"

definition canonicalStageSet :: "string set \<Rightarrow> string list" where
  "canonicalStageSet S = filter (\<lambda>stage. stage \<in> S) stageOrder"

definition canonicalBoundarySet :: "string set \<Rightarrow> string list" where
  "canonicalBoundarySet S = sorted_list_of_set S"

definition canonicalStringSet :: "string set \<Rightarrow> string list" where
  "canonicalStringSet S = sorted_list_of_set S"

definition validateObservationBinding :: "ObservationBinding \<Rightarrow> go_error option" where
  "validateObservationBinding binding = first_error
     [error_when (strings_TrimSpace (bindingRun binding) = []) ''observation binding run_id is empty'' [],
      ValidateDigest ''observation binding workspace_digest'' (bindingWorkspace binding),
      ValidateDigest ''observation binding manifest_digest'' (bindingManifest binding),
      ValidateDigest ''observation binding command_digest'' (bindingCommand binding),
      validateIdentifier ''observation binding subgate_id'' (bindingSubgate binding)]"

fun validateEachBoundary :: "string \<Rightarrow> string \<Rightarrow> string list \<Rightarrow> go_error option" where
  "validateEachBoundary name previous [] = None"
| "validateEachBoundary name previous (boundary # boundaries) = first_error
     [error_when (\<not> validBoundary boundary) ''%s contains unsupported boundary %q'' [name, boundary],
      error_when (previous \<noteq> [] \<and> boundary \<le> previous) ''%s must be unique and use canonical lexical order'' [name],
      validateEachBoundary name boundary boundaries]"

definition validateBoundaries :: "string \<Rightarrow> string list \<Rightarrow> go_error option" where
  "validateBoundaries name boundaries = first_error
     [error_when (boundaries = []) ''%s is empty'' [name], validateEachBoundary name [] boundaries]"

fun validateEachStage :: "string \<Rightarrow> nat \<Rightarrow> string set \<Rightarrow> string list \<Rightarrow> go_error option" where
  "validateEachStage name index seen [] = None"
| "validateEachStage name index seen (stage # stages) = first_error
     [error_when (stage \<notin> set stageOrder) ''%s[%d] %q is unsupported'' [name, show_nat index, stage],
      error_when (stage \<in> seen) ''%s contains duplicate %q'' [name, stage],
      validateEachStage name (Suc index) (insert stage seen) stages]"

definition validateStages :: "string \<Rightarrow> string list \<Rightarrow> go_error option" where
  "validateStages name stages = validateEachStage name 0 {} stages"

definition validateCanonicalStrings :: "string \<Rightarrow> string list \<Rightarrow> go_error option" where
  "validateCanonicalStrings name values = first_error
     [validateEachIdentifier name 0 {} values,
      error_when (\<not> slices_IsSorted values) ''%s must use canonical lexical order'' [name]]"

section \<open>Cases\<close>

text \<open>The closures of \<open>validateSemanticCaseEvidenceContract\<close>, and its switch on the layer.\<close>

definition requireProduction :: "string \<Rightarrow> SemanticCase \<Rightarrow> go_error option" where
  "requireProduction name current = error_when (BoundaryProductionAnalyzer \<notin> set (caseBoundaries current))
     ''%s evidence is disconnected from the production analyzer'' [name]"

definition requireFeatureDimension :: "string \<Rightarrow> SemanticCase \<Rightarrow> go_error option" where
  "requireFeatureDimension name current = error_when (caseFeature current \<notin> set (caseDimensions current))
     ''%s dimensions omit category feature %q'' [name, caseFeature current]"

definition requireProperty :: "string \<Rightarrow> SemanticCase \<Rightarrow> string \<Rightarrow> go_error option" where
  "requireProperty name current property = error_when (property \<notin> set (caseProperties current)) ''%s properties omit %q'' [name, property]"

definition validateSemanticCaseEvidenceContract :: "string \<Rightarrow> SemanticCase \<Rightarrow> go_error option" where
  "validateSemanticCaseEvidenceContract name current =
     (let executed = set (caseBoundaries current); boundary = caseBoundary current in
      if caseLayer current = LayerGenerated then
        (if boundary = BoundaryIndependentModel \<or> boundary = BoundaryIndependentOracle \<or>
            BoundaryIndependentModel \<in> executed \<or> BoundaryIndependentOracle \<in> executed
         then first_error [requireProduction name current, requireFeatureDimension name current,
           requireProperty name current ''production-analyzer-executed'']
         else None)
      else if caseLayer current = LayerMetamorphic then first_error
        [error_when (boundary \<noteq> BoundaryMetamorphicAnalyzer) ''%s metamorphic evidence uses boundary %q'' [name, boundary],
         requireProduction name current, requireFeatureDimension name current,
         requireProperty name current ''production-analyzer-executed'', requireProperty name current ''relation-checked'']
      else if caseLayer current = LayerFuzz then first_error
        [error_when (boundary \<noteq> BoundaryFuzzDecoder) ''%s fuzz evidence uses boundary %q'' [name, boundary],
         error_when (\<not> digestPattern (takeWhile (\<lambda>c. c \<noteq> CHR ''/'') (caseID current)))
           ''%s fuzz case id %q is not bound to a canonical seed digest'' [name, caseID current],
         requireProduction name current,
         error_when (BoundaryIndependentModel \<notin> executed \<and> BoundaryIndependentOracle \<notin> executed)
           ''%s fuzz evidence has no executed independent model or oracle'' [name],
         requireFeatureDimension name current,
         error_when (\<not> list_ex (\<lambda>property. strings_Contains property ''decoded'') (caseProperties current))
           ''%s fuzz properties contain no decoded-structure claim'' [name],
         requireProperty name current ''independent-property-checked'']
      else if caseLayer current = LayerDeterminism then first_error
        [error_when (boundary \<noteq> BoundaryDeterminismAnalyzer) ''%s determinism evidence uses boundary %q'' [name, boundary],
         requireProduction name current, requireFeatureDimension name current,
         requireProperty name current ''equivalent-schedules-compared'', requireProperty name current ''production-analyzer-executed'']
      else None)"

record caseSets =
  setDiagnostics :: int
  setStages :: "string set"
  setBoundaries :: "string set"
  setProperties :: "string set"
  setDimensions :: "string set"

record semanticCaseSummary =
  sumCategory :: string
  sumLayer :: string
  sumFeature :: string
  sumBoundary :: string
  sumBoundaries :: "string list"
  sumResult :: ObservationResult
  sumStages :: "string list"
  sumProperties :: "string list"
  sumDimensions :: "string list"

definition checkCase :: "SemanticCase \<Rightarrow> string \<Rightarrow> string \<Rightarrow> SemanticCase \<Rightarrow> go_error option" where
  "checkCase first name previousID current = first_error
     [validateIdentifier (name @ '' id'') (caseID current),
      error_when (previousID \<noteq> [] \<and> caseID current \<le> previousID)
        ''case ids must be unique and use canonical lexical order: %q then %q'' [previousID, caseID current],
      validateIdentifier (name @ '' category'') (caseCategory current),
      validateIdentifier (name @ '' feature_id'') (caseFeature current),
      error_when (\<not> validLayer (caseLayer current)) ''%s layer %q is unsupported'' [name, caseLayer current],
      error_when (\<not> validBoundary (caseBoundary current)) ''%s boundary %q is unsupported'' [name, caseBoundary current],
      validateBoundaries (name @ '' executed_boundaries'') (caseBoundaries current),
      error_when (caseBoundary current \<notin> set (caseBoundaries current)) ''%s credited boundary %q is absent from executed_boundaries''
        [name, caseBoundary current],
      error_when (\<not> validOutcome (caseOutcome current)) ''%s outcome %q is unsupported'' [name, caseOutcome current],
      error_when (caseDiagnostics current < 0) ''%s diagnostic_count = %d, want a non-negative population''
        [name, show_int (caseDiagnostics current)],
      error_when (caseCategory current \<noteq> caseCategory first \<or> caseLayer current \<noteq> caseLayer first \<or>
          caseFeature current \<noteq> caseFeature first \<or> caseBoundary current \<noteq> caseBoundary first \<or> caseOutcome current \<noteq> caseOutcome first)
        ''%s semantic identity does not match the observation case set'' [name],
      validateSemanticCaseEvidenceContract name current,
      validateStages (name @ '' stages'') (caseStages current),
      validateCanonicalStrings (name @ '' properties'') (caseProperties current),
      validateCanonicalStrings (name @ '' dimensions'') (caseDimensions current)]"

definition addCase :: "SemanticCase \<Rightarrow> caseSets \<Rightarrow> caseSets" where
  "addCase current sets = \<lparr>setDiagnostics = int64 (setDiagnostics sets + caseDiagnostics current),
     setStages = setStages sets \<union> set (caseStages current), setBoundaries = setBoundaries sets \<union> set (caseBoundaries current),
     setProperties = setProperties sets \<union> set (caseProperties current), setDimensions = setDimensions sets \<union> set (caseDimensions current)\<rparr>"

fun scanCases :: "SemanticCase \<Rightarrow> nat \<Rightarrow> string \<Rightarrow> caseSets \<Rightarrow> SemanticCase list \<Rightarrow> go_error + caseSets" where
  "scanCases first index previousID sets [] = Inr sets"
| "scanCases first index previousID sets (current # cases) =
     (case checkCase first (''case['' @ show_nat index @ '']'') previousID current of
        Some e \<Rightarrow> Inl e
      | None \<Rightarrow> scanCases first (Suc index) (caseID current) (addCase current sets) cases)"

definition summarizeSemanticCases :: "SemanticCase list \<Rightarrow> go_error + semanticCaseSummary" where
  "summarizeSemanticCases cases =
     (case cases of
        [] \<Rightarrow> Inl (Errorf ''executed case population is empty'' [])
      | first # _ \<Rightarrow>
          (case scanCases first 0 [] \<lparr>setDiagnostics = 0, setStages = {}, setBoundaries = {}, setProperties = {}, setDimensions = {}\<rparr> cases of
             Inl e \<Rightarrow> Inl e
           | Inr sets \<Rightarrow> Inr
               \<lparr>sumCategory = caseCategory first, sumLayer = caseLayer first, sumFeature = caseFeature first, sumBoundary = caseBoundary first,
                sumBoundaries = canonicalBoundarySet (setBoundaries sets),
                sumResult = \<lparr>resultOutcome = caseOutcome first, CaseCount = int (length cases), resultDiagnostics = setDiagnostics sets\<rparr>,
                sumStages = canonicalStageSet (setStages sets), sumProperties = canonicalStringSet (setProperties sets),
                sumDimensions = canonicalStringSet (setDimensions sets)\<rparr>))"

definition zeroBinding :: ObservationBinding where
  "zeroBinding = \<lparr>bindingRun = [], bindingWorkspace = [], bindingManifest = [], bindingCommand = [], bindingSubgate = []\<rparr>"

definition ObservationFromCases :: "string \<Rightarrow> string \<Rightarrow> string \<Rightarrow> SemanticCase list \<Rightarrow> go_error + SemanticObservation" where
  "ObservationFromCases registrationID producerID testID cases =
     (case summarizeSemanticCases cases of
        Inl e \<Rightarrow> Inl e
      | Inr summary \<Rightarrow> Inr
          \<lparr>obsFormat = ObservationFormatVersion, obsBinding = zeroBinding, RegistrationID = registrationID, obsCategory = sumCategory summary,
           obsLayer = sumLayer summary, obsFeature = sumFeature summary, ProducerID = producerID, obsTest = testID,
           obsBoundary = sumBoundary summary, obsBoundaries = sumBoundaries summary, obsResult = sumResult summary,
           obsStages = sumStages summary, obsProperties = sumProperties summary, obsDimensions = sumDimensions summary, obsCases = cases\<rparr>)"

definition validateObservation :: "SemanticObservation \<Rightarrow> go_error option" where
  "validateObservation obs =
     (case first_error
        [error_when (obsFormat obs \<noteq> ObservationFormatVersion) ''observation format_version = %d, want %d''
           [show_int (obsFormat obs), show_int ObservationFormatVersion],
         validateObservationBinding (obsBinding obs),
         validateIdentifier ''observation registration_id'' (RegistrationID obs),
         validateIdentifier ''observation category'' (obsCategory obs),
         validateIdentifier ''observation feature_id'' (obsFeature obs),
         validateIdentifier ''observation producer_id'' (ProducerID obs),
         validateIdentifier ''observation test_id'' (obsTest obs),
         error_when (ProducerID obs \<noteq> bindingSubgate (obsBinding obs))
           ''observation producer_id %q does not match binding subgate_id %q'' [ProducerID obs, bindingSubgate (obsBinding obs)],
         error_when (\<not> validLayer (obsLayer obs)) ''observation layer %q is unsupported'' [obsLayer obs],
         error_when (\<not> validBoundary (obsBoundary obs)) ''observation boundary %q is unsupported'' [obsBoundary obs],
         validateBoundaries ''observation executed_boundaries'' (obsBoundaries obs),
         error_when (\<not> validOutcome (resultOutcome (obsResult obs))) ''observation outcome %q is unsupported'' [resultOutcome (obsResult obs)],
         error_when (CaseCount (obsResult obs) \<le> 0) ''observation case_count = %d, want a positive population''
           [show_int (CaseCount (obsResult obs))],
         error_when (resultDiagnostics (obsResult obs) < 0) ''observation diagnostic_count = %d, want a non-negative population''
           [show_int (resultDiagnostics (obsResult obs))],
         validateStages ''observation stages'' (obsStages obs),
         validateCanonicalStrings ''observation properties'' (obsProperties obs),
         validateCanonicalStrings ''observation dimensions'' (obsDimensions obs)] of
        Some e \<Rightarrow> Some e
      | None \<Rightarrow>
          (case summarizeSemanticCases (obsCases obs) of
             Inl e \<Rightarrow> Some (Wrapf ''observation cases: %w'' [] e)
           | Inr summary \<Rightarrow> first_error
               [error_when (obsCategory obs \<noteq> sumCategory summary) ''observation category %q is not derived from executed cases %q''
                  [obsCategory obs, sumCategory summary],
                error_when (obsLayer obs \<noteq> sumLayer summary) ''observation layer %q is not derived from executed cases %q''
                  [obsLayer obs, sumLayer summary],
                error_when (obsFeature obs \<noteq> sumFeature summary) ''observation feature_id %q is not derived from executed cases %q''
                  [obsFeature obs, sumFeature summary],
                error_when (obsBoundary obs \<noteq> sumBoundary summary) ''observation boundary %q is not derived from executed cases %q''
                  [obsBoundary obs, sumBoundary summary],
                error_when (obsBoundaries obs \<noteq> sumBoundaries summary)
                  ''observation executed_boundaries are not derived from executed cases'' [],
                error_when (obsResult obs \<noteq> sumResult summary) ''observation result %+v is not derived from executed cases %+v'' [],
                error_when (obsStages obs \<noteq> sumStages summary) ''observation stages are not derived from executed cases'' [],
                error_when (obsProperties obs \<noteq> sumProperties summary) ''observation properties are not derived from executed cases'' [],
                error_when (obsDimensions obs \<noteq> sumDimensions summary) ''observation dimensions are not derived from executed cases'' []]))"

section \<open>An observation says what its cases say\<close>

lemma case_first_error [simp]:
  "(case first_error es of None \<Rightarrow> a | Some e \<Rightarrow> Inl e) = Inr x \<longleftrightarrow> (\<forall>e\<in>set es. e = None) \<and> a = Inr x"
  "(case first_error es of None \<Rightarrow> b | Some e \<Rightarrow> Some e) = None \<longleftrightarrow> (\<forall>e\<in>set es. e = None) \<and> b = None"
proof -
  have all: "(\<forall>e\<in>set es. e = None) \<longleftrightarrow> first_error es = None" by simp
  show "(case first_error es of None \<Rightarrow> a | Some e \<Rightarrow> Inl e) = Inr x \<longleftrightarrow> (\<forall>e\<in>set es. e = None) \<and> a = Inr x"
    "(case first_error es of None \<Rightarrow> b | Some e \<Rightarrow> Some e) = None \<longleftrightarrow> (\<forall>e\<in>set es. e = None) \<and> b = None"
    unfolding all by (cases "first_error es"; simp only: option.case simp_thms option.distinct sum.distinct)+
qed


lemma eachIdentifier_None:
  "validateEachIdentifier name index seen vs = None \<longleftrightarrow>
    (\<forall>v\<in>set vs. strings_TrimSpace v \<noteq> [] \<and> v = strings_TrimSpace v) \<and> distinct vs \<and> set vs \<inter> seen = {}"
  by (induction vs arbitrary: index seen) (auto simp: validateIdentifier_def)

definition canonicalID :: "string \<Rightarrow> bool" where
  "canonicalID v \<longleftrightarrow> strings_TrimSpace v \<noteq> [] \<and> v = strings_TrimSpace v"

lemma validateIdentifier_None: "validateIdentifier name v = None \<longleftrightarrow> canonicalID v"
  by (auto simp: validateIdentifier_def canonicalID_def)

lemma canonicalStrings_None:
  "validateCanonicalStrings name vs = None \<longleftrightarrow> (\<forall>v\<in>set vs. canonicalID v) \<and> sorted_wrt (<) vs"
  by (auto simp: validateCanonicalStrings_def eachIdentifier_None canonicalID_def strict_sorted_iff)

lemma eachBoundary_None:
  "validateEachBoundary name previous bs = None \<longleftrightarrow>
    (\<forall>b\<in>set bs. validBoundary b) \<and> sorted_wrt (<) bs \<and> (previous \<noteq> [] \<longrightarrow> (\<forall>b\<in>set bs. previous < b))"
proof (induction bs arbitrary: previous)
  case (Cons b bs)
  have "b \<noteq> []" if "validBoundary b" using that by (auto simp: validBoundary_def go_const)
  then show ?case using Cons by (auto simp: not_le dest: less_trans)
qed simp

lemma boundaries_None:
  "validateBoundaries name bs = None \<longleftrightarrow> bs \<noteq> [] \<and> (\<forall>b\<in>set bs. validBoundary b) \<and> sorted_wrt (<) bs"
  by (auto simp: validateBoundaries_def eachBoundary_None)

lemma eachStage_None:
  "validateEachStage name index seen ss = None \<longleftrightarrow> set ss \<subseteq> set stageOrder \<and> distinct ss \<and> set ss \<inter> seen = {}"
  by (induction ss arbitrary: index seen) auto

lemma stages_None: "validateStages name ss = None \<longleftrightarrow> set ss \<subseteq> set stageOrder \<and> distinct ss"
  by (simp add: validateStages_def eachStage_None)

lemma distinct_stageOrder: "distinct stageOrder"
  by (simp add: stageOrder_def)

text \<open>What the checks of the cases establish of the sets collected from them.\<close>

definition sets_ok :: "caseSets \<Rightarrow> bool" where
  "sets_ok sets \<longleftrightarrow> setStages sets \<subseteq> set stageOrder \<and>
     finite (setBoundaries sets) \<and> (\<forall>b\<in>setBoundaries sets. validBoundary b) \<and>
     finite (setProperties sets) \<and> (\<forall>v\<in>setProperties sets. canonicalID v) \<and>
     finite (setDimensions sets) \<and> (\<forall>v\<in>setDimensions sets. canonicalID v)"

definition case_ok :: "SemanticCase \<Rightarrow> bool" where
  "case_ok c \<longleftrightarrow> canonicalID (caseCategory c) \<and> canonicalID (caseFeature c) \<and> validLayer (caseLayer c) \<and> validBoundary (caseBoundary c) \<and>
     validOutcome (caseOutcome c) \<and> caseBoundaries c \<noteq> []"

lemma checkCase_ok:
  assumes "checkCase first name previousID current = None" and "sets_ok sets"
  shows "sets_ok (addCase current sets)" and "case_ok current" and "set (caseBoundaries current) \<subseteq> setBoundaries (addCase current sets)"
proof -
  have c: "canonicalID (caseCategory current)" "canonicalID (caseFeature current)" "validLayer (caseLayer current)"
    "validBoundary (caseBoundary current)" "validOutcome (caseOutcome current)" "0 \<le> caseDiagnostics current"
    "caseBoundaries current \<noteq> []" "\<forall>b\<in>set (caseBoundaries current). validBoundary b"
    "set (caseStages current) \<subseteq> set stageOrder" "\<forall>v\<in>set (caseProperties current). canonicalID v"
    "\<forall>v\<in>set (caseDimensions current). canonicalID v"
    using assms(1)
    by (auto simp: checkCase_def validateIdentifier_None boundaries_None stages_None canonicalStrings_None)
  show "sets_ok (addCase current sets)" using assms(2) c by (auto simp: sets_ok_def addCase_def)
  show "case_ok current" using c by (simp add: case_ok_def)
  show "set (caseBoundaries current) \<subseteq> setBoundaries (addCase current sets)" by (simp add: addCase_def)
qed

lemma addCase_grows: "setBoundaries sets \<subseteq> setBoundaries (addCase current sets)"
  by (simp add: addCase_def)

lemma scanCases_ok:
  "scanCases first index previousID sets cases = Inr sets' \<Longrightarrow> sets_ok sets \<Longrightarrow>
    sets_ok sets' \<and> setBoundaries sets \<subseteq> setBoundaries sets' \<and>
    (\<forall>current\<in>set cases. case_ok current \<and> set (caseBoundaries current) \<subseteq> setBoundaries sets')"
proof (induction cases arbitrary: index previousID sets)
  case (Cons current cases)
  have checked: "checkCase first (''case['' @ show_nat index @ '']'') previousID current = None"
    using Cons.prems(1) by (auto split: option.splits)
  then have rest: "scanCases first (Suc index) (caseID current) (addCase current sets) cases = Inr sets'"
    using Cons.prems(1) by simp
  note current = checkCase_ok [OF checked Cons.prems(2)]
  show ?case using Cons.IH [OF rest current(1)] current(2,3) addCase_grows [of sets current] by auto
qed simp

definition summary_ok :: "semanticCaseSummary \<Rightarrow> bool" where
  "summary_ok s \<longleftrightarrow> canonicalID (sumCategory s) \<and> canonicalID (sumFeature s) \<and> validLayer (sumLayer s) \<and> validBoundary (sumBoundary s) \<and>
     sumBoundaries s \<noteq> [] \<and> (\<forall>b\<in>set (sumBoundaries s). validBoundary b) \<and> sorted_wrt (<) (sumBoundaries s) \<and>
     validOutcome (resultOutcome (sumResult s)) \<and> 0 < CaseCount (sumResult s) \<and>
     set (sumStages s) \<subseteq> set stageOrder \<and> distinct (sumStages s) \<and>
     (\<forall>v\<in>set (sumProperties s). canonicalID v) \<and> sorted_wrt (<) (sumProperties s) \<and>
     (\<forall>v\<in>set (sumDimensions s). canonicalID v) \<and> sorted_wrt (<) (sumDimensions s)"

lemma summary_of_cases:
  assumes "summarizeSemanticCases cases = Inr summary"
  shows "summary_ok summary"
proof -
  obtain first rest where cases: "cases = first # rest" using assms by (cases cases) (auto simp: summarizeSemanticCases_def)
  let ?none = "\<lparr>setDiagnostics = 0, setStages = {}, setBoundaries = {}, setProperties = {}, setDimensions = {}\<rparr>"
  obtain sets where sets: "scanCases first 0 [] ?none cases = Inr sets"
    using assms by (auto simp: summarizeSemanticCases_def cases split: sum.splits)
  have "sets_ok ?none" by (simp add: sets_ok_def)
  from scanCases_ok [OF sets this] have s: "sets_ok sets" "case_ok first" "set (caseBoundaries first) \<subseteq> setBoundaries sets"
    by (simp_all add: cases)
  have "setBoundaries sets \<noteq> {}" using s(2,3) by (auto simp: case_ok_def)
  moreover have "summary = \<lparr>sumCategory = caseCategory first, sumLayer = caseLayer first, sumFeature = caseFeature first, sumBoundary = caseBoundary first,
      sumBoundaries = canonicalBoundarySet (setBoundaries sets),
      sumResult = \<lparr>resultOutcome = caseOutcome first, CaseCount = int (length cases), resultDiagnostics = setDiagnostics sets\<rparr>,
      sumStages = canonicalStageSet (setStages sets), sumProperties = canonicalStringSet (setProperties sets),
      sumDimensions = canonicalStringSet (setDimensions sets)\<rparr>"
    using assms sets by (simp add: summarizeSemanticCases_def cases)
  ultimately show ?thesis using s(1,2) distinct_stageOrder
    by (simp add: summary_ok_def sets_ok_def case_ok_def canonicalBoundarySet_def canonicalStageSet_def canonicalStringSet_def cases)
qed

lemma observation_exact:
  "validateObservation obs = None \<longleftrightarrow>
    validateObservationBinding (obsBinding obs) = None \<and> canonicalID (RegistrationID obs) \<and> canonicalID (ProducerID obs) \<and>
    canonicalID (obsTest obs) \<and> ProducerID obs = bindingSubgate (obsBinding obs) \<and>
    0 \<le> resultDiagnostics (obsResult obs) \<and>
    (\<exists>derived. ObservationFromCases (RegistrationID obs) (ProducerID obs) (obsTest obs) (obsCases obs) = Inr derived \<and>
       obs = derived\<lparr>obsBinding := obsBinding obs\<rparr>)"
proof (cases "summarizeSemanticCases (obsCases obs)")
  case (Inl e)
  then show ?thesis by (simp add: validateObservation_def ObservationFromCases_def split: option.splits)
next
  case (Inr summary)
  note ok = summary_of_cases [OF Inr, unfolded summary_ok_def]
  let ?accepted = "validateObservation obs = None"
  let ?bound = "validateObservationBinding (obsBinding obs) = None \<and> canonicalID (RegistrationID obs) \<and> canonicalID (ProducerID obs) \<and>
    canonicalID (obsTest obs) \<and> ProducerID obs = bindingSubgate (obsBinding obs) \<and> 0 \<le> resultDiagnostics (obsResult obs)"
  let ?from = "\<lambda>derived. ObservationFromCases (RegistrationID obs) (ProducerID obs) (obsTest obs) (obsCases obs) = Inr derived \<and>
    obs = derived\<lparr>obsBinding := obsBinding obs\<rparr>"
  let ?derived = "obsFormat obs = ObservationFormatVersion \<and> obsCategory obs = sumCategory summary \<and> obsLayer obs = sumLayer summary \<and>
    obsFeature obs = sumFeature summary \<and> obsBoundary obs = sumBoundary summary \<and> obsBoundaries obs = sumBoundaries summary \<and>
    obsResult obs = sumResult summary \<and> obsStages obs = sumStages summary \<and> obsProperties obs = sumProperties summary \<and>
    obsDimensions obs = sumDimensions summary"
  have "?accepted \<longleftrightarrow> ?bound \<and> ?derived"
  proof
    assume ?accepted
    then show "?bound \<and> ?derived"
      by (auto simp: validateObservation_def Inr validateIdentifier_None split: option.splits)
  next
    assume "?bound \<and> ?derived"
    then show ?accepted using ok
      unfolding validateObservation_def
      by (auto simp: Inr validateIdentifier_None boundaries_None stages_None canonicalStrings_None split: option.splits)
  qed
  moreover have "(\<exists>derived. ?from derived) \<longleftrightarrow> ?derived"
    unfolding ObservationFromCases_def Inr sum.case by (cases obs) auto
  ultimately show ?thesis by blast
qed

text \<open>C37. An observation is accepted exactly when its binding is complete, its identifiers are canonical, its producer is
  the bound subgate, and every claim it makes is the one that \<open>ObservationFromCases\<close> derives from its own
  executed cases: nothing can be claimed beside the cases, and no derived observation is refused, unless the sum of
  its diagnostics has overflowed to a negative number.\<close>
theorem observation_accepted_iff_derived:
  "validateObservation obs = None \<longleftrightarrow>
    validateObservationBinding (obsBinding obs) = None \<and> canonicalID (RegistrationID obs) \<and> canonicalID (ProducerID obs) \<and>
    canonicalID (obsTest obs) \<and> ProducerID obs = bindingSubgate (obsBinding obs) \<and>
    0 \<le> resultDiagnostics (obsResult obs) \<and>
    (\<exists>derived. ObservationFromCases (RegistrationID obs) (ProducerID obs) (obsTest obs) (obsCases obs) = Inr derived \<and>
       obs = derived\<lparr>obsBinding := obsBinding obs\<rparr>)"
  by (rule observation_exact)

section \<open>The registry\<close>

record CountRange =
  rangeMinimum :: int
  rangeMaximum :: "int option"

record Expectation =
  expOutcome :: string
  MinimumCases :: int
  Diagnostics :: CountRange
  RequiredStages :: "string list"
  RequiredProperties :: "string list"
  RequiredDimensions :: "string list"

record Registration =
  regID :: string
  regCategory :: string
  regLayer :: string
  regFeature :: string
  regProducer :: string
  regTest :: string
  regBoundary :: string
  Expected :: Expectation

record EvidenceRegistry =
  registryFormat :: int
  Registrations :: "Registration list"

definition validateCountRange :: "CountRange \<Rightarrow> nat \<Rightarrow> go_error option" where
  "validateCountRange countRange index = first_error
     [error_when (rangeMinimum countRange < 0) ''evidence registry registrations[%d].expected.diagnostics.minimum = %d, want non-negative''
        [show_nat index, show_int (rangeMinimum countRange)],
      (case rangeMaximum countRange of
         None \<Rightarrow> None
       | Some m \<Rightarrow> error_when (m < rangeMinimum countRange)
           ''evidence registry registrations[%d].expected.diagnostics.maximum = %d, want at least minimum %d''
           [show_nat index, show_int m, show_int (rangeMinimum countRange)])]"

definition validateCount :: "CountRange \<Rightarrow> string \<Rightarrow> int \<Rightarrow> go_error option" where
  "validateCount countRange registrationID observed = first_error
     [error_when (observed < rangeMinimum countRange) ''evidence registration %q diagnostic_count = %d, want at least %d''
        [registrationID, show_int observed, show_int (rangeMinimum countRange)],
      (case rangeMaximum countRange of
         None \<Rightarrow> None
       | Some m \<Rightarrow> error_when (observed > m) ''evidence registration %q diagnostic_count = %d, want at most %d''
           [registrationID, show_int observed, show_int m])]"

definition registrationField :: "nat \<Rightarrow> string \<Rightarrow> string" where
  "registrationField index field = ''evidence registry registrations['' @ show_nat index @ ''].'' @ field"

definition validateRegistration :: "Registration \<Rightarrow> nat \<Rightarrow> go_error option" where
  "validateRegistration registration index = first_error
     [validateIdentifier (registrationField index ''id'') (regID registration),
      validateIdentifier (registrationField index ''category'') (regCategory registration),
      validateIdentifier (registrationField index ''feature_id'') (regFeature registration),
      validateIdentifier (registrationField index ''producer_id'') (regProducer registration),
      validateIdentifier (registrationField index ''test_id'') (regTest registration),
      error_when (\<not> validLayer (regLayer registration)) ''evidence registry registrations[%d].layer %q is unsupported''
        [show_nat index, regLayer registration],
      error_when (\<not> validBoundary (regBoundary registration)) ''evidence registry registrations[%d].boundary %q is unsupported''
        [show_nat index, regBoundary registration],
      error_when (\<not> validOutcome (expOutcome (Expected registration)))
        ''evidence registry registrations[%d].expected.outcome %q is unsupported'' [show_nat index, expOutcome (Expected registration)],
      error_when (MinimumCases (Expected registration) \<le> 0)
        ''evidence registry registrations[%d].expected.minimum_cases = %d, want a positive population''
        [show_nat index, show_int (MinimumCases (Expected registration))],
      validateCountRange (Diagnostics (Expected registration)) index,
      validateStages (registrationField index ''expected.required_stages'') (RequiredStages (Expected registration)),
      validateCanonicalStrings (registrationField index ''expected.required_properties'') (RequiredProperties (Expected registration)),
      validateCanonicalStrings (registrationField index ''expected.required_dimensions'') (RequiredDimensions (Expected registration))]"

definition categoryLayerKey :: "Registration \<Rightarrow> string" where
  "categoryLayerKey registration = regCategory registration @ [char_of (0::nat)] @ regLayer registration"

fun validateRegistrations :: "nat \<Rightarrow> string set \<Rightarrow> string set \<Rightarrow> string \<Rightarrow> Registration list \<Rightarrow> go_error option" where
  "validateRegistrations index known keys previousID [] = None"
| "validateRegistrations index known keys previousID (registration # registrations) = first_error
     [validateRegistration registration index,
      error_when (regID registration \<in> known) ''evidence registry contains duplicate registration id %q'' [regID registration],
      error_when (categoryLayerKey registration \<in> keys) ''evidence registry contains duplicate category/layer registration %q''
        [categoryLayerKey registration],
      error_when (previousID \<noteq> [] \<and> regID registration < previousID)
        ''evidence registry registrations must use canonical id order: %q precedes %q'' [regID registration, previousID],
      validateRegistrations (Suc index) (insert (regID registration) known) (insert (categoryLayerKey registration) keys)
        (regID registration) registrations]"

definition validateRegistry :: "EvidenceRegistry \<Rightarrow> go_error option" where
  "validateRegistry registry = first_error
     [error_when (registryFormat registry \<noteq> RegistryFormatVersion) ''evidence registry format_version = %d, want %d''
        [show_int (registryFormat registry), show_int RegistryFormatVersion],
      error_when (Registrations registry = []) ''evidence registry has no registrations'' [],
      validateRegistrations 0 {} {} [] (Registrations registry)]"

definition validateRegistered :: "Registration \<Rightarrow> SemanticObservation \<Rightarrow> ObservationBinding \<Rightarrow> go_error option" where
  "validateRegistered registration observation expectedBinding = first_error
     [error_when (obsBinding observation \<noteq> expectedBinding) ''evidence registration %q has stale or mismatched binding'' [regID registration],
      error_when ([obsCategory observation, obsLayer observation, obsFeature observation, ProducerID observation, obsTest observation,
           obsBoundary observation] \<noteq>
          [regCategory registration, regLayer registration, regFeature registration, regProducer registration, regTest registration,
           regBoundary registration])
        ''evidence registration %q observation identity does not match the registry'' [regID registration],
      error_when (resultOutcome (obsResult observation) \<noteq> expOutcome (Expected registration)) ''evidence registration %q outcome = %q, want %q''
        [regID registration, resultOutcome (obsResult observation), expOutcome (Expected registration)],
      error_when (CaseCount (obsResult observation) < MinimumCases (Expected registration))
        ''evidence registration %q case_count = %d, want at least %d''
        [regID registration, show_int (CaseCount (obsResult observation)), show_int (MinimumCases (Expected registration))],
      validateCount (Diagnostics (Expected registration)) (regID registration) (resultDiagnostics (obsResult observation)),
      error_when (obsStages observation \<noteq> RequiredStages (Expected registration))
        ''evidence registration %q stages do not exactly match the registry'' [regID registration],
      error_when (obsProperties observation \<noteq> RequiredProperties (Expected registration))
        ''evidence registration %q properties do not exactly match the registry'' [regID registration],
      error_when (obsDimensions observation \<noteq> RequiredDimensions (Expected registration))
        ''evidence registration %q dimensions do not exactly match the registry'' [regID registration]]"

section \<open>The census\<close>

text \<open>The three loops of \<open>ValidateObservations\<close>: the registrations of the selected producers, the observations, and the missing ones.\<close>

fun selectRegistrations ::
  "(string \<rightharpoonup> ObservationBinding) \<Rightarrow> (string \<times> Registration) list \<Rightarrow> Registration list \<Rightarrow> go_error + (string \<times> Registration) list" where
  "selectRegistrations expectedBindings selected [] = Inr selected"
| "selectRegistrations expectedBindings selected (registration # registrations) =
     (case expectedBindings (regProducer registration) of
        None \<Rightarrow> selectRegistrations expectedBindings selected registrations
      | Some expectedBinding \<Rightarrow>
          (case first_error
             [wrap_error ''evidence registration %q producer binding: %w'' [regID registration] (validateObservationBinding expectedBinding),
              error_when (bindingSubgate expectedBinding \<noteq> regProducer registration)
                ''evidence registration %q producer %q has binding subgate_id %q''
                [regID registration, regProducer registration, bindingSubgate expectedBinding]] of
             Some e \<Rightarrow> Inl e
           | None \<Rightarrow> selectRegistrations expectedBindings (AList.update (regID registration) registration selected) registrations))"

fun scanObservations ::
  "(string \<rightharpoonup> ObservationBinding) \<Rightarrow> (string \<times> Registration) list \<Rightarrow> nat \<Rightarrow> string set \<Rightarrow> SemanticObservation list
    \<Rightarrow> go_error + string set" where
  "scanObservations expectedBindings selected index seen [] = Inr seen"
| "scanObservations expectedBindings selected index seen (observation # observations) =
     (case first_error
        [wrap_error ''evidence observation[%d]: %w'' [show_nat index] (validateObservation observation),
         error_when (map_of selected (RegistrationID observation) = None) ''evidence observation[%d] has extra registration id %q''
           [show_nat index, RegistrationID observation],
         error_when (RegistrationID observation \<in> seen) ''evidence observations contain duplicate registration id %q''
           [RegistrationID observation],
         (case map_of selected (RegistrationID observation) of
            None \<Rightarrow> None
          | Some registration \<Rightarrow> validateRegistered registration observation
              (case expectedBindings (regProducer registration) of None \<Rightarrow> zeroBinding | Some binding \<Rightarrow> binding))] of
        Some e \<Rightarrow> Inl e
      | None \<Rightarrow> scanObservations expectedBindings selected (Suc index) (insert (RegistrationID observation) seen) observations)"

definition ValidateObservations ::
  "EvidenceRegistry \<Rightarrow> SemanticObservation list \<Rightarrow> (string \<rightharpoonup> ObservationBinding) \<Rightarrow> go_error option" where
  "ValidateObservations registry observations expectedBindings =
     (case validateRegistry registry of
        Some e \<Rightarrow> Some e
      | None \<Rightarrow>
          (case selectRegistrations expectedBindings [] (Registrations registry) of
             Inl e \<Rightarrow> Some e
           | Inr selected \<Rightarrow>
               (case scanObservations expectedBindings selected 0 {} observations of
                  Inl e \<Rightarrow> Some e
                | Inr seen \<Rightarrow> first_error (map (\<lambda>registration.
                    error_when (map_of selected (regID registration) \<noteq> None \<and> regID registration \<notin> seen)
                      ''evidence registration %q has no observation'' [regID registration]) (Registrations registry)))))"

text \<open>The registrations whose producer has a binding, and what an observation must be for one of them.\<close>

definition selectedRegistrations :: "EvidenceRegistry \<Rightarrow> (string \<rightharpoonup> ObservationBinding) \<Rightarrow> Registration list" where
  "selectedRegistrations registry bindings = filter (\<lambda>registration. bindings (regProducer registration) \<noteq> None) (Registrations registry)"

definition observes :: "SemanticObservation \<Rightarrow> Registration \<Rightarrow> bool" where
  "observes obs r \<longleftrightarrow> RegistrationID obs = regID r \<and> obsCategory obs = regCategory r \<and> obsLayer obs = regLayer r \<and>
     obsFeature obs = regFeature r \<and> ProducerID obs = regProducer r \<and> obsTest obs = regTest r \<and> obsBoundary obs = regBoundary r \<and>
     resultOutcome (obsResult obs) = expOutcome (Expected r) \<and> MinimumCases (Expected r) \<le> CaseCount (obsResult obs) \<and>
     rangeMinimum (Diagnostics (Expected r)) \<le> resultDiagnostics (obsResult obs) \<and>
     (\<forall>m. rangeMaximum (Diagnostics (Expected r)) = Some m \<longrightarrow> resultDiagnostics (obsResult obs) \<le> m) \<and>
     obsStages obs = RequiredStages (Expected r) \<and> obsProperties obs = RequiredProperties (Expected r) \<and>
     obsDimensions obs = RequiredDimensions (Expected r)"

lemma registrations_None:
  "validateRegistrations index known keys previousID rs = None \<Longrightarrow>
    distinct (map regID rs) \<and> set (map regID rs) \<inter> known = {} \<and> distinct (map categoryLayerKey rs) \<and>
    set (map categoryLayerKey rs) \<inter> keys = {} \<and> (\<forall>r\<in>set rs. \<exists>index. validateRegistration r index = None)"
proof (induction rs arbitrary: index known keys previousID)
  case (Cons r rs)
  have v: "validateRegistration r index = None" "regID r \<notin> known" "categoryLayerKey r \<notin> keys"
    "validateRegistrations (Suc index) (insert (regID r) known) (insert (categoryLayerKey r) keys) (regID r) rs = None"
    using Cons.prems by auto
  show ?case using Cons.IH [OF v(4)] v(1-3) by auto
qed simp

lemma registry_distinct:
  "validateRegistry registry = None \<Longrightarrow> distinct (map regID (Registrations registry)) \<and> Registrations registry \<noteq> []"
  by (auto simp: validateRegistry_def dest: registrations_None)

lemma selectRegistrations_ok:
  "distinct (map fst selected @ map regID rs) \<Longrightarrow> selectRegistrations bindings selected rs = Inr selected' \<longleftrightarrow>
    selected' = selected @ map (\<lambda>r. (regID r, r)) (filter (\<lambda>r. bindings (regProducer r) \<noteq> None) rs) \<and>
    (\<forall>r\<in>set rs. \<forall>b. bindings (regProducer r) = Some b \<longrightarrow> validateObservationBinding b = None \<and> bindingSubgate b = regProducer r)"
proof (induction rs arbitrary: selected)
  case (Cons r rs)
  show ?case
  proof (cases "bindings (regProducer r)")
    case None
    then show ?thesis using Cons by simp
  next
    case (Some b)
    have new: "AList.update (regID r) r selected = selected @ [(regID r, r)]" using Cons.prems by (simp add: update_new)
    have "distinct (map fst (selected @ [(regID r, r)]) @ map regID rs)" using Cons.prems by auto
    from Cons.IH [OF this] show ?thesis using Some new by auto
  qed
qed auto

lemma scanObservations_ok:
  "scanObservations bindings selected index seen obs = Inr seen' \<longleftrightarrow>
    seen' = seen \<union> RegistrationID ` set obs \<and> distinct (map RegistrationID obs) \<and> RegistrationID ` set obs \<inter> seen = {} \<and>
    (\<forall>ob\<in>set obs. validateObservation ob = None \<and> (\<exists>r. map_of selected (RegistrationID ob) = Some r \<and>
      validateRegistered r ob (case bindings (regProducer r) of None \<Rightarrow> zeroBinding | Some b \<Rightarrow> b) = None))"
proof (induction obs arbitrary: index seen)
  case (Cons ob obs)
  then show ?case by (cases "map_of selected (RegistrationID ob)") auto
qed auto

lemma registered_None:
  "validateRegistered r ob binding = None \<and> RegistrationID ob = regID r \<longleftrightarrow> obsBinding ob = binding \<and> observes ob r"
  by (auto simp: validateRegistered_def observes_def validateCount_def not_less split: option.splits)

lemma map_of_selected:
  "distinct (map regID rs) \<Longrightarrow> map_of (map (\<lambda>r. (regID r, r)) rs) i = Some r \<longleftrightarrow> r \<in> set rs \<and> regID r = i"
  by (subst map_of_eq_Some_iff) (auto simp: comp_def)

lemma census_exact:
  "ValidateObservations registry observations bindings = None \<longleftrightarrow>
    validateRegistry registry = None \<and>
    (\<forall>r\<in>set (selectedRegistrations registry bindings).
       validateObservationBinding (the (bindings (regProducer r))) = None \<and> bindingSubgate (the (bindings (regProducer r))) = regProducer r) \<and>
    mset (map RegistrationID observations) = mset (map regID (selectedRegistrations registry bindings)) \<and>
    (\<forall>ob\<in>set observations. validateObservation ob = None \<and>
       (\<exists>r\<in>set (selectedRegistrations registry bindings). observes ob r \<and> bindings (regProducer r) = Some (obsBinding ob)))"
  (is "_ \<longleftrightarrow> ?valid \<and> ?bound \<and> ?same \<and> ?each")
proof (cases ?valid)
  case True
  let ?rs = "Registrations registry" and ?sel = "selectedRegistrations registry bindings"
  let ?selected = "map (\<lambda>r. (regID r, r)) ?sel"
  have d: "distinct (map regID ?rs)" using registry_distinct [OF True] by simp
  then have dsel: "distinct (map regID ?sel)" by (simp add: selectedRegistrations_def distinct_map_filter)
  have bound: "?bound \<longleftrightarrow> (\<forall>r\<in>set ?rs. \<forall>b. bindings (regProducer r) = Some b \<longrightarrow> validateObservationBinding b = None \<and> bindingSubgate b = regProducer r)"
    by (auto simp: selectedRegistrations_def)
  have select: "selectRegistrations bindings [] ?rs = Inr selected' \<longleftrightarrow> selected' = ?selected \<and> ?bound" for selected'
    unfolding bound using selectRegistrations_ok [of "[]" ?rs bindings selected'] d by (simp add: selectedRegistrations_def)
  have entry: "map_of ?selected (RegistrationID ob) = Some r \<and>
      validateRegistered r ob (case bindings (regProducer r) of None \<Rightarrow> zeroBinding | Some b \<Rightarrow> b) = None \<longleftrightarrow>
      r \<in> set ?sel \<and> observes ob r \<and> bindings (regProducer r) = Some (obsBinding ob)" for ob r
    using registered_None [of r ob "the (bindings (regProducer r))"] unfolding map_of_selected [OF dsel]
    by (auto simp: selectedRegistrations_def)
  have missing: "map_of ?selected (regID r) \<noteq> None \<longleftrightarrow> r \<in> set ?sel" if "r \<in> set ?rs" for r
    using map_of_selected [OF dsel, of "regID r"] d that by (auto simp: selectedRegistrations_def distinct_map inj_on_def)
  have last: "first_error (map (\<lambda>r. error_when (map_of ?selected (regID r) \<noteq> None \<and> regID r \<notin> seen)
        ''evidence registration %q has no observation'' [regID r]) ?rs) = None \<longleftrightarrow> regID ` set ?sel \<subseteq> seen" for seen
  proof -
    have "(map_of ?selected (regID r) \<noteq> None \<and> regID r \<notin> seen) \<longleftrightarrow> r \<in> set ?sel \<and> regID r \<notin> seen" if "r \<in> set ?rs" for r
      using missing [OF that] by blast
    then have "?thesis \<longleftrightarrow> ((\<forall>r\<in>set ?rs. \<not> (r \<in> set ?sel \<and> regID r \<notin> seen)) \<longleftrightarrow> regID ` set ?sel \<subseteq> seen)" by simp
    then show ?thesis by (auto simp: selectedRegistrations_def)
  qed
  have scan: "scanObservations bindings ?selected 0 {} observations = Inr seen \<longleftrightarrow>
      seen = RegistrationID ` set observations \<and> distinct (map RegistrationID observations) \<and> ?each" for seen
    unfolding scanObservations_ok using entry by blast
  have same: "?same \<longleftrightarrow> distinct (map RegistrationID observations) \<and> regID ` set ?sel \<subseteq> RegistrationID ` set observations" if ?each
  proof -
    have "RegistrationID ` set observations \<subseteq> regID ` set ?sel" using that by (auto simp: observes_def)
    then show ?thesis using dsel by (metis (no_types, lifting) mset_eq_imp_distinct_iff set_eq_iff_mset_eq_distinct set_map set_mset_mset subset_antisym order_refl)
  qed
  show ?thesis
  proof (cases "?bound \<and> distinct (map RegistrationID observations) \<and> ?each")
    case ok: True
    have "selectRegistrations bindings [] ?rs = Inr ?selected" using select ok by blast
    moreover have "scanObservations bindings ?selected 0 {} observations = Inr (RegistrationID ` set observations)" using scan ok by blast
    ultimately have "ValidateObservations registry observations bindings = None \<longleftrightarrow> regID ` set ?sel \<subseteq> RegistrationID ` set observations"
      by (simp only: ValidateObservations_def True option.case sum.case last)
    then show ?thesis using same ok True by blast
  next
    case bad: False
    have "ValidateObservations registry observations bindings \<noteq> None"
    proof (cases "selectRegistrations bindings [] ?rs")
      case (Inl e)
      then show ?thesis by (simp add: ValidateObservations_def True)
    next
      case (Inr selected')
      then have "selected' = ?selected" "?bound" using select by blast+
      moreover obtain e where "scanObservations bindings ?selected 0 {} observations = Inl e"
        using scan bad \<open>?bound\<close> by (cases "scanObservations bindings ?selected 0 {} observations") blast+
      ultimately show ?thesis using Inr by (simp add: ValidateObservations_def True)
    qed
    moreover have "\<not> (?bound \<and> ?same \<and> ?each)" using bad same by blast
    ultimately show ?thesis by blast
  qed
qed (auto simp: ValidateObservations_def split: option.splits)

text \<open>C38. The census accepts exactly the complete evidence: the observations are, up to order, one for every registration
  whose producer is selected and none beside, each derived from its own executed cases, bound to its producer's
  command in this run, and with the outcome, the minimum of cases, the diagnostics, the stages, the properties
  and the dimensions the registry requires.\<close>
theorem evidence_census_exact:
  "ValidateObservations registry observations bindings = None \<longleftrightarrow>
    validateRegistry registry = None \<and>
    (\<forall>r\<in>set (selectedRegistrations registry bindings).
       validateObservationBinding (the (bindings (regProducer r))) = None \<and> bindingSubgate (the (bindings (regProducer r))) = regProducer r) \<and>
    mset (map RegistrationID observations) = mset (map regID (selectedRegistrations registry bindings)) \<and>
    (\<forall>ob\<in>set observations. validateObservation ob = None \<and>
       (\<exists>r\<in>set (selectedRegistrations registry bindings). observes ob r \<and> bindings (regProducer r) = Some (obsBinding ob)))"
  by (rule census_exact)

section \<open>Examples\<close>

definition exampleBinding :: ObservationBinding where
  "exampleBinding = \<lparr>bindingRun = ''run-1'', bindingWorkspace = sampleDigest, bindingManifest = sampleDigest, bindingCommand = sampleDigest,
     bindingSubgate = ''generated-oracle''\<rparr>"

definition exampleCase :: SemanticCase where
  "exampleCase = \<lparr>caseID = ''alias-copy'', caseCategory = ''unvalidated-cast'', caseLayer = LayerGenerated, caseFeature = ''alias'',
     caseBoundary = BoundaryIndependentModel, caseBoundaries = [BoundaryIndependentModel, BoundaryProductionAnalyzer],
     caseOutcome = ''model-agrees'', caseDiagnostics = 1, caseStages = [''propagation''],
     caseProperties = [''production-analyzer-executed''], caseDimensions = [''alias'']\<rparr>"

definition exampleObservation :: SemanticObservation where
  "exampleObservation = \<lparr>obsFormat = ObservationFormatVersion, obsBinding = exampleBinding, RegistrationID = ''cast-generated'',
     obsCategory = ''unvalidated-cast'', obsLayer = LayerGenerated, obsFeature = ''alias'', ProducerID = ''generated-oracle'',
     obsTest = ''TestOracle'', obsBoundary = BoundaryIndependentModel,
     obsBoundaries = [BoundaryIndependentModel, BoundaryProductionAnalyzer],
     obsResult = \<lparr>resultOutcome = ''model-agrees'', CaseCount = 1, resultDiagnostics = 1\<rparr>, obsStages = [''propagation''],
     obsProperties = [''production-analyzer-executed''], obsDimensions = [''alias''], obsCases = [exampleCase]\<rparr>"

definition exampleRegistration :: Registration where
  "exampleRegistration = \<lparr>regID = ''cast-generated'', regCategory = ''unvalidated-cast'', regLayer = LayerGenerated, regFeature = ''alias'',
     regProducer = ''generated-oracle'', regTest = ''TestOracle'', regBoundary = BoundaryIndependentModel,
     Expected = \<lparr>expOutcome = ''model-agrees'', MinimumCases = 1, Diagnostics = \<lparr>rangeMinimum = 1, rangeMaximum = Some 1\<rparr>,
       RequiredStages = [''propagation''], RequiredProperties = [''production-analyzer-executed''], RequiredDimensions = [''alias'']\<rparr>\<rparr>"

definition exampleRegistry :: EvidenceRegistry where
  "exampleRegistry = \<lparr>registryFormat = RegistryFormatVersion, Registrations = [exampleRegistration]\<rparr>"

definition exampleBindings :: "string \<rightharpoonup> ObservationBinding" where
  "exampleBindings = [''generated-oracle'' \<mapsto> exampleBinding]"

lemma example_census: "ValidateObservations exampleRegistry [exampleObservation] exampleBindings = None"
  by code_simp

lemma evidence_census_exact_witness:
  "validateRegistry exampleRegistry = None \<and> validateObservation exampleObservation = None \<and>
    mset (map RegistrationID [exampleObservation]) = mset (map regID (selectedRegistrations exampleRegistry exampleBindings)) \<and>
    (\<exists>r. observes exampleObservation r \<and> exampleBindings (regProducer r) = Some exampleBinding)"
proof -
  note accepted = example_census [unfolded evidence_census_exact]
  have "obsBinding exampleObservation = exampleBinding" by (simp add: exampleObservation_def)
  then show ?thesis using accepted by auto
qed

end
