(* ===== verification/Soundness_Manifest.thy ===== *)
theory Soundness_Manifest imports Evidence begin
text \<open>
  The manifest of the soundness gate and the reports checked against it
  (\<open>internal/soundnessgate/model.go\<close>, \<open>manifest_resources.go\<close>, \<open>observed_members.go\<close>,
  \<open>createSubgateBinding\<close> of \<open>runner.go\<close>): subgates with their commands, dependencies, evidence and
  populations, the reviewed profiles, the report of one subgate and the retained report of a run.
\<close>

section \<open>The data\<close>

definition cleanTreeFreshnessID :: string where [go_const]: "cleanTreeFreshnessID = ''clean-tree-freshness''"
definition ManifestFormatVersion :: int where [go_const]: "ManifestFormatVersion = 1"
definition ReportFormatVersion :: int where [go_const]: "ReportFormatVersion = 1"
definition RunReportFormatVersion :: int where [go_const]: "RunReportFormatVersion = 1"
definition ProfileConsumer :: string where [go_const]: "ProfileConsumer = ''consumer''"
definition ProfileHarness :: string where [go_const]: "ProfileHarness = ''harness''"
definition ProfileSemantic :: string where [go_const]: "ProfileSemantic = ''semantic''"
definition ProfileComplete :: string where [go_const]: "ProfileComplete = ''complete''"
definition StatusPassed :: string where [go_const]: "StatusPassed = ''passed''"

record ManifestProfile =
  profileID :: string
  SubgateIDs :: "string list"

record Subgate =
  subgateID :: string
  subgateDirectory :: string
  subgateCommand :: "string list"
  subgateDependencies :: "string list"
  subgateCPU :: int
  EstimatedPeakMemoryBytes :: int
  subgateGroups :: "string list"
  subgateDistributable :: bool
  ProfileIDs :: "string list"
  subgateTimeout :: int
  subgateReportFile :: string
  subgateRegistrations :: "string list"
  subgatePopulations :: "PopulationRequirement list"

record SoundnessManifest =
  manifestFormat :: int
  RegistryPath :: string
  Profiles :: "ManifestProfile list"
  Subgates :: "Subgate list"

record Population =
  populationName :: string
  Count :: int

record SubgateReport =
  reportFormat :: int
  reportBinding :: ObservationBinding
  Status :: string
  reportPopulations :: "Population list"

record SubgateResult =
  resultID :: string
  resultCommandDigest :: string
  resultReportDigest :: string
  resultPopulations :: "Population list"

record RunReport =
  runFormat :: int
  runProfile :: string
  RunID :: string
  runWorkspace :: string
  runManifest :: string
  runSubgates :: "SubgateResult list"
  runObservations :: "SemanticObservation list"

section \<open>Subgates\<close>

definition subgateField :: "nat \<Rightarrow> string \<Rightarrow> string" where
  "subgateField index field = ''soundness manifest subgates['' @ show_nat index @ ''].'' @ field"

fun validateSubgateCommand :: "nat \<Rightarrow> nat \<Rightarrow> string list \<Rightarrow> go_error option" where
  "validateSubgateCommand index argumentIndex [] = None"
| "validateSubgateCommand index argumentIndex (argument # arguments) = first_error
     [error_when (strings_TrimSpace argument = []) ''soundness manifest subgates[%d].command[%d] is empty''
        [show_nat index, show_nat argumentIndex],
      validateSubgateCommand index (Suc argumentIndex) arguments]"

fun validateProfileIDs :: "nat \<Rightarrow> string \<Rightarrow> nat \<Rightarrow> string set \<Rightarrow> string list \<Rightarrow> go_error option" where
  "validateProfileIDs index ID profileIndex seen [] = None"
| "validateProfileIDs index ID profileIndex seen (profile # profiles) = first_error
     [validateIdentifier (subgateField index ''profile_ids['' @ show_nat profileIndex @ '']'') profile,
      error_when (profile \<in> seen) ''soundness manifest subgate %q contains duplicate profile id %q'' [ID, profile],
      validateProfileIDs index ID (Suc profileIndex) (insert profile seen) profiles]"

fun validateRequirements :: "nat \<Rightarrow> string \<Rightarrow> nat \<Rightarrow> string set \<Rightarrow> string \<Rightarrow> PopulationRequirement list \<Rightarrow> go_error option" where
  "validateRequirements index ID populationIndex seen previousID [] = None"
| "validateRequirements index ID populationIndex seen previousID (population # populations) = first_error
     [validateIdentifier (subgateField index ''required_populations['' @ show_nat populationIndex @ ''].id'') (populationID population),
      error_when (Minimum population \<le> 0) ''soundness manifest subgates[%d].required_populations[%d].minimum = %d, want positive''
        [show_nat index, show_nat populationIndex, show_int (Minimum population)],
      error_when (populationID population \<in> seen) ''soundness manifest subgate %q contains duplicate population id %q''
        [ID, populationID population],
      error_when (previousID \<noteq> [] \<and> populationID population < previousID)
        ''soundness manifest subgate %q populations must use canonical id order'' [ID],
      validateRequirements index ID (Suc populationIndex) (insert (populationID population) seen) (populationID population) populations]"

definition validateSubgate :: "Subgate \<Rightarrow> nat \<Rightarrow> go_error option" where
  "validateSubgate subgate index = first_error
     [validateIdentifier (subgateField index ''id'') (subgateID subgate),
      validateRepositoryPath (subgateField index ''working_directory'') (subgateDirectory subgate) True,
      error_when (subgateCommand subgate = []) ''soundness manifest subgates[%d].command is empty'' [show_nat index],
      validateSubgateCommand index 0 (subgateCommand subgate),
      validateCanonicalIdentifiers (subgateField index ''dependencies'') (subgateDependencies subgate),
      error_when (subgateCPU subgate \<le> 0) ''soundness manifest subgates[%d].cpu_units = %d, want positive''
        [show_nat index, show_int (subgateCPU subgate)],
      error_when (EstimatedPeakMemoryBytes subgate \<le> 0)
        ''soundness manifest subgates[%d].estimated_peak_memory_bytes = %d, want positive''
        [show_nat index, show_int (EstimatedPeakMemoryBytes subgate)],
      validateCanonicalIdentifiers (subgateField index ''exclusivity_groups'') (subgateGroups subgate),
      error_when (ProfileIDs subgate = []) ''soundness manifest subgates[%d].profile_ids is empty'' [show_nat index],
      validateProfileIDs index (subgateID subgate) 0 {} (ProfileIDs subgate),
      error_when (subgateTimeout subgate \<le> 0 \<or> subgateTimeout subgate > maximumTimeoutSeconds)
        ''soundness manifest subgates[%d].timeout_seconds = %d, want 1..%d''
        [show_nat index, show_int (subgateTimeout subgate), show_int maximumTimeoutSeconds],
      validateReportFile index (subgateReportFile subgate),
      validateCanonicalIdentifiers (subgateField index ''required_registration_ids'') (subgateRegistrations subgate),
      error_when (subgatePopulations subgate = []) ''soundness manifest subgates[%d].required_populations is empty'' [show_nat index],
      validateRequirements index (subgateID subgate) 0 {} [] (subgatePopulations subgate)]"

section \<open>Dependencies\<close>

fun validateSubgateDependencies :: "(string \<times> Subgate) list \<Rightarrow> string \<Rightarrow> string list \<Rightarrow> go_error option" where
  "validateSubgateDependencies subgates ID [] = None"
| "validateSubgateDependencies subgates ID (dependencyID # dependencyIDs) = first_error
     [error_when (dependencyID = ID) ''soundness subgate %q depends on itself'' [ID],
      error_when (map_of subgates dependencyID = None) ''soundness subgate %q depends on unknown subgate %q'' [ID, dependencyID],
      validateSubgateDependencies subgates ID dependencyIDs]"

definition subgatesByID :: "Subgate list \<Rightarrow> (string \<times> Subgate) list" where
  "subgatesByID subgates = foldl (\<lambda>m subgate. AList.update (subgateID subgate) subgate m) [] subgates"

definition dependenciesOf :: "(string \<times> Subgate) list \<Rightarrow> (string \<times> string list) list" where
  "dependenciesOf subgates = map (\<lambda>(ID, subgate). (ID, subgateDependencies subgate)) subgates"

definition manifestCycle :: "string \<Rightarrow> go_error" where
  "manifestCycle ID = Errorf ''soundness manifest dependency cycle includes %q'' [ID]"

text \<open>The search is the one of the execution plan, with its own error.\<close>

definition validateDependencies :: "SoundnessManifest \<Rightarrow> go_error option" where
  "validateDependencies manifest =
     (let subgates = subgatesByID (Subgates manifest) in first_error
        [first_error (map (\<lambda>subgate. validateSubgateDependencies subgates (subgateID subgate) (subgateDependencies subgate)) (Subgates manifest)),
         (case visitUnits manifestCycle (dependenciesOf subgates) {} {} (map subgateID (Subgates manifest)) of
            Inl e \<Rightarrow> Some e | Inr _ \<Rightarrow> None)])"

section \<open>Profiles\<close>

definition validateSubgateProfileMembership :: "SoundnessManifest \<Rightarrow> go_error option" where
  "validateSubgateProfileMembership manifest = first_error (map (\<lambda>subgate.
     error_when (ProfileIDs subgate \<noteq> map profileID (filter (\<lambda>profile. subgateID subgate \<in> set (SubgateIDs profile)) (Profiles manifest)))
       ''soundness subgate %q profile_ids = %q, want %q from profile selections'' [subgateID subgate]) (Subgates manifest))"

fun validateEachProfile :: "string list \<Rightarrow> nat \<Rightarrow> ManifestProfile list \<Rightarrow> go_error option" where
  "validateEachProfile allSubgateIDs index [] = None"
| "validateEachProfile allSubgateIDs index (profile # profiles) = first_error
     [error_when (SubgateIDs profile = []) ''soundness manifest profiles[%d].subgate_ids is empty'' [show_nat index],
      validateCanonicalIdentifiers (''soundness manifest profiles['' @ show_nat index @ ''].subgate_ids'') (SubgateIDs profile),
      first_error (map (\<lambda>ID. error_when (ID \<notin> set allSubgateIDs) ''soundness profile %q references unknown subgate %q''
        [profileID profile, ID]) (SubgateIDs profile)),
      validateEachProfile allSubgateIDs (Suc index) profiles]"

definition validateProfiles :: "SoundnessManifest \<Rightarrow> go_error option" where
  "validateProfiles manifest =
     (case Profiles manifest of
        [complete, consumer, harness, semantic] \<Rightarrow>
          if profileID complete = ProfileComplete \<and> profileID consumer = ProfileConsumer \<and> profileID harness = ProfileHarness \<and>
             profileID semantic = ProfileSemantic
          then (let allSubgateIDs = map subgateID (Subgates manifest); completeIDs = SubgateIDs complete;
                    consumerIDs = SubgateIDs consumer; harnessIDs = SubgateIDs harness; semanticIDs = SubgateIDs semantic;
                    unusedIDs = filter (\<lambda>ID. \<not> (ID \<in> set completeIDs \<or> ID \<in> set consumerIDs)) allSubgateIDs in first_error
            [validateEachProfile allSubgateIDs 0 (Profiles manifest),
             error_when (cleanTreeFreshnessID \<notin> set completeIDs) ''soundness complete profile omits %q'' [cleanTreeFreshnessID],
             error_when (completeIDs \<noteq> sort (semanticIDs @ [cleanTreeFreshnessID]))
               ''soundness complete profile must equal semantic plus %q'' [cleanTreeFreshnessID],
             error_when (cleanTreeFreshnessID \<in> set semanticIDs \<or> cleanTreeFreshnessID \<in> set consumerIDs \<or>
                 cleanTreeFreshnessID \<in> set harnessIDs) ''soundness non-completion profile includes %q'' [cleanTreeFreshnessID],
             error_when (consumerIDs = [] \<or> harnessIDs = [] \<or> semanticIDs = [])
               ''soundness consumer, harness, and semantic profiles must be non-empty'' [],
             first_error (map (\<lambda>ID. error_when (ID \<notin> set harnessIDs) ''soundness harness profile must cover consumer subgate %q'' [ID])
               consumerIDs),
             error_when (unusedIDs \<noteq> []) ''soundness manifest has subgates absent from all profiles: %v'' unusedIDs,
             error_when (semanticIDs \<noteq> filter (\<lambda>ID. ID \<noteq> cleanTreeFreshnessID) completeIDs)
               ''soundness semantic profile must contain every completion subgate except %q'' [cleanTreeFreshnessID],
             validateSubgateProfileMembership manifest])
          else Some (Errorf ''soundness manifest profiles must be canonical complete, consumer, harness, then semantic'' [])
      | _ \<Rightarrow> Some (Errorf ''soundness manifest profiles must be canonical complete, consumer, harness, then semantic'' []))"

fun findSubgates :: "(string \<times> Subgate) list \<Rightarrow> string \<Rightarrow> string list \<Rightarrow> go_error + Subgate list" where
  "findSubgates subgates profile [] = Inr []"
| "findSubgates subgates profile (ID # IDs) =
     (case map_of subgates ID of
        None \<Rightarrow> Inl (Errorf ''soundness profile %q references unknown subgate %q'' [profile, ID])
      | Some subgate \<Rightarrow> map_sum (\<lambda>e. e) (\<lambda>rest. subgate # rest) (findSubgates subgates profile IDs))"

definition SubgatesForProfile :: "SoundnessManifest \<Rightarrow> string \<Rightarrow> go_error + Subgate list" where
  "SubgatesForProfile manifest profile =
     (case find (\<lambda>p. profileID p = profile) (Profiles manifest) of
        None \<Rightarrow> Inl (Errorf ''soundness manifest has no profile %q'' [profile])
      | Some selected \<Rightarrow> findSubgates (subgatesByID (Subgates manifest)) profile (SubgateIDs selected))"

section \<open>The manifest\<close>

fun ownRegistrations ::
  "(string \<times> Registration) list \<Rightarrow> string \<Rightarrow> string set \<Rightarrow> string list \<Rightarrow> go_error + string set" where
  "ownRegistrations registryByID ID seen [] = Inr seen"
| "ownRegistrations registryByID ID seen (registrationID # registrationIDs) =
     (case map_of registryByID registrationID of
        None \<Rightarrow> Inl (Errorf ''soundness subgate %q requires extra registration %q'' [ID, registrationID])
      | Some registration \<Rightarrow>
          if regProducer registration \<noteq> ID then
            Inl (Errorf ''soundness subgate %q requires registration %q owned by producer %q'' [ID, registrationID, regProducer registration])
          else if registrationID \<in> seen then
            Inl (Errorf ''soundness manifest requires registration %q more than once'' [registrationID])
          else ownRegistrations registryByID ID (insert registrationID seen) registrationIDs)"

fun scanSubgates ::
  "(string \<times> Registration) list \<Rightarrow> nat \<Rightarrow> string set \<Rightarrow> string set \<Rightarrow> string \<Rightarrow> Subgate list \<Rightarrow> go_error + string set \<times> string set" where
  "scanSubgates registryByID index seenSubgates seenRegistrations previousID [] = Inr (seenSubgates, seenRegistrations)"
| "scanSubgates registryByID index seenSubgates seenRegistrations previousID (subgate # subgates) =
     (case first_error
        [validateSubgate subgate index,
         error_when (subgateID subgate \<in> seenSubgates) ''soundness manifest contains duplicate subgate id %q'' [subgateID subgate],
         error_when (previousID \<noteq> [] \<and> subgateID subgate < previousID)
           ''soundness manifest subgates must use canonical id order: %q precedes %q'' [subgateID subgate, previousID]] of
        Some e \<Rightarrow> Inl e
      | None \<Rightarrow>
          (case ownRegistrations registryByID (subgateID subgate) seenRegistrations (subgateRegistrations subgate) of
             Inl e \<Rightarrow> Inl e
           | Inr seenRegistrations' \<Rightarrow> scanSubgates registryByID (Suc index) (insert (subgateID subgate) seenSubgates)
               seenRegistrations' (subgateID subgate) subgates))"

definition registrationsByID :: "Registration list \<Rightarrow> (string \<times> Registration) list" where
  "registrationsByID registrations = foldl (\<lambda>m r. AList.update (regID r) r m) [] registrations"

definition ValidateManifest :: "SoundnessManifest \<Rightarrow> EvidenceRegistry \<Rightarrow> go_error option" where
  "ValidateManifest manifest registry =
     (case first_error
        [error_when (manifestFormat manifest \<noteq> ManifestFormatVersion) ''soundness manifest format_version = %d, want %d''
           [show_int (manifestFormat manifest), show_int ManifestFormatVersion],
         validateRepositoryPath ''soundness manifest registry_path'' (RegistryPath manifest) False,
         error_when (Subgates manifest = []) ''soundness manifest has no subgates'' [],
         wrap_error ''soundness manifest registry: %w'' [] (validateRegistry registry)] of
        Some e \<Rightarrow> Some e
      | None \<Rightarrow>
          (case scanSubgates (registrationsByID (Registrations registry)) 0 {} {} [] (Subgates manifest) of
             Inl e \<Rightarrow> Some e
           | Inr (seenSubgates, seenRegistrations) \<Rightarrow>
               (case first_error
                  [first_error (map (\<lambda>registration. first_error
                     [error_when (regProducer registration \<notin> seenSubgates) ''evidence registration %q has unknown producer subgate %q''
                        [regID registration, regProducer registration],
                      error_when (regID registration \<notin> seenRegistrations)
                        ''evidence registration %q is missing from its producer subgate'' [regID registration]]) (Registrations registry)),
                   validateDependencies manifest,
                   validateProfiles manifest] of
                  Some e \<Rightarrow> Some e
                | None \<Rightarrow>
                    (case SubgatesForProfile manifest ProfileSemantic of
                       Inl e \<Rightarrow> Some e
                     | Inr semanticSubgates \<Rightarrow> first_error (map (\<lambda>registration.
                         error_when (regProducer registration \<notin> subgateID ` set semanticSubgates)
                           ''evidence registration %q producer %q is absent from the semantic profile''
                           [regID registration, regProducer registration]) (Registrations registry))))))"

section \<open>Reports\<close>

fun validateReported :: "nat \<Rightarrow> string set \<Rightarrow> string \<Rightarrow> Population list \<Rightarrow> go_error option" where
  "validateReported index seen previousID [] = None"
| "validateReported index seen previousID (population # populations) = first_error
     [validateIdentifier (''soundness report populations['' @ show_nat index @ ''].id'') (populationName population),
      error_when (Count population < 0) ''soundness report populations[%d].count = %d, want non-negative''
        [show_nat index, show_int (Count population)],
      error_when (populationName population \<in> seen) ''soundness report contains duplicate population id %q'' [populationName population],
      error_when (previousID \<noteq> [] \<and> populationName population < previousID)
        ''soundness report populations must use canonical id order: %q precedes %q'' [populationName population, previousID],
      validateReported (Suc index) (insert (populationName population) seen) (populationName population) populations]"

definition validateSubgateReport :: "SubgateReport \<Rightarrow> go_error option" where
  "validateSubgateReport report = first_error
     [error_when (reportFormat report \<noteq> ReportFormatVersion) ''soundness report format_version = %d, want %d''
        [show_int (reportFormat report), show_int ReportFormatVersion],
      wrap_error ''validate soundness report binding: %w'' [] (validateObservationBinding (reportBinding report)),
      error_when (Status report \<noteq> StatusPassed) ''soundness report status = %q, want %q'' [Status report, StatusPassed],
      error_when (reportPopulations report = []) ''soundness report has no populations'' [],
      validateReported 0 {} [] (reportPopulations report)]"

fun comparePopulations :: "string \<Rightarrow> nat \<Rightarrow> PopulationRequirement list \<Rightarrow> Population list \<Rightarrow> go_error option" where
  "comparePopulations ID index (required # requireds) (population # populations) = first_error
     [error_when (populationName population \<noteq> populationID required) ''soundness subgate %q report population[%d].id = %q, want %q''
        [ID, show_nat index, populationName population, populationID required],
      error_when (Count population < Minimum required) ''soundness subgate %q population %q count = %d, want at least %d''
        [ID, populationName population, show_int (Count population), show_int (Minimum required)],
      comparePopulations ID (Suc index) requireds populations]"
| "comparePopulations ID index _ _ = None"

definition ValidateReport :: "Subgate \<Rightarrow> SubgateReport \<Rightarrow> ObservationBinding \<Rightarrow> go_error option" where
  "ValidateReport subgate report expectedBinding = first_error
     [wrap_error ''soundness subgate %q report: %w'' [subgateID subgate] (validateSubgateReport report),
      error_when (reportBinding report \<noteq> expectedBinding) ''soundness subgate %q report has a stale or mismatched binding'' [subgateID subgate],
      error_when (length (reportPopulations report) \<noteq> length (subgatePopulations subgate))
        ''soundness subgate %q report population count = %d, want exactly %d''
        [subgateID subgate, show_nat (length (reportPopulations report)), show_nat (length (subgatePopulations subgate))],
      comparePopulations (subgateID subgate) 0 (subgatePopulations subgate) (reportPopulations report)]"

definition resultField :: "nat \<Rightarrow> string \<Rightarrow> string" where
  "resultField index field = ''soundness run report subgates['' @ show_nat index @ ''].'' @ field"

fun validateResultPopulations :: "nat \<Rightarrow> string \<Rightarrow> nat \<Rightarrow> string set \<Rightarrow> string \<Rightarrow> Population list \<Rightarrow> go_error option" where
  "validateResultPopulations index ID populationIndex seen previousID [] = None"
| "validateResultPopulations index ID populationIndex seen previousID (population # populations) = first_error
     [validateIdentifier (resultField index ''populations['' @ show_nat populationIndex @ ''].id'') (populationName population),
      error_when (Count population \<le> 0) ''soundness run report subgates[%d].populations[%d].count = %d, want positive''
        [show_nat index, show_nat populationIndex, show_int (Count population)],
      error_when (populationName population \<in> seen) ''soundness run report subgate %q has duplicate population %q''
        [ID, populationName population],
      error_when (previousID \<noteq> [] \<and> populationName population < previousID)
        ''soundness run report subgate %q populations must use canonical id order'' [ID],
      validateResultPopulations index ID (Suc populationIndex) (insert (populationName population) seen) (populationName population)
        populations]"

definition validateSubgateResult :: "SubgateResult \<Rightarrow> nat \<Rightarrow> go_error option" where
  "validateSubgateResult result index = first_error
     [validateIdentifier (resultField index ''id'') (resultID result),
      wrap_error ''validate soundness run report subgate command digest: %w'' []
        (ValidateDigest (resultField index ''command_digest'') (resultCommandDigest result)),
      wrap_error ''validate soundness run report subgate report digest: %w'' []
        (ValidateDigest (resultField index ''report_digest'') (resultReportDigest result)),
      error_when (resultPopulations result = []) ''soundness run report subgates[%d].populations is empty'' [show_nat index],
      validateResultPopulations index (resultID result) 0 {} [] (resultPopulations result)]"

fun scanResultsOf :: "nat \<Rightarrow> (string \<times> string) list \<Rightarrow> string \<Rightarrow> SubgateResult list \<Rightarrow> go_error + (string \<times> string) list" where
  "scanResultsOf index commandDigests previousID [] = Inr commandDigests"
| "scanResultsOf index commandDigests previousID (result # results) =
     (case first_error
        [validateSubgateResult result index,
         error_when (map_of commandDigests (resultID result) \<noteq> None) ''soundness run report contains duplicate subgate id %q'' [resultID result],
         error_when (previousID \<noteq> [] \<and> resultID result < previousID) ''soundness run report subgates must use canonical id order'' []] of
        Some e \<Rightarrow> Inl e
      | None \<Rightarrow> scanResultsOf (Suc index) (AList.update (resultID result) (resultCommandDigest result) commandDigests) (resultID result) results)"

fun validateRunObservations ::
  "RunReport \<Rightarrow> (string \<times> string) list \<Rightarrow> nat \<Rightarrow> string set \<Rightarrow> string \<Rightarrow> SemanticObservation list \<Rightarrow> go_error option" where
  "validateRunObservations report commandDigests index seen previousID [] = None"
| "validateRunObservations report commandDigests index seen previousID (observation # observations) = first_error
     [wrap_error ''soundness run report observations[%d]: %w'' [show_nat index] (validateObservation observation),
      error_when (RegistrationID observation \<in> seen) ''soundness run report contains duplicate registration id %q'' [RegistrationID observation],
      error_when (previousID \<noteq> [] \<and> RegistrationID observation < previousID)
        ''soundness run report observations must use canonical registration order'' [],
      error_when (bindingRun (obsBinding observation) \<noteq> RunID report \<or> bindingWorkspace (obsBinding observation) \<noteq> runWorkspace report \<or>
          bindingManifest (obsBinding observation) \<noteq> runManifest report)
        ''soundness run report observation %q has stale aggregate identity'' [RegistrationID observation],
      (case map_of commandDigests (ProducerID observation) of
         None \<Rightarrow> Some (Errorf ''soundness run report observation %q has unknown producer %q'' [RegistrationID observation, ProducerID observation])
       | Some commandDigest \<Rightarrow> error_when (bindingCommand (obsBinding observation) \<noteq> commandDigest)
           ''soundness run report observation %q has stale command identity'' [RegistrationID observation]),
      validateRunObservations report commandDigests (Suc index) (insert (RegistrationID observation) seen) (RegistrationID observation)
        observations]"

definition validateRunReport :: "RunReport \<Rightarrow> go_error option" where
  "validateRunReport report =
     (case first_error
        [error_when (runFormat report \<noteq> RunReportFormatVersion) ''soundness run report format_version = %d, want %d''
           [show_int (runFormat report), show_int RunReportFormatVersion],
         error_when (\<not> isKnownProfile (runProfile report)) ''soundness run report profile = %q, want %q, %q, %q, or %q''
           [runProfile report, ProfileConsumer, ProfileHarness, ProfileSemantic, ProfileComplete],
         validateIdentifier ''soundness run report run_id'' (RunID report),
         wrap_error ''validate soundness run report workspace digest: %w'' []
           (ValidateDigest ''soundness run report workspace_digest'' (runWorkspace report)),
         wrap_error ''validate soundness run report manifest digest: %w'' []
           (ValidateDigest ''soundness run report manifest_digest'' (runManifest report)),
         error_when (runSubgates report = []) ''soundness run report has no subgates'' []] of
        Some e \<Rightarrow> Some e
      | None \<Rightarrow>
          (case scanResultsOf 0 [] [] (runSubgates report) of
             Inl e \<Rightarrow> Some e
           | Inr commandDigests \<Rightarrow> validateRunObservations report commandDigests 0 {} [] (runObservations report)))"

text \<open>\<open>subgateCommandDigest\<close> is \<open>CommandDigest\<close> of \<open>io.go\<close>: the digest of a command's identity.\<close>

definition subgateCommandDigest :: "planDigests \<Rightarrow> Subgate \<Rightarrow> string" where
  "subgateCommandDigest digests subgate = digestOfCommand digests (subgateID subgate, subgateDirectory subgate, subgateCommand subgate)"

definition createSubgateBinding :: "planDigests \<Rightarrow> string \<Rightarrow> string \<Rightarrow> string \<Rightarrow> Subgate \<Rightarrow> go_error + ObservationBinding" where
  "createSubgateBinding digests runID workspace manifest subgate =
     (let binding = \<lparr>bindingRun = runID, bindingWorkspace = workspace, bindingManifest = manifest,
            bindingCommand = subgateCommandDigest digests subgate, bindingSubgate = subgateID subgate\<rparr>
      in case validateObservationBinding binding of
           Some e \<Rightarrow> Inl (Wrapf ''soundness subgate %q binding: %w'' [subgateID subgate] e)
         | None \<Rightarrow> Inr binding)"

fun compareResults ::
  "planDigests \<Rightarrow> RunReport \<Rightarrow> nat \<Rightarrow> (string \<times> ObservationBinding) list \<Rightarrow> Subgate list \<Rightarrow> SubgateResult list
    \<Rightarrow> go_error + (string \<times> ObservationBinding) list" where
  "compareResults digests report index bindings (subgate # subgates) (result # results) =
     (if resultID result \<noteq> subgateID subgate then
        Inl (Errorf ''soundness run report subgates[%d].id = %q, want %q'' [show_nat index, resultID result, subgateID subgate])
      else case createSubgateBinding digests (RunID report) (runWorkspace report) (runManifest report) subgate of
          Inl e \<Rightarrow> Inl e
        | Inr binding \<Rightarrow>
            if resultCommandDigest result \<noteq> bindingCommand binding then
              Inl (Errorf ''soundness run report subgate %q has stale command digest'' [subgateID subgate])
            else case ValidateReport subgate
                \<lparr>reportFormat = ReportFormatVersion, reportBinding = binding, Status = StatusPassed,
                 reportPopulations = resultPopulations result\<rparr> binding of
                Some e \<Rightarrow> Inl e
              | None \<Rightarrow> compareResults digests report (Suc index) (AList.update (subgateID subgate) binding bindings) subgates results)"
| "compareResults digests report index bindings _ _ = Inr bindings"

definition ValidateRunReport :: "planDigests \<Rightarrow> RunReport \<Rightarrow> SoundnessManifest \<Rightarrow> EvidenceRegistry \<Rightarrow> go_error option" where
  "ValidateRunReport digests report manifest registry =
     (case first_error [ValidateManifest manifest registry, validateRunReport report] of
        Some e \<Rightarrow> Some e
      | None \<Rightarrow>
          (case SubgatesForProfile manifest (runProfile report) of
             Inl e \<Rightarrow> Some e
           | Inr profileSubgates \<Rightarrow>
               if length (runSubgates report) \<noteq> length profileSubgates then
                 Some (Errorf ''soundness run report subgate count = %d, want exactly %d''
                   [show_nat (length (runSubgates report)), show_nat (length profileSubgates)])
               else (case compareResults digests report 0 [] profileSubgates (runSubgates report) of
                   Inl e \<Rightarrow> Some e
                 | Inr expectedBindings \<Rightarrow> wrap_error ''validate soundness run report semantic census: %w'' []
                     (ValidateObservations registry (runObservations report) (map_of expectedBindings)))))"

section \<open>Populations from observed members\<close>

record ObservedMember =
  memberPopulation :: string
  observedMember :: string

text \<open>The members of each population, in the order of the first observation of a population.\<close>

fun countMembers :: "nat \<Rightarrow> (string \<times> string set) list \<Rightarrow> ObservedMember list \<Rightarrow> go_error + (string \<times> string set) list" where
  "countMembers index members [] = Inr members"
| "countMembers index members (observation # observations) =
     (let populationMembers = (case map_of members (memberPopulation observation) of None \<Rightarrow> {} | Some S \<Rightarrow> S) in
      case first_error
        [validateIdentifier (''observed members['' @ show_nat index @ ''].population'') (memberPopulation observation),
         validateIdentifier (''observed members['' @ show_nat index @ ''].member'') (observedMember observation),
         error_when (observedMember observation \<in> populationMembers) ''population %q contains duplicate observed member %q''
           [memberPopulation observation, observedMember observation]] of
        Some e \<Rightarrow> Inl e
      | None \<Rightarrow> countMembers (Suc index)
          (AList.update (memberPopulation observation) (insert (observedMember observation) populationMembers) members) observations)"

definition PopulationsFromObservedMembers :: "ObservedMember list \<Rightarrow> go_error + Population list" where
  "PopulationsFromObservedMembers observations =
     (if observations = [] then Inl (Errorf ''population census has no observed members'' [])
      else case countMembers 0 [] observations of
          Inl e \<Rightarrow> Inl e
        | Inr members \<Rightarrow>
            (case first_error (map (\<lambda>(populationID, S). error_when (S = {}) ''population %q has zero observed members'' [populationID]) members) of
               Some e \<Rightarrow> Inl e
             | None \<Rightarrow> Inr (slices_SortFunc (\<lambda>left right. cmp_Compare (populationName left) (populationName right))
                 (map (\<lambda>(populationID, S). \<lparr>populationName = populationID, Count = int (card S)\<rparr>) members))))"

section \<open>What an accepted manifest guarantees\<close>

lemma ownRegistrations_ok:
  "ownRegistrations registryByID ID seen ids = Inr seen' \<longleftrightarrow>
    seen' = seen \<union> set ids \<and> distinct ids \<and> set ids \<inter> seen = {} \<and>
    (\<forall>i\<in>set ids. \<exists>r. map_of registryByID i = Some r \<and> regProducer r = ID)"
proof (induction ids arbitrary: seen)
  case (Cons i ids)
  then show ?case by (cases "map_of registryByID i") auto
qed auto

lemma scanSubgates_ok:
  "scanSubgates registryByID index seenS seenR previousID ss = Inr (S, R) \<Longrightarrow>
    S = seenS \<union> subgateID ` set ss \<and> R = seenR \<union> (\<Union>s\<in>set ss. set (subgateRegistrations s)) \<and>
    distinct (map subgateID ss) \<and> (\<forall>s\<in>set ss. \<exists>index. validateSubgate s index = None) \<and>
    distinct (concat (map subgateRegistrations ss)) \<and> (\<Union>s\<in>set ss. set (subgateRegistrations s)) \<inter> seenR = {} \<and>
    subgateID ` set ss \<inter> seenS = {} \<and>
    (\<forall>s\<in>set ss. \<forall>i\<in>set (subgateRegistrations s). \<exists>r. map_of registryByID i = Some r \<and> regProducer r = subgateID s)"
proof (induction ss arbitrary: index seenS seenR previousID)
  case (Cons s ss)
  then obtain seenR' where checked: "validateSubgate s index = None" "subgateID s \<notin> seenS"
      and own: "ownRegistrations registryByID (subgateID s) seenR (subgateRegistrations s) = Inr seenR'"
      and rest: "scanSubgates registryByID (Suc index) (insert (subgateID s) seenS) seenR' (subgateID s) ss = Inr (S, R)"
    by (cases "ownRegistrations registryByID (subgateID s) seenR (subgateRegistrations s)") auto
  note own = own [unfolded ownRegistrations_ok]
  show ?case using Cons.IH [OF rest] checked own by auto
qed simp

lemma byID_maps:
  "distinct (map regID rs) \<Longrightarrow> registrationsByID rs = map (\<lambda>r. (regID r, r)) rs"
  "distinct (map subgateID ss) \<Longrightarrow> subgatesByID ss = map (\<lambda>s. (subgateID s, s)) ss"
  by (simp_all add: registrationsByID_def subgatesByID_def foldl_update_new)

lemma map_of_byID:
  "distinct (map f xs) \<Longrightarrow> map_of (map (\<lambda>x. (f x, x)) xs) k = Some x \<longleftrightarrow> x \<in> set xs \<and> f x = k"
  by (subst map_of_eq_Some_iff) (auto simp: comp_def)

lemma findSubgates_ok:
  "distinct (map subgateID all) \<Longrightarrow> findSubgates (map (\<lambda>s. (subgateID s, s)) all) profile ids = Inr ss \<Longrightarrow>
    map subgateID ss = ids \<and> set ss \<subseteq> set all"
proof (induction ids arbitrary: ss)
  case (Cons i ids)
  obtain s where s: "map_of (map (\<lambda>s. (subgateID s, s)) all) i = Some s" using Cons.prems(2) by (auto split: option.splits)
  obtain rest where rest: "findSubgates (map (\<lambda>s. (subgateID s, s)) all) profile ids = Inr rest" "ss = s # rest"
    using Cons.prems(2) s by (cases "findSubgates (map (\<lambda>s. (subgateID s, s)) all) profile ids") auto
  show ?case using Cons.IH [OF Cons.prems(1) rest(1)] rest(2) s map_of_byID [OF Cons.prems(1)] by auto
qed simp

definition manifestRequirement :: "SoundnessManifest \<Rightarrow> (string \<times> string) set" where
  "manifestRequirement manifest = {(ID, dependencyID). \<exists>s\<in>set (Subgates manifest). subgateID s = ID \<and> dependencyID \<in> set (subgateDependencies s)}"

lemma subgateDependencies_None:
  "validateSubgateDependencies subgates ID ids = None \<longleftrightarrow> (\<forall>i\<in>set ids. i \<noteq> ID \<and> map_of subgates i \<noteq> None)"
  by (induction ids) auto

lemma dependencies_acyclic:
  assumes d: "distinct (map subgateID (Subgates manifest))" and ok: "validateDependencies manifest = None"
  shows "acyclic (manifestRequirement manifest) \<and>
    (\<forall>s\<in>set (Subgates manifest). set (subgateDependencies s) \<subseteq> subgateID ` set (Subgates manifest))"
proof -
  let ?deps = "map (\<lambda>s. (subgateID s, subgateDependencies s)) (Subgates manifest)"
  have byID: "subgatesByID (Subgates manifest) = map (\<lambda>s. (subgateID s, s)) (Subgates manifest)" using byID_maps(2) [OF d] .
  have deps: "dependenciesOf (subgatesByID (Subgates manifest)) = ?deps" by (simp add: dependenciesOf_def byID)
  have known: "set (subgateDependencies s) \<subseteq> subgateID ` set (Subgates manifest)" if "s \<in> set (Subgates manifest)" for s
  proof
    fix i assume "i \<in> set (subgateDependencies s)"
    then have "map_of (map (\<lambda>s. (subgateID s, s)) (Subgates manifest)) i \<noteq> None"
      using ok that by (auto simp: validateDependencies_def Let_def byID subgateDependencies_None)
    then show "i \<in> subgateID ` set (Subgates manifest)" by (auto simp: map_of_byID [OF d])
  qed
  obtain V where V: "visitUnits manifestCycle ?deps {} {} (map subgateID (Subgates manifest)) = Inr V"
    using ok by (auto simp: validateDependencies_def Let_def deps split: sum.splits)
  have searched: "searched ?deps V" "set (map subgateID (Subgates manifest)) \<subseteq> V" using visit_sound(2) [OF V] by (auto simp: searched_def)
  have "map_of ?deps (subgateID s) = Some (subgateDependencies s)" if "s \<in> set (Subgates manifest)" for s
    using that d by (subst map_of_eq_Some_iff) (auto simp: comp_def)
  then have "manifestRequirement manifest \<subseteq> requirement ?deps"
    by (auto simp: manifestRequirement_def requirement_def requires_def)
  then have sub: "(manifestRequirement manifest)\<^sup>+ \<subseteq> (requirement ?deps)\<^sup>+" by (rule trancl_mono_subset)
  have "(v, v) \<notin> (manifestRequirement manifest)\<^sup>+" for v
  proof
    assume c: "(v, v) \<in> (manifestRequirement manifest)\<^sup>+"
    then have "v \<in> subgateID ` set (Subgates manifest)" by (auto dest!: tranclD simp: manifestRequirement_def)
    then show False using searched sub c by (auto simp: searched_def)
  qed
  then show ?thesis using known by (auto simp: acyclic_def)
qed

text \<open>The four profiles of an accepted manifest.\<close>

lemma validateProfiles_ok:
  assumes "validateProfiles manifest = None"
  obtains complete consumer harness semantic where "Profiles manifest = [complete, consumer, harness, semantic]"
    and "profileID complete = ProfileComplete" "profileID consumer = ProfileConsumer" "profileID harness = ProfileHarness"
      "profileID semantic = ProfileSemantic"
    and "\<And>p. p \<in> set (Profiles manifest) \<Longrightarrow> set (SubgateIDs p) \<subseteq> subgateID ` set (Subgates manifest)"
    and "set (SubgateIDs complete) = insert cleanTreeFreshnessID (set (SubgateIDs semantic))"
    and "cleanTreeFreshnessID \<notin> set (SubgateIDs semantic) \<union> set (SubgateIDs consumer) \<union> set (SubgateIDs harness)"
    and "set (SubgateIDs consumer) \<subseteq> set (SubgateIDs harness)"
    and "\<And>s. s \<in> set (Subgates manifest) \<Longrightarrow> subgateID s \<in> set (SubgateIDs complete) \<union> set (SubgateIDs consumer)"
    and "\<And>p. p \<in> set (Profiles manifest) \<Longrightarrow> distinct (SubgateIDs p)"
proof -
  obtain complete consumer harness semantic where p: "Profiles manifest = [complete, consumer, harness, semantic]"
    using assms by (auto simp: validateProfiles_def split: list.splits)
  have ids: "profileID complete = ProfileComplete \<and> profileID consumer = ProfileConsumer \<and> profileID harness = ProfileHarness \<and>
      profileID semantic = ProfileSemantic"
    using assms by (simp add: validateProfiles_def p split: if_splits)
  have each: "validateEachProfile all index ps = None \<Longrightarrow> (\<forall>p\<in>set ps. set (SubgateIDs p) \<subseteq> set all \<and> distinct (SubgateIDs p))" for all index ps
    by (induction ps arbitrary: index) (auto simp: validateCanonicalIdentifiers_def eachIdentifier_None)
  have f: "validateEachProfile (map subgateID (Subgates manifest)) 0 (Profiles manifest) = None \<and>
      SubgateIDs complete = sort (SubgateIDs semantic @ [cleanTreeFreshnessID]) \<and>
      cleanTreeFreshnessID \<notin> set (SubgateIDs semantic) \<and> cleanTreeFreshnessID \<notin> set (SubgateIDs consumer) \<and>
      cleanTreeFreshnessID \<notin> set (SubgateIDs harness) \<and> (\<forall>i\<in>set (SubgateIDs consumer). i \<in> set (SubgateIDs harness)) \<and>
      filter (\<lambda>ID. ID \<notin> set (SubgateIDs complete) \<and> ID \<notin> set (SubgateIDs consumer)) (map subgateID (Subgates manifest)) = []"
    unfolding p using assms [unfolded validateProfiles_def p Let_def list.case if_P [OF ids] first_error_None list.set set_map ball_simps
      error_when_None not_not de_Morgan_disj HOL.simp_thms]
    by blast
  have "set (SubgateIDs complete) = insert cleanTreeFreshnessID (set (SubgateIDs semantic))" using f by (metis insert_is_Un list.set(1,2) set_append set_sort Un_commute)
  moreover have "\<forall>p\<in>set (Profiles manifest). set (SubgateIDs p) \<subseteq> set (map subgateID (Subgates manifest)) \<and> distinct (SubgateIDs p)"
    using f each by blast
  moreover have "\<forall>s\<in>set (Subgates manifest). subgateID s \<in> set (SubgateIDs complete) \<union> set (SubgateIDs consumer)"
  proof -
    from f have "filter (\<lambda>ID. ID \<notin> set (SubgateIDs complete) \<and> ID \<notin> set (SubgateIDs consumer)) (map subgateID (Subgates manifest)) = []"
      by blast
    then show ?thesis by (simp add: filter_empty_conv)
  qed
  ultimately have facts: "set (SubgateIDs complete) = insert cleanTreeFreshnessID (set (SubgateIDs semantic))"
      "\<And>p. p \<in> set (Profiles manifest) \<Longrightarrow> set (SubgateIDs p) \<subseteq> subgateID ` set (Subgates manifest)"
      "\<And>p. p \<in> set (Profiles manifest) \<Longrightarrow> distinct (SubgateIDs p)"
      "\<And>s. s \<in> set (Subgates manifest) \<Longrightarrow> subgateID s \<in> set (SubgateIDs complete) \<union> set (SubgateIDs consumer)"
    by simp_all
  have rest: "cleanTreeFreshnessID \<notin> set (SubgateIDs semantic) \<union> set (SubgateIDs consumer) \<union> set (SubgateIDs harness)"
      "set (SubgateIDs consumer) \<subseteq> set (SubgateIDs harness)" using f by blast+
  show ?thesis
    by (rule that [OF p ids [THEN conjunct1] ids [THEN conjunct2, THEN conjunct1] ids [THEN conjunct2, THEN conjunct2, THEN conjunct1]
          ids [THEN conjunct2, THEN conjunct2, THEN conjunct2] facts(2) facts(1) rest facts(4,3)])
qed

lemma profile_subgates:
  assumes d: "distinct (map subgateID (Subgates manifest))" and "SubgatesForProfile manifest profile = Inr ss"
  obtains p where "p \<in> set (Profiles manifest)" "profileID p = profile" "map subgateID ss = SubgateIDs p" "set ss \<subseteq> set (Subgates manifest)"
proof -
  obtain p where p: "find (\<lambda>p. profileID p = profile) (Profiles manifest) = Some p"
    using assms(2) by (auto simp: SubgatesForProfile_def split: option.splits)
  then have "p \<in> set (Profiles manifest)" "profileID p = profile" by (auto simp: find_Some_iff)
  moreover have "map subgateID ss = SubgateIDs p \<and> set ss \<subseteq> set (Subgates manifest)"
    using assms(2) p by (intro findSubgates_ok [OF d]) (simp add: SubgatesForProfile_def byID_maps(2) [OF d])
  ultimately show ?thesis using that by blast
qed

lemma manifest_parts:
  assumes "ValidateManifest manifest registry = None"
  obtains S R semantic where "validateRegistry registry = None"
    and "scanSubgates (registrationsByID (Registrations registry)) 0 {} {} [] (Subgates manifest) = Inr (S, R)"
    and "\<And>r. r \<in> set (Registrations registry) \<Longrightarrow> regProducer r \<in> S \<and> regID r \<in> R"
    and "validateDependencies manifest = None" and "validateProfiles manifest = None"
    and "SubgatesForProfile manifest ProfileSemantic = Inr semantic"
    and "\<And>r. r \<in> set (Registrations registry) \<Longrightarrow> regProducer r \<in> subgateID ` set semantic"
proof -
  have v: "validateRegistry registry = None" using assms by (auto simp: ValidateManifest_def)
  obtain S R where scan: "scanSubgates (registrationsByID (Registrations registry)) 0 {} {} [] (Subgates manifest) = Inr (S, R)"
    using assms by (auto simp: ValidateManifest_def split: sum.splits)
  have f: "(\<forall>r\<in>set (Registrations registry). regProducer r \<in> S \<and> regID r \<in> R) \<and> validateDependencies manifest = None \<and>
      validateProfiles manifest = None"
    using assms scan by (auto simp: ValidateManifest_def)
  obtain semantic where "SubgatesForProfile manifest ProfileSemantic = Inr semantic"
    "\<forall>r\<in>set (Registrations registry). regProducer r \<in> subgateID ` set semantic"
    using assms scan by (auto simp: ValidateManifest_def split: sum.splits)
  then show ?thesis using that v scan f by blast
qed

lemma manifest_owns:
  assumes "ValidateManifest manifest registry = None"
  shows "distinct (map subgateID (Subgates manifest))"
    and "mset (concat (map subgateRegistrations (Subgates manifest))) = mset (map regID (Registrations registry))"
    and "\<And>s r. s \<in> set (Subgates manifest) \<Longrightarrow> r \<in> set (Registrations registry) \<Longrightarrow> regID r \<in> set (subgateRegistrations s) \<Longrightarrow>
      regProducer r = subgateID s"
proof -
  obtain S R semantic where v: "validateRegistry registry = None"
      and scan: "scanSubgates (registrationsByID (Registrations registry)) 0 {} {} [] (Subgates manifest) = Inr (S, R)"
      and all: "\<And>r. r \<in> set (Registrations registry) \<Longrightarrow> regProducer r \<in> S \<and> regID r \<in> R"
    using manifest_parts [OF assms] by metis
  have d: "distinct (map regID (Registrations registry))" using registry_distinct [OF v] by simp
  note facts = scanSubgates_ok [OF scan, unfolded byID_maps(1) [OF d] map_of_byID [OF d]]
  have R: "R = {} \<union> (\<Union>s\<in>set (Subgates manifest). set (subgateRegistrations s))" using facts by blast
  have known: "\<forall>s\<in>set (Subgates manifest). \<forall>i\<in>set (subgateRegistrations s).
      \<exists>r. (r \<in> set (Registrations registry) \<and> regID r = i) \<and> regProducer r = subgateID s" using facts by blast
  show "distinct (map subgateID (Subgates manifest))" using facts by blast
  have dc: "distinct (concat (map subgateRegistrations (Subgates manifest)))" using facts by blast
  have "set (concat (map subgateRegistrations (Subgates manifest))) = set (map regID (Registrations registry))"
  proof (intro set_eqI iffI)
    fix i assume "i \<in> set (concat (map subgateRegistrations (Subgates manifest)))"
    then obtain s where "s \<in> set (Subgates manifest)" "i \<in> set (subgateRegistrations s)" by auto
    then obtain r where "r \<in> set (Registrations registry)" "regID r = i" using known by blast
    then show "i \<in> set (map regID (Registrations registry))" by auto
  next
    fix i assume "i \<in> set (map regID (Registrations registry))"
    then have "i \<in> R" using all by auto
    then show "i \<in> set (concat (map subgateRegistrations (Subgates manifest)))" unfolding R by auto
  qed
  then show "mset (concat (map subgateRegistrations (Subgates manifest))) = mset (map regID (Registrations registry))"
    using set_eq_iff_mset_eq_distinct [OF dc d] by blast
  show "regProducer r = subgateID s" if member: "s \<in> set (Subgates manifest)" "r \<in> set (Registrations registry)" "regID r \<in> set (subgateRegistrations s)" for s r
  proof -
    obtain r' where "r' \<in> set (Registrations registry)" "regID r' = regID r" "regProducer r' = subgateID s"
      using known member(1,3) by blast
    moreover have "r' = r" using calculation(1,2) member(2) d by (auto simp: distinct_map inj_on_def)
    ultimately show ?thesis by simp
  qed
qed

text \<open>The subgates of the semantic and the complete profile of an accepted manifest produce every registration.\<close>

lemma semantic_profiles:
  assumes ok: "ValidateManifest manifest registry = None" and "SubgatesForProfile manifest profile = Inr ss"
    and "profile = ProfileSemantic \<or> profile = ProfileComplete" and r: "r \<in> set (Registrations registry)"
  shows "regProducer r \<in> subgateID ` set ss"
proof -
  note d = manifest_owns(1) [OF ok]
  obtain semantic where semantic: "SubgatesForProfile manifest ProfileSemantic = Inr semantic" "regProducer r \<in> subgateID ` set semantic"
      and profiles: "validateProfiles manifest = None"
    using manifest_parts [OF ok] r by metis
  obtain c h g m where p: "Profiles manifest = [c, h, g, m]" "profileID c = ProfileComplete" "profileID h = ProfileConsumer"
      "profileID g = ProfileHarness" "profileID m = ProfileSemantic" "set (SubgateIDs c) = insert cleanTreeFreshnessID (set (SubgateIDs m))"
    using validateProfiles_ok [OF profiles] by metis
  obtain q where q: "q \<in> set (Profiles manifest)" "profileID q = profile" "map subgateID ss = SubgateIDs q"
    using profile_subgates [OF d assms(2)] by metis
  obtain q' where q': "q' \<in> set (Profiles manifest)" "profileID q' = ProfileSemantic" "map subgateID semantic = SubgateIDs q'"
    using profile_subgates [OF d semantic(1)] by metis
  have "q' = m" using q' p by (auto simp: go_const)
  moreover have "q = m \<or> q = c" using q assms(3) p by (auto simp: go_const)
  ultimately have "set (SubgateIDs q') \<subseteq> set (SubgateIDs q)" using p(6) by auto
  then show ?thesis using semantic(2) q(3) q'(3) by (metis image_set subset_iff)
qed

text \<open>C39. An accepted manifest owns the evidence of the registry exactly: every registration is required by exactly one
  subgate, once, and that subgate is its producer; nothing unregistered is required; every producer is in the
  semantic profile; the complete profile adds the freshness check alone; and the dependencies lead to
  known subgates without a cycle.\<close>
theorem accepted_manifest_owns_evidence:
  assumes "ValidateManifest manifest registry = None"
  shows "mset (concat (map subgateRegistrations (Subgates manifest))) = mset (map regID (Registrations registry)) \<and>
    (\<forall>s\<in>set (Subgates manifest). \<forall>r\<in>set (Registrations registry). regID r \<in> set (subgateRegistrations s) \<longrightarrow> regProducer r = subgateID s) \<and>
    (\<exists>semantic. SubgatesForProfile manifest ProfileSemantic = Inr semantic \<and>
       regProducer ` set (Registrations registry) \<subseteq> subgateID ` set semantic \<and> cleanTreeFreshnessID \<notin> subgateID ` set semantic \<and>
       (\<forall>complete. SubgatesForProfile manifest ProfileComplete = Inr complete \<longrightarrow>
          subgateID ` set complete = insert cleanTreeFreshnessID (subgateID ` set semantic))) \<and>
    acyclic (manifestRequirement manifest)"
proof -
  note owned = manifest_owns [OF assms]
  obtain semantic where semantic: "SubgatesForProfile manifest ProfileSemantic = Inr semantic"
      "\<And>r. r \<in> set (Registrations registry) \<Longrightarrow> regProducer r \<in> subgateID ` set semantic"
      and deps: "validateDependencies manifest = None" and profiles: "validateProfiles manifest = None"
    using manifest_parts [OF assms] by metis
  obtain c h g m where p: "Profiles manifest = [c, h, g, m]" "profileID c = ProfileComplete" "profileID h = ProfileConsumer"
      "profileID g = ProfileHarness" "profileID m = ProfileSemantic" "set (SubgateIDs c) = insert cleanTreeFreshnessID (set (SubgateIDs m))"
      "cleanTreeFreshnessID \<notin> set (SubgateIDs m) \<union> set (SubgateIDs h) \<union> set (SubgateIDs g)"
    using validateProfiles_ok [OF profiles] by metis
  have ids: "subgateID ` set ss = set (SubgateIDs q)"
    if prems: "SubgatesForProfile manifest profile = Inr ss" "q \<in> {c, m}" "profileID q = profile" for ss q profile
  proof -
    obtain q' where "q' \<in> set (Profiles manifest)" "profileID q' = profile" "map subgateID ss = SubgateIDs q'"
      using profile_subgates [OF owned(1) prems(1)] by metis
    moreover have "q' = q" using calculation prems(2,3) p by (auto simp: go_const)
    ultimately show ?thesis by (metis image_set)
  qed
  have m: "subgateID ` set semantic = set (SubgateIDs m)" using ids [OF semantic(1), of m] p(5) by simp
  have "\<forall>complete. SubgatesForProfile manifest ProfileComplete = Inr complete \<longrightarrow>
      subgateID ` set complete = insert cleanTreeFreshnessID (subgateID ` set semantic)"
    using ids [of ProfileComplete _ c] p(2,6) unfolding m by simp
  moreover have "cleanTreeFreshnessID \<notin> subgateID ` set semantic" using p(7) m by simp
  ultimately show ?thesis using owned(2,3) semantic dependencies_acyclic [OF owned(1) deps] by blast
qed

text \<open>The membership test of unused subgates leaves the harness profile out.\<close>

theorem harness_only_subgate_refused:
  assumes "Profiles manifest = [complete, consumer, harness, semantic]" and s: "s \<in> set (Subgates manifest)"
    and only: "subgateID s \<in> set (SubgateIDs harness)" "subgateID s \<notin> set (SubgateIDs complete)" "subgateID s \<notin> set (SubgateIDs consumer)"
  shows "ValidateManifest manifest registry \<noteq> None"
proof
  assume ok: "ValidateManifest manifest registry = None"
  then have "validateProfiles manifest = None" using manifest_parts by metis
  then obtain c h g m where "Profiles manifest = [c, h, g, m]"
      "\<And>s. s \<in> set (Subgates manifest) \<Longrightarrow> subgateID s \<in> set (SubgateIDs c) \<union> set (SubgateIDs h)"
    using validateProfiles_ok by metis
  then show False using assms by auto
qed

section \<open>What an accepted report guarantees\<close>

definition populationsMeet :: "PopulationRequirement list \<Rightarrow> Population list \<Rightarrow> bool" where
  "populationsMeet requireds populations \<longleftrightarrow>
     list_all2 (\<lambda>required population. populationName population = populationID required \<and> Minimum required \<le> Count population)
       requireds populations"

lemma comparePopulations_None:
  "length requireds = length populations \<Longrightarrow> comparePopulations ID index requireds populations = None \<longleftrightarrow> populationsMeet requireds populations"
  unfolding populationsMeet_def
  by (induction ID index requireds populations rule: comparePopulations.induct) (auto simp: not_less)

lemma ValidateReport_meets:
  "ValidateReport subgate report binding = None \<Longrightarrow>
    populationsMeet (subgatePopulations subgate) (reportPopulations report) \<and> reportBinding report = binding"
  using comparePopulations_None [of "subgatePopulations subgate" "reportPopulations report"] by (auto simp: ValidateReport_def)

lemma createSubgateBinding_Inr:
  "createSubgateBinding digests runID workspace manifest subgate = Inr binding \<Longrightarrow>
    binding = \<lparr>bindingRun = runID, bindingWorkspace = workspace, bindingManifest = manifest,
      bindingCommand = subgateCommandDigest digests subgate, bindingSubgate = subgateID subgate\<rparr>"
  by (auto simp: createSubgateBinding_def Let_def split: option.splits)

definition runBinding :: "planDigests \<Rightarrow> RunReport \<Rightarrow> Subgate \<Rightarrow> ObservationBinding" where
  "runBinding digests report subgate = \<lparr>bindingRun = RunID report, bindingWorkspace = runWorkspace report,
     bindingManifest = runManifest report, bindingCommand = subgateCommandDigest digests subgate, bindingSubgate = subgateID subgate\<rparr>"

definition resultMeets :: "planDigests \<Rightarrow> Subgate \<Rightarrow> SubgateResult \<Rightarrow> bool" where
  "resultMeets digests subgate result \<longleftrightarrow> resultID result = subgateID subgate \<and>
     resultCommandDigest result = subgateCommandDigest digests subgate \<and> populationsMeet (subgatePopulations subgate) (resultPopulations result)"

lemma compareResults_ok:
  "compareResults digests report index bindings subgates results = Inr bindings' \<Longrightarrow> length subgates = length results \<Longrightarrow>
    distinct (map fst bindings @ map subgateID subgates) \<Longrightarrow>
    list_all2 (resultMeets digests) subgates results \<and>
    bindings' = bindings @ map (\<lambda>s. (subgateID s, runBinding digests report s)) subgates"
proof (induction digests report index bindings subgates results rule: compareResults.induct)
  case (1 digests report index bindings subgate subgates result results)
  obtain binding where b: "createSubgateBinding digests (RunID report) (runWorkspace report) (runManifest report) subgate = Inr binding"
    using "1.prems"(1) by (auto split: if_splits sum.splits)
  have binding: "binding = runBinding digests report subgate" using createSubgateBinding_Inr [OF b] by (simp add: runBinding_def)
  have checked: "resultID result = subgateID subgate" "resultCommandDigest result = bindingCommand binding"
      "ValidateReport subgate \<lparr>reportFormat = ReportFormatVersion, reportBinding = binding, Status = StatusPassed,
         reportPopulations = resultPopulations result\<rparr> binding = None"
      and rest: "compareResults digests report (Suc index) (AList.update (subgateID subgate) binding bindings) subgates results = Inr bindings'"
    using "1.prems"(1) b by (auto split: if_splits option.splits)
  have new: "AList.update (subgateID subgate) binding bindings = bindings @ [(subgateID subgate, binding)]"
    using "1.prems"(3) by (simp add: update_new)
  have "list_all2 (resultMeets digests) subgates results \<and>
      bindings' = (bindings @ [(subgateID subgate, binding)]) @ map (\<lambda>s. (subgateID s, runBinding digests report s)) subgates"
    using "1.IH" [OF _ b _ checked(3) rest] checked(1,2) "1.prems"(2,3) new by auto
  moreover have "resultMeets digests subgate result"
    using ValidateReport_meets [OF checked(3)] checked(1,2) by (simp add: resultMeets_def binding runBinding_def)
  ultimately show ?case using binding by simp
qed simp_all

text \<open>C40. An accepted run report is complete evidence. Its results are those of the profile's subgates, in their order, each with
  the digest of the manifest's command and every required population at its minimum; its observations are, up to
  order, one for each registration these subgates produce, bound to this run, workspace, manifest and command and
  meeting the registry's expectation; and in the semantic and the complete profile no registration is left out.\<close>
theorem accepted_run_report_complete:
  assumes ok: "ValidateRunReport digests report manifest registry = None"
  shows "\<exists>subgates. SubgatesForProfile manifest (runProfile report) = Inr subgates \<and>
    list_all2 (resultMeets digests) subgates (runSubgates report) \<and>
    mset (map RegistrationID (runObservations report)) =
      mset (map regID (filter (\<lambda>r. regProducer r \<in> subgateID ` set subgates) (Registrations registry))) \<and>
    (\<forall>ob\<in>set (runObservations report). \<exists>r\<in>set (Registrations registry). \<exists>s\<in>set subgates.
       observes ob r \<and> regProducer r = subgateID s \<and> obsBinding ob = runBinding digests report s) \<and>
    (runProfile report = ProfileSemantic \<or> runProfile report = ProfileComplete \<longrightarrow>
       mset (map RegistrationID (runObservations report)) = mset (map regID (Registrations registry)))"
proof -
  have m: "ValidateManifest manifest registry = None" using ok by (auto simp: ValidateRunReport_def)
  note d = manifest_owns(1) [OF m]
  obtain subgates where subgates: "SubgatesForProfile manifest (runProfile report) = Inr subgates"
    using ok by (auto simp: ValidateRunReport_def split: sum.splits)
  have len: "length subgates = length (runSubgates report)" using ok subgates by (auto simp: ValidateRunReport_def split: if_splits)
  obtain bindings where bindings: "compareResults digests report 0 [] subgates (runSubgates report) = Inr bindings"
    using ok subgates len by (auto simp: ValidateRunReport_def split: sum.splits)
  have census: "ValidateObservations registry (runObservations report) (map_of bindings) = None"
    using ok subgates len bindings by (auto simp: ValidateRunReport_def)
  obtain p where p: "p \<in> set (Profiles manifest)" "map subgateID subgates = SubgateIDs p"
    using profile_subgates [OF d subgates] by metis
  have "distinct (SubgateIDs p)" using validateProfiles_ok manifest_parts [OF m] p(1) by metis
  then have ds: "distinct (map subgateID subgates)" using p(2) by simp
  have results: "list_all2 (resultMeets digests) subgates (runSubgates report)"
      and b: "bindings = map (\<lambda>s. (subgateID s, runBinding digests report s)) subgates"
    using compareResults_ok [OF bindings len] ds by simp_all
  have bound: "map_of bindings i = Some binding \<longleftrightarrow> (\<exists>s\<in>set subgates. subgateID s = i \<and> binding = runBinding digests report s)" for i binding
    unfolding b using ds by (subst map_of_eq_Some_iff) (auto simp: comp_def)
  then have produced: "map_of bindings i \<noteq> None \<longleftrightarrow> i \<in> subgateID ` set subgates" for i by auto
  have selected: "selectedRegistrations registry (map_of bindings) =
      filter (\<lambda>r. regProducer r \<in> subgateID ` set subgates) (Registrations registry)"
    unfolding selectedRegistrations_def produced ..
  note exact = census [unfolded census_exact selected]
  have "\<exists>r\<in>set (Registrations registry). \<exists>s\<in>set subgates.
      observes ob r \<and> regProducer r = subgateID s \<and> obsBinding ob = runBinding digests report s" if member: "ob \<in> set (runObservations report)" for ob
  proof -
    obtain r where "r \<in> set (Registrations registry)" "observes ob r" "map_of bindings (regProducer r) = Some (obsBinding ob)"
      using exact member by auto
    then show ?thesis using bound by metis
  qed
  moreover have "mset (map RegistrationID (runObservations report)) =
      mset (map regID (filter (\<lambda>r. regProducer r \<in> subgateID ` set subgates) (Registrations registry)))" using exact by blast
  moreover have "filter (\<lambda>r. regProducer r \<in> subgateID ` set subgates) (Registrations registry) = Registrations registry"
    if "runProfile report = ProfileSemantic \<or> runProfile report = ProfileComplete"
    using semantic_profiles [OF m subgates that] by simp
  ultimately show ?thesis by (intro exI [of _ subgates] conjI subgates results ballI impI) (blast | simp only:)+
qed

section \<open>What populations of observed members count\<close>

definition membersOf :: "ObservedMember list \<Rightarrow> string \<Rightarrow> string set" where
  "membersOf os p = observedMember ` {ob \<in> set os. memberPopulation ob = p}"

definition counted :: "ObservedMember list \<Rightarrow> (string \<times> string set) list \<Rightarrow> bool" where
  "counted os members \<longleftrightarrow> distinct (map fst members) \<and>
     (\<forall>p. map_of members p = (if p \<in> memberPopulation ` set os then Some (membersOf os p) else None)) \<and> distinct os"

lemma countMember_step:
  assumes "counted os members" and "observedMember ob \<notin> (case map_of members (memberPopulation ob) of None \<Rightarrow> {} | Some S \<Rightarrow> S)"
  shows "counted (os @ [ob]) (AList.update (memberPopulation ob)
    (insert (observedMember ob) (case map_of members (memberPopulation ob) of None \<Rightarrow> {} | Some S \<Rightarrow> S)) members)"
proof -
  have S: "(case map_of members (memberPopulation ob) of None \<Rightarrow> {} | Some S \<Rightarrow> S) = membersOf os (memberPopulation ob)"
  proof (cases "memberPopulation ob \<in> memberPopulation ` set os")
    case False
    then have "membersOf os (memberPopulation ob) = {}" unfolding membersOf_def by (metis (mono_tags, lifting) empty_Collect_eq image_empty image_eqI)
    then show ?thesis using assms(1) False by (simp add: counted_def)
  qed (use assms(1) in \<open>simp add: counted_def\<close>)
  have "ob \<notin> set os" using assms(2) unfolding S by (auto simp: membersOf_def)
  moreover have "membersOf (os @ [ob]) p = (if p = memberPopulation ob then insert (observedMember ob) (membersOf os p) else membersOf os p)" for p
    by (auto simp: membersOf_def)
  ultimately show ?thesis using assms(1) unfolding S counted_def by (auto simp: distinct_update update_conv')
qed

lemma countMembers_counted:
  "countMembers index members os = Inr members' \<Longrightarrow> counted seen members \<Longrightarrow> counted (seen @ os) members'"
proof (induction os arbitrary: index members seen)
  case (Cons ob os)
  have "observedMember ob \<notin> (case map_of members (memberPopulation ob) of None \<Rightarrow> {} | Some S \<Rightarrow> S)"
      and rest: "countMembers (Suc index) (AList.update (memberPopulation ob)
        (insert (observedMember ob) (case map_of members (memberPopulation ob) of None \<Rightarrow> {} | Some S \<Rightarrow> S)) members) os = Inr members'"
    using Cons.prems(1) by (auto simp: Let_def)
  then show ?case using Cons.IH [OF rest countMember_step] Cons.prems(2) by simp
qed simp

lemma card_membersOf: "distinct os \<Longrightarrow> card (membersOf os p) = length (filter (\<lambda>ob. memberPopulation ob = p) os)"
proof -
  assume d: "distinct os"
  have "inj_on observedMember {ob \<in> set os. memberPopulation ob = p}" by (auto intro!: inj_onI ObservedMember.equality)
  then have "card (membersOf os p) = card (set (filter (\<lambda>ob. memberPopulation ob = p) os))"
    by (simp add: membersOf_def card_image)
  then show ?thesis using distinct_card [of "filter (\<lambda>ob. memberPopulation ob = p) os"] d by simp
qed

text \<open>The populations of a producer count its members: each population observed is listed once, in the order of names, with the number
  of its observations, none of which is repeated.\<close>

theorem observed_populations_exact:
  assumes "PopulationsFromObservedMembers os = Inr populations"
  shows "distinct os \<and> sorted_wrt (\<lambda>p q. populationName p < populationName q) populations \<and>
    populationName ` set populations = memberPopulation ` set os \<and>
    (\<forall>p\<in>set populations. 0 < Count p \<and> Count p = int (length (filter (\<lambda>ob. memberPopulation ob = populationName p) os)))"
proof -
  obtain members where count: "countMembers 0 [] os = Inr members" and ne: "os \<noteq> []"
    using assms by (auto simp: PopulationsFromObservedMembers_def split: if_splits sum.splits)
  have c: "counted os members" using countMembers_counted [OF count, of "[]"] by (simp add: counted_def)
  let ?pops = "map (\<lambda>(p, S). \<lparr>populationName = p, Count = int (card S)\<rparr>) members"
  let ?sorted = "slices_SortFunc (\<lambda>left right. cmp_Compare (populationName left) (populationName right)) ?pops"
  have eq: "populations = ?sorted" using assms count ne by (auto simp: PopulationsFromObservedMembers_def split: option.splits)
  have d: "distinct (map fst members)" and os: "distinct os" using c by (simp_all add: counted_def)
  have entry: "(p, S) \<in> set members \<longleftrightarrow> p \<in> memberPopulation ` set os \<and> S = membersOf os p" for p S
    unfolding map_of_eq_Some_iff [OF d, symmetric] using c by (simp add: counted_def) blast
  have names: "map populationName ?pops = map fst members" by (simp add: case_prod_beta comp_def)
  have "distinct (map populationName ?sorted)"
  proof -
    have "mset (map populationName ?sorted) = mset (map populationName ?pops)" by (simp only: mset_map mset_SortFunc)
    then show ?thesis unfolding names using d mset_eq_imp_distinct_iff by blast
  qed
  then have "sorted_wrt (<) (map populationName ?sorted)" using SortFunc_key_sorted [of populationName ?pops] by (simp add: strict_sorted_iff)
  then have order: "sorted_wrt (\<lambda>p q. populationName p < populationName q) populations" unfolding eq by (simp add: sorted_wrt_map)
  have members: "set populations = (\<lambda>p. \<lparr>populationName = p, Count = int (card (membersOf os p))\<rparr>) ` memberPopulation ` set os"
  proof -
    have "set members = (\<lambda>p. (p, membersOf os p)) ` memberPopulation ` set os" using entry by auto
    then show ?thesis unfolding eq set_SortFunc set_map by (simp add: image_image)
  qed
  have "filter (\<lambda>ob. memberPopulation ob = p) os \<noteq> []" if "p \<in> memberPopulation ` set os" for p
    using that by (auto simp: filter_empty_conv)
  then show ?thesis using order os members card_membersOf [OF os] by (auto simp: image_image)
qed


section \<open>Examples\<close>

definition exampleSubgate :: "string \<Rightarrow> string list \<Rightarrow> string list \<Rightarrow> Subgate" where
  "exampleSubgate ID profiles registrations =
     \<lparr>subgateID = ID, subgateDirectory = ''.'', subgateCommand = [''go'', ''test''], subgateDependencies = [], subgateCPU = 1,
      EstimatedPeakMemoryBytes = 1, subgateGroups = [], subgateDistributable = True, ProfileIDs = profiles, subgateTimeout = 60,
      subgateReportFile = ''report.json'', subgateRegistrations = registrations,
      subgatePopulations = [\<lparr>populationID = ''programs'', Minimum = 1\<rparr>]\<rparr>"

definition exampleManifestOfGate :: SoundnessManifest where
  "exampleManifestOfGate =
     \<lparr>manifestFormat = ManifestFormatVersion, RegistryPath = ''spec/registry.json'',
      Profiles = [\<lparr>profileID = ProfileComplete, SubgateIDs = [cleanTreeFreshnessID, ''generated-oracle'']\<rparr>,
        \<lparr>profileID = ProfileConsumer, SubgateIDs = [''generated-oracle'']\<rparr>, \<lparr>profileID = ProfileHarness, SubgateIDs = [''generated-oracle'']\<rparr>,
        \<lparr>profileID = ProfileSemantic, SubgateIDs = [''generated-oracle'']\<rparr>],
      Subgates = [exampleSubgate cleanTreeFreshnessID [ProfileComplete] [],
        exampleSubgate ''generated-oracle'' [ProfileComplete, ProfileConsumer, ProfileHarness, ProfileSemantic] [''cast-generated'']]\<rparr>"

definition exampleRun :: RunReport where
  "exampleRun =
     \<lparr>runFormat = RunReportFormatVersion, runProfile = ProfileSemantic, RunID = ''run-1'', runWorkspace = sampleDigest, runManifest = sampleDigest,
      runSubgates = [\<lparr>resultID = ''generated-oracle'', resultCommandDigest = sampleDigest, resultReportDigest = sampleDigest,
        resultPopulations = [\<lparr>populationName = ''programs'', Count = 7\<rparr>]\<rparr>],
      runObservations = [exampleObservation]\<rparr>"

lemma example_subgate_fields:
  "subgateID (exampleSubgate ID profiles registrations) = ID" "subgateDirectory (exampleSubgate ID profiles registrations) = ''.''"
  "subgateCommand (exampleSubgate ID profiles registrations) = [''go'', ''test'']" "subgateDependencies (exampleSubgate ID profiles registrations) = []"
  "subgateCPU (exampleSubgate ID profiles registrations) = 1" "EstimatedPeakMemoryBytes (exampleSubgate ID profiles registrations) = 1"
  "subgateGroups (exampleSubgate ID profiles registrations) = []" "ProfileIDs (exampleSubgate ID profiles registrations) = profiles"
  "subgateTimeout (exampleSubgate ID profiles registrations) = 60" "subgateReportFile (exampleSubgate ID profiles registrations) = ''report.json''"
  "subgateRegistrations (exampleSubgate ID profiles registrations) = registrations"
  "subgatePopulations (exampleSubgate ID profiles registrations) = [\<lparr>populationID = ''programs'', Minimum = 1\<rparr>]"
  by (simp_all add: exampleSubgate_def)

lemma example_subgate_valid:
  assumes "index = 0 \<or> index = 1" and "ID = cleanTreeFreshnessID \<or> ID = ''generated-oracle''"
    and "validateProfileIDs index ID 0 {} profiles = None" and "profiles \<noteq> []"
    and "validateCanonicalIdentifiers (subgateField index ''required_registration_ids'') registrations = None"
  shows "validateSubgate (exampleSubgate ID profiles registrations) index = None"
proof -
  have "validateIdentifier (subgateField index ''id'') ID = None"
    using assms(2) by (elim disjE) (simp only:, code_simp)+
  moreover have "validateRepositoryPath (subgateField index ''working_directory'') ''.'' True = None"
    using assms(1) by (elim disjE) (simp only:, code_simp)+
  moreover have "validateSubgateCommand index 0 [''go'', ''test''] = None"
    using assms(1) by (elim disjE) (simp only:, code_simp)+
  moreover have "validateReportFile index ''report.json'' = None"
    using assms(1) by (elim disjE) (simp only:, code_simp)+
  moreover have "validateRequirements index ID 0 {} [] [\<lparr>populationID = ''programs'', Minimum = 1\<rparr>] = None"
    using assms(1,2) by (elim disjE) (simp only:, code_simp)+
  moreover have "validateCanonicalIdentifiers f [] = None" for f by (simp add: validateCanonicalIdentifiers_def)
  ultimately show ?thesis using assms(3-5)
    by (simp add: validateSubgate_def example_subgate_fields maximumTimeoutSeconds_def)
qed
lemma example_scanned:
  "scanSubgates (registrationsByID (Registrations exampleRegistry)) 0 {} {} [] (Subgates exampleManifestOfGate) =
     Inr ({''generated-oracle'', cleanTreeFreshnessID}, {''cast-generated''})"
proof -
  let ?freshness = "exampleSubgate cleanTreeFreshnessID [ProfileComplete] []"
  let ?generated = "exampleSubgate ''generated-oracle'' [ProfileComplete, ProfileConsumer, ProfileHarness, ProfileSemantic] [''cast-generated'']"
  have "Subgates exampleManifestOfGate = [?freshness, ?generated]" by (simp add: exampleManifestOfGate_def)
  moreover have "validateSubgate ?freshness 0 = None" by (rule example_subgate_valid) (simp, simp, code_simp, simp, code_simp)
  moreover have "validateSubgate ?generated 1 = None" by (rule example_subgate_valid) (simp, simp, code_simp, simp, code_simp)
  moreover have "ownRegistrations (registrationsByID (Registrations exampleRegistry)) ''generated-oracle'' {} [''cast-generated''] =
      Inr {''cast-generated''}" by code_simp
  moreover have "cleanTreeFreshnessID \<noteq> ''generated-oracle''" "\<not> ''generated-oracle'' < cleanTreeFreshnessID" by code_simp+
  ultimately show ?thesis by (simp add: example_subgate_fields)
qed

lemma example_manifest_accepted: "ValidateManifest exampleManifestOfGate exampleRegistry = None"
proof -
  have "validateRegistry exampleRegistry = None" by code_simp
  moreover have "validateRepositoryPath ''soundness manifest registry_path'' (RegistryPath exampleManifestOfGate) False = None" by code_simp
  moreover have "manifestFormat exampleManifestOfGate = ManifestFormatVersion" "Subgates exampleManifestOfGate \<noteq> []"
    by (simp_all add: exampleManifestOfGate_def)
  moreover have "validateDependencies exampleManifestOfGate = None" by code_simp
  moreover have "validateProfiles exampleManifestOfGate = None" by code_simp
  moreover have "SubgatesForProfile exampleManifestOfGate ProfileSemantic =
      Inr [exampleSubgate ''generated-oracle'' [ProfileComplete, ProfileConsumer, ProfileHarness, ProfileSemantic] [''cast-generated'']]"
    by code_simp
  moreover have "Registrations exampleRegistry = [exampleRegistration]" by (simp add: exampleRegistry_def)
  moreover have "regID exampleRegistration = ''cast-generated''" "regProducer exampleRegistration = ''generated-oracle''"
    by (simp_all add: exampleRegistration_def)
  ultimately show ?thesis using example_scanned by (simp add: ValidateManifest_def example_subgate_fields)
qed

lemma accepted_manifest_owns_evidence_witness:
  "\<exists>semantic. SubgatesForProfile exampleManifestOfGate ProfileSemantic = Inr semantic \<and>
    regProducer ` set (Registrations exampleRegistry) \<subseteq> subgateID ` set semantic \<and> acyclic (manifestRequirement exampleManifestOfGate)"
  using accepted_manifest_owns_evidence [OF example_manifest_accepted] by blast

lemma example_run_accepted: "ValidateRunReport sampleDigests exampleRun exampleManifestOfGate exampleRegistry = None"
proof -
  let ?generated = "exampleSubgate ''generated-oracle'' [ProfileComplete, ProfileConsumer, ProfileHarness, ProfileSemantic] [''cast-generated'']"
  have "validateRunReport exampleRun = None" by code_simp
  moreover have "SubgatesForProfile exampleManifestOfGate ProfileSemantic = Inr [?generated]" by code_simp
  moreover have "compareResults sampleDigests exampleRun 0 [] [?generated] (runSubgates exampleRun) = Inr [(''generated-oracle'', exampleBinding)]"
    by code_simp
  moreover have "ValidateObservations exampleRegistry [exampleObservation] (map_of [(''generated-oracle'', exampleBinding)]) = None"
    by code_simp
  moreover have "length (runSubgates exampleRun) = 1" "runObservations exampleRun = [exampleObservation]" "runProfile exampleRun = ProfileSemantic"
    by (simp_all add: exampleRun_def)
  ultimately show ?thesis using example_manifest_accepted by (simp add: ValidateRunReport_def)
qed

lemma accepted_run_report_complete_witness:
  "\<exists>subgates. SubgatesForProfile exampleManifestOfGate (runProfile exampleRun) = Inr subgates \<and>
    list_all2 (resultMeets sampleDigests) subgates (runSubgates exampleRun) \<and>
    mset (map RegistrationID (runObservations exampleRun)) = mset (map regID (Registrations exampleRegistry))"
proof -
  have "runProfile exampleRun = ProfileSemantic" by (simp add: exampleRun_def)
  then show ?thesis using accepted_run_report_complete [OF example_run_accepted] by blast
qed

end
