(* ===== verification/Protocol_Domain.thy ===== *)
theory Protocol_Domain
  imports Prelude
begin

text \<open>
  The protocol domain of the analyzer: the abstract state of one tracked obligation, its
  order and join, the effects that change it, the reasons an outcome may be inconclusive,
  the relevance of an uncertainty to an obligation, and the aggregation of path statuses
  into a decision.  Sources: \<open>goplint/protocol_domain.go\<close>, \<open>goplint/protocol_relevance.go\<close>,
  the reason constants of \<open>goplint/cfa_outcome.go\<close>.

  Go's sized unsigned integers are words of the same width, so the bit sets keep their width
  and every value a field can hold is a state of the model, valid or not.
\<close>

section \<open>Types and constants\<close>

type_synonym protocolValidationState = "8 word"
type_synonym protocolHazardSet = "8 word"
type_synonym protocolUncertaintySet = "32 word"
type_synonym protocolErrorResult = "8 word"
type_synonym protocolDeferredErrorRelation = "8 word"
type_synonym protocolIdentityRelevance = "8 word"
type_synonym protocolEffectSet = "16 word"
type_synonym protocolEffectKind = "8 word"
type_synonym protocolPathStatus = "8 word"
type_synonym protocolEvidenceKind = string
type_synonym pathOutcomeReason = string

definition protocolValidationProven :: protocolValidationState where [go_const]: "protocolValidationProven = 0"
definition protocolValidationRequired :: protocolValidationState where [go_const]: "protocolValidationRequired = 1"

definition protocolHazardEscaped :: protocolHazardSet where [go_const]: "protocolHazardEscaped = 1"
definition protocolHazardConsumed :: protocolHazardSet where [go_const]: "protocolHazardConsumed = 2"

definition protocolUncertaintyUnresolvedCall :: protocolUncertaintySet where [go_const]: "protocolUncertaintyUnresolvedCall = 2"
definition protocolUncertaintyAmbiguousIdentity :: protocolUncertaintySet where [go_const]: "protocolUncertaintyAmbiguousIdentity = 4"
definition protocolUncertaintyMissingSSA :: protocolUncertaintySet where [go_const]: "protocolUncertaintyMissingSSA = 32"
definition protocolUncertaintyStateBudget :: protocolUncertaintySet where [go_const]: "protocolUncertaintyStateBudget = 64"
definition protocolUncertaintyWitnessBudget :: protocolUncertaintySet where [go_const]: "protocolUncertaintyWitnessBudget = 128"
definition protocolUncertaintyTimeout :: protocolUncertaintySet where [go_const]: "protocolUncertaintyTimeout = 1024"
definition protocolUncertaintyUnsupportedInstruction :: protocolUncertaintySet where [go_const]: "protocolUncertaintyUnsupportedInstruction = 4096"
definition protocolUncertaintyReflection :: protocolUncertaintySet where [go_const]: "protocolUncertaintyReflection = 8192"
definition protocolUncertaintyUnsafe :: protocolUncertaintySet where [go_const]: "protocolUncertaintyUnsafe = 16384"
definition protocolUncertaintyConcurrentMutation :: protocolUncertaintySet where [go_const]: "protocolUncertaintyConcurrentMutation = 32768"
definition protocolUncertaintyEscapedHeapMutation :: protocolUncertaintySet where [go_const]: "protocolUncertaintyEscapedHeapMutation = 65536"
definition protocolUncertaintyRecursionCycle :: protocolUncertaintySet where [go_const]: "protocolUncertaintyRecursionCycle = 131072"
definition protocolUncertaintyFeasibilityUnknown :: protocolUncertaintySet where [go_const]: "protocolUncertaintyFeasibilityUnknown = 262144"
definition protocolUncertaintyCallMapping :: protocolUncertaintySet where [go_const]: "protocolUncertaintyCallMapping = 524288"

definition protocolErrorResultUnknown :: protocolErrorResult where [go_const]: "protocolErrorResultUnknown = 0"
definition protocolErrorResultNil :: protocolErrorResult where [go_const]: "protocolErrorResultNil = 1"
definition protocolErrorResultNonNil :: protocolErrorResult where [go_const]: "protocolErrorResultNonNil = 2"

definition protocolDeferredErrorUnknown :: protocolDeferredErrorRelation where [go_const]: "protocolDeferredErrorUnknown = 0"
definition protocolDeferredErrorNil :: protocolDeferredErrorRelation where [go_const]: "protocolDeferredErrorNil = 1"
definition protocolDeferredErrorValidation :: protocolDeferredErrorRelation where [go_const]: "protocolDeferredErrorValidation = 2"
definition protocolDeferredErrorOther :: protocolDeferredErrorRelation where [go_const]: "protocolDeferredErrorOther = 3"

definition protocolEffectValidate :: protocolEffectKind where [go_const]: "protocolEffectValidate = 0"
definition protocolEffectEscape :: protocolEffectKind where [go_const]: "protocolEffectEscape = 1"
definition protocolEffectConsume :: protocolEffectKind where [go_const]: "protocolEffectConsume = 2"

definition protocolPathSatisfied :: protocolPathStatus where [go_const]: "protocolPathSatisfied = 0"
definition protocolPathViolation :: protocolPathStatus where [go_const]: "protocolPathViolation = 1"
definition protocolPathUnresolved :: protocolPathStatus where [go_const]: "protocolPathUnresolved = 2"
definition protocolPathDischargedInfeasible :: protocolPathStatus where [go_const]: "protocolPathDischargedInfeasible = 3"

definition protocolEvidenceViolation :: protocolEvidenceKind where [go_const]: "protocolEvidenceViolation = ''violation''"
definition protocolEvidenceInconclusive :: protocolEvidenceKind where [go_const]: "protocolEvidenceInconclusive = ''inconclusive''"

definition pathOutcomeReasonNone :: pathOutcomeReason where [go_const]: "pathOutcomeReasonNone = ''''"
definition pathOutcomeReasonStateBudget :: pathOutcomeReason where [go_const]: "pathOutcomeReasonStateBudget = ''state-budget''"
definition pathOutcomeReasonWitnessBudget :: pathOutcomeReason where [go_const]: "pathOutcomeReasonWitnessBudget = ''witness-budget''"
definition pathOutcomeReasonTimeout :: pathOutcomeReason where [go_const]: "pathOutcomeReasonTimeout = ''timeout''"
definition pathOutcomeReasonRecursionCycle :: pathOutcomeReason where [go_const]: "pathOutcomeReasonRecursionCycle = ''recursion-cycle''"
definition pathOutcomeReasonUnresolvedTarget :: pathOutcomeReason where [go_const]: "pathOutcomeReasonUnresolvedTarget = ''unresolved-target''"
definition pathOutcomeReasonCallMapping :: pathOutcomeReason where [go_const]: "pathOutcomeReasonCallMapping = ''call-mapping''"
definition pathOutcomeReasonFeasibilityUnknown :: pathOutcomeReason where [go_const]: "pathOutcomeReasonFeasibilityUnknown = ''feasibility-unknown''"
definition pathOutcomeReasonMissingSSA :: pathOutcomeReason where [go_const]: "pathOutcomeReasonMissingSSA = ''missing-ssa''"
definition pathOutcomeReasonUnsupportedInstr :: pathOutcomeReason where [go_const]: "pathOutcomeReasonUnsupportedInstr = ''unsupported-instruction''"
definition pathOutcomeReasonAmbiguousIdentity :: pathOutcomeReason where [go_const]: "pathOutcomeReasonAmbiguousIdentity = ''ambiguous-identity''"
definition pathOutcomeReasonConcurrentMutation :: pathOutcomeReason where [go_const]: "pathOutcomeReasonConcurrentMutation = ''concurrent-mutation''"
definition pathOutcomeReasonEscapedHeapMutation :: pathOutcomeReason where [go_const]: "pathOutcomeReasonEscapedHeapMutation = ''escaped-heap-mutation''"
definition pathOutcomeReasonReflection :: pathOutcomeReason where [go_const]: "pathOutcomeReasonReflection = ''reflection''"
definition pathOutcomeReasonUnsafe :: pathOutcomeReason where [go_const]: "pathOutcomeReasonUnsafe = ''unsafe''"

text \<open>The possible effects of an uncertainty, \<open>1 << iota\<close> in \<open>protocol_relevance.go\<close>.\<close>

definition protocolPossibleEffectValidate :: protocolEffectSet where [go_const]: "protocolPossibleEffectValidate = 1"
definition protocolPossibleEffectMutate :: protocolEffectSet where [go_const]: "protocolPossibleEffectMutate = 2"
definition protocolPossibleEffectReplace :: protocolEffectSet where [go_const]: "protocolPossibleEffectReplace = 4"
definition protocolPossibleEffectEscape :: protocolEffectSet where [go_const]: "protocolPossibleEffectEscape = 8"
definition protocolPossibleEffectConsume :: protocolEffectSet where [go_const]: "protocolPossibleEffectConsume = 16"
definition protocolPossibleEffectTerminate :: protocolEffectSet where [go_const]: "protocolPossibleEffectTerminate = 32"
definition protocolPossibleEffectConstraint :: protocolEffectSet where [go_const]: "protocolPossibleEffectConstraint = 64"

definition protocolUnknownCallEffects :: protocolEffectSet where
  "protocolUnknownCallEffects = protocolPossibleEffectValidate OR protocolPossibleEffectMutate OR
     protocolPossibleEffectReplace OR protocolPossibleEffectEscape OR protocolPossibleEffectConsume OR
     protocolPossibleEffectTerminate OR protocolPossibleEffectConstraint"

definition protocolIdentityUnrelated :: protocolIdentityRelevance where [go_const]: "protocolIdentityUnrelated = 0"
definition protocolIdentityMustAlias :: protocolIdentityRelevance where [go_const]: "protocolIdentityMustAlias = 1"
definition protocolIdentityMayAlias :: protocolIdentityRelevance where [go_const]: "protocolIdentityMayAlias = 2"
definition protocolIdentityUnknown :: protocolIdentityRelevance where [go_const]: "protocolIdentityUnknown = 3"

record protocolAbstractState =
  Validation :: protocolValidationState
  Hazards :: protocolHazardSet
  Uncertainty :: protocolUncertaintySet
  ErrorResult :: protocolErrorResult
  DeferredError :: protocolDeferredErrorRelation
  Identity :: protocolIdentityRelevance
  PossibleEffects :: protocolEffectSet

record protocolConditionalEffect =
  EffectKind :: protocolEffectKind
  ReceiverIdentity :: "32 word"
  ErrorIdentity :: "32 word"

record protocolDecision =
  DecisionKind :: protocolEvidenceKind
  EmitDiagnostic :: bool
  DischargedWitnesses :: nat

record protocolRelevanceQuery =
  ForwardReachable :: bool
  SinkReachable :: bool
  QueryIdentity :: protocolIdentityRelevance
  QueryEffects :: protocolEffectSet

section \<open>Order, join and effects of the abstract state\<close>

definition newProtocolRequiredState :: protocolAbstractState where
  "newProtocolRequiredState =
     \<lparr>Validation = protocolValidationRequired, Hazards = 0, Uncertainty = 0,
      ErrorResult = protocolErrorResultUnknown, DeferredError = 0, Identity = 0, PossibleEffects = 0\<rparr>"

definition protocolErrorResultLessEqual :: "protocolErrorResult \<Rightarrow> protocolErrorResult \<Rightarrow> bool" where
  "protocolErrorResultLessEqual left right \<longleftrightarrow> left = right \<or> right = protocolErrorResultUnknown"

definition joinProtocolErrorResults :: "protocolErrorResult \<Rightarrow> protocolErrorResult \<Rightarrow> protocolErrorResult" where
  "joinProtocolErrorResults left right = (if left = right then left else protocolErrorResultUnknown)"

definition protocolDeferredErrorLessEqual ::
  "protocolDeferredErrorRelation \<Rightarrow> protocolDeferredErrorRelation \<Rightarrow> bool" where
  "protocolDeferredErrorLessEqual left right \<longleftrightarrow> left = right \<or> right = protocolDeferredErrorUnknown"

definition joinProtocolDeferredErrors ::
  "protocolDeferredErrorRelation \<Rightarrow> protocolDeferredErrorRelation \<Rightarrow> protocolDeferredErrorRelation" where
  "joinProtocolDeferredErrors left right = (if left = right then left else protocolDeferredErrorUnknown)"

definition joinProtocolIdentityRelevance ::
  "protocolIdentityRelevance \<Rightarrow> protocolIdentityRelevance \<Rightarrow> protocolIdentityRelevance" where
  "joinProtocolIdentityRelevance left right = (if left \<ge> right then left else right)"

definition state_lessEqual :: "protocolAbstractState \<Rightarrow> protocolAbstractState \<Rightarrow> bool" where
  "state_lessEqual s other \<longleftrightarrow>
     Validation s \<le> Validation other \<and>
     (Hazards s AND Hazards other) = Hazards s \<and>
     (Uncertainty s AND Uncertainty other) = Uncertainty s \<and>
     protocolErrorResultLessEqual (ErrorResult s) (ErrorResult other) \<and>
     protocolDeferredErrorLessEqual (DeferredError s) (DeferredError other) \<and>
     Identity s \<le> Identity other \<and>
     (PossibleEffects s AND PossibleEffects other) = PossibleEffects s"

definition state_join :: "protocolAbstractState \<Rightarrow> protocolAbstractState \<Rightarrow> protocolAbstractState" where
  "state_join s other =
     \<lparr>Validation = max (Validation s) (Validation other),
      Hazards = Hazards s OR Hazards other,
      Uncertainty = Uncertainty s OR Uncertainty other,
      ErrorResult = joinProtocolErrorResults (ErrorResult s) (ErrorResult other),
      DeferredError = joinProtocolDeferredErrors (DeferredError s) (DeferredError other),
      Identity = joinProtocolIdentityRelevance (Identity s) (Identity other),
      PossibleEffects = PossibleEffects s OR PossibleEffects other\<rparr>"

definition state_apply ::
  "protocolAbstractState \<Rightarrow> protocolConditionalEffect \<Rightarrow> protocolErrorResult \<Rightarrow>
   protocolUncertaintySet \<Rightarrow> protocolAbstractState" where
  "state_apply s effect result unknownReason =
     (if EffectKind effect = protocolEffectValidate then
        (if result = protocolErrorResultNil then
           s\<lparr>Validation := protocolValidationProven, ErrorResult := protocolErrorResultNil\<rparr>
         else if result = protocolErrorResultNonNil then
           s\<lparr>ErrorResult := protocolErrorResultNonNil\<rparr>
         else if result = protocolErrorResultUnknown then
           s\<lparr>ErrorResult := protocolErrorResultUnknown, Uncertainty := Uncertainty s OR unknownReason\<rparr>
         else s)
      else if EffectKind effect = protocolEffectEscape then
        (if Validation s = protocolValidationRequired
         then s\<lparr>Hazards := Hazards s OR protocolHazardEscaped\<rparr> else s)
      else if EffectKind effect = protocolEffectConsume then
        (if Validation s = protocolValidationRequired
         then s\<lparr>Hazards := Hazards s OR protocolHazardConsumed\<rparr> else s)
      else s)"

section \<open>Reasons and their bits\<close>

definition protocolPathReasonOrder :: "(protocolUncertaintySet \<times> pathOutcomeReason) list" where
  "protocolPathReasonOrder =
     [(protocolUncertaintyTimeout, pathOutcomeReasonTimeout),
      (protocolUncertaintyStateBudget, pathOutcomeReasonStateBudget),
      (protocolUncertaintyWitnessBudget, pathOutcomeReasonWitnessBudget),
      (protocolUncertaintyRecursionCycle, pathOutcomeReasonRecursionCycle),
      (protocolUncertaintyFeasibilityUnknown, pathOutcomeReasonFeasibilityUnknown),
      (protocolUncertaintyMissingSSA, pathOutcomeReasonMissingSSA),
      (protocolUncertaintyUnsupportedInstruction, pathOutcomeReasonUnsupportedInstr),
      (protocolUncertaintyConcurrentMutation, pathOutcomeReasonConcurrentMutation),
      (protocolUncertaintyEscapedHeapMutation, pathOutcomeReasonEscapedHeapMutation),
      (protocolUncertaintyAmbiguousIdentity, pathOutcomeReasonAmbiguousIdentity),
      (protocolUncertaintyReflection, pathOutcomeReasonReflection),
      (protocolUncertaintyUnsafe, pathOutcomeReasonUnsafe),
      (protocolUncertaintyUnresolvedCall, pathOutcomeReasonUnresolvedTarget),
      (protocolUncertaintyCallMapping, pathOutcomeReasonCallMapping)]"

definition protocolUncertaintyForPathReason :: "pathOutcomeReason \<Rightarrow> protocolUncertaintySet" where
  "protocolUncertaintyForPathReason reason =
     (case find (\<lambda>entry. snd entry = reason) protocolPathReasonOrder of
        Some entry \<Rightarrow> fst entry
      | None \<Rightarrow> protocolUncertaintyFeasibilityUnknown)"

definition state_pathOutcomeReason :: "protocolAbstractState \<Rightarrow> pathOutcomeReason" where
  "state_pathOutcomeReason s =
     (case find (\<lambda>entry. Uncertainty s AND fst entry \<noteq> 0) protocolPathReasonOrder of
        Some entry \<Rightarrow> snd entry
      | None \<Rightarrow> pathOutcomeReasonNone)"

definition protocolEffectsForUncertainty :: "pathOutcomeReason \<Rightarrow> protocolEffectSet" where
  "protocolEffectsForUncertainty reason =
     (if reason = pathOutcomeReasonConcurrentMutation then
        protocolPossibleEffectMutate OR protocolPossibleEffectReplace
      else if reason = pathOutcomeReasonEscapedHeapMutation then
        protocolPossibleEffectMutate OR protocolPossibleEffectReplace OR protocolPossibleEffectEscape
      else if reason = pathOutcomeReasonAmbiguousIdentity then
        protocolPossibleEffectMutate OR protocolPossibleEffectReplace OR protocolPossibleEffectEscape OR
        protocolPossibleEffectConsume OR protocolPossibleEffectConstraint
      else if reason \<in> {pathOutcomeReasonUnresolvedTarget, pathOutcomeReasonCallMapping,
                        pathOutcomeReasonReflection, pathOutcomeReasonUnsafe} then
        protocolUnknownCallEffects
      else 0)"

definition protocolIdentityForUncertainty :: "pathOutcomeReason \<Rightarrow> protocolIdentityRelevance" where
  "protocolIdentityForUncertainty reason =
     (if reason = pathOutcomeReasonAmbiguousIdentity then protocolIdentityMayAlias
      else if protocolEffectsForUncertainty reason \<noteq> 0 then protocolIdentityMustAlias
      else protocolIdentityUnrelated)"

definition protocolIdentityAtUnresolvedSink ::
  "pathOutcomeReason \<Rightarrow> protocolIdentityRelevance \<Rightarrow> protocolIdentityRelevance" where
  "protocolIdentityAtUnresolvedSink reason identity =
     (if reason \<in> {pathOutcomeReasonUnresolvedTarget, pathOutcomeReasonCallMapping,
                   pathOutcomeReasonReflection, pathOutcomeReasonUnsafe}
      then joinProtocolIdentityRelevance identity protocolIdentityUnknown else identity)"

definition withUncertainty :: "protocolAbstractState \<Rightarrow> pathOutcomeReason \<Rightarrow> protocolAbstractState" where
  "withUncertainty s reason =
     (if reason = pathOutcomeReasonNone then s
      else s\<lparr>Uncertainty := Uncertainty s OR protocolUncertaintyForPathReason reason,
             PossibleEffects := PossibleEffects s OR protocolEffectsForUncertainty reason,
             Identity := joinProtocolIdentityRelevance (Identity s) (protocolIdentityForUncertainty reason)\<rparr>)"

section \<open>Validity, projections and path status\<close>

definition allUncertainty :: protocolUncertaintySet where
  "allUncertainty =
     protocolUncertaintyUnresolvedCall OR protocolUncertaintyAmbiguousIdentity OR
     protocolUncertaintyMissingSSA OR protocolUncertaintyStateBudget OR
     protocolUncertaintyWitnessBudget OR protocolUncertaintyTimeout OR
     protocolUncertaintyUnsupportedInstruction OR protocolUncertaintyReflection OR
     protocolUncertaintyUnsafe OR protocolUncertaintyConcurrentMutation OR
     protocolUncertaintyEscapedHeapMutation OR protocolUncertaintyRecursionCycle OR
     protocolUncertaintyFeasibilityUnknown OR protocolUncertaintyCallMapping"

definition state_valid :: "protocolAbstractState \<Rightarrow> bool" where
  "state_valid s \<longleftrightarrow>
     \<not> (Validation s > protocolValidationRequired \<or>
        Hazards s AND NOT (protocolHazardEscaped OR protocolHazardConsumed) \<noteq> 0 \<or>
        ErrorResult s > protocolErrorResultNonNil \<or>
        DeferredError s > protocolDeferredErrorOther \<or>
        Identity s > protocolIdentityUnknown) \<and>
     Uncertainty s AND NOT allUncertainty = 0 \<and>
     PossibleEffects s AND NOT protocolUnknownCallEffects = 0"

definition validationProven :: "protocolAbstractState \<Rightarrow> bool" where
  "validationProven s \<longleftrightarrow> Validation s = protocolValidationProven"

definition validationRequired :: "protocolAbstractState \<Rightarrow> bool" where
  "validationRequired s \<longleftrightarrow> Validation s = protocolValidationRequired"

definition escapedBeforeValidation :: "protocolAbstractState \<Rightarrow> bool" where
  "escapedBeforeValidation s \<longleftrightarrow> Hazards s AND protocolHazardEscaped \<noteq> 0"

definition consumedBeforeValidation :: "protocolAbstractState \<Rightarrow> bool" where
  "consumedBeforeValidation s \<longleftrightarrow> Hazards s AND protocolHazardConsumed \<noteq> 0"

definition pathStatus :: "protocolAbstractState \<Rightarrow> protocolPathStatus" where
  "pathStatus s =
     (if Hazards s \<noteq> 0 then protocolPathViolation
      else if Uncertainty s \<noteq> 0 then protocolPathUnresolved
      else protocolPathSatisfied)"

definition query_relevant :: "protocolRelevanceQuery \<Rightarrow> protocolAbstractState \<Rightarrow> bool" where
  "query_relevant query state =
     (if \<not> ForwardReachable query \<or> \<not> SinkReachable query \<or>
         QueryIdentity query = protocolIdentityUnrelated \<or> QueryEffects query = 0 then False
      else if \<not> validationProven state then QueryIdentity query \<ge> protocolIdentityMayAlias
      else QueryEffects query AND
             (protocolPossibleEffectMutate OR protocolPossibleEffectReplace OR
              protocolPossibleEffectEscape OR protocolPossibleEffectConsume OR
              protocolPossibleEffectConstraint) \<noteq> 0)"

text \<open>
  \<open>aggregateProtocolPaths\<close> scans the statuses once, keeping two flags and the count of
  discharged witnesses.
\<close>

fun aggregateScan :: "protocolPathStatus list \<Rightarrow> bool \<Rightarrow> bool \<Rightarrow> nat \<Rightarrow> bool \<times> bool \<times> nat" where
  "aggregateScan [] hasViolation hasUnresolved discharged = (hasViolation, hasUnresolved, discharged)"
| "aggregateScan (status # rest) hasViolation hasUnresolved discharged =
     (if status = protocolPathViolation then aggregateScan rest True hasUnresolved discharged
      else if status = protocolPathUnresolved then aggregateScan rest hasViolation True discharged
      else if status = protocolPathDischargedInfeasible then
        aggregateScan rest hasViolation hasUnresolved (Suc discharged)
      else aggregateScan rest hasViolation hasUnresolved discharged)"

definition aggregateProtocolPaths :: "protocolPathStatus list \<Rightarrow> protocolDecision" where
  "aggregateProtocolPaths statuses =
     (case aggregateScan statuses False False 0 of (hasViolation, hasUnresolved, discharged) \<Rightarrow>
        if hasViolation then
          \<lparr>DecisionKind = protocolEvidenceViolation, EmitDiagnostic = True, DischargedWitnesses = discharged\<rparr>
        else if hasUnresolved then
          \<lparr>DecisionKind = protocolEvidenceInconclusive, EmitDiagnostic = True, DischargedWitnesses = discharged\<rparr>
        else \<lparr>DecisionKind = '''', EmitDiagnostic = False, DischargedWitnesses = discharged\<rparr>)"

text \<open>The map key of a state, \<open>fmt.Sprintf\<close> over its seven fields.\<close>

definition state_key :: "protocolAbstractState \<Rightarrow> string" where
  "state_key s =
     ''validation='' @ show_nat (unat (Validation s)) @
     '',hazards='' @ show_nat (unat (Hazards s)) @
     '',uncertainty='' @ show_nat (unat (Uncertainty s)) @
     '',result='' @ show_nat (unat (ErrorResult s)) @
     '',deferred-error='' @ show_nat (unat (DeferredError s)) @
     '',identity='' @ show_nat (unat (Identity s)) @
     '',effects='' @ show_nat (unat (PossibleEffects s))"


section \<open>The interface of a join-semilattice\<close>

text \<open>
  What the solver relies on when it merges states: a partial order with a least upper bound.
  The laws are assumed once; everything a client needs is derived inside the locale.
\<close>

locale join_lattice =
  fixes le :: "'a \<Rightarrow> 'a \<Rightarrow> bool" and join :: "'a \<Rightarrow> 'a \<Rightarrow> 'a"
  assumes le_refl: "le x x"
    and le_antisym: "le x y \<Longrightarrow> le y x \<Longrightarrow> x = y"
    and join_le_iff: "le (join x y) z \<longleftrightarrow> le x z \<and> le y z"
    and le_trans: "le x y \<Longrightarrow> le y z \<Longrightarrow> le x z"
begin

lemma join_upper1: "le x (join x y)" and join_upper2: "le y (join x y)"
  using join_le_iff le_refl by blast+

lemma join_commute: "join x y = join y x"
  by (meson join_le_iff join_upper1 join_upper2 le_antisym)

lemma join_assoc: "join (join x y) z = join x (join y z)"
proof (rule le_antisym)
  have "le y (join x (join y z))" "le z (join x (join y z))"
    using join_upper1 join_upper2 le_trans by blast+
  then show "le (join (join x y) z) (join x (join y z))"
    by (simp add: join_le_iff join_upper1)
  have "le x (join (join x y) z)" "le y (join (join x y) z)"
    using join_upper1 join_upper2 le_trans by blast+
  then show "le (join x (join y z)) (join (join x y) z)"
    by (simp add: join_le_iff join_upper2)
qed

lemma join_idem: "join x x = x"
  by (simp add: join_le_iff le_antisym le_refl join_upper1)

lemma le_iff_join: "le x y \<longleftrightarrow> join x y = y"
  by (metis join_le_iff join_upper1 join_upper2 le_antisym le_refl)

lemma join_mono: "le x x' \<Longrightarrow> le y y' \<Longrightarrow> le (join x y) (join x' y')"
  by (meson join_le_iff join_upper1 join_upper2 le_trans)

text \<open>Joining a list of states onto a start state is its least upper bound, in any order.\<close>

lemma foldl_join_le_iff: "le (foldl join x xs) z \<longleftrightarrow> le x z \<and> (\<forall>y\<in>set xs. le y z)"
  by (induction xs arbitrary: x) (auto simp: join_le_iff)

lemma foldl_join_set: "set xs = set ys \<Longrightarrow> foldl join x xs = foldl join x ys"
  by (rule le_antisym) (metis foldl_join_le_iff le_refl)+

end

section \<open>The abstract states form a join-semilattice\<close>

lemma and_eq_iff_bits: "(a AND b = a) \<longleftrightarrow> (\<forall>n. bit a n \<longrightarrow> bit b n)" for a b :: "'a::len word"
  by (auto simp: bit_eq_iff bit_and_iff dest: bit_imp_le_length)

lemma and_antisym: "a AND b = a \<Longrightarrow> b AND a = b \<Longrightarrow> a = b" for a b :: "'a::len word"
  by (metis and.commute)

lemmas lattice_defs = state_lessEqual_def state_join_def protocolErrorResultLessEqual_def
  joinProtocolErrorResults_def protocolDeferredErrorLessEqual_def joinProtocolDeferredErrors_def
  joinProtocolIdentityRelevance_def

text \<open>The order and the join, field by field.\<close>

lemma flat_le_iff:
  "(if a = b then a else u) = c \<or> c = u \<longleftrightarrow> (a = c \<or> c = u) \<and> (b = c \<or> c = u)" for a b c u :: "'a::len word"
  by auto

lemma or_and_le_iff: "((a OR b) AND c) = (a OR b) \<longleftrightarrow> (a AND c) = a \<and> (b AND c) = b" for a b c :: "'a::len word"
  unfolding and_eq_iff_bits bit_or_iff by blast

lemma and_le_trans: "(a AND b) = a \<Longrightarrow> (b AND c) = b \<Longrightarrow> (a AND c) = a" for a b c :: "'a::len word"
  unfolding and_eq_iff_bits by blast

lemma ge_max_iff: "(if a \<ge> b then a else b) \<le> c \<longleftrightarrow> a \<le> c \<and> b \<le> c" for a b c :: "'a::linorder"
  by auto

lemma state_join_le_iff: "state_lessEqual (state_join x y) z \<longleftrightarrow> state_lessEqual x z \<and> state_lessEqual y z"
  unfolding state_lessEqual_def state_join_def protocolErrorResultLessEqual_def
    joinProtocolErrorResults_def protocolDeferredErrorLessEqual_def joinProtocolDeferredErrors_def
    joinProtocolIdentityRelevance_def protocolAbstractState.simps
    or_and_le_iff flat_le_iff ge_max_iff max.bounded_iff
  by blast

lemma flat_antisym: "a = b \<or> b = u \<Longrightarrow> b = a \<or> a = u \<Longrightarrow> a = b"
  by auto

lemma flat_trans: "a = b \<or> b = u \<Longrightarrow> b = c \<or> c = u \<Longrightarrow> a = c \<or> c = u"
  by auto

lemma state_le_antisym:
  assumes "state_lessEqual x y" and "state_lessEqual y x"
  shows "x = y"
proof (rule protocolAbstractState.equality)
  note le = assms [unfolded state_lessEqual_def protocolErrorResultLessEqual_def protocolDeferredErrorLessEqual_def]
  show "Validation x = Validation y" "Identity x = Identity y"
    using le by (blast intro: order.antisym)+
  show "Hazards x = Hazards y" "Uncertainty x = Uncertainty y" "PossibleEffects x = PossibleEffects y"
    using le by (blast intro: and_antisym)+
  show "ErrorResult x = ErrorResult y" "DeferredError x = DeferredError y"
    using le by (blast intro: flat_antisym)+
qed simp

lemma state_le_trans:
  assumes "state_lessEqual x y" and "state_lessEqual y z"
  shows "state_lessEqual x z"
proof -
  note le = assms [unfolded state_lessEqual_def protocolErrorResultLessEqual_def protocolDeferredErrorLessEqual_def]
  have ord: "Validation x \<le> Validation z" "Identity x \<le> Identity z"
    using le by (blast intro: order.trans)+
  have bits: "(Hazards x AND Hazards z) = Hazards x"
    "(Uncertainty x AND Uncertainty z) = Uncertainty x"
    "(PossibleEffects x AND PossibleEffects z) = PossibleEffects x"
    by (rule and_le_trans [of _ "Hazards y"] and_le_trans [of _ "Uncertainty y"] and_le_trans [of _ "PossibleEffects y"];
        use le in blast)+
  have flat: "ErrorResult x = ErrorResult z \<or> ErrorResult z = protocolErrorResultUnknown"
    "DeferredError x = DeferredError z \<or> DeferredError z = protocolDeferredErrorUnknown"
    by (rule flat_trans [of _ "ErrorResult y"] flat_trans [of _ "DeferredError y"]; use le in blast)+
  from ord bits flat show ?thesis
    unfolding state_lessEqual_def protocolErrorResultLessEqual_def protocolDeferredErrorLessEqual_def
    by blast
qed

interpretation state_lattice: join_lattice state_lessEqual state_join
proof
  fix x y z :: protocolAbstractState
  show "state_lessEqual x x"
    by (simp add: lattice_defs)
qed (fact state_le_antisym state_join_le_iff state_le_trans)+

section \<open>Validity\<close>

lemma valid_word_defs:
  "protocolUnknownCallEffects = 127" "allUncertainty = 0xFF4E6" "NOT (protocolHazardEscaped OR protocolHazardConsumed) = (0xFC :: 8 word)"
  by (simp_all add: protocolUnknownCallEffects_def allUncertainty_def go_const)

text \<open>Every set of bits outside a mask stays empty under union.\<close>

lemma mask_or: "(a OR b) AND m = 0 \<longleftrightarrow> a AND m = 0 \<and> b AND m = 0" for a b m :: "'a::len word"
  by (auto simp: bit_eq_iff bit_simps)

lemma reason_bit_valid: "protocolUncertaintyForPathReason reason AND NOT allUncertainty = 0"
  by (auto simp: protocolUncertaintyForPathReason_def protocolPathReasonOrder_def valid_word_defs go_const)

lemma reason_effects_valid: "protocolEffectsForUncertainty reason AND NOT protocolUnknownCallEffects = 0"
  by (auto simp: protocolEffectsForUncertainty_def valid_word_defs go_const)

lemma reason_identity_valid: "protocolIdentityForUncertainty reason \<le> protocolIdentityUnknown"
  by (auto simp: protocolIdentityForUncertainty_def go_const)

lemma state_valid_join: "state_valid s \<Longrightarrow> state_valid t \<Longrightarrow> state_valid (state_join s t)"
  by (auto simp: state_valid_def state_join_def mask_or joinProtocolErrorResults_def
      joinProtocolDeferredErrors_def joinProtocolIdentityRelevance_def not_less go_const)

lemma state_valid_withUncertainty: "state_valid s \<Longrightarrow> state_valid (withUncertainty s reason)"
  using reason_identity_valid [of reason]
  by (auto simp: state_valid_def withUncertainty_def mask_or reason_bit_valid reason_effects_valid
      joinProtocolIdentityRelevance_def not_less)

lemma state_valid_apply:
  "state_valid s \<Longrightarrow> unknownReason AND NOT allUncertainty = 0 \<Longrightarrow> state_valid (state_apply s effect result unknownReason)"
  by (auto simp: state_valid_def state_apply_def mask_or go_const)

lemma state_valid_required: "state_valid newProtocolRequiredState"
  by (simp add: state_valid_def newProtocolRequiredState_def go_const)

text \<open>On a valid state the two validation predicates are complementary.\<close>

lemma valid_not_proven: "state_valid s \<Longrightarrow> (\<not> validationProven s) = validationRequired s"
proof -
  assume "state_valid s"
  then have "unat (Validation s) \<le> 1"
    by (simp add: state_valid_def go_const not_less word_le_nat_alt)
  then have "unat (Validation s) = 0 \<or> unat (Validation s) = 1" by linarith
  then have "Validation s = 0 \<or> Validation s = 1"
    by (metis unat_0 unat_1 word_unat_eq_iff)
  then show ?thesis by (auto simp: validationProven_def validationRequired_def go_const)
qed

section \<open>Aggregation and uncertainty\<close>

lemma aggregateScan_eq:
  "aggregateScan sts v u d =
     (v \<or> protocolPathViolation \<in> set sts, u \<or> protocolPathUnresolved \<in> set sts,
      d + count_list sts protocolPathDischargedInfeasible)"
  by (induction sts arbitrary: v u d) (auto simp: go_const)

text \<open>
  Aggregating path statuses does not depend on their order: a violation anywhere wins,
  otherwise an unresolved path makes the decision inconclusive, otherwise nothing is
  reported, and every discharged witness is counted once.
\<close>

theorem aggregateProtocolPaths_spec:
  "aggregateProtocolPaths sts =
     \<lparr>DecisionKind = (if protocolPathViolation \<in> set sts then protocolEvidenceViolation
        else if protocolPathUnresolved \<in> set sts then protocolEvidenceInconclusive else ''''),
      EmitDiagnostic = (protocolPathViolation \<in> set sts \<or> protocolPathUnresolved \<in> set sts),
      DischargedWitnesses = count_list sts protocolPathDischargedInfeasible\<rparr>"
  by (simp add: aggregateProtocolPaths_def aggregateScan_eq)

text \<open>A bit that is set by an uncertainty stays visible to the reason lookup.\<close>

lemma reason_bit_nonzero: "protocolUncertaintyForPathReason reason \<noteq> 0"
  by (simp add: protocolUncertaintyForPathReason_def protocolPathReasonOrder_def go_const)

lemma or_nonzero: "b \<noteq> 0 \<Longrightarrow> a OR b \<noteq> 0" for a b :: "'a::len word"
  by (metis or_eq_0_iff)

text \<open>
  Uncertainty is never dropped: recording any reason other than the empty one leaves a
  state that is not satisfied, keeps a violation a violation, and can only grow the state in
  the order of the domain; recording the empty reason changes nothing.
\<close>

theorem withUncertainty_blocks:
  "pathStatus (withUncertainty s reason) =
     (if reason = pathOutcomeReasonNone then pathStatus s
      else if Hazards s \<noteq> 0 then protocolPathViolation else protocolPathUnresolved) \<and>
   state_lessEqual s (withUncertainty s reason)"
proof -
  have "Uncertainty s OR protocolUncertaintyForPathReason reason \<noteq> 0"
    by (rule or_nonzero) (rule reason_bit_nonzero)
  moreover have "state_lessEqual s (withUncertainty s reason)"
    unfolding withUncertainty_def state_lessEqual_def protocolErrorResultLessEqual_def
      protocolDeferredErrorLessEqual_def and_eq_iff_bits joinProtocolIdentityRelevance_def
    by (auto simp: bit_or_iff)
  ultimately show ?thesis
    by (simp add: withUncertainty_def pathStatus_def)
qed

text \<open>
  The reason table is a faithful code: a state that carries exactly the bit of a reason
  reports that reason back, for every reason that has a bit of its own, and a reason without
  one is reported as unknown feasibility.
\<close>

theorem reason_bit_roundtrip:
  "state_pathOutcomeReason (s\<lparr>Uncertainty := protocolUncertaintyForPathReason reason\<rparr>) =
     (if reason \<in> set (map snd protocolPathReasonOrder) then reason
      else pathOutcomeReasonFeasibilityUnknown)"
  by (simp add: state_pathOutcomeReason_def protocolUncertaintyForPathReason_def
      protocolPathReasonOrder_def go_const)

text \<open>
  The abstract states form a join-semilattice: the order is reflexive, antisymmetric and
  transitive, and the join of two states is their least upper bound, on every value the
  fields can hold.
\<close>

theorem state_join_semilattice:
  "state_lessEqual x x \<and>
   (state_lessEqual x y \<and> state_lessEqual y x \<longleftrightarrow> x = y) \<and>
   (state_lessEqual (state_join x y) z \<longleftrightarrow> state_lessEqual x z \<and> state_lessEqual y z) \<and>
   state_join x y = state_join y x \<and> state_join (state_join x y) z = state_join x (state_join y z)"
  using state_lattice.le_refl state_lattice.le_antisym state_lattice.join_le_iff
    state_lattice.join_commute state_lattice.join_assoc by blast

end
