(* ===== verification/Edge_Functions.thy ===== *)
theory Edge_Functions
  imports Protocol_Domain
begin

text \<open>
  The IDE edge functions of the solver (\<open>goplint/cfa_ide_edgefunc.go\<close>) and their ordered
  composition carried by a path edge (\<open>interprocConditionalEdgeFunc\<close> in
  \<open>goplint/cfa_ifds_tabulation.go\<close>), with the tag recovered from a state transition.
\<close>

type_synonym ideEdgeFuncTag = string

definition ideEdgeFuncIdentity :: ideEdgeFuncTag where [go_const]: "ideEdgeFuncIdentity = ''identity''"
definition ideEdgeFuncValidate :: ideEdgeFuncTag where [go_const]: "ideEdgeFuncValidate = ''needs-to-validated''"
definition ideEdgeFuncValidationFailed :: ideEdgeFuncTag where [go_const]: "ideEdgeFuncValidationFailed = ''needs-to-validation-failed''"
definition ideEdgeFuncInvalidate :: ideEdgeFuncTag where [go_const]: "ideEdgeFuncInvalidate = ''validated-to-needs''"
definition ideEdgeFuncEscape :: ideEdgeFuncTag where [go_const]: "ideEdgeFuncEscape = ''needs-to-escaped-before-validate''"
definition ideEdgeFuncConsume :: ideEdgeFuncTag where [go_const]: "ideEdgeFuncConsume = ''needs-to-consumed-before-validate''"
definition ideEdgeFuncDeferredErrorNil :: ideEdgeFuncTag where [go_const]: "ideEdgeFuncDeferredErrorNil = ''deferred-error-nil''"
definition ideEdgeFuncDeferredErrorValidation :: ideEdgeFuncTag where [go_const]: "ideEdgeFuncDeferredErrorValidation = ''deferred-error-validation''"
definition ideEdgeFuncDeferredErrorOther :: ideEdgeFuncTag where [go_const]: "ideEdgeFuncDeferredErrorOther = ''deferred-error-other''"
definition ideEdgeFuncDeferredErrorUnknown :: ideEdgeFuncTag where [go_const]: "ideEdgeFuncDeferredErrorUnknown = ''deferred-error-unknown''"

definition ideStateNeedsValidate :: protocolAbstractState where
  "ideStateNeedsValidate = newProtocolRequiredState"

definition ideStateValidated :: protocolAbstractState where
  "ideStateValidated = newProtocolRequiredState
     \<lparr>Validation := protocolValidationProven, ErrorResult := protocolErrorResultNil\<rparr>"

definition ideStateValidationFailed :: protocolAbstractState where
  "ideStateValidationFailed = newProtocolRequiredState\<lparr>ErrorResult := protocolErrorResultNonNil\<rparr>"

definition ideStateEscapedBeforeValidate :: protocolAbstractState where
  "ideStateEscapedBeforeValidate = newProtocolRequiredState\<lparr>Hazards := protocolHazardEscaped\<rparr>"

definition ideStateConsumedBeforeValidate :: protocolAbstractState where
  "ideStateConsumedBeforeValidate = newProtocolRequiredState\<lparr>Hazards := protocolHazardConsumed\<rparr>"

record ideEdgeFunc =
  tag :: ideEdgeFuncTag

definition newIDEEdgeFunc :: "ideEdgeFuncTag \<Rightarrow> ideEdgeFunc" where
  "newIDEEdgeFunc t =
     (if t \<in> {ideEdgeFuncValidate, ideEdgeFuncValidationFailed, ideEdgeFuncInvalidate, ideEdgeFuncEscape,
              ideEdgeFuncConsume, ideEdgeFuncDeferredErrorNil, ideEdgeFuncDeferredErrorValidation,
              ideEdgeFuncDeferredErrorOther, ideEdgeFuncDeferredErrorUnknown}
      then \<lparr>tag = t\<rparr> else \<lparr>tag = ideEdgeFuncIdentity\<rparr>)"

definition ide_Tag :: "ideEdgeFunc \<Rightarrow> ideEdgeFuncTag" where
  "ide_Tag f = (if tag f = '''' then ideEdgeFuncIdentity else tag f)"

definition conditionalEffect :: "protocolEffectKind \<Rightarrow> protocolConditionalEffect" where
  "conditionalEffect kind = \<lparr>EffectKind = kind, ReceiverIdentity = 0, ErrorIdentity = 0\<rparr>"

definition ide_Apply :: "ideEdgeFunc \<Rightarrow> protocolAbstractState \<Rightarrow> protocolAbstractState" where
  "ide_Apply f state =
     (let t = ide_Tag f in
      if t = ideEdgeFuncValidate then
        state_apply state (conditionalEffect protocolEffectValidate) protocolErrorResultNil 0
      else if t = ideEdgeFuncValidationFailed then
        state_apply state (conditionalEffect protocolEffectValidate) protocolErrorResultNonNil 0
      else if t = ideEdgeFuncInvalidate then
        state\<lparr>Validation := protocolValidationRequired,
              ErrorResult := protocolErrorResultUnknown,
              DeferredError := (if DeferredError state = protocolDeferredErrorValidation
                then protocolDeferredErrorOther else DeferredError state)\<rparr>
      else if t = ideEdgeFuncEscape then
        state_apply state (conditionalEffect protocolEffectEscape) protocolErrorResultUnknown 0
      else if t = ideEdgeFuncConsume then
        state_apply state (conditionalEffect protocolEffectConsume) protocolErrorResultUnknown 0
      else if t = ideEdgeFuncDeferredErrorNil then state\<lparr>DeferredError := protocolDeferredErrorNil\<rparr>
      else if t = ideEdgeFuncDeferredErrorValidation then state\<lparr>DeferredError := protocolDeferredErrorValidation\<rparr>
      else if t = ideEdgeFuncDeferredErrorOther then state\<lparr>DeferredError := protocolDeferredErrorOther\<rparr>
      else if t = ideEdgeFuncDeferredErrorUnknown then
        state\<lparr>DeferredError := protocolDeferredErrorUnknown, Identity := protocolIdentityUnknown\<rparr>
      else state)"

definition edgeFuncForState :: "protocolAbstractState \<Rightarrow> ideEdgeFunc" where
  "edgeFuncForState state =
     (if consumedBeforeValidation state then newIDEEdgeFunc ideEdgeFuncConsume
      else if escapedBeforeValidation state then newIDEEdgeFunc ideEdgeFuncEscape
      else if validationProven state then newIDEEdgeFunc ideEdgeFuncValidate
      else if ErrorResult state = protocolErrorResultNonNil then newIDEEdgeFunc ideEdgeFuncValidationFailed
      else newIDEEdgeFunc ideEdgeFuncIdentity)"

definition composeIDEEdgeFuncs :: "ideEdgeFunc \<Rightarrow> ideEdgeFunc \<Rightarrow> ideEdgeFunc" where
  "composeIDEEdgeFuncs first second =
     edgeFuncForState (ide_Apply second (ide_Apply first newProtocolRequiredState))"

definition joinIDEEdgeFuncs :: "ideEdgeFunc \<Rightarrow> ideEdgeFunc \<Rightarrow> ideEdgeFunc" where
  "joinIDEEdgeFuncs left right =
     edgeFuncForState (state_join (ide_Apply left newProtocolRequiredState)
                                  (ide_Apply right newProtocolRequiredState))"

section \<open>Conditional edge functions\<close>

record interprocConditionalEdgeFunc =
  required :: protocolAbstractState
  proven :: protocolAbstractState

definition identityInterprocConditionalEdgeFunc :: interprocConditionalEdgeFunc where
  "identityInterprocConditionalEdgeFunc = \<lparr>required = newProtocolRequiredState, proven = ideStateValidated\<rparr>"

definition effect_apply :: "interprocConditionalEdgeFunc \<Rightarrow> protocolAbstractState \<Rightarrow> protocolAbstractState" where
  "effect_apply effect state =
     (let transformed = (if validationRequired state then required effect else proven effect) in
      state\<lparr>Validation := Validation transformed,
            Hazards := Hazards state OR Hazards transformed,
            ErrorResult := ErrorResult transformed\<rparr>)"

definition effect_then :: "interprocConditionalEdgeFunc \<Rightarrow> ideEdgeFuncTag \<Rightarrow> interprocConditionalEdgeFunc" where
  "effect_then effect t =
     \<lparr>required = ide_Apply (newIDEEdgeFunc t) (required effect),
      proven = ide_Apply (newIDEEdgeFunc t) (proven effect)\<rparr>"

definition effect_thenSummary ::
  "interprocConditionalEdgeFunc \<Rightarrow> interprocConditionalEdgeFunc \<Rightarrow> interprocConditionalEdgeFunc" where
  "effect_thenSummary effect next =
     \<lparr>required = effect_apply next (required effect), proven = effect_apply next (proven effect)\<rparr>"

definition effect_key :: "interprocConditionalEdgeFunc \<Rightarrow> string" where
  "effect_key effect = state_key (required effect) @ ''>'' @ state_key (proven effect)"

text \<open>The tag that explains a state transition in a witness.\<close>

definition interprocTransitionTag :: "protocolAbstractState \<Rightarrow> protocolAbstractState \<Rightarrow> ideEdgeFuncTag" where
  "interprocTransitionTag prior after =
     (if prior = after then ideEdgeFuncIdentity
      else if validationRequired prior \<and> validationProven after then ideEdgeFuncValidate
      else if validationRequired prior \<and> validationRequired after \<and>
              ErrorResult prior \<noteq> protocolErrorResultNonNil \<and> ErrorResult after = protocolErrorResultNonNil
        then ideEdgeFuncValidationFailed
      else if validationProven prior \<and> validationRequired after then ideEdgeFuncInvalidate
      else if \<not> escapedBeforeValidation prior \<and> escapedBeforeValidation after then ideEdgeFuncEscape
      else if \<not> consumedBeforeValidation prior \<and> consumedBeforeValidation after then ideEdgeFuncConsume
      else if DeferredError prior \<noteq> DeferredError after then
        (if DeferredError after = protocolDeferredErrorNil then ideEdgeFuncDeferredErrorNil
         else if DeferredError after = protocolDeferredErrorValidation then ideEdgeFuncDeferredErrorValidation
         else if DeferredError after = protocolDeferredErrorOther then ideEdgeFuncDeferredErrorOther
         else if DeferredError after = protocolDeferredErrorUnknown then ideEdgeFuncDeferredErrorUnknown
         else ideEdgeFuncIdentity)
      else ideEdgeFuncIdentity)"

text \<open>The replay check of one transfer (\<open>cfa_witness_contribution.go\<close>).\<close>

definition protocolWitnessTransferMatches :: "protocolAbstractState \<Rightarrow> protocolAbstractState \<Rightarrow> bool" where
  "protocolWitnessTransferMatches transferred observed \<longleftrightarrow>
     Validation transferred = Validation observed \<and>
     Hazards transferred = Hazards observed \<and>
     (Uncertainty transferred AND Uncertainty observed) = Uncertainty transferred \<and>
     Identity transferred \<le> Identity observed \<and>
     (PossibleEffects transferred AND PossibleEffects observed) = PossibleEffects transferred"

section \<open>Case analysis on the tag of an edge function\<close>

text \<open>
  Only ten functions exist: whatever tag is given, \<open>newIDEEdgeFunc\<close> yields one of the nine
  state-changing functions or the identity.
\<close>

definition ide_transfer :: "ideEdgeFuncTag \<Rightarrow> protocolAbstractState \<Rightarrow> protocolAbstractState" where
  "ide_transfer t s = ide_Apply (newIDEEdgeFunc t) s"

lemmas ide_apply_defs = ide_Apply_def ide_Tag_def newIDEEdgeFunc_def state_apply_def conditionalEffect_def

lemma ide_transfer_cases:
  obtains
    (validate) "ide_transfer t = (\<lambda>s. s\<lparr>Validation := protocolValidationProven, ErrorResult := protocolErrorResultNil\<rparr>)"
  | (failed) "ide_transfer t = (\<lambda>s. s\<lparr>ErrorResult := protocolErrorResultNonNil\<rparr>)"
  | (invalidate) "ide_transfer t = (\<lambda>s. s\<lparr>Validation := protocolValidationRequired,
       ErrorResult := protocolErrorResultUnknown,
       DeferredError := (if DeferredError s = protocolDeferredErrorValidation
         then protocolDeferredErrorOther else DeferredError s)\<rparr>)"
  | (hazard) h where "h = protocolHazardEscaped \<or> h = protocolHazardConsumed"
      "ide_transfer t = (\<lambda>s. if Validation s = protocolValidationRequired then s\<lparr>Hazards := Hazards s OR h\<rparr> else s)"
  | (deferred) d where "d \<in> {protocolDeferredErrorNil, protocolDeferredErrorValidation, protocolDeferredErrorOther}"
      "ide_transfer t = (\<lambda>s. s\<lparr>DeferredError := d\<rparr>)"
  | (deferredUnknown) "ide_transfer t = (\<lambda>s. s\<lparr>DeferredError := protocolDeferredErrorUnknown, Identity := protocolIdentityUnknown\<rparr>)"
  | (identity) "ide_transfer t = (\<lambda>s. s)"
proof -
  consider "t = ideEdgeFuncValidate" | "t = ideEdgeFuncValidationFailed" | "t = ideEdgeFuncInvalidate"
    | "t = ideEdgeFuncEscape" | "t = ideEdgeFuncConsume" | "t = ideEdgeFuncDeferredErrorNil"
    | "t = ideEdgeFuncDeferredErrorValidation" | "t = ideEdgeFuncDeferredErrorOther"
    | "t = ideEdgeFuncDeferredErrorUnknown"
    | "t \<notin> {ideEdgeFuncValidate, ideEdgeFuncValidationFailed, ideEdgeFuncInvalidate, ideEdgeFuncEscape,
        ideEdgeFuncConsume, ideEdgeFuncDeferredErrorNil, ideEdgeFuncDeferredErrorValidation,
        ideEdgeFuncDeferredErrorOther, ideEdgeFuncDeferredErrorUnknown}"
    by blast
  then show ?thesis
  proof cases
    case 1 show ?thesis by (rule validate) (simp add: fun_eq_iff ide_transfer_def ide_apply_defs 1 go_const)
  next
    case 2 show ?thesis by (rule failed) (simp add: fun_eq_iff ide_transfer_def ide_apply_defs 2 go_const)
  next
    case 3 show ?thesis by (rule invalidate) (simp add: fun_eq_iff ide_transfer_def ide_apply_defs 3 go_const)
  next
    case 4 show ?thesis by (rule hazard [of protocolHazardEscaped]) (simp_all add: fun_eq_iff ide_transfer_def ide_apply_defs 4 go_const)
  next
    case 5 show ?thesis by (rule hazard [of protocolHazardConsumed]) (simp_all add: fun_eq_iff ide_transfer_def ide_apply_defs 5 go_const)
  next
    case 6 show ?thesis by (rule deferred [of protocolDeferredErrorNil]) (simp_all add: fun_eq_iff ide_transfer_def ide_apply_defs 6 go_const)
  next
    case 7 show ?thesis by (rule deferred [of protocolDeferredErrorValidation]) (simp_all add: fun_eq_iff ide_transfer_def ide_apply_defs 7 go_const)
  next
    case 8 show ?thesis by (rule deferred [of protocolDeferredErrorOther]) (simp_all add: fun_eq_iff ide_transfer_def ide_apply_defs 8 go_const)
  next
    case 9 show ?thesis by (rule deferredUnknown) (simp add: fun_eq_iff ide_transfer_def ide_apply_defs 9 go_const)
  next
    case 10 then have "newIDEEdgeFunc t = \<lparr>tag = ideEdgeFuncIdentity\<rparr>" by (simp add: newIDEEdgeFunc_def)
    then have "ide_transfer t = (\<lambda>s. s)"
      by (simp add: fun_eq_iff ide_transfer_def ide_Apply_def ide_Tag_def go_const)
    then show ?thesis by (rule identity)
  qed
qed

section \<open>Properties of the transfers\<close>

lemma ide_transfer_valid: "state_valid s \<Longrightarrow> state_valid (ide_transfer t s)"
  by (cases t rule: ide_transfer_cases)
    (auto simp: state_valid_def mask_or go_const)

text \<open>
  Every transfer of the solver is monotone on valid states: a state that carries more
  obligation, hazard or uncertainty is mapped to one that carries at least as much, whatever
  the tag; the result is valid again.
\<close>

theorem ide_Apply_mono:
  assumes "state_valid s" and "state_valid u" and "state_lessEqual s u"
  shows "state_lessEqual (ide_Apply (newIDEEdgeFunc t) s) (ide_Apply (newIDEEdgeFunc t) u) \<and>
    state_valid (ide_Apply (newIDEEdgeFunc t) u)"
proof -
  have le1: "Validation u \<le> 1" using assms(2) by (simp add: state_valid_def go_const not_less)
  have "state_lessEqual (ide_transfer t s) (ide_transfer t u)"
  proof (cases t rule: ide_transfer_cases)
    case (hazard h)
    have "Validation s = 1 \<Longrightarrow> Validation u = 1"
      using assms(3) le1 by (simp add: state_lessEqual_def)
    with assms(3) show ?thesis
      unfolding hazard(2)
      by (auto simp: state_lessEqual_def go_const and_eq_iff_bits bit_or_iff)
  qed (use assms(3) in \<open>auto simp: state_lessEqual_def protocolErrorResultLessEqual_def
    protocolDeferredErrorLessEqual_def go_const\<close>)
  then show ?thesis
    using ide_transfer_valid [OF assms(2), of t] by (simp add: ide_transfer_def)
qed

theorem ide_Apply_mono_witness:
  "state_lessEqual (ide_Apply (newIDEEdgeFunc ideEdgeFuncEscape) ideStateNeedsValidate)
     (ide_Apply (newIDEEdgeFunc ideEdgeFuncEscape) ideStateConsumedBeforeValidate) \<and>
   state_valid (ide_Apply (newIDEEdgeFunc ideEdgeFuncEscape) ideStateConsumedBeforeValidate)"
  by (rule ide_Apply_mono)
    (simp_all add: state_valid_def state_lessEqual_def ideStateNeedsValidate_def protocolErrorResultLessEqual_def
      protocolDeferredErrorLessEqual_def ideStateConsumedBeforeValidate_def newProtocolRequiredState_def go_const)

text \<open>
  Composing an effect with a procedure summary is composition of the state transformers
  they denote, on every state: the composed edge function does not lose a hazard and takes
  the branch of the summary that the first effect leads to.
\<close>

theorem effect_thenSummary_composes:
  "effect_apply (effect_thenSummary effect next) s = effect_apply next (effect_apply effect s)"
  by (simp add: effect_apply_def effect_thenSummary_def Let_def validationRequired_def or.assoc)

text \<open>
  The composed edge function of a path is followed by running the transfers one by one, from
  the canonical start states: required with an unknown result, proven with a nil result.
\<close>

definition canonical_start :: "protocolAbstractState \<Rightarrow> bool" where
  "canonical_start s \<longleftrightarrow>
     Validation s = protocolValidationRequired \<and> ErrorResult s = protocolErrorResultUnknown \<or>
     Validation s = protocolValidationProven \<and> ErrorResult s = protocolErrorResultNil"

definition agree_on_protocol :: "protocolAbstractState \<Rightarrow> protocolAbstractState \<Rightarrow> protocolAbstractState \<Rightarrow> bool" where
  "agree_on_protocol base c s \<longleftrightarrow>
     Validation c = Validation s \<and> ErrorResult c = ErrorResult s \<and> Hazards s = Hazards base OR Hazards c"

lemma agree_transfer:
  "agree_on_protocol base c s \<Longrightarrow> agree_on_protocol base (ide_transfer t c) (ide_transfer t s)"
  by (cases t rule: ide_transfer_cases) (auto simp: agree_on_protocol_def or.assoc)

definition run_tags :: "ideEdgeFuncTag list \<Rightarrow> protocolAbstractState \<Rightarrow> protocolAbstractState" where
  "run_tags ts s = foldl (\<lambda>s t. ide_Apply (newIDEEdgeFunc t) s) s ts"

lemma run_tags_agree: "agree_on_protocol base c s \<Longrightarrow> agree_on_protocol base (run_tags ts c) (run_tags ts s)"
  unfolding run_tags_def
  by (induction ts arbitrary: c s) (simp_all add: agree_transfer [unfolded ide_transfer_def])

lemma foldl_effect_then:
  "foldl effect_then e ts = \<lparr>required = run_tags ts (required e), proven = run_tags ts (proven e)\<rparr>"
  by (induction ts arbitrary: e) (simp_all add: effect_then_def run_tags_def)

text \<open>
  C20. The edge function a path edge carries is exact: applied to a canonical state it yields
  the validation, the error result and the hazards that running the path's transfers in
  order on that state yields.
\<close>

theorem conditional_edge_function_exact:
  assumes "canonical_start s"
  shows "Validation (effect_apply (foldl effect_then identityInterprocConditionalEdgeFunc ts) s) =
      Validation (run_tags ts s) \<and>
    ErrorResult (effect_apply (foldl effect_then identityInterprocConditionalEdgeFunc ts) s) =
      ErrorResult (run_tags ts s) \<and>
    Hazards (effect_apply (foldl effect_then identityInterprocConditionalEdgeFunc ts) s) =
      Hazards (run_tags ts s)"
proof (cases "validationRequired s")
  case True
  with assms have "agree_on_protocol s newProtocolRequiredState s"
    by (auto simp: canonical_start_def agree_on_protocol_def newProtocolRequiredState_def validationRequired_def go_const)
  from run_tags_agree [OF this, of ts] True show ?thesis
    by (simp add: foldl_effect_then effect_apply_def Let_def identityInterprocConditionalEdgeFunc_def agree_on_protocol_def)
next
  case False
  with assms have "agree_on_protocol s ideStateValidated s"
    by (auto simp: canonical_start_def agree_on_protocol_def ideStateValidated_def newProtocolRequiredState_def validationRequired_def go_const)
  from run_tags_agree [OF this, of ts] False show ?thesis
    by (simp add: foldl_effect_then effect_apply_def Let_def identityInterprocConditionalEdgeFunc_def agree_on_protocol_def)
qed

theorem conditional_edge_function_exact_witness:
  "Hazards (effect_apply (foldl effect_then identityInterprocConditionalEdgeFunc
      [ideEdgeFuncValidate, ideEdgeFuncInvalidate, ideEdgeFuncConsume]) ideStateNeedsValidate) =
   Hazards (run_tags [ideEdgeFuncValidate, ideEdgeFuncInvalidate, ideEdgeFuncConsume] ideStateNeedsValidate)"
  using conditional_edge_function_exact [of ideStateNeedsValidate "[ideEdgeFuncValidate, ideEdgeFuncInvalidate, ideEdgeFuncConsume]"]
  by (simp add: canonical_start_def ideStateNeedsValidate_def newProtocolRequiredState_def)

lemma ide_tag_simps:
  "ide_Apply (newIDEEdgeFunc ideEdgeFuncIdentity) s = s"
  "ide_Apply (newIDEEdgeFunc ideEdgeFuncValidate) s = s\<lparr>Validation := 0, ErrorResult := 1\<rparr>"
  "ide_Apply (newIDEEdgeFunc ideEdgeFuncValidationFailed) s = s\<lparr>ErrorResult := 2\<rparr>"
  "ide_Apply (newIDEEdgeFunc ideEdgeFuncInvalidate) s =
     s\<lparr>Validation := 1, ErrorResult := 0, DeferredError := (if DeferredError s = 2 then 3 else DeferredError s)\<rparr>"
  "ide_Apply (newIDEEdgeFunc ideEdgeFuncEscape) s = (if Validation s = 1 then s\<lparr>Hazards := Hazards s OR 1\<rparr> else s)"
  "ide_Apply (newIDEEdgeFunc ideEdgeFuncConsume) s = (if Validation s = 1 then s\<lparr>Hazards := Hazards s OR 2\<rparr> else s)"
  "ide_Apply (newIDEEdgeFunc ideEdgeFuncDeferredErrorNil) s = s\<lparr>DeferredError := 1\<rparr>"
  "ide_Apply (newIDEEdgeFunc ideEdgeFuncDeferredErrorValidation) s = s\<lparr>DeferredError := 2\<rparr>"
  "ide_Apply (newIDEEdgeFunc ideEdgeFuncDeferredErrorOther) s = s\<lparr>DeferredError := 3\<rparr>"
  "ide_Apply (newIDEEdgeFunc ideEdgeFuncDeferredErrorUnknown) s = s\<lparr>DeferredError := 0, Identity := 3\<rparr>"
  by (simp_all add: ide_apply_defs go_const)

lemmas transition_defs = interprocTransitionTag_def protocolWitnessTransferMatches_def
  validationRequired_def validationProven_def escapedBeforeValidation_def consumedBeforeValidation_def
  protocolValidationProven_def protocolValidationRequired_def protocolHazardEscaped_def protocolHazardConsumed_def
  protocolErrorResultUnknown_def protocolErrorResultNil_def protocolErrorResultNonNil_def
  protocolDeferredErrorUnknown_def protocolDeferredErrorNil_def protocolDeferredErrorValidation_def
  protocolDeferredErrorOther_def protocolIdentityUnknown_def

lemma hazard_bits:
  "(H OR 1) AND 2 = H AND 2" "(H OR 2) AND 1 = H AND 1" "(H OR 1) AND 1 = 1" "(H OR 2) AND 2 = 2"
  "H AND 1 \<noteq> 0 \<Longrightarrow> H OR 1 = H" "H AND 2 \<noteq> 0 \<Longrightarrow> H OR 2 = H" for H :: "8 word"
proof -
  have one: "bit (1 :: 8 word) n \<longleftrightarrow> n = 0" for n by (simp add: bit_1_iff)
  have two: "bit (2 :: 8 word) n \<longleftrightarrow> n = 1" for n
    using bit_exp_iff [where 'a = "8 word", of 1 n] by (auto dest: bit_imp_le_length)
  show "(H OR 1) AND 2 = H AND 2" "(H OR 2) AND 1 = H AND 1" "(H OR 1) AND 1 = 1" "(H OR 2) AND 2 = 2"
    by (rule bit_word_eqI; auto simp: bit_and_iff bit_or_iff one two)+
  have "H AND 1 \<noteq> 0 \<longleftrightarrow> bit H 0" "H AND 2 \<noteq> 0 \<longleftrightarrow> bit H 1"
    using and_exp_eq_0_iff_not_bit [of H 0] and_exp_eq_0_iff_not_bit [of H 1] by simp_all
  note bits = this
  show "H OR 1 = H" if "H AND 1 \<noteq> 0"
    using that bits(1) by (intro bit_word_eqI) (auto simp only: bit_or_iff one)
  show "H OR 2 = H" if "H AND 2 \<noteq> 0"
    using that bits(2) by (intro bit_word_eqI) (auto simp only: bit_or_iff two)
qed

text \<open>A transfer never touches the recorded uncertainty or the possible effects.\<close>

lemma ide_transfer_frame:
  "Uncertainty (ide_transfer t s) = Uncertainty s" "PossibleEffects (ide_transfer t s) = PossibleEffects s"
  "Identity (ide_transfer t s) = Identity s \<or> Identity (ide_transfer t s) = 3"
  "Identity (ide_transfer t s) \<noteq> Identity s \<Longrightarrow> DeferredError (ide_transfer t s) = 0"
proof -
  have "Uncertainty (ide_transfer t s) = Uncertainty s \<and> PossibleEffects (ide_transfer t s) = PossibleEffects s \<and>
    (Identity (ide_transfer t s) = Identity s \<or> Identity (ide_transfer t s) = 3 \<and> DeferredError (ide_transfer t s) = 0)"
    by (cases t rule: ide_transfer_cases) (simp_all add: protocolDeferredErrorUnknown_def protocolIdentityUnknown_def)
  then show "Uncertainty (ide_transfer t s) = Uncertainty s" "PossibleEffects (ide_transfer t s) = PossibleEffects s"
    "Identity (ide_transfer t s) = Identity s \<or> Identity (ide_transfer t s) = 3"
    "Identity (ide_transfer t s) \<noteq> Identity s \<Longrightarrow> DeferredError (ide_transfer t s) = 0" by auto
qed

text \<open>Which tag is recovered, by what changed.\<close>

lemma transitionTag_hazard:
  assumes "Validation s = 1" "Validation a = 1" "ErrorResult a = ErrorResult s"
  shows "Hazards s AND 1 = 0 \<Longrightarrow> Hazards a AND 1 \<noteq> 0 \<Longrightarrow> interprocTransitionTag s a = ideEdgeFuncEscape"
    and "(Hazards s AND 1 = 0) = (Hazards a AND 1 = 0) \<Longrightarrow> Hazards s AND 2 = 0 \<Longrightarrow> Hazards a AND 2 \<noteq> 0
      \<Longrightarrow> interprocTransitionTag s a = ideEdgeFuncConsume"
  using assms by (auto simp: transition_defs)

lemma transitionTag_same_hazard:
  assumes V: "Validation s = 0 \<or> Validation s = 1" "Validation a = 0 \<or> Validation a = 1"
    and h: "Hazards a = Hazards s"
  shows "interprocTransitionTag s a = (if Validation s = 1 \<and> Validation a = 0 then ideEdgeFuncValidate
    else if Validation s = 0 \<and> Validation a = 1 then ideEdgeFuncInvalidate else interprocTransitionTag s a) \<and>
    (Validation s = Validation a \<longrightarrow> interprocTransitionTag s a \<in>
      {ideEdgeFuncIdentity, ideEdgeFuncValidationFailed, ideEdgeFuncDeferredErrorNil,
       ideEdgeFuncDeferredErrorValidation, ideEdgeFuncDeferredErrorOther, ideEdgeFuncDeferredErrorUnknown})"
  using V
proof (elim disjE)
qed (simp_all add: interprocTransitionTag_def validationRequired_def validationProven_def
    escapedBeforeValidation_def consumedBeforeValidation_def protocolValidationProven_def
    protocolValidationRequired_def h, auto)

lemma transitionTag_cases:
  assumes V: "Validation s = 0 \<or> Validation s = 1" "Validation a = 0 \<or> Validation a = 1"
    and step: "Hazards a = Hazards s \<or> Validation s = 1 \<and> Validation a = 1 \<and> ErrorResult a = ErrorResult s \<and>
       DeferredError a = DeferredError s \<and> (Hazards a = Hazards s OR 1 \<or> Hazards a = Hazards s OR 2)"
  shows "Validation (ide_Apply (newIDEEdgeFunc (interprocTransitionTag s a)) s) = Validation a"
    and "Hazards (ide_Apply (newIDEEdgeFunc (interprocTransitionTag s a)) s) = Hazards a"
proof -
  consider (same) "Hazards a = Hazards s"
    | (esc) "Hazards a = Hazards s OR 1" "Validation s = 1" "Validation a = 1" "ErrorResult a = ErrorResult s" "DeferredError a = DeferredError s"
    | (con) "Hazards a = Hazards s OR 2" "Validation s = 1" "Validation a = 1" "ErrorResult a = ErrorResult s" "DeferredError a = DeferredError s"
    using step by blast
  then have "Validation (ide_Apply (newIDEEdgeFunc (interprocTransitionTag s a)) s) = Validation a \<and>
    Hazards (ide_Apply (newIDEEdgeFunc (interprocTransitionTag s a)) s) = Hazards a"
  proof cases
    case same
    show ?thesis
    proof (cases "Validation s = Validation a")
      case True
      with transitionTag_same_hazard [OF V same] same show ?thesis by (auto simp: ide_tag_simps)
    next
      case False
      with transitionTag_same_hazard [OF V same] same V show ?thesis by (auto simp: ide_tag_simps)
    qed
  next
    case esc
    show ?thesis
    proof (cases "Hazards s AND 1 = 0")
      case True
      with esc transitionTag_hazard(1) [of s a] show ?thesis by (simp add: ide_tag_simps hazard_bits)
    next
      case False
      with esc V transitionTag_same_hazard [of s a] show ?thesis by (auto simp: ide_tag_simps hazard_bits)
    qed
  next
    case con
    show ?thesis
    proof (cases "Hazards s AND 2 = 0")
      case True
      with con transitionTag_hazard(2) [of s a] show ?thesis by (simp add: ide_tag_simps hazard_bits)
    next
      case False
      with con V transitionTag_same_hazard [of s a] show ?thesis by (auto simp: ide_tag_simps hazard_bits)
    qed
  qed
  then show "Validation (ide_Apply (newIDEEdgeFunc (interprocTransitionTag s a)) s) = Validation a"
    and "Hazards (ide_Apply (newIDEEdgeFunc (interprocTransitionTag s a)) s) = Hazards a" by auto
qed

lemma transitionTag_unknown:
  "Identity (ide_Apply (newIDEEdgeFunc (interprocTransitionTag s a)) s) \<noteq> Identity s \<Longrightarrow>
   DeferredError s \<noteq> 0 \<and> DeferredError a = 0"
  by (auto simp: transition_defs ide_tag_simps split: if_splits)

text \<open>
  C19. Every step the solver takes with a single transfer is replayable: the tag recovered
  from the two states, applied to the first, matches the second under the replay check, also
  after an uncertainty has been recorded.
\<close>

theorem interprocTransitionTag_replayable:
  assumes "state_valid s"
  shows "protocolWitnessTransferMatches
     (ide_Apply (newIDEEdgeFunc (interprocTransitionTag s (withUncertainty (ide_Apply (newIDEEdgeFunc t) s) reason))) s)
     (withUncertainty (ide_Apply (newIDEEdgeFunc t) s) reason)"
proof -
  define a where "a = withUncertainty (ide_transfer t s) reason"
  have same: "Validation a = Validation (ide_transfer t s)" "Hazards a = Hazards (ide_transfer t s)"
    "ErrorResult a = ErrorResult (ide_transfer t s)" "DeferredError a = DeferredError (ide_transfer t s)"
    by (simp_all add: a_def withUncertainty_def)
  have grow: "(Uncertainty (ide_transfer t s) AND Uncertainty a) = Uncertainty (ide_transfer t s)"
    "Identity (ide_transfer t s) \<le> Identity a"
    "(PossibleEffects (ide_transfer t s) AND PossibleEffects a) = PossibleEffects (ide_transfer t s)"
    using withUncertainty_blocks [of "ide_transfer t s" reason] by (simp_all add: a_def state_lessEqual_def)
  have V: "Validation s = 0 \<or> Validation s = 1"
    using valid_not_proven [OF assms] by (auto simp: validationProven_def validationRequired_def go_const)
  have Va: "Validation a = 0 \<or> Validation a = 1"
    using V same(1) by (cases t rule: ide_transfer_cases) (auto simp: go_const)
  have step: "Hazards a = Hazards s \<or> Validation s = 1 \<and> Validation a = 1 \<and> ErrorResult a = ErrorResult s \<and>
       DeferredError a = DeferredError s \<and> (Hazards a = Hazards s OR 1 \<or> Hazards a = Hazards s OR 2)"
    using V same by (cases t rule: ide_transfer_cases) (auto simp: go_const)
  have ident: "DeferredError s \<noteq> 0 \<and> DeferredError a = 0 \<Longrightarrow> 3 \<le> Identity a"
    using same(4) grow(2) by (cases t rule: ide_transfer_cases) (auto simp: go_const split: if_splits)
  let ?app = "ide_Apply (newIDEEdgeFunc (interprocTransitionTag s a)) s"
  note frame = ide_transfer_frame [of "interprocTransitionTag s a" s, unfolded ide_transfer_def]
  have "Identity s \<le> 3"
    using assms by (simp add: state_valid_def protocolIdentityUnknown_def not_less)
  then have "Identity s \<le> Identity a"
    using grow(2) ide_transfer_frame(3) [of t s] by auto
  then have "Identity ?app \<le> Identity a"
    using frame(3) ident transitionTag_unknown [of s a] by metis
  moreover have "Uncertainty ?app = Uncertainty (ide_transfer t s)" "PossibleEffects ?app = PossibleEffects (ide_transfer t s)"
    using frame(1,2) ide_transfer_frame(1,2) [of t s] by metis+
  ultimately have "protocolWitnessTransferMatches ?app a"
    unfolding protocolWitnessTransferMatches_def
    using transitionTag_cases [OF V Va step] grow by metis
  then show ?thesis by (simp add: a_def ide_transfer_def)
qed

theorem interprocTransitionTag_replayable_witness:
  "protocolWitnessTransferMatches
     (ide_Apply (newIDEEdgeFunc (interprocTransitionTag ideStateNeedsValidate
       (withUncertainty (ide_Apply (newIDEEdgeFunc ideEdgeFuncEscape) ideStateNeedsValidate) pathOutcomeReasonReflection)))
       ideStateNeedsValidate)
     (withUncertainty (ide_Apply (newIDEEdgeFunc ideEdgeFuncEscape) ideStateNeedsValidate) pathOutcomeReasonReflection)"
  by (rule interprocTransitionTag_replayable) (simp add: ideStateNeedsValidate_def state_valid_required)

end
