(* ===== verification/Supergraph.thy ===== *)
theory Supergraph
  imports Edge_Functions
begin

text \<open>
  The interprocedural supergraph (\<open>goplint/cfa_interproc_graph.go\<close>): node identifiers and
  their map keys, edges, the graph with its insertion operations, and the three edge queries
  of the solver, with the cooperative deadline they poll (\<open>goplint/cfa_feasibility.go\<close>,
  \<open>goplint/cfa_ifds_tabulation.go\<close>).

  Syntax nodes (\<open>ast.Node\<close>) and call events are opaque to these operations; they are the type
  parameters \<open>'n\<close> and \<open>'e\<close>.  A missing map entry of a \<open>map[string]bool\<close> reads as false.
\<close>

section \<open>Nodes and edges\<close>

definition interprocNodeKindCFG :: string where [go_const]: "interprocNodeKindCFG = ''cfg-node''"
definition interprocNodeKindCall :: string where [go_const]: "interprocNodeKindCall = ''call-site''"
definition interprocNodeKindReturn :: string where [go_const]: "interprocNodeKindReturn = ''return-site''"
definition interprocNodeKindExit :: string where [go_const]: "interprocNodeKindExit = ''function-exit''"

definition interprocEdgeIntra :: string where [go_const]: "interprocEdgeIntra = ''intra''"
definition interprocEdgeCall :: string where [go_const]: "interprocEdgeCall = ''call''"
definition interprocEdgeReturn :: string where [go_const]: "interprocEdgeReturn = ''return''"
definition interprocEdgeCallToReturn :: string where [go_const]: "interprocEdgeCallToReturn = ''call-to-return''"

record interprocNodeID =
  FuncKey :: string
  BlockIndex :: int
  NodeIndex :: int
  CallOrdinal :: int
  NodeKind :: string

record interprocEdge =
  From :: interprocNodeID
  To :: interprocNodeID
  EdgeKind :: string
  CallSite :: string
  Reason :: pathOutcomeReason
  PredicateProvenance :: "string list"

definition node_Key :: "interprocNodeID \<Rightarrow> string" where
  "node_Key nid = FuncKey nid @ ''|'' @ NodeKind nid @ ''|'' @ show_int (BlockIndex nid) @ ''|'' @
     show_int (NodeIndex nid) @ ''|'' @ show_int (CallOrdinal nid)"

record ('n, 'e) interprocSupergraph =
  Nodes :: "string \<rightharpoonup> interprocNodeID"
  NodeAST :: "string \<rightharpoonup> 'n"
  CallEvents :: "string \<rightharpoonup> 'e"
  Edges :: "interprocEdge list"
  terminalCFGNodes :: "string \<Rightarrow> bool"
  functionExitNodes :: "string \<Rightarrow> bool"
  nonReturningNodes :: "string \<Rightarrow> bool"
  nonReturningFunctions :: "string \<Rightarrow> bool"

definition newInterprocSupergraph :: "('n, 'e) interprocSupergraph" where
  "newInterprocSupergraph =
     \<lparr>Nodes = Map.empty, NodeAST = Map.empty, CallEvents = Map.empty, Edges = [],
      terminalCFGNodes = (\<lambda>_. False), functionExitNodes = (\<lambda>_. False),
      nonReturningNodes = (\<lambda>_. False), nonReturningFunctions = (\<lambda>_. False)\<rparr>"

definition addNode ::
  "('n, 'e) interprocSupergraph \<Rightarrow> interprocNodeID \<Rightarrow> 'n option \<Rightarrow> ('n, 'e) interprocSupergraph" where
  "addNode g nid node =
     (let key = node_Key nid; g' = g\<lparr>Nodes := (Nodes g)(key \<mapsto> nid)\<rparr> in
      case node of None \<Rightarrow> g' | Some n \<Rightarrow> g'\<lparr>NodeAST := (NodeAST g)(key \<mapsto> n)\<rparr>)"

definition addCallNode ::
  "('n, 'e) interprocSupergraph \<Rightarrow> interprocNodeID \<Rightarrow> 'n option \<Rightarrow> 'e \<Rightarrow> ('n, 'e) interprocSupergraph" where
  "addCallNode g nid call event =
     (let g' = addNode g nid call in g'\<lparr>CallEvents := (CallEvents g')(node_Key nid \<mapsto> event)\<rparr>)"

definition addEdge :: "('n, 'e) interprocSupergraph \<Rightarrow> interprocEdge \<Rightarrow> ('n, 'e) interprocSupergraph" where
  "addEdge g edge =
     (let g' = addNode (addNode g (From edge) None) (To edge) None in g'\<lparr>Edges := Edges g' @ [edge]\<rparr>)"

definition astNode :: "('n, 'e) interprocSupergraph \<Rightarrow> interprocNodeID \<Rightarrow> 'n option" where
  "astNode g nid = NodeAST g (node_Key nid)"

definition callEvent :: "('n, 'e) interprocSupergraph \<Rightarrow> interprocNodeID \<Rightarrow> 'e option" where
  "callEvent g nid = CallEvents g (node_Key nid)"

definition isTerminalCFGNode :: "('n, 'e) interprocSupergraph \<Rightarrow> interprocNodeID \<Rightarrow> bool" where
  "isTerminalCFGNode g nid = terminalCFGNodes g (node_Key nid)"

definition isFunctionExitNode :: "('n, 'e) interprocSupergraph \<Rightarrow> interprocNodeID \<Rightarrow> bool" where
  "isFunctionExitNode g nid = functionExitNodes g (node_Key nid)"

definition isNonReturningNode :: "('n, 'e) interprocSupergraph \<Rightarrow> interprocNodeID \<Rightarrow> bool" where
  "isNonReturningNode g nid = nonReturningNodes g (node_Key nid)"

section \<open>The cooperative deadline\<close>

text \<open>
  A control answers \<open>Expired()\<close> anew at every poll, by a wall clock or by a count of the
  polls.  It is modelled by the sequence of its answers, and the polls made so far are
  threaded through; \<open>None\<close> is the nil control, which never expires.
\<close>

type_synonym deadline = "(nat \<Rightarrow> bool) option"

definition feasibilityDeadlineReached :: "deadline \<Rightarrow> nat \<Rightarrow> bool \<times> nat" where
  "feasibilityDeadlineReached d t = (case d of None \<Rightarrow> (False, t) | Some expired \<Rightarrow> (expired t, Suc t))"

text \<open>A loop that polls the control at the head of its body.\<close>

fun pollEach :: "deadline \<Rightarrow> nat \<Rightarrow> 'a list \<Rightarrow> bool \<times> nat" where
  "pollEach d t [] = (False, t)"
| "pollEach d t (x # xs) =
     (case feasibilityDeadlineReached d t of (expired, t') \<Rightarrow>
        if expired then (True, t') else pollEach d t' xs)"

section \<open>Edge queries\<close>

definition outgoingSortKey :: "interprocEdge \<Rightarrow> string" where
  "outgoingSortKey e = EdgeKind e @ ''|'' @ CallSite e @ ''|'' @ node_Key (To e) @ ''|'' @ Reason e @
     ''|'' @ strings_Join (PredicateProvenance e) '',''"

definition outgoingWithControl ::
  "('n, 'e) interprocSupergraph \<Rightarrow> interprocNodeID \<Rightarrow> deadline \<Rightarrow> nat \<Rightarrow> interprocEdge list \<times> bool \<times> nat" where
  "outgoingWithControl g from d t =
     (case feasibilityDeadlineReached d t of (e0, t0) \<Rightarrow>
      if e0 then ([], True, t0)
      else if Edges g = [] then ([], False, t0)
      else case pollEach d t0 (Edges g) of (e1, t1) \<Rightarrow>
        if e1 then ([], True, t1)
        else case feasibilityDeadlineReached d t1 of (e2, t2) \<Rightarrow>
          (sort_key outgoingSortKey (filter (\<lambda>e. node_Key (From e) = node_Key from) (Edges g)), e2, t2))"

definition outgoing :: "('n, 'e) interprocSupergraph \<Rightarrow> interprocNodeID \<Rightarrow> interprocEdge list" where
  "outgoing g from = fst (outgoingWithControl g from None 0)"

definition returnEdgesFromWithControl ::
  "('n, 'e) interprocSupergraph \<Rightarrow> interprocNodeID \<Rightarrow> deadline \<Rightarrow> nat \<Rightarrow> interprocEdge list \<times> bool \<times> nat" where
  "returnEdgesFromWithControl g node d t =
     (case outgoingWithControl g node d t of (out, e0, t0) \<Rightarrow>
      if e0 then ([], True, t0)
      else case pollEach d t0 out of (e1, t1) \<Rightarrow>
        if e1 then ([], True, t1)
        else case feasibilityDeadlineReached d t1 of (e2, t2) \<Rightarrow>
          (filter (\<lambda>e. EdgeKind e = interprocEdgeReturn) out, e2, t2))"

definition returnEdgesForCallWithControl ::
  "('n, 'e) interprocSupergraph \<Rightarrow> string \<Rightarrow> string \<Rightarrow> deadline \<Rightarrow> nat \<Rightarrow> interprocEdge list \<times> bool \<times> nat" where
  "returnEdgesForCallWithControl g callSite calleeFunc d t =
     (case pollEach d t (Edges g) of (e1, t1) \<Rightarrow>
        if e1 then ([], True, t1)
        else case feasibilityDeadlineReached d t1 of (e2, t2) \<Rightarrow>
          (sort_key (\<lambda>e. node_Key (From e) @ ''|'' @ node_Key (To e))
             (filter (\<lambda>e. EdgeKind e = interprocEdgeReturn \<and> CallSite e = callSite \<and> FuncKey (From e) = calleeFunc)
               (Edges g)), e2, t2))"

section \<open>Keys identify nodes, states and effects\<close>

text \<open>
  The solver keys all its tables by formatted strings.  A function key may contain the
  separator \<open>|\<close> (the keys of function literals do), so node keys are taken apart from the
  right; no function key contains \<open>=\<close>, because Go import paths, identifiers and the digests
  in the keys do not.
\<close>

definition node_wf :: "interprocNodeID \<Rightarrow> bool" where
  "node_wf nid \<longleftrightarrow> CHR ''='' \<notin> set (FuncKey nid) \<and> CHR ''='' \<notin> set (NodeKind nid) \<and> CHR ''|'' \<notin> set (NodeKind nid)"

fun join_split :: "char \<Rightarrow> string list \<Rightarrow> string" where
  "join_split c [] = []"
| "join_split c [p] = p"
| "join_split c (p # q # qs) = p @ c # join_split c (q # qs)"

lemma join_split_prep: "qs \<noteq> [] \<Longrightarrow> join_split c (prep p qs) = p @ join_split c qs"
  by (cases "(c, qs)" rule: join_split.cases) auto

lemma join_split_on: "join_split c (split_on c xs) = xs"
proof (induction xs)
  case Nil
  then show ?case by simp
next
  case (Cons x xs)
  obtain q qs where "split_on c xs = q # qs" by (cases "split_on c xs") auto
  with Cons show ?case by (cases qs) auto
qed

lemma split_on_inj: "split_on c xs = split_on c ys \<Longrightarrow> xs = ys"
  by (metis join_split_on)

lemma node_Key_split:
  "CHR ''|'' \<notin> set (NodeKind nid) \<Longrightarrow> split_on (CHR ''|'') (node_Key nid) =
     split_on (CHR ''|'') (FuncKey nid) @
     [NodeKind nid, show_int (BlockIndex nid), show_int (NodeIndex nid), show_int (CallOrdinal nid)]"
  by (simp add: node_Key_def split_on_sep key_rules)

lemma node_Key_inj: "node_wf a \<Longrightarrow> node_wf b \<Longrightarrow> node_Key a = node_Key b \<longleftrightarrow> a = b"
proof
  assume wf: "node_wf a" "node_wf b" and eq: "node_Key a = node_Key b"
  then have "split_on (CHR ''|'') (node_Key a) = split_on (CHR ''|'') (node_Key b)" by simp
  with wf have "split_on (CHR ''|'') (FuncKey a) = split_on (CHR ''|'') (FuncKey b)"
    and "NodeKind a = NodeKind b" "BlockIndex a = BlockIndex b" "NodeIndex a = NodeIndex b" "CallOrdinal a = CallOrdinal b"
    by (simp_all add: node_Key_split node_wf_def)
  then show "a = b"
    by (intro interprocNodeID.equality) (auto dest: split_on_inj)
qed simp

lemma node_Key_no_eq: "node_wf nid \<Longrightarrow> CHR ''='' \<notin> set (node_Key nid)"
  by (simp add: node_wf_def node_Key_def)

text \<open>A state key in front of more text, cut at every \<open>=\<close>.\<close>

lemma state_key_split:
  "split_on (CHR ''='') (state_key s @ rest) =
     [''validation'', show_nat (unat (Validation s)) @ '',hazards'',
      show_nat (unat (Hazards s)) @ '',uncertainty'', show_nat (unat (Uncertainty s)) @ '',result'',
      show_nat (unat (ErrorResult s)) @ '',deferred-error'', show_nat (unat (DeferredError s)) @ '',identity'',
      show_nat (unat (Identity s)) @ '',effects''] @
     prep (show_nat (unat (PossibleEffects s))) (split_on (CHR ''='') rest)"
  by (simp add: state_key_def key_rules)

lemma state_key_inj [simp]: "state_key s = state_key t \<longleftrightarrow> s = t"
proof
  assume "state_key s = state_key t"
  then show "s = t"
    using state_key_split [of s "[]"] state_key_split [of t "[]"]
    by (simp add: protocolAbstractState.equality word_unat_eq_iff)
qed simp

end
