(* ===== verification/Witness.thy ===== *)
theory Witness
  imports Supergraph
begin

text \<open>
  Witness contributions (\<open>goplint/cfa_witness_contribution.go\<close>), path results
  (\<open>goplint/cfa_interproc_result.go\<close>, \<open>goplint/cfa_outcome.go\<close>) and the choice between candidate
  results (\<open>goplint/cfa_ifds_solver.go\<close>): the witness edge and its key, the comparison that
  orders witnesses, subsumption, and the replay check that accepts only realizable
  supergraph paths.
\<close>

section \<open>Witness edges\<close>

record interprocWitnessEdge =
  WFrom :: interprocNodeID
  WTo :: interprocNodeID
  WKind :: string
  WCallSite :: string
  WFactFamily :: string
  WFactKey :: string
  StateBefore :: protocolAbstractState
  StateAfter :: protocolAbstractState
  EdgeFunctionTag :: ideEdgeFuncTag
  EdgeReason :: pathOutcomeReason
  WPredicates :: "string list"

definition witnessEdge_key :: "interprocWitnessEdge \<Rightarrow> string" where
  "witnessEdge_key e = strings_Join
     [''from='' @ node_Key (WFrom e),
      ''to='' @ node_Key (WTo e),
      ''kind='' @ WKind e,
      ''call-site='' @ WCallSite e,
      ''fact-family='' @ WFactFamily e,
      ''fact-key='' @ WFactKey e,
      ''state-before='' @ state_key (StateBefore e),
      ''state-after='' @ state_key (StateAfter e),
      ''edge-function-tag='' @ EdgeFunctionTag e,
      ''edge-reason='' @ EdgeReason e,
      ''predicates='' @ strings_Join (WPredicates e) '',''] ''|''"

definition appendInterprocWitnessEdge ::
  "interprocWitnessEdge list \<Rightarrow> interprocEdge \<Rightarrow> protocolAbstractState \<Rightarrow> protocolAbstractState \<Rightarrow>
   ideEdgeFuncTag \<Rightarrow> interprocWitnessEdge list" where
  "appendInterprocWitnessEdge witness edge prior after t =
     witness @ [\<lparr>WFrom = From edge, WTo = To edge, WKind = EdgeKind edge, WCallSite = CallSite edge,
       WFactFamily = '''', WFactKey = '''', StateBefore = prior, StateAfter = after,
       EdgeFunctionTag = t, EdgeReason = Reason edge, WPredicates = PredicateProvenance edge\<rparr>]"

definition mergeInterprocWitnessEdges :: "interprocWitnessEdge list \<Rightarrow> interprocWitnessEdge list \<Rightarrow> interprocWitnessEdge list" where
  "mergeInterprocWitnessEdges left right = left @ right"

definition qualifyInterprocWitnessFact ::
  "interprocWitnessEdge list \<Rightarrow> string \<Rightarrow> string \<Rightarrow> interprocWitnessEdge list" where
  "qualifyInterprocWitnessFact witness family key =
     map (\<lambda>e. e\<lparr>WFactFamily := family, WFactKey := key\<rparr>) witness"

definition interprocWitnessIdentity :: "interprocWitnessEdge list \<Rightarrow> string" where
  "interprocWitnessIdentity witness =
     (if witness = [] then ''root'' else strings_Join (map witnessEdge_key witness) [CHR 0x0A])"

definition interprocWitnessPredicates :: "interprocWitnessEdge list \<Rightarrow> string set" where
  "interprocWitnessPredicates witness = set (concat (map WPredicates witness))"

definition interprocWitnessSubsumes :: "interprocWitnessEdge list \<Rightarrow> interprocWitnessEdge list \<Rightarrow> bool" where
  "interprocWitnessSubsumes retained candidate \<longleftrightarrow>
     \<not> length retained > length candidate \<and>
     (\<forall>predicate \<in> interprocWitnessPredicates retained. predicate \<in> interprocWitnessPredicates candidate)"

section \<open>Comparison of witnesses\<close>

definition compareInterprocNodeID :: "interprocNodeID \<Rightarrow> interprocNodeID \<Rightarrow> int" where
  "compareInterprocNodeID left right = first_nonzero
     [cmp_Compare (FuncKey left) (FuncKey right),
      cmp_Compare (NodeKind left) (NodeKind right),
      cmp_Compare (BlockIndex left) (BlockIndex right),
      cmp_Compare (NodeIndex left) (NodeIndex right),
      cmp_Compare (CallOrdinal left) (CallOrdinal right)]"

definition compareProtocolAbstractState :: "protocolAbstractState \<Rightarrow> protocolAbstractState \<Rightarrow> int" where
  "compareProtocolAbstractState left right = first_nonzero
     [cmp_Compare (Validation left) (Validation right),
      cmp_Compare (Hazards left) (Hazards right),
      cmp_Compare (Uncertainty left) (Uncertainty right),
      cmp_Compare (ErrorResult left) (ErrorResult right),
      cmp_Compare (DeferredError left) (DeferredError right),
      cmp_Compare (Identity left) (Identity right),
      cmp_Compare (PossibleEffects left) (PossibleEffects right)]"

definition compareInterprocWitnessEdge :: "interprocWitnessEdge \<Rightarrow> interprocWitnessEdge \<Rightarrow> int" where
  "compareInterprocWitnessEdge left right = first_nonzero
     [compareInterprocNodeID (WFrom left) (WFrom right),
      compareInterprocNodeID (WTo left) (WTo right),
      cmp_Compare (WKind left) (WKind right),
      cmp_Compare (WCallSite left) (WCallSite right),
      cmp_Compare (WFactFamily left) (WFactFamily right),
      cmp_Compare (WFactKey left) (WFactKey right),
      compareProtocolAbstractState (StateBefore left) (StateBefore right),
      compareProtocolAbstractState (StateAfter left) (StateAfter right),
      cmp_Compare (EdgeFunctionTag left) (EdgeFunctionTag right),
      cmp_Compare (EdgeReason left) (EdgeReason right),
      slices_CompareFunc cmp_Compare (WPredicates left) (WPredicates right)]"

definition compareInterprocWitnessEdges :: "interprocWitnessEdge list \<Rightarrow> interprocWitnessEdge list \<Rightarrow> int" where
  "compareInterprocWitnessEdges left right = slices_CompareFunc compareInterprocWitnessEdge left right"

text \<open>A chain of field comparisons is a total preorder; it is total when it covers every field.\<close>

lemma go_compare_fields:
  assumes "\<And>x y. compare x y = first_nonzero (map (\<lambda>c. c x y) cs)"
    and "\<forall>c\<in>set cs. go_compare c"
  shows "go_compare compare"
  using go_compare_chain [OF assms(2)] assms(1) by (simp add: go_compare_def)

lemmas field_compare = go_compare_on [OF cmp.go_compare_axioms]

lemma go_compare_node: "go_compare compareInterprocNodeID"
  by (rule go_compare_fields [where cs = "[\<lambda>x y. cmp_Compare (FuncKey x) (FuncKey y),
      \<lambda>x y. cmp_Compare (NodeKind x) (NodeKind y), \<lambda>x y. cmp_Compare (BlockIndex x) (BlockIndex y),
      \<lambda>x y. cmp_Compare (NodeIndex x) (NodeIndex y), \<lambda>x y. cmp_Compare (CallOrdinal x) (CallOrdinal y)]"])
    (simp_all add: compareInterprocNodeID_def field_compare)

lemma go_compare_state: "go_compare compareProtocolAbstractState"
  by (rule go_compare_fields [where cs = "[\<lambda>x y. cmp_Compare (Validation x) (Validation y),
      \<lambda>x y. cmp_Compare (Hazards x) (Hazards y), \<lambda>x y. cmp_Compare (Uncertainty x) (Uncertainty y),
      \<lambda>x y. cmp_Compare (ErrorResult x) (ErrorResult y), \<lambda>x y. cmp_Compare (DeferredError x) (DeferredError y),
      \<lambda>x y. cmp_Compare (Identity x) (Identity y), \<lambda>x y. cmp_Compare (PossibleEffects x) (PossibleEffects y)]"])
    (simp_all add: compareProtocolAbstractState_def field_compare)

lemma go_compare_witnessEdge: "go_compare compareInterprocWitnessEdge"
  by (rule go_compare_fields [where cs = "[\<lambda>x y. compareInterprocNodeID (WFrom x) (WFrom y),
      \<lambda>x y. compareInterprocNodeID (WTo x) (WTo y), \<lambda>x y. cmp_Compare (WKind x) (WKind y),
      \<lambda>x y. cmp_Compare (WCallSite x) (WCallSite y), \<lambda>x y. cmp_Compare (WFactFamily x) (WFactFamily y),
      \<lambda>x y. cmp_Compare (WFactKey x) (WFactKey y),
      \<lambda>x y. compareProtocolAbstractState (StateBefore x) (StateBefore y),
      \<lambda>x y. compareProtocolAbstractState (StateAfter x) (StateAfter y),
      \<lambda>x y. cmp_Compare (EdgeFunctionTag x) (EdgeFunctionTag y), \<lambda>x y. cmp_Compare (EdgeReason x) (EdgeReason y),
      \<lambda>x y. slices_CompareFunc cmp_Compare (WPredicates x) (WPredicates y)]"])
    (simp_all add: compareInterprocWitnessEdge_def field_compare go_compare_on [OF go_compare_node]
      go_compare_on [OF go_compare_state] go_compare_on [OF go_compare_list [OF cmp.go_compare_axioms]])

lemma node_compare_zero: "compareInterprocNodeID x y = 0 \<Longrightarrow> x = y"
  by (simp add: compareInterprocNodeID_def interprocNodeID.equality split: if_splits)

lemma state_compare_zero: "compareProtocolAbstractState x y = 0 \<Longrightarrow> x = y"
  by (simp add: compareProtocolAbstractState_def protocolAbstractState.equality split: if_splits)

lemma witnessEdge_compare_zero: "compareInterprocWitnessEdge x y = 0 \<Longrightarrow> x = y"
  using slices_CompareFunc_zero [of cmp_Compare "WPredicates x" "WPredicates y"]
  by (simp add: compareInterprocWitnessEdge_def interprocWitnessEdge.equality node_compare_zero state_compare_zero
      split: if_splits)

interpretation node_order: go_total_compare compareInterprocNodeID
  by (rule go_total_compare.intro [OF go_compare_node]) (unfold_locales, rule node_compare_zero)

interpretation state_order: go_total_compare compareProtocolAbstractState
  by (rule go_total_compare.intro [OF go_compare_state]) (unfold_locales, rule state_compare_zero)

interpretation witness_order: go_total_compare compareInterprocWitnessEdges
proof -
  have "compareInterprocWitnessEdges = slices_CompareFunc compareInterprocWitnessEdge"
    by (simp add: fun_eq_iff compareInterprocWitnessEdges_def)
  then show "go_total_compare compareInterprocWitnessEdges"
    using go_compare_list [OF go_compare_witnessEdge] slices_CompareFunc_zero [of compareInterprocWitnessEdge]
    by (simp add: go_total_compare_def go_total_compare_axioms_def witnessEdge_compare_zero)
qed

section \<open>Subsumption\<close>

lemma subsumes_refl: "interprocWitnessSubsumes w w"
  by (simp add: interprocWitnessSubsumes_def)

lemma subsumes_trans: "interprocWitnessSubsumes u v \<Longrightarrow> interprocWitnessSubsumes v w \<Longrightarrow> interprocWitnessSubsumes u w"
  by (auto simp: interprocWitnessSubsumes_def)

section \<open>Path results\<close>

definition pathOutcomeSafe :: nat where [go_const]: "pathOutcomeSafe = 0"
definition pathOutcomeUnsafe :: nat where [go_const]: "pathOutcomeUnsafe = 1"
definition pathOutcomeInconclusive :: nat where [go_const]: "pathOutcomeInconclusive = 2"

definition interprocOutcomeSafe :: string where [go_const]: "interprocOutcomeSafe = ''safe''"
definition interprocOutcomeUnsafe :: string where [go_const]: "interprocOutcomeUnsafe = ''unsafe''"
definition interprocOutcomeInconclusive :: string where [go_const]: "interprocOutcomeInconclusive = ''inconclusive''"

definition ifdsFactFamilyZero :: string where [go_const]: "ifdsFactFamilyZero = ''zero''"
definition ifdsFactFamilyCastNeedsValidate :: string where [go_const]: "ifdsFactFamilyCastNeedsValidate = ''cast-needs-validate''"
definition ifdsFactFamilyUBVNeedsValidateBefore :: string where [go_const]: "ifdsFactFamilyUBVNeedsValidateBefore = ''ubv-needs-validate-before-use''"
definition ifdsFactFamilyCtorReturnNeedsValidate :: string where [go_const]: "ifdsFactFamilyCtorReturnNeedsValidate = ''ctor-return-needs-validate''"

text \<open>The key of a fact: its trimmed, non-empty parts joined by a bar.\<close>

definition joinIFDSFactKey :: "string list \<Rightarrow> string" where
  "joinIFDSFactKey parts =
     (let cleaned = filter (\<lambda>p. p \<noteq> []) (map strings_TrimSpace parts) in
      if cleaned = [] then ifdsFactFamilyZero else strings_Join cleaned ''|'')"

record interprocTabulationStats =
  PathEdges :: nat
  Dependencies :: nat
  Summaries :: nat
  SummaryReuses :: nat

definition noStats :: interprocTabulationStats where
  "noStats = \<lparr>PathEdges = 0, Dependencies = 0, Summaries = 0, SummaryReuses = 0\<rparr>"

text \<open>
  The result record without the three fields a caller of the solver fills afterwards: the
  witness record and the refinement result (theory \<open>Refinement\<close>) and the SSA availability.
\<close>

record ('n, 'e) interprocPathResult =
  Class :: string
  PathReason :: pathOutcomeReason
  PathWitness :: "int list"
  WitnessEdges :: "interprocWitnessEdge list"
  WitnessTerminal :: interprocNodeID
  WitnessHash :: string
  ResultFactFamily :: string
  ResultFactKey :: string
  ResultEdgeTag :: ideEdgeFuncTag
  Tabulation :: interprocTabulationStats
  witnessGraph :: "('n, 'e) interprocSupergraph option"

definition zeroNode :: interprocNodeID where
  "zeroNode = \<lparr>FuncKey = '''', BlockIndex = 0, NodeIndex = 0, CallOrdinal = 0, NodeKind = ''''\<rparr>"

definition interprocOutcomeClassFromPathOutcome :: "nat \<Rightarrow> string" where
  "interprocOutcomeClassFromPathOutcome outcome =
     (if outcome = pathOutcomeSafe then interprocOutcomeSafe
      else if outcome = pathOutcomeUnsafe then interprocOutcomeUnsafe
      else interprocOutcomeInconclusive)"

definition toPathOutcome :: "('n, 'e) interprocPathResult \<Rightarrow> nat" where
  "toPathOutcome r =
     (if Class r = interprocOutcomeSafe then pathOutcomeSafe
      else if Class r = interprocOutcomeUnsafe then pathOutcomeUnsafe
      else pathOutcomeInconclusive)"

definition interprocPathResultFromOutcome ::
  "nat \<Rightarrow> pathOutcomeReason \<Rightarrow> int list \<Rightarrow> ('n, 'e) interprocPathResult" where
  "interprocPathResultFromOutcome outcome reason witness =
     (let cls = interprocOutcomeClassFromPathOutcome outcome in
      \<lparr>Class = cls,
       PathReason = (if cls \<noteq> interprocOutcomeInconclusive then pathOutcomeReasonNone else reason),
       PathWitness = witness, WitnessEdges = [], WitnessTerminal = zeroNode, WitnessHash = '''',
       ResultFactFamily = '''', ResultFactKey = '''', ResultEdgeTag = '''', Tabulation = noStats, witnessGraph = None\<rparr>)"

definition edgeTagFromPathResult :: "('n, 'e) interprocPathResult \<Rightarrow> ideEdgeFuncTag" where
  "edgeTagFromPathResult r =
     (if Class r = interprocOutcomeSafe then ideEdgeFuncValidate
      else if Class r = interprocOutcomeUnsafe then
        (if ResultFactFamily r = ifdsFactFamilyUBVNeedsValidateBefore then ideEdgeFuncEscape else ideEdgeFuncIdentity)
      else ideEdgeFuncIdentity)"

definition appendWitnessBlock :: "int list \<Rightarrow> int \<Rightarrow> int list" where
  "appendWitnessBlock path blockIndex =
     (if path = [] then [blockIndex] else if last path = blockIndex then path else path @ [blockIndex])"

definition preferInterprocResult ::
  "('n, 'e) interprocPathResult option \<Rightarrow> ('n, 'e) interprocPathResult \<Rightarrow> ('n, 'e) interprocPathResult option" where
  "preferInterprocResult current candidate =
     (case current of
        None \<Rightarrow> Some candidate
      | Some c \<Rightarrow>
          if length (PathWitness candidate) < length (PathWitness c) then Some candidate
          else if length (PathWitness candidate) = length (PathWitness c) \<and>
                  compareInterprocWitnessEdges (WitnessEdges candidate) (WitnessEdges c) < 0 then Some candidate
          else Some c)"

text \<open>
  A candidate counts as discharged when some recorded discharge token extends its hash.  The
  tokens are the keys of \<open>dischargedWitnesses\<close>; the hash function is the one the caller passes.
\<close>

definition witnessIsDischarged ::
  "(int list \<Rightarrow> interprocWitnessEdge list \<Rightarrow> interprocNodeID \<Rightarrow> string \<Rightarrow> string) option \<Rightarrow> int list \<Rightarrow>
   interprocWitnessEdge list \<Rightarrow> interprocNodeID \<Rightarrow> string \<Rightarrow> string list \<Rightarrow> bool" where
  "witnessIsDischarged witnessHash path witness terminal trigger dischargedWitnesses =
     (case witnessHash of
        None \<Rightarrow> False
      | Some h \<Rightarrow>
          if dischargedWitnesses = [] \<or> path = [] then False
          else let hash = h path witness terminal trigger in
            if hash = '''' then False
            else \<exists>token \<in> set dischargedWitnesses. strings_HasPrefix token (hash @ ''|cfgd1_''))"

section \<open>Replay of a witness\<close>

definition interprocWitnessReplayMissingNode :: string where [go_const]: "interprocWitnessReplayMissingNode = ''missing-node''"
definition interprocWitnessReplayNonEdge :: string where [go_const]: "interprocWitnessReplayNonEdge = ''non-edge''"
definition interprocWitnessReplayDisconnected :: string where [go_const]: "interprocWitnessReplayDisconnected = ''disconnected-transition''"
definition interprocWitnessReplayCrossProcedure :: string where [go_const]: "interprocWitnessReplayCrossProcedure = ''cross-procedure-transition''"
definition interprocWitnessReplayUnmatchedReturn :: string where [go_const]: "interprocWitnessReplayUnmatchedReturn = ''unmatched-return''"
definition interprocWitnessReplayChangedFact :: string where [go_const]: "interprocWitnessReplayChangedFact = ''changed-fact''"
definition interprocWitnessReplayChangedState :: string where [go_const]: "interprocWitnessReplayChangedState = ''changed-state''"
definition interprocWitnessReplayInvalidState :: string where [go_const]: "interprocWitnessReplayInvalidState = ''invalid-state''"
definition interprocWitnessReplayInvalidEdgeKind :: string where [go_const]: "interprocWitnessReplayInvalidEdgeKind = ''invalid-edge-kind''"
definition interprocWitnessReplayMissingCallSite :: string where [go_const]: "interprocWitnessReplayMissingCallSite = ''missing-call-site''"

record callFrame =
  frameCallSite :: string
  frameCaller :: string
  frameCallee :: string

definition interprocWitnessNodeExists :: "('n, 'e) interprocSupergraph \<Rightarrow> interprocNodeID \<Rightarrow> bool" where
  "interprocWitnessNodeExists g n \<longleftrightarrow> Nodes g (node_Key n) = Some n"

definition interprocWitnessGraphHasEdge :: "('n, 'e) interprocSupergraph \<Rightarrow> interprocWitnessEdge \<Rightarrow> bool" where
  "interprocWitnessGraphHasEdge g w \<longleftrightarrow>
     (\<exists>e \<in> set (Edges g). From e = WFrom w \<and> To e = WTo w \<and> EdgeKind e = WKind w \<and>
        CallSite e = WCallSite w \<and> Reason e = EdgeReason w \<and> PredicateProvenance e = WPredicates w)"

text \<open>
  The call stack is a list with its top at the head.  \<open>prev\<close> is the edge before the current
  one, which the source reads at \<open>index-1\<close>.
\<close>

fun replayEdges ::
  "('n, 'e) interprocSupergraph \<Rightarrow> string \<Rightarrow> string \<Rightarrow> interprocWitnessEdge option \<Rightarrow> callFrame list \<Rightarrow>
   interprocWitnessEdge list \<Rightarrow> string" where
  "replayEdges g family key prev stack [] = ''''"
| "replayEdges g family key prev stack (w # ws) =
     (if \<not> interprocWitnessNodeExists g (WFrom w) \<or> \<not> interprocWitnessNodeExists g (WTo w) then
        interprocWitnessReplayMissingNode
      else if WFactFamily w \<noteq> family \<or> WFactKey w \<noteq> key then interprocWitnessReplayChangedFact
      else if \<not> state_valid (StateBefore w) \<or> \<not> state_valid (StateAfter w) then interprocWitnessReplayInvalidState
      else if \<not> protocolWitnessTransferMatches
                (ide_Apply (newIDEEdgeFunc (EdgeFunctionTag w)) (StateBefore w)) (StateAfter w) then
        interprocWitnessReplayChangedState
      else if (case prev of None \<Rightarrow> False | Some p \<Rightarrow> WTo p \<noteq> WFrom w) then interprocWitnessReplayDisconnected
      else if (case prev of None \<Rightarrow> False | Some p \<Rightarrow> StateAfter p \<noteq> StateBefore w) then
        interprocWitnessReplayChangedState
      else if \<not> interprocWitnessGraphHasEdge g w then interprocWitnessReplayNonEdge
      else if WKind w = interprocEdgeIntra then
        (if FuncKey (WFrom w) \<noteq> FuncKey (WTo w) then interprocWitnessReplayCrossProcedure
         else if WCallSite w \<noteq> '''' then interprocWitnessReplayMissingCallSite
         else replayEdges g family key (Some w) stack ws)
      else if WKind w = interprocEdgeCallToReturn then
        (if FuncKey (WFrom w) \<noteq> FuncKey (WTo w) then interprocWitnessReplayCrossProcedure
         else if WCallSite w = '''' then interprocWitnessReplayMissingCallSite
         else replayEdges g family key (Some w) stack ws)
      else if WKind w = interprocEdgeCall then
        (if WCallSite w = '''' then interprocWitnessReplayMissingCallSite
         else replayEdges g family key (Some w)
           (\<lparr>frameCallSite = WCallSite w, frameCaller = FuncKey (WFrom w), frameCallee = FuncKey (WTo w)\<rparr> # stack) ws)
      else if WKind w = interprocEdgeReturn then
        (if WCallSite w = '''' then interprocWitnessReplayMissingCallSite
         else case stack of
             [] \<Rightarrow> interprocWitnessReplayUnmatchedReturn
           | frame # rest \<Rightarrow>
               if frameCallSite frame \<noteq> WCallSite w \<or> frameCallee frame \<noteq> FuncKey (WFrom w) \<or>
                  frameCaller frame \<noteq> FuncKey (WTo w) then interprocWitnessReplayUnmatchedReturn
               else replayEdges g family key (Some w) rest ws)
      else interprocWitnessReplayInvalidEdgeKind)"

definition validateInterprocWitnessReplay ::
  "('n, 'e) interprocSupergraph \<Rightarrow> ('n, 'e) interprocPathResult \<Rightarrow> string" where
  "validateInterprocWitnessReplay g r =
     (if FuncKey (WitnessTerminal r) \<noteq> '''' \<and> \<not> interprocWitnessNodeExists g (WitnessTerminal r) then
        interprocWitnessReplayMissingNode
      else if WitnessEdges r \<noteq> [] \<and> FuncKey (WitnessTerminal r) \<noteq> '''' \<and>
              WTo (last (WitnessEdges r)) \<noteq> WitnessTerminal r then
        interprocWitnessReplayDisconnected
      else replayEdges g (ResultFactFamily r) (ResultFactKey r) None [] (WitnessEdges r))"

subsection \<open>Realizable paths\<close>

text \<open>
  The specification of the replay check: a path is balanced when every call in it is closed
  by the return of the same call site between the same two procedures, and realizable when
  it is a prefix of a balanced path (it may end inside callees).
\<close>

definition local_edge :: "interprocWitnessEdge \<Rightarrow> bool" where
  "local_edge w \<longleftrightarrow> WKind w = interprocEdgeIntra \<or> WKind w = interprocEdgeCallToReturn"

definition closes :: "interprocWitnessEdge \<Rightarrow> interprocWitnessEdge \<Rightarrow> bool" where
  "closes c r \<longleftrightarrow> WKind c = interprocEdgeCall \<and> WKind r = interprocEdgeReturn \<and> WCallSite c = WCallSite r \<and>
     FuncKey (WTo c) = FuncKey (WFrom r) \<and> FuncKey (WFrom c) = FuncKey (WTo r)"

inductive balanced :: "interprocWitnessEdge list \<Rightarrow> bool" where
  empty: "balanced []"
| step: "local_edge w \<Longrightarrow> balanced ws \<Longrightarrow> balanced (w # ws)"
| call: "closes c r \<Longrightarrow> balanced ws \<Longrightarrow> balanced ws' \<Longrightarrow> balanced (c # ws @ r # ws')"

inductive realizable :: "interprocWitnessEdge list \<Rightarrow> bool" where
  balanced: "balanced ws \<Longrightarrow> realizable ws"
| open_call: "balanced ws \<Longrightarrow> WKind c = interprocEdgeCall \<Longrightarrow> realizable ws' \<Longrightarrow> realizable (ws @ c # ws')"

lemma balanced_append: "balanced xs \<Longrightarrow> balanced ys \<Longrightarrow> balanced (xs @ ys)"
  by (induction rule: balanced.induct) (auto intro: balanced.intros)

lemma realizable_append: "realizable ys \<Longrightarrow> balanced xs \<Longrightarrow> realizable (xs @ ys)"
proof (induction rule: realizable.induct)
  case (balanced ws)
  then show ?case by (auto intro: realizable.balanced balanced_append)
next
  case (open_call ws c ws')
  then have "realizable ((xs @ ws) @ c # ws')"
    by (intro realizable.open_call balanced_append) auto
  then show ?case by simp
qed

text \<open>The pushdown automaton the check runs, apart from the checks of single edges.\<close>

definition frame_of :: "interprocWitnessEdge \<Rightarrow> callFrame" where
  "frame_of w = \<lparr>frameCallSite = WCallSite w, frameCaller = FuncKey (WFrom w), frameCallee = FuncKey (WTo w)\<rparr>"

definition pops :: "callFrame \<Rightarrow> interprocWitnessEdge \<Rightarrow> bool" where
  "pops f r \<longleftrightarrow> frameCallSite f = WCallSite r \<and> frameCallee f = FuncKey (WFrom r) \<and> frameCaller f = FuncKey (WTo r)"

fun stack_ok :: "callFrame list \<Rightarrow> interprocWitnessEdge list \<Rightarrow> bool" where
  "stack_ok stack [] = True"
| "stack_ok stack (w # ws) =
     (if local_edge w then stack_ok stack ws
      else if WKind w = interprocEdgeCall then stack_ok (frame_of w # stack) ws
      else WKind w = interprocEdgeReturn \<and> (case stack of [] \<Rightarrow> False | f # rest \<Rightarrow> pops f w \<and> stack_ok rest ws))"

lemma kinds_distinct [simp]:
  "interprocEdgeIntra \<noteq> interprocEdgeCall" "interprocEdgeIntra \<noteq> interprocEdgeReturn"
  "interprocEdgeIntra \<noteq> interprocEdgeCallToReturn" "interprocEdgeCall \<noteq> interprocEdgeReturn"
  "interprocEdgeCall \<noteq> interprocEdgeCallToReturn" "interprocEdgeReturn \<noteq> interprocEdgeCallToReturn"
  "interprocEdgeCall \<noteq> interprocEdgeIntra" "interprocEdgeReturn \<noteq> interprocEdgeIntra"
  "interprocEdgeCallToReturn \<noteq> interprocEdgeIntra" "interprocEdgeReturn \<noteq> interprocEdgeCall"
  "interprocEdgeCallToReturn \<noteq> interprocEdgeCall" "interprocEdgeCallToReturn \<noteq> interprocEdgeReturn"
  by (simp_all add: go_const)

lemma pops_closes: "WKind c = interprocEdgeCall \<Longrightarrow> WKind r = interprocEdgeReturn \<Longrightarrow> pops (frame_of c) r \<longleftrightarrow> closes c r"
  by (auto simp: pops_def frame_of_def closes_def)

lemma stack_ok_balanced: "balanced ws \<Longrightarrow> stack_ok stack (ws @ rest) = stack_ok stack rest"
proof (induction arbitrary: stack rest rule: balanced.induct)
  case (call c r ws ws')
  then have "WKind c = interprocEdgeCall" "WKind r = interprocEdgeReturn" by (auto simp: closes_def)
  with call show ?case by (simp add: local_edge_def pops_closes)
qed auto

lemma realizable_stack_ok: "realizable ws \<Longrightarrow> stack_ok stack ws"
proof (induction arbitrary: stack rule: realizable.induct)
  case (balanced ws)
  then show ?case using stack_ok_balanced [of ws stack "[]"] by simp
next
  case (open_call ws c ws')
  then show ?case by (simp add: stack_ok_balanced local_edge_def)
qed

lemma stack_ok_decompose:
  "stack_ok stack ws \<Longrightarrow> realizable ws \<or>
     (\<exists>f fs b r rest. stack = f # fs \<and> ws = b @ r # rest \<and> balanced b \<and> WKind r = interprocEdgeReturn \<and>
        pops f r \<and> stack_ok fs rest)"
proof (induction "length ws" arbitrary: stack ws rule: less_induct)
  case less
  show ?case
  proof (cases ws)
    case Nil
    then show ?thesis by (auto intro: realizable.balanced balanced.empty)
  next
    case (Cons w ws')
    consider (loc) "local_edge w" | (call) "\<not> local_edge w" "WKind w = interprocEdgeCall"
      | (ret) "\<not> local_edge w" "WKind w = interprocEdgeReturn"
      using less.prems Cons by (auto split: if_splits)
    then show ?thesis
    proof cases
      case loc
      then have "stack_ok stack ws'" using less.prems Cons by simp
      from less.hyps [OF _ this] Cons consider "realizable ws'"
        | f fs b r rest where "stack = f # fs" "ws' = b @ r # rest" "balanced b" "WKind r = interprocEdgeReturn"
            "pops f r" "stack_ok fs rest" by auto
      then show ?thesis
      proof cases
        case 1
        then show ?thesis using realizable_append [of ws' "[w]"] loc Cons by (auto intro: balanced.intros)
      next
        case 2
        have "balanced (w # b)" using loc 2(3) by (rule balanced.step)
        moreover have "ws = (w # b) @ r # rest" using Cons 2(2) by simp
        ultimately show ?thesis using 2 by blast
      qed
    next
      case call
      then have "stack_ok (frame_of w # stack) ws'" using less.prems Cons by simp
      from less.hyps [OF _ this] Cons consider "realizable ws'"
        | b r rest where "ws' = b @ r # rest" "balanced b" "WKind r = interprocEdgeReturn"
            "pops (frame_of w) r" "stack_ok stack rest" by auto
      then show ?thesis
      proof cases
        case 1
        then show ?thesis using realizable.open_call [of "[]" w ws'] call Cons by (auto intro: balanced.intros)
      next
        case 2
        have c: "closes w r" using 2 call pops_closes by blast
        have bal: "balanced (w # b @ [r])" using balanced.call [OF c 2(2) balanced.empty] by simp
        have short: "length rest < length ws" using Cons 2(1) by simp
        from less.hyps [OF short 2(5)] show ?thesis
        proof
          assume "realizable rest"
          then show ?thesis using realizable_append [OF _ bal] Cons 2(1) by auto
        next
          assume "\<exists>f fs b r rest'. stack = f # fs \<and> rest = b @ r # rest' \<and> balanced b \<and>
            WKind r = interprocEdgeReturn \<and> pops f r \<and> stack_ok fs rest'"
          then obtain f fs b' r' rest' where s: "stack = f # fs" "rest = b' @ r' # rest'" "balanced b'"
            "WKind r' = interprocEdgeReturn" "pops f r'" "stack_ok fs rest'" by blast
          have "balanced (w # b @ r # b')" using c 2(2) s(3) by (rule balanced.call)
          moreover have "ws = (w # b @ r # b') @ r' # rest'" using Cons 2(1) s(2) by simp
          ultimately show ?thesis using s by blast
        qed
      qed
    next
      case ret
      then obtain f fs where "stack = f # fs" "pops f w" "stack_ok fs ws'"
        using less.prems Cons by (auto split: list.splits)
      then show ?thesis using ret(2) Cons balanced.empty by (metis append_Nil)
    qed
  qed
qed

lemma stack_ok_realizable: "stack_ok [] ws \<longleftrightarrow> realizable ws"
  using stack_ok_decompose [of "[]" ws] realizable_stack_ok [of ws "[]"] by auto

subsection \<open>What the check accepts\<close>

definition replay_local :: "('n, 'e) interprocSupergraph \<Rightarrow> string \<Rightarrow> string \<Rightarrow> interprocWitnessEdge \<Rightarrow> bool" where
  "replay_local g family key w \<longleftrightarrow>
     interprocWitnessNodeExists g (WFrom w) \<and> interprocWitnessNodeExists g (WTo w) \<and>
     WFactFamily w = family \<and> WFactKey w = key \<and>
     state_valid (StateBefore w) \<and> state_valid (StateAfter w) \<and>
     protocolWitnessTransferMatches (ide_Apply (newIDEEdgeFunc (EdgeFunctionTag w)) (StateBefore w)) (StateAfter w) \<and>
     interprocWitnessGraphHasEdge g w \<and>
     (local_edge w \<longrightarrow> FuncKey (WFrom w) = FuncKey (WTo w)) \<and>
     (WCallSite w = '''' \<longleftrightarrow> WKind w = interprocEdgeIntra)"

definition follows :: "interprocWitnessEdge \<Rightarrow> interprocWitnessEdge \<Rightarrow> bool" where
  "follows p w \<longleftrightarrow> WTo p = WFrom w \<and> StateAfter p = StateBefore w"

lemma replay_errors_nonempty [simp]:
  "interprocWitnessReplayMissingNode \<noteq> ''''" "interprocWitnessReplayNonEdge \<noteq> ''''"
  "interprocWitnessReplayDisconnected \<noteq> ''''" "interprocWitnessReplayCrossProcedure \<noteq> ''''"
  "interprocWitnessReplayUnmatchedReturn \<noteq> ''''" "interprocWitnessReplayChangedFact \<noteq> ''''"
  "interprocWitnessReplayChangedState \<noteq> ''''" "interprocWitnessReplayInvalidState \<noteq> ''''"
  "interprocWitnessReplayInvalidEdgeKind \<noteq> ''''" "interprocWitnessReplayMissingCallSite \<noteq> ''''"
  by (simp_all add: go_const)

lemma replayEdges_accepts:
  "replayEdges g family key prev stack ws = '''' \<longleftrightarrow>
     list_all (replay_local g family key) ws \<and> stack_ok stack ws \<and>
     successively follows ((case prev of None \<Rightarrow> [] | Some p \<Rightarrow> [p]) @ ws)"
proof (induction ws arbitrary: prev stack)
  case Nil
  then show ?case by (cases prev) auto
next
  case (Cons w ws)
  have chain: "successively follows ((case prev of None \<Rightarrow> [] | Some p \<Rightarrow> [p]) @ w # ws) \<longleftrightarrow>
      (case prev of None \<Rightarrow> True | Some p \<Rightarrow> follows p w) \<and> successively follows (w # ws)"
    by (cases prev) auto
  show ?case
    unfolding chain using Cons.IH [of "Some w"]
    by (auto simp: replay_local_def local_edge_def follows_def pops_def frame_of_def
        split: option.splits list.splits)
qed

text \<open>
  C5. The replay check accepts exactly the realizable witnesses: it returns no error if and
  only if the terminal is the end of the path, each edge is an edge of the graph between
  existing nodes with valid, replayable states and the fact of the result, consecutive edges
  meet in node and state, and the calls and returns are matched like brackets.
\<close>

theorem replay_accepts_exactly_realizable:
  "validateInterprocWitnessReplay g r = '''' \<longleftrightarrow>
     (FuncKey (WitnessTerminal r) = '''' \<or>
      interprocWitnessNodeExists g (WitnessTerminal r) \<and>
      (WitnessEdges r = [] \<or> WTo (last (WitnessEdges r)) = WitnessTerminal r)) \<and>
     list_all (replay_local g (ResultFactFamily r) (ResultFactKey r)) (WitnessEdges r) \<and>
     successively follows (WitnessEdges r) \<and> realizable (WitnessEdges r)"
  unfolding validateInterprocWitnessReplay_def
  by (auto simp: replayEdges_accepts stack_ok_realizable)

subsection \<open>The choice between candidates\<close>

definition result_le :: "('n, 'e) interprocPathResult \<Rightarrow> ('n, 'e) interprocPathResult \<Rightarrow> bool" where
  "result_le a b \<longleftrightarrow> length (PathWitness a) < length (PathWitness b) \<or>
     length (PathWitness a) = length (PathWitness b) \<and>
     compareInterprocWitnessEdges (WitnessEdges a) (WitnessEdges b) \<le> 0"

lemma result_le_trans: "result_le a b \<Longrightarrow> result_le b c \<Longrightarrow> result_le a c"
  using witness_order.le_trans by (auto simp: result_le_def)

lemma prefer_le: "preferInterprocResult (Some c) x = Some d \<Longrightarrow> result_le d c \<and> result_le d x \<and> d \<in> {c, x}"
  using witness_order.flip [of "WitnessEdges x" "WitnessEdges c"] witness_order.le_total [of "WitnessEdges x" "WitnessEdges c"]
  by (auto simp: preferInterprocResult_def result_le_def split: if_splits)

definition preferAll ::
  "('n, 'e) interprocPathResult option \<Rightarrow> ('n, 'e) interprocPathResult list \<Rightarrow> ('n, 'e) interprocPathResult option" where
  "preferAll cur xs = foldl preferInterprocResult cur xs"

lemma preferAll_Some:
  "\<exists>d. preferAll (Some c) xs = Some d \<and> d \<in> insert c (set xs) \<and> (\<forall>x\<in>insert c (set xs). result_le d x)"
proof (induction xs arbitrary: c)
  case Nil
  then show ?case by (simp add: preferAll_def result_le_def)
next
  case (Cons x xs)
  obtain e where e: "preferInterprocResult (Some c) x = Some e"
    by (cases "preferInterprocResult (Some c) x") (auto simp: preferInterprocResult_def split: if_splits)
  from Cons.IH [of e] obtain d where "preferAll (Some e) xs = Some d" "d \<in> insert e (set xs)"
    "\<forall>y\<in>insert e (set xs). result_le d y" by blast
  with prefer_le [OF e] show ?case
    by (auto simp: preferAll_def e intro: result_le_trans)
qed

text \<open>
  The reported witness does not depend on the order in which candidates are found: over
  any non-empty list of candidates the fold of the preference picks one of them that is least
  in witness length and then in the edge order, and two orders of the same candidates agree
  on the chosen length and on the chosen edges.
\<close>

theorem preferred_result_order_independent:
  assumes "set xs = set ys" and "xs \<noteq> []"
  shows "\<exists>d e. preferAll None xs = Some d \<and> preferAll None ys = Some e \<and> d \<in> set xs \<and>
    length (PathWitness d) = length (PathWitness e) \<and> WitnessEdges d = WitnessEdges e \<and>
    list_all (result_le d) xs"
proof -
  obtain x xs' y ys' where e: "xs = x # xs'" "ys = y # ys'"
    using assms by (cases xs; cases ys) auto
  have "preferAll None (z # zs) = preferAll (Some z) zs" for z :: "('a, 'b) interprocPathResult" and zs
    by (simp add: preferAll_def preferInterprocResult_def)
  with preferAll_Some [of x xs'] preferAll_Some [of y ys'] e obtain a b where
    a: "preferAll None xs = Some a" "a \<in> set xs" "\<forall>z\<in>set xs. result_le a z" and
    b: "preferAll None ys = Some b" "b \<in> set ys" "\<forall>z\<in>set ys. result_le b z" by auto
  have "result_le a b" "result_le b a" using a b assms(1) by auto
  then have "length (PathWitness a) = length (PathWitness b)"
    "WitnessEdges a = WitnessEdges b"
    using witness_order.le_antisym by (auto simp: result_le_def)
  with a b show ?thesis by (auto simp: list_all_iff)
qed

definition sampleResult :: "int list \<Rightarrow> (unit, unit) interprocPathResult" where
  "sampleResult steps = interprocPathResultFromOutcome pathOutcomeUnsafe [] steps"

theorem preferred_result_order_independent_witness:
  "\<exists>d e. preferAll None [sampleResult [0, 1], sampleResult [0]] = Some d \<and>
    preferAll None [sampleResult [0], sampleResult [0, 1]] = Some e \<and> WitnessEdges d = WitnessEdges e"
  using preferred_result_order_independent
    [of "[sampleResult [0, 1], sampleResult [0]]" "[sampleResult [0], sampleResult [0, 1]]"]
  by auto

end
