(* ===== verification/Tabulation.thy ===== *)
theory Tabulation
  imports Witness "HOL-Library.AList"
begin

text \<open>
  The context-sensitive tabulation solver of the protocol analysis
  (\<open>goplint/cfa_ifds_tabulation.go\<close>): path edges with their witness antichains, call
  dependencies, procedure summaries, the work budget, the worklist and the main loop, and
  the wrapper \<open>runIFDSPropagationWithSinkControlled\<close> (\<open>goplint/cfa_ifds_solver.go\<close>).

  The closures of \<open>runIFDSPropagationWithStatsOptions\<close> share local variables; here they pass
  the record \<open>tabState\<close>, one field per variable, and return the flag the closure returns.  The
  client functions the solver is called with (transfer functions, sinks, hashes) are the
  fields of \<open>tabConfig\<close>.
\<close>

section \<open>Facts, path edges, dependencies, summaries\<close>

record interprocEntryFact =
  fact_node :: interprocNodeID
  fact_state :: protocolAbstractState

definition entryFact_key :: "interprocEntryFact \<Rightarrow> string" where
  "entryFact_key f = strings_Join
     [node_Key (fact_node f), ''entry-fact='' @ state_key (fact_state f)] ''|''"

record interprocPathEdge =
  pe_entry :: interprocEntryFact
  pe_node :: interprocNodeID
  pe_state :: protocolAbstractState
  pe_edgeFunction :: interprocConditionalEdgeFunc
  pe_path :: "int list"
  pe_witness :: "interprocWitnessEdge list"

definition pathEdge_key :: "interprocPathEdge \<Rightarrow> string" where
  "pathEdge_key edge = strings_Join
     [entryFact_key (pe_entry edge),
      ''procedure='' @ FuncKey (pe_node edge),
      ''node='' @ node_Key (pe_node edge),
      ''current-fact='' @ state_key (pe_state edge),
      ''edge-function='' @ effect_key (pe_edgeFunction edge)] ''|''"

record interprocCallDependency =
  calleeEntry :: interprocEntryFact
  calleeExit :: interprocNodeID
  callerEntry :: interprocEntryFact
  dep_callSite :: string
  returnNode :: interprocNodeID
  callerEffect :: interprocConditionalEdgeFunc
  callerPath :: "int list"
  callerWitness :: "interprocWitnessEdge list"

definition dependency_key :: "interprocCallDependency \<Rightarrow> string" where
  "dependency_key d = strings_Join
     [entryFact_key (calleeEntry d),
      ''callee-exit='' @ node_Key (calleeExit d),
      ''caller-entry='' @ entryFact_key (callerEntry d),
      ''call-site='' @ dep_callSite d,
      ''return-node='' @ node_Key (returnNode d),
      ''caller-effect='' @ effect_key (callerEffect d)] ''|''"

record interprocProcedureSummary =
  sum_entry :: interprocEntryFact
  sum_exit :: interprocNodeID
  sum_state :: protocolAbstractState
  sum_edgeFunction :: interprocConditionalEdgeFunc
  sum_path :: "int list"
  sum_witness :: "interprocWitnessEdge list"
  exitStateBefore :: protocolAbstractState
  exitTransferTag :: ideEdgeFuncTag

definition summary_key :: "interprocProcedureSummary \<Rightarrow> string" where
  "summary_key s = strings_Join
     [entryFact_key (sum_entry s),
      ''exit='' @ node_Key (sum_exit s),
      ''exit-fact='' @ state_key (sum_state s),
      ''edge-function='' @ effect_key (sum_edgeFunction s)] ''|''"

section \<open>The client of the solver\<close>

datatype protocolWorklistOrder = protocolWorklistFIFO | protocolWorklistLIFO

record interprocSinkPolicy =
  TerminalCanObserve :: bool
  UnresolvedIdentityAtSink :: bool
  MustAliasUncertaintyAtSink :: bool

text \<open>
  Optional functions of the Go code (nil-able parameters and the test injection hooks of
  \<open>goplint/protocol_evidence_injection.go\<close>) are option-valued fields.  \<open>terminalUnsafe\<close> is
  called unconditionally in the loop, so it is never nil here.
\<close>

record ('n, 'e) tabConfig =
  graph :: "('n, 'e) interprocSupergraph"
  start :: interprocNodeID
  maxStates :: int
  dischargedWitnesses :: "string list"
  witnessHash :: "(int list \<Rightarrow> interprocWitnessEdge list \<Rightarrow> interprocNodeID \<Rightarrow> string \<Rightarrow> string) option"
  transfer :: "interprocNodeID \<Rightarrow> 'n option \<Rightarrow> protocolAbstractState \<Rightarrow> ideEdgeFuncTag \<times> pathOutcomeReason"
  terminalUnsafe :: "interprocNodeID \<Rightarrow> 'n option \<Rightarrow> protocolAbstractState \<Rightarrow> bool"
  unresolvedCallRelevant :: "(interprocNodeID \<Rightarrow> 'n option \<Rightarrow> protocolAbstractState \<Rightarrow> bool) option"
  obligationSink :: "(interprocNodeID \<Rightarrow> 'n option \<Rightarrow> bool) option"
  sinkPolicy :: interprocSinkPolicy
  edgeTransfer :: "(interprocEdge \<Rightarrow> protocolAbstractState \<Rightarrow> ideEdgeFuncTag \<times> pathOutcomeReason) option"
  control :: deadline
  worklistOrder :: "protocolWorklistOrder option"
  InitialState :: "protocolAbstractState option"
  ObserveExit :: bool
  PruneEdge :: "(interprocEdge \<Rightarrow> protocolAbstractState \<Rightarrow> bool) option"
  injectSummary :: "(interprocProcedureSummary \<Rightarrow> interprocProcedureSummary) option"
  injectReason :: "(pathOutcomeReason \<Rightarrow> pathOutcomeReason) option"

definition injectProtocolSummaryEvidence ::
  "('n, 'e) tabConfig \<Rightarrow> interprocProcedureSummary \<Rightarrow> interprocProcedureSummary" where
  "injectProtocolSummaryEvidence cfg s = (case injectSummary cfg of None \<Rightarrow> s | Some f \<Rightarrow> f s)"

definition injectProtocolReasonEvidence :: "('n, 'e) tabConfig \<Rightarrow> pathOutcomeReason \<Rightarrow> pathOutcomeReason" where
  "injectProtocolReasonEvidence cfg r = (case injectReason cfg of None \<Rightarrow> r | Some f \<Rightarrow> f r)"

definition takeProtocolWorklist :: "('n, 'e) tabConfig \<Rightarrow> string list \<Rightarrow> string \<times> string list" where
  "takeProtocolWorklist cfg q =
     (if worklistOrder cfg = Some protocolWorklistLIFO then (last q, butlast q) else (hd q, tl q))"

definition defaultCFGMaxStates :: int where "defaultCFGMaxStates = 20000"
definition interprocWitnessAntichainLimit :: nat where "interprocWitnessAntichainLimit = 64"
definition cfgRefinementTriggerUnsafeCandidate :: string where "cfgRefinementTriggerUnsafeCandidate = ''unsafe-candidate''"

definition effectiveMaxStates :: "('n, 'e) tabConfig \<Rightarrow> int" where
  "effectiveMaxStates cfg = (if maxStates cfg \<le> 0 then defaultCFGMaxStates else maxStates cfg)"

section \<open>The solver state\<close>

record ('n, 'e) tabState =
  pathEdges :: "string \<rightharpoonup> interprocPathEdge"
  pathEdgeWitnesses :: "string \<Rightarrow> (string \<times> string) list"
  queue :: "string list"
  dependencies :: "string \<rightharpoonup> interprocCallDependency"
  dependenciesByEntry :: "string \<Rightarrow> string list"
  summaries :: "string \<rightharpoonup> interprocProcedureSummary"
  summariesByEntry :: "string \<Rightarrow> string list"
  workUnits :: int
  budgetResult :: "('n, 'e) interprocPathResult option"
  unsafeResult :: "('n, 'e) interprocPathResult option"
  inconclusiveResult :: "('n, 'e) interprocPathResult option"
  stats :: interprocTabulationStats
  clock :: nat
  observed :: "(interprocNodeID \<times> protocolAbstractState) list"

definition initialTabState :: "nat \<Rightarrow> ('n, 'e) tabState" where
  "initialTabState t =
     \<lparr>pathEdges = Map.empty, pathEdgeWitnesses = (\<lambda>_. []), queue = [],
      dependencies = Map.empty, dependenciesByEntry = (\<lambda>_. []),
      summaries = Map.empty, summariesByEntry = (\<lambda>_. []),
      workUnits = 0, budgetResult = None, unsafeResult = None, inconclusiveResult = None,
      stats = noStats, clock = t, observed = []\<rparr>"

definition setBudgetExceeded ::
  "('n, 'e) tabConfig \<Rightarrow> pathOutcomeReason \<Rightarrow> int list \<Rightarrow> interprocWitnessEdge list \<Rightarrow>
   ('n, 'e) tabState \<Rightarrow> ('n, 'e) tabState" where
  "setBudgetExceeded cfg reason path witness st =
     (if budgetResult st \<noteq> None then st
      else st\<lparr>budgetResult := Some ((interprocPathResultFromOutcome pathOutcomeInconclusive reason path)
        \<lparr>WitnessEdges := witness,
         WitnessTerminal := (if witness = [] then start cfg else WTo (last witness))\<rparr>)\<rparr>)"

definition checkpoint ::
  "('n, 'e) tabConfig \<Rightarrow> int list \<Rightarrow> interprocWitnessEdge list \<Rightarrow> ('n, 'e) tabState \<Rightarrow> bool \<times> ('n, 'e) tabState" where
  "checkpoint cfg path witness st =
     (case feasibilityDeadlineReached (control cfg) (clock st) of (expired, t) \<Rightarrow>
        if \<not> expired then (True, st\<lparr>clock := t\<rparr>)
        else (False, setBudgetExceeded cfg pathOutcomeReasonTimeout path witness (st\<lparr>clock := t\<rparr>)))"

definition reserveWorkUnit ::
  "('n, 'e) tabConfig \<Rightarrow> int list \<Rightarrow> interprocWitnessEdge list \<Rightarrow> ('n, 'e) tabState \<Rightarrow> bool \<times> ('n, 'e) tabState" where
  "reserveWorkUnit cfg path witness st =
     (case checkpoint cfg path witness st of (ok, st1) \<Rightarrow>
        if \<not> ok then (False, st1)
        else let st2 = st1\<lparr>workUnits := workUnits st1 + 1\<rparr> in
          if workUnits st2 \<le> effectiveMaxStates cfg then (True, st2)
          else (False, setBudgetExceeded cfg pathOutcomeReasonStateBudget path witness st2))"

section \<open>Path edges and their witness antichains\<close>

definition zeroState :: protocolAbstractState where
  "zeroState = \<lparr>Validation = 0, Hazards = 0, Uncertainty = 0, ErrorResult = 0, DeferredError = 0,
     Identity = 0, PossibleEffects = 0\<rparr>"

text \<open>A Go map yields the zero value for a missing key.\<close>

definition zeroPathEdge :: interprocPathEdge where
  "zeroPathEdge = \<lparr>pe_entry = \<lparr>fact_node = zeroNode, fact_state = zeroState\<rparr>, pe_node = zeroNode,
     pe_state = zeroState, pe_edgeFunction = \<lparr>required = zeroState, proven = zeroState\<rparr>,
     pe_path = [], pe_witness = []\<rparr>"

definition lookupPathEdge :: "('n, 'e) tabState \<Rightarrow> string \<Rightarrow> interprocPathEdge" where
  "lookupPathEdge st k = (case pathEdges st k of None \<Rightarrow> zeroPathEdge | Some e \<Rightarrow> e)"

definition storageKey :: "string \<Rightarrow> string \<Rightarrow> string" where
  "storageKey contributionKey witnessID = contributionKey @ CHR 0x00 # ''witness='' @ witnessID"

text \<open>
  The scan of the retained witnesses: it stops when the deadline expires, or when a retained
  witness subsumes the candidate (of two that subsume each other the smaller identity stays);
  otherwise it yields the storage keys that the candidate subsumes.  Go ranges over a map here
  in no fixed order; the model ranges over the association list of the antichain.
\<close>

datatype antichainScan = ScanExpired | ScanRetained | ScanDrop "string list"

fun scanAntichain ::
  "('n, 'e) tabConfig \<Rightarrow> interprocPathEdge \<Rightarrow> string \<Rightarrow> (string \<times> string) list \<Rightarrow> string list \<Rightarrow>
   ('n, 'e) tabState \<Rightarrow> antichainScan \<times> ('n, 'e) tabState" where
  "scanAntichain cfg edge witnessID [] subsumed st = (ScanDrop subsumed, st)"
| "scanAntichain cfg edge witnessID ((retainedID, sk) # rest) subsumed st =
     (case checkpoint cfg (pe_path edge) (pe_witness edge) st of (ok, st1) \<Rightarrow>
        if \<not> ok then (ScanExpired, st1)
        else
          let retained = lookupPathEdge st1 sk;
              retainedSubsumes = interprocWitnessSubsumes (pe_witness retained) (pe_witness edge);
              candidateSubsumes = interprocWitnessSubsumes (pe_witness edge) (pe_witness retained)
          in if retainedSubsumes \<and> (\<not> candidateSubsumes \<or> retainedID \<le> witnessID) then (ScanRetained, st1)
             else scanAntichain cfg edge witnessID rest
               (if candidateSubsumes then subsumed @ [sk] else subsumed) st1)"

definition dropSubsumed ::
  "('n, 'e) tabConfig \<Rightarrow> interprocPathEdge \<Rightarrow> string \<Rightarrow> ('n, 'e) tabState \<Rightarrow> string \<Rightarrow> bool \<times> ('n, 'e) tabState" where
  "dropSubsumed cfg edge contributionKey st sk =
     (case checkpoint cfg (pe_path edge) (pe_witness edge) st of (ok, st1) \<Rightarrow>
        if \<not> ok then (False, st1)
        else let retainedID = interprocWitnessIdentity (pe_witness (lookupPathEdge st1 sk)) in
          (True, st1\<lparr>
             pathEdgeWitnesses := (pathEdgeWitnesses st1)
               (contributionKey := filter (\<lambda>p. fst p \<noteq> retainedID) (pathEdgeWitnesses st1 contributionKey)),
             pathEdges := (pathEdges st1)(sk := None)\<rparr>))"

definition enqueue :: "('n, 'e) tabConfig \<Rightarrow> interprocPathEdge \<Rightarrow> ('n, 'e) tabState \<Rightarrow> bool \<times> ('n, 'e) tabState" where
  "enqueue cfg edge st =
     (case checkpoint cfg (pe_path edge) (pe_witness edge) st of (ok, st0) \<Rightarrow>
      if \<not> ok then (False, st0)
      else let contributionKey = pathEdge_key edge;
               witnessID = interprocWitnessIdentity (pe_witness edge)
        in case scanAntichain cfg edge witnessID (pathEdgeWitnesses st0 contributionKey) [] st0 of
          (ScanExpired, st1) \<Rightarrow> (False, st1)
        | (ScanRetained, st1) \<Rightarrow> (True, st1)
        | (ScanDrop subsumed, st1) \<Rightarrow>
          (case for_each (dropSubsumed cfg edge contributionKey) st1 subsumed of (ok, st2) \<Rightarrow>
           if \<not> ok then (False, st2)
           else if length (pathEdgeWitnesses st2 contributionKey) \<ge> interprocWitnessAntichainLimit
             then (False, setBudgetExceeded cfg pathOutcomeReasonWitnessBudget (pe_path edge) (pe_witness edge) st2)
           else case reserveWorkUnit cfg (pe_path edge) (pe_witness edge) st2 of (ok, st3) \<Rightarrow>
             if \<not> ok then (False, st3)
             else let sk = storageKey contributionKey witnessID in
               (True, st3\<lparr>
                  pathEdges := (pathEdges st3)(sk \<mapsto> edge),
                  pathEdgeWitnesses := (pathEdgeWitnesses st3)
                    (contributionKey := AList.update witnessID sk (pathEdgeWitnesses st3 contributionKey)),
                  queue := queue st3 @ [sk],
                  stats := (stats st3)\<lparr>PathEdges := PathEdges (stats st3) + 1\<rparr>\<rparr>)))"

section \<open>Summaries and dependencies\<close>

definition mergeTabulationPaths :: "int list \<Rightarrow> int list \<Rightarrow> int \<Rightarrow> int list" where
  "mergeTabulationPaths pre local returnBlock =
     appendWitnessBlock
       (foldl (\<lambda>out block. if out = [] \<or> last out \<noteq> block then out @ [block] else out) pre local) returnBlock"

definition returnEdgeOf :: "interprocCallDependency \<Rightarrow> interprocEdge" where
  "returnEdgeOf d = \<lparr>From = calleeExit d, To = returnNode d, EdgeKind = interprocEdgeReturn,
     CallSite = dep_callSite d, Reason = '''', PredicateProvenance = []\<rparr>"

definition appliedEdge :: "interprocCallDependency \<Rightarrow> interprocProcedureSummary \<Rightarrow> interprocPathEdge" where
  "appliedEdge d s =
     \<lparr>pe_entry = callerEntry d, pe_node = returnNode d, pe_state = sum_state s,
      pe_edgeFunction = effect_thenSummary (callerEffect d) (sum_edgeFunction s),
      pe_path = mergeTabulationPaths (callerPath d) (sum_path s) (BlockIndex (returnNode d)),
      pe_witness = appendInterprocWitnessEdge
        (mergeInterprocWitnessEdges (callerWitness d) (sum_witness s))
        (returnEdgeOf d) (exitStateBefore s) (sum_state s) (exitTransferTag s)\<rparr>"

definition applySummary ::
  "('n, 'e) tabConfig \<Rightarrow> interprocCallDependency \<Rightarrow> interprocProcedureSummary \<Rightarrow> ('n, 'e) tabState \<Rightarrow>
   bool \<times> ('n, 'e) tabState" where
  "applySummary cfg d s st =
     (case checkpoint cfg (callerPath d) (callerWitness d) st of (ok, st0) \<Rightarrow>
      if \<not> ok then (False, st0)
      else if node_Key (calleeExit d) \<noteq> node_Key (sum_exit s) then (True, st0)
      else case enqueue cfg (appliedEdge d s) st0 of (ok, st1) \<Rightarrow>
        if \<not> ok then (False, st1)
        else (True, st1\<lparr>stats := (stats st1)\<lparr>SummaryReuses := SummaryReuses (stats st1) + 1\<rparr>\<rparr>))"

definition registerDependency ::
  "('n, 'e) tabConfig \<Rightarrow> interprocCallDependency \<Rightarrow> ('n, 'e) tabState \<Rightarrow> bool \<times> ('n, 'e) tabState" where
  "registerDependency cfg d st =
     (case checkpoint cfg (callerPath d) (callerWitness d) st of (ok, st0) \<Rightarrow>
      if \<not> ok then (False, st0)
      else let key = dependency_key d; entryKey = entryFact_key (calleeEntry d) in
        if dependencies st0 key \<noteq> None then (True, st0)
        else case reserveWorkUnit cfg (callerPath d) (callerWitness d) st0 of (ok, st1) \<Rightarrow>
          if \<not> ok then (False, st1)
          else for_each (\<lambda>st summaryKey.
                 case checkpoint cfg (callerPath d) (callerWitness d) st of (ok, st') \<Rightarrow>
                   if \<not> ok then (False, st')
                   else applySummary cfg d (the (summaries st' summaryKey)) st')
               (st1\<lparr>
                  dependencies := (dependencies st1)(key \<mapsto> d),
                  dependenciesByEntry := (dependenciesByEntry st1)
                    (entryKey := sort (dependenciesByEntry st1 entryKey @ [key])),
                  stats := (stats st1)\<lparr>Dependencies := Dependencies (stats st1) + 1\<rparr>\<rparr>)
               (summariesByEntry st1 entryKey))"

definition publishSummary ::
  "('n, 'e) tabConfig \<Rightarrow> interprocProcedureSummary \<Rightarrow> ('n, 'e) tabState \<Rightarrow> bool \<times> ('n, 'e) tabState" where
  "publishSummary cfg s0 st =
     (case checkpoint cfg (sum_path s0) (sum_witness s0) st of (ok, st0) \<Rightarrow>
      if \<not> ok then (False, st0)
      else let s = injectProtocolSummaryEvidence cfg s0;
               key = summary_key s; entryKey = entryFact_key (sum_entry s) in
        if summaries st0 key \<noteq> None then (True, st0)
        else case reserveWorkUnit cfg (sum_path s) (sum_witness s) st0 of (ok, st1) \<Rightarrow>
          if \<not> ok then (False, st1)
          else for_each (\<lambda>st dependencyKey.
                 case checkpoint cfg (sum_path s) (sum_witness s) st of (ok, st') \<Rightarrow>
                   if \<not> ok then (False, st')
                   else applySummary cfg (the (dependencies st' dependencyKey)) s st')
               (st1\<lparr>
                  summaries := (summaries st1)(key \<mapsto> s),
                  summariesByEntry := (summariesByEntry st1)
                    (entryKey := sort (summariesByEntry st1 entryKey @ [key])),
                  stats := (stats st1)\<lparr>Summaries := Summaries (stats st1) + 1\<rparr>\<rparr>)
               (dependenciesByEntry st1 entryKey))"

section \<open>One path edge\<close>

definition obligationSinkReached :: "('n, 'e) tabConfig \<Rightarrow> interprocNodeID \<Rightarrow> 'n option \<Rightarrow> bool" where
  "obligationSinkReached cfg nid node = (case obligationSink cfg of None \<Rightarrow> False | Some f \<Rightarrow> f nid node)"

definition terminalCanObserveObligation :: "('n, 'e) tabConfig \<Rightarrow> interprocNodeID \<Rightarrow> 'n option \<Rightarrow> bool" where
  "terminalCanObserveObligation cfg nid node =
     list_ex (terminalUnsafe cfg nid node)
       [ideStateNeedsValidate, ideStateValidationFailed, ideStateEscapedBeforeValidate, ideStateConsumedBeforeValidate]"

definition candidateResult :: "nat \<Rightarrow> pathOutcomeReason \<Rightarrow> interprocPathEdge \<Rightarrow> ('n, 'e) interprocPathResult" where
  "candidateResult outcome reason snapshot =
     (interprocPathResultFromOutcome outcome reason (pe_path snapshot))
       \<lparr>WitnessEdges := pe_witness snapshot, WitnessTerminal := pe_node snapshot\<rparr>"

definition recordUnsafe :: "interprocPathEdge \<Rightarrow> ('n, 'e) tabState \<Rightarrow> ('n, 'e) tabState" where
  "recordUnsafe snapshot st = st\<lparr>unsafeResult := preferInterprocResult (unsafeResult st)
     (candidateResult pathOutcomeUnsafe pathOutcomeReasonNone snapshot)\<rparr>"

definition recordInconclusive :: "pathOutcomeReason \<Rightarrow> interprocPathEdge \<Rightarrow> ('n, 'e) tabState \<Rightarrow> ('n, 'e) tabState" where
  "recordInconclusive reason snapshot st = st\<lparr>inconclusiveResult := preferInterprocResult (inconclusiveResult st)
     (candidateResult pathOutcomeInconclusive reason snapshot)\<rparr>"

definition isDischarged :: "('n, 'e) tabConfig \<Rightarrow> interprocPathEdge \<Rightarrow> string \<Rightarrow> bool" where
  "isDischarged cfg snapshot trigger =
     witnessIsDischarged (witnessHash cfg) (pe_path snapshot) (pe_witness snapshot) (pe_node snapshot)
       trigger (dischargedWitnesses cfg)"

text \<open>The values computed from a node and the fact in front of it.\<close>

definition nodeTag :: "('n, 'e) tabConfig \<Rightarrow> interprocNodeID \<Rightarrow> protocolAbstractState \<Rightarrow> ideEdgeFuncTag" where
  "nodeTag cfg nid s = fst (transfer cfg nid (astNode (graph cfg) nid) s)"

definition transferReason :: "('n, 'e) tabConfig \<Rightarrow> interprocNodeID \<Rightarrow> protocolAbstractState \<Rightarrow> pathOutcomeReason" where
  "transferReason cfg nid s =
     injectProtocolReasonEvidence cfg (snd (transfer cfg nid (astNode (graph cfg) nid) s))"

definition nodeState :: "('n, 'e) tabConfig \<Rightarrow> interprocNodeID \<Rightarrow> protocolAbstractState \<Rightarrow> protocolAbstractState" where
  "nodeState cfg nid s = withUncertainty (ide_Apply (newIDEEdgeFunc (nodeTag cfg nid s)) s) (transferReason cfg nid s)"

definition blockedByReason :: "('n, 'e) tabConfig \<Rightarrow> interprocNodeID \<Rightarrow> protocolAbstractState \<Rightarrow> bool" where
  "blockedByReason cfg nid s \<longleftrightarrow>
     transferReason cfg nid s \<noteq> pathOutcomeReasonNone \<and> protocolEffectsForUncertainty (transferReason cfg nid s) = 0"

definition queryIdentity ::
  "('n, 'e) tabConfig \<Rightarrow> bool \<Rightarrow> protocolAbstractState \<Rightarrow> protocolIdentityRelevance" where
  "queryIdentity cfg sinkReached ns =
     (let reason = state_pathOutcomeReason ns;
          q = (if UnresolvedIdentityAtSink (sinkPolicy cfg) \<and> sinkReached
               then protocolIdentityAtUnresolvedSink reason (Identity ns) else Identity ns)
      in if MustAliasUncertaintyAtSink (sinkPolicy cfg) \<and> sinkReached \<and>
            reason \<noteq> pathOutcomeReasonNone \<and> q = protocolIdentityMustAlias
         then protocolIdentityMayAlias else q)"

definition unsafeAtNode :: "('n, 'e) tabConfig \<Rightarrow> interprocNodeID \<Rightarrow> protocolAbstractState \<Rightarrow> bool" where
  "unsafeAtNode cfg nid ns = terminalUnsafe cfg nid (astNode (graph cfg) nid) ns"

definition unsafeUnaliased :: "('n, 'e) tabConfig \<Rightarrow> interprocNodeID \<Rightarrow> protocolAbstractState \<Rightarrow> bool" where
  "unsafeUnaliased cfg nid ns \<longleftrightarrow>
     \<not> validationProven ns \<and> Identity ns < protocolIdentityMayAlias \<and> unsafeAtNode cfg nid ns"

definition relevantUncertainty ::
  "('n, 'e) tabConfig \<Rightarrow> interprocNodeID \<Rightarrow> protocolAbstractState \<Rightarrow> bool \<Rightarrow> bool" where
  "relevantUncertainty cfg nid ns noReturnEdges \<longleftrightarrow>
     (let node = astNode (graph cfg) nid;
          sinkReached = obligationSinkReached cfg nid node;
          forward = (state_pathOutcomeReason ns \<noteq> pathOutcomeReasonNone)
      in forward \<and> query_relevant
           \<lparr>ForwardReachable = forward,
            SinkReachable = (sinkReached \<or>
              TerminalCanObserve (sinkPolicy cfg) \<and> noReturnEdges \<and> terminalCanObserveObligation cfg nid node),
            QueryIdentity = queryIdentity cfg sinkReached ns,
            QueryEffects = PossibleEffects ns\<rparr> ns)"

section \<open>Edges out of a node\<close>

text \<open>Tag, reason and state of an edge that is followed.\<close>

definition edgeTagReason :: "('n, 'e) tabConfig \<Rightarrow> interprocEdge \<Rightarrow> protocolAbstractState \<Rightarrow> ideEdgeFuncTag \<times> pathOutcomeReason" where
  "edgeTagReason cfg edge ns =
     (case edgeTransfer cfg of None \<Rightarrow> (ideEdgeFuncIdentity, pathOutcomeReasonNone) | Some f \<Rightarrow> f edge ns)"

definition edgeState :: "('n, 'e) tabConfig \<Rightarrow> interprocEdge \<Rightarrow> protocolAbstractState \<Rightarrow> protocolAbstractState" where
  "edgeState cfg edge ns =
     (case edgeTagReason cfg edge ns of (t, r) \<Rightarrow>
        withUncertainty (ide_Apply (newIDEEdgeFunc t) ns) (injectProtocolReasonEvidence cfg r))"

definition edgeEffect ::
  "('n, 'e) tabConfig \<Rightarrow> interprocEdge \<Rightarrow> protocolAbstractState \<Rightarrow> interprocConditionalEdgeFunc \<Rightarrow> interprocConditionalEdgeFunc" where
  "edgeEffect cfg edge ns nodeEffect = effect_then nodeEffect (fst (edgeTagReason cfg edge ns))"

definition pruned :: "('n, 'e) tabConfig \<Rightarrow> interprocEdge \<Rightarrow> protocolAbstractState \<Rightarrow> bool" where
  "pruned cfg edge ns = (case PruneEdge cfg of None \<Rightarrow> False | Some f \<Rightarrow> f edge ns)"

text \<open>
  A call-to-return edge with a reason adds its uncertainty when the call may touch the
  tracked value; a call node without syntax of its own stands for the CFG node at its place.
\<close>

definition unresolvedHere :: "('n, 'e) tabConfig \<Rightarrow> interprocNodeID \<Rightarrow> interprocEdge \<Rightarrow> protocolAbstractState \<Rightarrow> bool" where
  "unresolvedHere cfg nid edge ns \<longleftrightarrow>
     EdgeKind edge = interprocEdgeCallToReturn \<and> Reason edge \<noteq> pathOutcomeReasonNone \<and>
     (let node = astNode (graph cfg) nid;
          originNode = (if node = None
            then astNode (graph cfg) \<lparr>FuncKey = FuncKey (From edge), BlockIndex = BlockIndex (From edge),
              NodeIndex = NodeIndex (From edge), CallOrdinal = 0, NodeKind = interprocNodeKindCFG\<rparr>
            else node)
      in case unresolvedCallRelevant cfg of None \<Rightarrow> True | Some f \<Rightarrow> f nid originNode ns)"

definition nextState :: "('n, 'e) tabConfig \<Rightarrow> interprocNodeID \<Rightarrow> interprocEdge \<Rightarrow> protocolAbstractState \<Rightarrow> protocolAbstractState" where
  "nextState cfg nid edge ns =
     (if unresolvedHere cfg nid edge ns
      then withUncertainty (edgeState cfg edge ns) (injectProtocolReasonEvidence cfg (Reason edge))
      else edgeState cfg edge ns)"

definition setLastStateAfter :: "interprocWitnessEdge list \<Rightarrow> protocolAbstractState \<Rightarrow> interprocWitnessEdge list" where
  "setLastStateAfter ws s = (if ws = [] then ws else butlast ws @ [(last ws)\<lparr>StateAfter := s\<rparr>])"

definition callDependency ::
  "interprocPathEdge \<Rightarrow> interprocEdge \<Rightarrow> protocolAbstractState \<Rightarrow> interprocConditionalEdgeFunc \<Rightarrow> int list \<Rightarrow>
   interprocWitnessEdge list \<Rightarrow> interprocEdge \<Rightarrow> interprocCallDependency" where
  "callDependency snapshot edge es ef path witness ret =
     \<lparr>calleeEntry = \<lparr>fact_node = To edge, fact_state = es\<rparr>, calleeExit = From ret,
      callerEntry = pe_entry snapshot, dep_callSite = CallSite edge, returnNode = To ret,
      callerEffect = ef, callerPath = path, callerWitness = witness\<rparr>"

text \<open>
  The body of the loop over the outgoing edges.  Its flag is false where the Go code leaves
  that loop with \<open>break\<close>.
\<close>

definition followEdge ::
  "('n, 'e) tabConfig \<Rightarrow> interprocPathEdge \<Rightarrow> protocolAbstractState \<Rightarrow> interprocConditionalEdgeFunc \<Rightarrow>
   ('n, 'e) tabState \<Rightarrow> interprocEdge \<Rightarrow> bool \<times> ('n, 'e) tabState" where
  "followEdge cfg snapshot ns nodeEffect st edge =
     (case checkpoint cfg (pe_path snapshot) (pe_witness snapshot) st of (ok, st0) \<Rightarrow>
      if \<not> ok then (False, st0)
      else if EdgeKind edge = interprocEdgeReturn then (True, st0)
      else if pruned cfg edge ns then (True, st0)
      else
        let es = edgeState cfg edge ns;
            ef = edgeEffect cfg edge ns nodeEffect;
            nextPath = appendWitnessBlock (pe_path snapshot) (BlockIndex (To edge));
            nextWitness = appendInterprocWitnessEdge (pe_witness snapshot) edge (pe_state snapshot) es
              (interprocTransitionTag (pe_state snapshot) es)
        in if EdgeKind edge = interprocEdgeCall then
          (case returnEdgesForCallWithControl (graph cfg) (CallSite edge) (FuncKey (To edge)) (control cfg) (clock st0) of
             (matchingReturns, expired, t) \<Rightarrow>
             let st1 = st0\<lparr>clock := t\<rparr> in
             if expired then (False, setBudgetExceeded cfg pathOutcomeReasonTimeout nextPath nextWitness st1)
             else case for_each (\<lambda>st ret.
                      case checkpoint cfg nextPath nextWitness st of (ok, st') \<Rightarrow>
                        if \<not> ok then (False, st')
                        else registerDependency cfg (callDependency snapshot edge es ef nextPath nextWitness ret) st')
                    st1 matchingReturns of
               (_, st2) \<Rightarrow>
               if budgetResult st2 \<noteq> None then (False, st2)
               else case enqueue cfg \<lparr>pe_entry = \<lparr>fact_node = To edge, fact_state = es\<rparr>, pe_node = To edge,
                        pe_state = es, pe_edgeFunction = identityInterprocConditionalEdgeFunc,
                        pe_path = [BlockIndex (To edge)], pe_witness = []\<rparr> st2 of
                 (_, st3) \<Rightarrow> (True, st3))
        else
          let next = nextState cfg (pe_node snapshot) edge ns;
              witness = (if unresolvedHere cfg (pe_node snapshot) edge ns
                then setLastStateAfter nextWitness next else nextWitness)
          in enqueue cfg \<lparr>pe_entry = pe_entry snapshot, pe_node = To edge, pe_state = next,
               pe_edgeFunction = ef, pe_path = nextPath, pe_witness = witness\<rparr> st0)"

definition exitSummary ::
  "interprocPathEdge \<Rightarrow> protocolAbstractState \<Rightarrow> interprocConditionalEdgeFunc \<Rightarrow> ideEdgeFuncTag \<Rightarrow> interprocProcedureSummary" where
  "exitSummary snapshot ns nodeEffect t =
     \<lparr>sum_entry = pe_entry snapshot, sum_exit = pe_node snapshot, sum_state = ns, sum_edgeFunction = nodeEffect,
      sum_path = pe_path snapshot, sum_witness = pe_witness snapshot,
      exitStateBefore = pe_state snapshot, exitTransferTag = t\<rparr>"

text \<open>The summary is published, or the outgoing edges are followed.\<close>

definition leaveNode ::
  "('n, 'e) tabConfig \<Rightarrow> interprocPathEdge \<Rightarrow> interprocEdge list \<Rightarrow> ('n, 'e) tabState \<Rightarrow> bool \<times> ('n, 'e) tabState" where
  "leaveNode cfg snapshot returnEdges st =
     (let nid = pe_node snapshot;
          t = nodeTag cfg nid (pe_state snapshot);
          ns = nodeState cfg nid (pe_state snapshot);
          nodeEffect = effect_then (pe_edgeFunction snapshot) t
      in if returnEdges \<noteq> [] then publishSummary cfg (exitSummary snapshot ns nodeEffect t) st
         else case outgoingWithControl (graph cfg) nid (control cfg) (clock st) of (out, expired, tm) \<Rightarrow>
           let st1 = st\<lparr>clock := tm\<rparr> in
           if expired then (False, setBudgetExceeded cfg pathOutcomeReasonTimeout (pe_path snapshot) (pe_witness snapshot) st1)
           else (True, snd (for_each (followEdge cfg snapshot ns nodeEffect) st1 out)))"

text \<open>The body of the main loop after the path edge has been looked up; false means \<open>break\<close>.\<close>

definition processPathEdge ::
  "('n, 'e) tabConfig \<Rightarrow> interprocPathEdge \<Rightarrow> ('n, 'e) tabState \<Rightarrow> bool \<times> ('n, 'e) tabState" where
  "processPathEdge cfg snapshot st =
     (let nid = pe_node snapshot;
          s = pe_state snapshot;
          ns = nodeState cfg nid s
      in if blockedByReason cfg nid s then
           (if isDischarged cfg snapshot (transferReason cfg nid s) then (True, st)
            else (True, recordInconclusive (transferReason cfg nid s) snapshot st))
         else
           let st0 = (if ObserveExit cfg \<and> FuncKey nid = FuncKey (start cfg) \<and> isFunctionExitNode (graph cfg) nid
                      then st\<lparr>observed := observed st @ [(nid, ns)]\<rparr> else st)
           in case returnEdgesFromWithControl (graph cfg) nid (control cfg) (clock st0) of (returnEdges, expired, t) \<Rightarrow>
             let st1 = st0\<lparr>clock := t\<rparr> in
             if expired then (False, setBudgetExceeded cfg pathOutcomeReasonTimeout (pe_path snapshot) (pe_witness snapshot) st1)
             else if unsafeUnaliased cfg nid ns then
               (if isDischarged cfg snapshot cfgRefinementTriggerUnsafeCandidate then (True, st1)
                else (True, recordUnsafe snapshot st1))
             else if relevantUncertainty cfg nid ns (returnEdges = []) then
               (if isDischarged cfg snapshot (state_pathOutcomeReason ns) then (True, st1)
                else leaveNode cfg snapshot returnEdges (recordInconclusive (state_pathOutcomeReason ns) snapshot st1))
             else if unsafeAtNode cfg nid ns then
               (if isDischarged cfg snapshot cfgRefinementTriggerUnsafeCandidate then (True, st1)
                else (True, recordUnsafe snapshot st1))
             else leaveNode cfg snapshot returnEdges st1)"

definition loopBody :: "('n, 'e) tabConfig \<Rightarrow> ('n, 'e) tabState \<Rightarrow> bool \<times> ('n, 'e) tabState" where
  "loopBody cfg st =
     (case checkpoint cfg [] [] st of (ok, st0) \<Rightarrow>
      if \<not> ok then (False, st0)
      else case takeProtocolWorklist cfg (queue st0) of (key, remaining) \<Rightarrow>
        let st1 = st0\<lparr>queue := remaining\<rparr> in
        case pathEdges st1 key of None \<Rightarrow> (True, st1) | Some snapshot \<Rightarrow> processPathEdge cfg snapshot st1)"

section \<open>The main loop\<close>

subsection \<open>Frame of the control operations\<close>

definition only_control :: "('n, 'e) tabState \<Rightarrow> ('n, 'e) tabState \<Rightarrow> bool" where
  "only_control st st' \<longleftrightarrow> st' = st\<lparr>clock := clock st', budgetResult := budgetResult st'\<rparr> \<and>
     (budgetResult st \<noteq> None \<longrightarrow> budgetResult st' = budgetResult st) \<and>
     (\<forall>r. budgetResult st' = Some r \<longrightarrow> budgetResult st = Some r \<or> Class r = interprocOutcomeInconclusive)"

lemma only_controlD:
  assumes "only_control st st'"
  shows "pathEdges st' = pathEdges st" "pathEdgeWitnesses st' = pathEdgeWitnesses st" "queue st' = queue st"
    "dependencies st' = dependencies st" "dependenciesByEntry st' = dependenciesByEntry st"
    "summaries st' = summaries st" "summariesByEntry st' = summariesByEntry st"
    "workUnits st' = workUnits st" "unsafeResult st' = unsafeResult st"
    "inconclusiveResult st' = inconclusiveResult st" "stats st' = stats st" "observed st' = observed st"
  using assms by (cases st; cases st'; simp add: only_control_def)+

lemma only_control_outcome:
  "only_control st st' \<Longrightarrow> budgetResult st \<noteq> None \<Longrightarrow> budgetResult st' = budgetResult st"
  "only_control st st' \<Longrightarrow> budgetResult st' = Some r \<Longrightarrow> budgetResult st = Some r \<or> Class r = interprocOutcomeInconclusive"
  unfolding only_control_def by blast+

lemma only_control_refl [simp]: "only_control st st"
  by (simp add: only_control_def)

lemma only_control_clock [simp]: "only_control st (st\<lparr>clock := t\<rparr>)"
  by (simp add: only_control_def)

lemma only_control_trans: "only_control a b \<Longrightarrow> only_control b c \<Longrightarrow> only_control a c"
  by (cases a; cases b; cases c) (simp add: only_control_def, metis)

lemma outcome_classes [simp]:
  "Class (interprocPathResultFromOutcome pathOutcomeInconclusive r p) = interprocOutcomeInconclusive"
  "Class (interprocPathResultFromOutcome pathOutcomeUnsafe r p) = interprocOutcomeUnsafe"
  "Class (interprocPathResultFromOutcome pathOutcomeSafe r p) = interprocOutcomeSafe"
  by (simp_all add: interprocPathResultFromOutcome_def interprocOutcomeClassFromPathOutcome_def Let_def
      pathOutcomeSafe_def pathOutcomeUnsafe_def pathOutcomeInconclusive_def)

lemma setBudgetExceeded_control:
  "only_control st (setBudgetExceeded cfg r p w st)" "budgetResult (setBudgetExceeded cfg r p w st) \<noteq> None"
  "budgetResult st \<noteq> None \<Longrightarrow> budgetResult (setBudgetExceeded cfg r p w st) = budgetResult st"
  by (cases st; simp add: setBudgetExceeded_def only_control_def)+

lemma setBudgetExceeded_Some [simp]: "budgetResult (setBudgetExceeded cfg r p w st) = None \<longleftrightarrow> False"
  using setBudgetExceeded_control(2) by blast

lemma setBudgetExceeded_ex [simp]: "\<exists>r0. budgetResult (setBudgetExceeded cfg r p w st) = Some r0"
  using setBudgetExceeded_control(2) by blast

lemma setBudgetExceeded_keeps [simp]:
  "budgetResult st = Some r0 \<Longrightarrow> budgetResult (setBudgetExceeded cfg r p w st) = Some r0"
  by (simp add: setBudgetExceeded_def)

lemmas setBudgetExceeded_fields [simp] = only_controlD [OF setBudgetExceeded_control(1)]

lemma checkpointD:
  assumes "checkpoint cfg p w st = (ok, st')"
  shows "only_control st st'" "ok \<Longrightarrow> budgetResult st' = budgetResult st" "\<not> ok \<Longrightarrow> budgetResult st' \<noteq> None"
    "budgetResult st \<noteq> None \<Longrightarrow> budgetResult st' = budgetResult st"
  using assms
  by (auto simp: checkpoint_def setBudgetExceeded_control split: prod.splits if_splits
      intro: only_control_trans [OF only_control_clock setBudgetExceeded_control(1)])

lemmas checkpoint_fields = only_controlD [OF checkpointD(1)]

subsection \<open>The weight that the work budget bounds\<close>

definition weight :: "('n, 'e) tabConfig \<Rightarrow> ('n, 'e) tabState \<Rightarrow> nat" where
  "weight cfg st = nat (effectiveMaxStates cfg - workUnits st) + length (queue st)"

lemma weight_control [simp]: "only_control st st' \<Longrightarrow> weight cfg st' = weight cfg st"
  by (simp add: weight_def only_controlD)

lemma weight_fields [simp]:
  "weight cfg (st\<lparr>stats := x\<rparr>) = weight cfg st" "weight cfg (st\<lparr>clock := t\<rparr>) = weight cfg st"
  "weight cfg (setBudgetExceeded cfg r p w st) = weight cfg st"
  "weight cfg (st\<lparr>unsafeResult := u\<rparr>) = weight cfg st" "weight cfg (st\<lparr>inconclusiveResult := u\<rparr>) = weight cfg st"
  "weight cfg (st\<lparr>observed := ob\<rparr>) = weight cfg st"
  by (simp_all add: weight_def)

lemma weight_store [simp]:
  "weight cfg (st\<lparr>pathEdges := a, pathEdgeWitnesses := b, queue := queue st @ [k]\<rparr>) = Suc (weight cfg st)"
  by (simp add: weight_def)

lemma reserveWorkUnitD:
  assumes "reserveWorkUnit cfg p w st = (ok, st')"
  shows "\<exists>n. only_control (st\<lparr>workUnits := n\<rparr>) st' \<and> workUnits st \<le> n \<and> n \<le> workUnits st + 1 \<and>
      (ok \<longrightarrow> n = workUnits st + 1 \<and> n \<le> effectiveMaxStates cfg)"
    "ok \<Longrightarrow> budgetResult st' = budgetResult st" "\<not> ok \<Longrightarrow> budgetResult st' \<noteq> None"
    "budgetResult st \<noteq> None \<Longrightarrow> budgetResult st' = budgetResult st"
proof -
  obtain ok0 st0 where c: "checkpoint cfg p w st = (ok0, st0)" by force
  note d = checkpointD [OF c]
  let ?n = "if ok0 then workUnits st + 1 else workUnits st"
  have oc: "only_control (st\<lparr>workUnits := ?n\<rparr>) st'"
    using assms d(1) c by (cases st; cases st0)
      (auto simp: reserveWorkUnit_def Let_def only_control_def setBudgetExceeded_def split: if_splits)
  then show "\<exists>n. only_control (st\<lparr>workUnits := n\<rparr>) st' \<and> workUnits st \<le> n \<and> n \<le> workUnits st + 1 \<and>
      (ok \<longrightarrow> n = workUnits st + 1 \<and> n \<le> effectiveMaxStates cfg)"
    using assms checkpoint_fields(8) [OF c]
    by (intro exI [of _ ?n]) (auto simp: c reserveWorkUnit_def Let_def split: if_splits)
  show "ok \<Longrightarrow> budgetResult st' = budgetResult st" "\<not> ok \<Longrightarrow> budgetResult st' \<noteq> None"
    "budgetResult st \<noteq> None \<Longrightarrow> budgetResult st' = budgetResult st"
    using assms d setBudgetExceeded_control
    by (auto simp: c reserveWorkUnit_def Let_def split: if_splits)
qed

lemma reserve_weight: "reserveWorkUnit cfg p w st = (ok, st') \<Longrightarrow> weight cfg st' + (if ok then 1 else 0) \<le> weight cfg st"
  using reserveWorkUnitD(1) [of cfg p w st ok st'] by (auto simp: weight_def only_controlD)

lemma scanAntichain_control: "scanAntichain cfg edge wid xs acc st = (r, st') \<Longrightarrow> only_control st st'"
proof (induction xs arbitrary: acc st)
  case Nil
  then show ?case by simp
next
  case (Cons x xs)
  then show ?case
    by (cases x) (auto simp: Let_def dest!: checkpointD(1) intro: only_control_trans split: prod.splits if_splits)
qed

lemma dropSubsumed_weight: "weight cfg (snd (dropSubsumed cfg edge ck st sk)) = weight cfg st"
  using checkpoint_fields(3,8) [of cfg "pe_path edge" "pe_witness edge" st]
  by (auto simp: dropSubsumed_def Let_def weight_def split: prod.splits)

lemma dropAll_weight: "weight cfg (snd (for_each (dropSubsumed cfg edge ck) st ks)) = weight cfg st"
  by (rule for_each_invariant) (simp_all add: dropSubsumed_weight)

lemma enqueue_weight: "weight cfg (snd (enqueue cfg edge st)) \<le> weight cfg st"
proof -
  obtain ok0 st0 where c: "checkpoint cfg (pe_path edge) (pe_witness edge) st = (ok0, st0)" by force
  obtain r st1 where s: "scanAntichain cfg edge (interprocWitnessIdentity (pe_witness edge))
      (pathEdgeWitnesses st0 (pathEdge_key edge)) [] st0 = (r, st1)" by force
  obtain ok2 st2 where f: "for_each (dropSubsumed cfg edge (pathEdge_key edge)) st1
      (case r of ScanDrop ks \<Rightarrow> ks | _ \<Rightarrow> []) = (ok2, st2)" by force
  obtain ok3 st3 where w: "reserveWorkUnit cfg (pe_path edge) (pe_witness edge) st2 = (ok3, st3)" by force
  have "weight cfg st0 = weight cfg st" "weight cfg st1 = weight cfg st0" "weight cfg st2 = weight cfg st1"
    using checkpointD(1) [OF c] scanAntichain_control [OF s] dropAll_weight [of cfg edge "pathEdge_key edge" st1] f
    by (simp_all add: weight_control) (metis snd_conv)
  then have le: "weight cfg st3 + (if ok3 then 1 else 0) \<le> weight cfg st"
    "weight cfg st0 = weight cfg st" "weight cfg st1 = weight cfg st" "weight cfg st2 = weight cfg st"
    using reserve_weight [OF w] by simp_all
  show ?thesis
  proof (cases r)
    case (ScanDrop ks)
    with f have "for_each (dropSubsumed cfg edge (pathEdge_key edge)) st1 ks = (ok2, st2)" by simp
    with le show ?thesis
      by (cases ok3) (simp_all add: enqueue_def c s w ScanDrop Let_def)
  qed (use le in \<open>simp_all add: enqueue_def c s\<close>)
qed

lemma applySummary_weight: "weight cfg (snd (applySummary cfg d s st)) \<le> weight cfg st"
proof -
  obtain ok st0 where c: "checkpoint cfg (callerPath d) (callerWitness d) st = (ok, st0)" by force
  from checkpointD(1) [OF this] have "weight cfg st0 = weight cfg st" by simp
  with enqueue_weight [of cfg "appliedEdge d s" st0] show ?thesis
    by (auto simp: applySummary_def c split: prod.splits)
qed

lemma polled_weight:
  "(\<And>st. weight cfg (snd (f st)) \<le> weight cfg st) \<Longrightarrow>
   weight cfg (snd (case checkpoint cfg p w st of (ok, st') \<Rightarrow> if \<not> ok then (False, st') else f st')) \<le> weight cfg st"
proof -
  assume f: "\<And>st. weight cfg (snd (f st)) \<le> weight cfg st"
  obtain ok st0 where c: "checkpoint cfg p w st = (ok, st0)" by force
  from checkpointD(1) [OF this] have "weight cfg st0 = weight cfg st" by simp
  with f [of st0] show ?thesis by (simp add: c)
qed

lemma for_each_weight:
  "(\<And>st x. weight cfg (snd (f st x)) \<le> weight cfg st) \<Longrightarrow> weight cfg (snd (for_each f st xs)) \<le> weight cfg st"
  by (rule for_each_invariant [where P = "\<lambda>s. weight cfg s \<le> weight cfg st"]) (blast intro: order_trans)+

lemma registerDependency_weight: "weight cfg (snd (registerDependency cfg d st)) \<le> weight cfg st"
proof -
  obtain ok st0 where c: "checkpoint cfg (callerPath d) (callerWitness d) st = (ok, st0)" by force
  obtain ok1 st1 where r: "reserveWorkUnit cfg (callerPath d) (callerWitness d) st0 = (ok1, st1)" by force
  have w: "weight cfg st0 = weight cfg st" "weight cfg st1 \<le> weight cfg st0"
    using checkpointD(1) [OF c] reserve_weight [OF r] by auto
  let ?body = "\<lambda>st k. case checkpoint cfg (callerPath d) (callerWitness d) st of (ok, st') \<Rightarrow>
    if \<not> ok then (False, st') else applySummary cfg d (the (summaries st' k)) st'"
  have loop: "weight cfg (snd (for_each ?body s ks)) \<le> weight cfg s" for s ks
    by (rule for_each_weight) (rule polled_weight, rule applySummary_weight)
  let ?s = "st1\<lparr>dependencies := (dependencies st1)(dependency_key d \<mapsto> d),
    dependenciesByEntry := (dependenciesByEntry st1) (entryFact_key (calleeEntry d) :=
      sort (dependenciesByEntry st1 (entryFact_key (calleeEntry d)) @ [dependency_key d])),
    stats := (stats st1)\<lparr>Dependencies := Dependencies (stats st1) + 1\<rparr>\<rparr>"
  have "weight cfg ?s = weight cfg st1" by (simp add: weight_def)
  with w loop [of ?s "summariesByEntry st1 (entryFact_key (calleeEntry d))"]
  have "weight cfg (snd (for_each ?body ?s (summariesByEntry st1 (entryFact_key (calleeEntry d))))) \<le> weight cfg st"
    by linarith
  with w show ?thesis
    by (simp add: registerDependency_def c r Let_def)
qed

lemma publishSummary_weight: "weight cfg (snd (publishSummary cfg s0 st)) \<le> weight cfg st"
proof -
  define s where "s = injectProtocolSummaryEvidence cfg s0"
  obtain ok st0 where c: "checkpoint cfg (sum_path s0) (sum_witness s0) st = (ok, st0)" by force
  obtain ok1 st1 where r: "reserveWorkUnit cfg (sum_path s) (sum_witness s) st0 = (ok1, st1)" by force
  have w: "weight cfg st0 = weight cfg st" "weight cfg st1 \<le> weight cfg st0"
    using checkpointD(1) [OF c] reserve_weight [OF r] by auto
  let ?body = "\<lambda>st k. case checkpoint cfg (sum_path s) (sum_witness s) st of (ok, st') \<Rightarrow>
    if \<not> ok then (False, st') else applySummary cfg (the (dependencies st' k)) s st'"
  have loop: "weight cfg (snd (for_each ?body t ks)) \<le> weight cfg t" for t ks
    by (rule for_each_weight) (rule polled_weight, rule applySummary_weight)
  let ?s = "st1\<lparr>summaries := (summaries st1)(summary_key s \<mapsto> s),
    summariesByEntry := (summariesByEntry st1) (entryFact_key (sum_entry s) :=
      sort (summariesByEntry st1 (entryFact_key (sum_entry s)) @ [summary_key s])),
    stats := (stats st1)\<lparr>Summaries := Summaries (stats st1) + 1\<rparr>\<rparr>"
  have "weight cfg ?s = weight cfg st1" by (simp add: weight_def)
  with w loop [of ?s "dependenciesByEntry st1 (entryFact_key (sum_entry s))"]
  have "weight cfg (snd (for_each ?body ?s (dependenciesByEntry st1 (entryFact_key (sum_entry s))))) \<le> weight cfg st"
    by linarith
  with w show ?thesis
    by (simp add: publishSummary_def c r Let_def s_def [symmetric])
qed

lemma followEdge_weight: "weight cfg (snd (followEdge cfg snap ns f st edge)) \<le> weight cfg st"
proof -
  obtain ok st0 where c: "checkpoint cfg (pe_path snap) (pe_witness snap) st = (ok, st0)" by force
  have w0: "weight cfg st0 = weight cfg st" using checkpointD(1) [OF c] by simp
  let ?es = "edgeState cfg edge ns" and ?ef = "edgeEffect cfg edge ns f"
  let ?p = "appendWitnessBlock (pe_path snap) (BlockIndex (To edge))"
  let ?w = "appendInterprocWitnessEdge (pe_witness snap) edge (pe_state snap) ?es
    (interprocTransitionTag (pe_state snap) ?es)"
  obtain rets expired t where q: "returnEdgesForCallWithControl (graph cfg) (CallSite edge) (FuncKey (To edge))
    (control cfg) (clock st0) = (rets, expired, t)" by (metis prod_cases3)
  let ?body = "\<lambda>st ret. case checkpoint cfg ?p ?w st of (ok, st') \<Rightarrow> if \<not> ok then (False, st')
    else registerDependency cfg (callDependency snap edge ?es ?ef ?p ?w ret) st'"
  obtain ok2 st2 where f: "for_each ?body (st0\<lparr>clock := t\<rparr>) rets = (ok2, st2)" by force
  have "weight cfg (snd (for_each ?body (st0\<lparr>clock := t\<rparr>) rets)) \<le> weight cfg (st0\<lparr>clock := t\<rparr>)"
    by (rule for_each_weight) (rule polled_weight, rule registerDependency_weight)
  then have w2: "weight cfg st2 \<le> weight cfg st" by (simp add: f w0)
  have w3: "weight cfg (snd (enqueue cfg e st2)) \<le> weight cfg st" for e
    using enqueue_weight [of cfg e st2] w2 by linarith
  have w3': "enqueue cfg e st2 = (go, st3) \<Longrightarrow> weight cfg st3 \<le> weight cfg st" for e go st3
    using w3 [of e] by simp
  show ?thesis
    using w0 w2 enqueue_weight [of cfg _ st0]
    by (auto simp: followEdge_def c q f Let_def dest: w3' split: prod.splits)
qed

lemma leaveNode_weight: "weight cfg (snd (leaveNode cfg snap rets st)) \<le> weight cfg st"
proof -
  have "weight cfg (snd (for_each (followEdge cfg snap ns f) st xs)) \<le> weight cfg st" for ns f st xs
    by (rule for_each_weight) (rule followEdge_weight)
  from this [of _ _ "st\<lparr>clock := t\<rparr>" for t] show ?thesis
    by (auto simp: leaveNode_def Let_def publishSummary_weight split: prod.splits)
qed

lemma processPathEdge_weight: "weight cfg (snd (processPathEdge cfg snap st)) \<le> weight cfg st"
proof -
  have l: "weight cfg st1 = weight cfg st \<Longrightarrow> weight cfg (snd (leaveNode cfg snap rets st1)) \<le> weight cfg st" for rets st1
    using leaveNode_weight [of cfg snap rets st1] by simp
  show ?thesis
    by (auto simp: processPathEdge_def Let_def recordUnsafe_def recordInconclusive_def intro!: l split: prod.splits)
qed

lemma take_length: "q \<noteq> [] \<Longrightarrow> takeProtocolWorklist cfg q = (k, r) \<Longrightarrow> length r < length q"
  by (auto simp: takeProtocolWorklist_def split: if_splits)

lemma loopBody_weight:
  assumes "queue st \<noteq> []" and "loopBody cfg st = (True, st')"
  shows "weight cfg st' < weight cfg st"
proof -
  obtain ok st0 where c: "checkpoint cfg [] [] st = (ok, st0)" by force
  obtain k r where t: "takeProtocolWorklist cfg (queue st0) = (k, r)" by force
  have "queue st0 \<noteq> []" using assms(1) checkpoint_fields(3) [OF c] by simp
  then have "weight cfg (st0\<lparr>queue := r\<rparr>) < weight cfg st0"
    using take_length [OF _ t] by (simp add: weight_def)
  also have "weight cfg st0 = weight cfg st" using checkpointD(1) [OF c] by simp
  finally have w: "weight cfg (st0\<lparr>queue := r\<rparr>) < weight cfg st" .
  have "weight cfg st' \<le> weight cfg (st0\<lparr>queue := r\<rparr>)"
    using assms(2) processPathEdge_weight [of cfg _ "st0\<lparr>queue := r\<rparr>"]
    by (auto simp: loopBody_def c t Let_def split: if_splits option.splits) (metis snd_conv)
  with w show ?thesis by simp
qed

text \<open>
  The main loop.  It ends: every iteration takes one key off the queue, and every key put on
  it is paid for by a unit of the work budget.
\<close>

function tabulationLoop :: "('n, 'e) tabConfig \<Rightarrow> ('n, 'e) tabState \<Rightarrow> ('n, 'e) tabState" where
  "tabulationLoop cfg st =
     (if queue st \<noteq> [] \<and> budgetResult st = None
      then (case loopBody cfg st of (go, st') \<Rightarrow> if go then tabulationLoop cfg st' else st')
      else st)"
  by pat_completeness auto
termination
  by (relation "measure (\<lambda>(cfg, st). weight cfg st)") (auto intro!: loopBody_weight)

declare tabulationLoop.simps [simp del]

definition rootPathEdge :: "('n, 'e) tabConfig \<Rightarrow> interprocPathEdge" where
  "rootPathEdge cfg =
     (let initialState = (case InitialState cfg of None \<Rightarrow> ideStateNeedsValidate | Some s \<Rightarrow> s) in
      \<lparr>pe_entry = \<lparr>fact_node = start cfg, fact_state = initialState\<rparr>, pe_node = start cfg, pe_state = initialState,
       pe_edgeFunction = identityInterprocConditionalEdgeFunc, pe_path = [BlockIndex (start cfg)], pe_witness = []\<rparr>)"

definition finishTabulation :: "('n, 'e) tabConfig \<Rightarrow> ('n, 'e) tabState \<Rightarrow> ('n, 'e) interprocPathResult" where
  "finishTabulation cfg st =
     (let attachGraph = (\<lambda>r. if WitnessEdges r \<noteq> [] then r\<lparr>witnessGraph := Some (graph cfg)\<rparr> else r);
          st1 = (if budgetResult st = None then snd (checkpoint cfg [] [] st) else st)
      in case budgetResult st1 of Some r \<Rightarrow> attachGraph r
       | None \<Rightarrow> (case unsafeResult st1 of Some r \<Rightarrow> attachGraph r
           | None \<Rightarrow> (case inconclusiveResult st1 of Some r \<Rightarrow> attachGraph r
               | None \<Rightarrow> interprocPathResultFromOutcome pathOutcomeSafe pathOutcomeReasonNone [])))"

definition finalTabState :: "('n, 'e) tabConfig \<Rightarrow> nat \<Rightarrow> ('n, 'e) tabState" where
  "finalTabState cfg t = tabulationLoop cfg (snd (enqueue cfg (rootPathEdge cfg) (initialTabState t)))"

definition runIFDSPropagationWithStatsOptions ::
  "('n, 'e) tabConfig \<Rightarrow> nat \<Rightarrow> ('n, 'e) interprocPathResult \<times> interprocTabulationStats" where
  "runIFDSPropagationWithStatsOptions cfg t =
     (case feasibilityDeadlineReached (control cfg) t of (expired, t0) \<Rightarrow>
      if expired then (interprocPathResultFromOutcome pathOutcomeInconclusive pathOutcomeReasonTimeout [], noStats)
      else if Nodes (graph cfg) (node_Key (start cfg)) = None
        then (interprocPathResultFromOutcome pathOutcomeInconclusive pathOutcomeReasonUnresolvedTarget [], noStats)
      else let st = finalTabState cfg t0 in (finishTabulation cfg st, stats st))"

definition runIFDSPropagationWithSinkControlled :: "('n, 'e) tabConfig \<Rightarrow> nat \<Rightarrow> ('n, 'e) interprocPathResult" where
  "runIFDSPropagationWithSinkControlled cfg t =
     (case runIFDSPropagationWithStatsOptions cfg t of (result, st) \<Rightarrow> result\<lparr>Tabulation := st\<rparr>)"

end
