(* ===== verification/Tabulation_Bounds.thy ===== *)
theory Tabulation_Bounds
  imports Tabulation
begin

text \<open>
  Invariants of the tabulation solver.  The locale lists the primitive updates the solver's
  operations are made of; a predicate kept by each of them is kept by every operation and by
  the main loop.  It is instantiated with the accounting of the work budget and with the bound
  on the witness antichains (\<open>goplint/cfa_ifds_tabulation.go\<close>).
\<close>

lemma only_control_dependency:
  "only_control (st\<lparr>workUnits := n\<rparr>) st' \<Longrightarrow>
   only_control (st\<lparr>workUnits := n, dependencies := dm, dependenciesByEntry := de,
       stats := (stats st)\<lparr>Dependencies := Dependencies (stats st) + 1\<rparr>\<rparr>)
     (st'\<lparr>dependencies := dm, dependenciesByEntry := de,
       stats := (stats st')\<lparr>Dependencies := Dependencies (stats st') + 1\<rparr>\<rparr>)"
  by (cases st; cases st') (simp add: only_control_def)

lemma only_control_summary:
  "only_control (st\<lparr>workUnits := n\<rparr>) st' \<Longrightarrow>
   only_control (st\<lparr>workUnits := n, summaries := sm, summariesByEntry := se,
       stats := (stats st)\<lparr>Summaries := Summaries (stats st) + 1\<rparr>\<rparr>)
     (st'\<lparr>summaries := sm, summariesByEntry := se,
       stats := (stats st')\<lparr>Summaries := Summaries (stats st') + 1\<rparr>\<rparr>)"
  by (cases st; cases st') (simp add: only_control_def)

locale solver_invariant =
  fixes cfg :: "('n, 'e) tabConfig" and P :: "('n, 'e) tabState \<Rightarrow> bool"
  assumes control: "P st \<Longrightarrow> only_control st st' \<Longrightarrow> P st'"
    and unsafe: "P st \<Longrightarrow> unsafeResult st = Some u \<or> Class u = interprocOutcomeUnsafe \<Longrightarrow> P (st\<lparr>unsafeResult := Some u\<rparr>)"
    and inconclusive: "P st \<Longrightarrow>
      inconclusiveResult st = Some u \<or> Class u = interprocOutcomeInconclusive \<Longrightarrow> P (st\<lparr>inconclusiveResult := Some u\<rparr>)"
    and observe: "P st \<Longrightarrow> P (st\<lparr>observed := ob\<rparr>)"
    and pop: "P st \<Longrightarrow> P (st\<lparr>queue := q\<rparr>)"
    and work: "P st \<Longrightarrow> workUnits st \<le> n \<Longrightarrow> P (st\<lparr>workUnits := n\<rparr>)"
    and drop: "P st \<Longrightarrow> P (st\<lparr>pathEdgeWitnesses := (pathEdgeWitnesses st)
      (ck := filter keep (pathEdgeWitnesses st ck)), pathEdges := m\<rparr>)"
    and store: "P st \<Longrightarrow> workUnits st + 1 \<le> effectiveMaxStates cfg \<Longrightarrow>
      length (pathEdgeWitnesses st ck) < interprocWitnessAntichainLimit \<Longrightarrow>
      P (st\<lparr>workUnits := workUnits st + 1, pathEdges := m,
        pathEdgeWitnesses := (pathEdgeWitnesses st)(ck := AList.update wid sk (pathEdgeWitnesses st ck)),
        queue := q, stats := (stats st)\<lparr>PathEdges := PathEdges (stats st) + 1\<rparr>\<rparr>)"
    and store_dependency: "P st \<Longrightarrow> workUnits st + 1 \<le> effectiveMaxStates cfg \<Longrightarrow>
      P (st\<lparr>workUnits := workUnits st + 1, dependencies := dm, dependenciesByEntry := de,
        stats := (stats st)\<lparr>Dependencies := Dependencies (stats st) + 1\<rparr>\<rparr>)"
    and store_summary: "P st \<Longrightarrow> workUnits st + 1 \<le> effectiveMaxStates cfg \<Longrightarrow>
      P (st\<lparr>workUnits := workUnits st + 1, summaries := sm, summariesByEntry := se,
        stats := (stats st)\<lparr>Summaries := Summaries (stats st) + 1\<rparr>\<rparr>)"
    and reuse: "P st \<Longrightarrow> P (st\<lparr>stats := (stats st)\<lparr>SummaryReuses := reuses\<rparr>\<rparr>)"
begin

lemma clock: "P st \<Longrightarrow> P (st\<lparr>clock := t\<rparr>)"
  by (rule control) auto

lemma exceeded: "P st \<Longrightarrow> P (setBudgetExceeded cfg r p w st)"
  by (rule control) (auto intro: setBudgetExceeded_control)

lemma poll: "P st \<Longrightarrow> checkpoint cfg p w st = (ok, st') \<Longrightarrow> P st'"
  by (blast intro: control dest: checkpointD(1))

lemma polled:
  "P st \<Longrightarrow> (\<And>st. P st \<Longrightarrow> P (snd (f st))) \<Longrightarrow>
   P (snd (case checkpoint cfg p w st of (ok, st') \<Rightarrow> if \<not> ok then (False, st') else f st'))"
  by (auto split: prod.splits dest: poll)

lemma loop: "P st \<Longrightarrow> (\<And>st x. P st \<Longrightarrow> P (snd (f st x))) \<Longrightarrow> P (snd (for_each f st xs))"
  by (rule for_each_invariant) auto

lemma reserve: "P st \<Longrightarrow> reserveWorkUnit cfg p w st = (ok, st') \<Longrightarrow> P st'"
  using reserveWorkUnitD(1) [of cfg p w st ok st'] by (blast intro: control work)

lemma reserved:
  assumes "P st" "reserveWorkUnit cfg p w st = (True, st')"
  shows "workUnits st + 1 \<le> effectiveMaxStates cfg" "only_control (st\<lparr>workUnits := workUnits st + 1\<rparr>) st'"
  using reserveWorkUnitD(1) [OF assms(2)] by auto

lemma enqueue_P: assumes "P st" shows "P (snd (enqueue cfg edge st))"
proof -
  let ?ck = "pathEdge_key edge" and ?wid = "interprocWitnessIdentity (pe_witness edge)"
  obtain ok0 st0 where c: "checkpoint cfg (pe_path edge) (pe_witness edge) st = (ok0, st0)" by force
  obtain r st1 where s: "scanAntichain cfg edge ?wid (pathEdgeWitnesses st0 ?ck) [] st0 = (r, st1)" by force
  have P1: "P st0" "P st1"
    using assms c s by (blast intro: poll control dest: scanAntichain_control)+
  show ?thesis
  proof (cases r)
    case (ScanDrop ks)
    obtain ok2 st2 where f: "for_each (dropSubsumed cfg edge ?ck) st1 ks = (ok2, st2)" by force
    have "P (snd (for_each (dropSubsumed cfg edge ?ck) st1 ks))"
      by (rule loop [OF P1(2)]) (auto simp: dropSubsumed_def Let_def intro!: drop dest: poll split: prod.splits)
    then have P2: "P st2" by (simp add: f)
    obtain ok3 st3 where w: "reserveWorkUnit cfg (pe_path edge) (pe_witness edge) st2 = (ok3, st3)" by force
    have "P (st3\<lparr>pathEdges := (pathEdges st3)(storageKey ?ck ?wid \<mapsto> edge),
        pathEdgeWitnesses := (pathEdgeWitnesses st3)
          (?ck := AList.update ?wid (storageKey ?ck ?wid) (pathEdgeWitnesses st3 ?ck)),
        queue := queue st3 @ [storageKey ?ck ?wid],
        stats := (stats st3)\<lparr>PathEdges := PathEdges (stats st3) + 1\<rparr>\<rparr>)" (is "P ?new")
      if ok3 "length (pathEdgeWitnesses st2 ?ck) < interprocWitnessAntichainLimit"
    proof (rule control)
      have ok: "reserveWorkUnit cfg (pe_path edge) (pe_witness edge) st2 = (True, st3)" using w that by simp
      from reserved [OF P2 ok]
      show "only_control (st2\<lparr>workUnits := workUnits st2 + 1, pathEdges := pathEdges ?new,
          pathEdgeWitnesses := (pathEdgeWitnesses st2)
            (?ck := AList.update ?wid (storageKey ?ck ?wid) (pathEdgeWitnesses st2 ?ck)), queue := queue ?new,
          stats := (stats st2)\<lparr>PathEdges := PathEdges (stats st2) + 1\<rparr>\<rparr>) ?new"
        by (cases st2; cases st3) (simp add: only_control_def)
      from reserved [OF P2 ok] that
      show "P (st2\<lparr>workUnits := workUnits st2 + 1, pathEdges := pathEdges ?new,
          pathEdgeWitnesses := (pathEdgeWitnesses st2)
            (?ck := AList.update ?wid (storageKey ?ck ?wid) (pathEdgeWitnesses st2 ?ck)), queue := queue ?new,
          stats := (stats st2)\<lparr>PathEdges := PathEdges (stats st2) + 1\<rparr>\<rparr>)"
        by (intro store [OF P2]) auto
    qed
    with P1 P2 reserve [OF P2 w] show ?thesis
      by (auto simp: enqueue_def c s f w ScanDrop Let_def intro!: exceeded)
  qed (use P1 in \<open>simp_all add: enqueue_def c s\<close>)
qed

lemma applySummary_P: "P st \<Longrightarrow> P (snd (applySummary cfg d s st))"
proof -
  assume "P st"
  obtain ok st0 where c: "checkpoint cfg (callerPath d) (callerWitness d) st = (ok, st0)" by force
  from \<open>P st\<close> poll [OF _ this] have "P st0" by blast
  obtain ok1 st1 where e: "enqueue cfg (appliedEdge d s) st0 = (ok1, st1)" by force
  with enqueue_P [OF \<open>P st0\<close>, of "appliedEdge d s"] \<open>P st0\<close> show ?thesis
    by (auto simp: applySummary_def c intro!: reuse)
qed

lemma applied_loop:
  "P st \<Longrightarrow> P (snd (for_each (\<lambda>st k. case checkpoint cfg p w st of (ok, st') \<Rightarrow>
     if \<not> ok then (False, st') else applySummary cfg (d st' k) (s st' k) st') st ks))"
  by (erule loop) (erule polled, erule applySummary_P)

lemma registerDependency_P: assumes "P st" shows "P (snd (registerDependency cfg d st))"
proof -
  obtain ok st0 where c: "checkpoint cfg (callerPath d) (callerWitness d) st = (ok, st0)" by force
  obtain ok1 st1 where r: "reserveWorkUnit cfg (callerPath d) (callerWitness d) st0 = (ok1, st1)" by force
  have P0: "P st0" "P st1" using assms c r by (blast intro: poll reserve)+
  consider "\<not> ok \<or> dependencies st0 (dependency_key d) \<noteq> None" | "\<not> ok1"
    | "ok" "ok1" "dependencies st0 (dependency_key d) = None" by blast
  then show ?thesis
  proof cases
    case 3
    with r have r': "reserveWorkUnit cfg (callerPath d) (callerWitness d) st0 = (True, st1)" by simp
    note res = reserved [OF P0(1) r']
    note start = control [OF store_dependency [OF P0(1) res(1)] only_control_dependency [OF res(2)]]
    show ?thesis
      unfolding registerDependency_def c using 3
      by (simp only: prod.case Let_def r' not_True_eq_False if_False HOL.simp_thms)
         (rule applied_loop [OF start])
  qed (use P0 in \<open>auto simp: registerDependency_def c r Let_def\<close>)
qed

lemma publishSummary_P: assumes "P st" shows "P (snd (publishSummary cfg s0 st))"
proof -
  define s where "s = injectProtocolSummaryEvidence cfg s0"
  obtain ok st0 where c: "checkpoint cfg (sum_path s0) (sum_witness s0) st = (ok, st0)" by force
  obtain ok1 st1 where r: "reserveWorkUnit cfg (sum_path s) (sum_witness s) st0 = (ok1, st1)" by force
  have P0: "P st0" "P st1" using assms c r by (blast intro: poll reserve)+
  consider "\<not> ok \<or> summaries st0 (summary_key s) \<noteq> None" | "\<not> ok1"
    | "ok" "ok1" "summaries st0 (summary_key s) = None" by blast
  then show ?thesis
  proof cases
    case 3
    with r have r': "reserveWorkUnit cfg (sum_path s) (sum_witness s) st0 = (True, st1)" by simp
    note res = reserved [OF P0(1) r']
    note start = control [OF store_summary [OF P0(1) res(1)] only_control_summary [OF res(2)]]
    show ?thesis
      unfolding publishSummary_def c s_def [symmetric] using 3
      by (simp only: prod.case Let_def s_def [symmetric] r' not_True_eq_False if_False HOL.simp_thms)
         (rule applied_loop [OF start])
  qed (use P0 in \<open>auto simp: publishSummary_def c r Let_def s_def [symmetric]\<close>)
qed

lemma followEdge_P: assumes "P st" shows "P (snd (followEdge cfg snap ns f st edge))"
proof -
  obtain ok st0 where c: "checkpoint cfg (pe_path snap) (pe_witness snap) st = (ok, st0)" by force
  have P0: "P st0" using assms c by (blast intro: poll)
  let ?es = "edgeState cfg edge ns" and ?ef = "edgeEffect cfg edge ns f"
  let ?p = "appendWitnessBlock (pe_path snap) (BlockIndex (To edge))"
  let ?w = "appendInterprocWitnessEdge (pe_witness snap) edge (pe_state snap) ?es
    (interprocTransitionTag (pe_state snap) ?es)"
  obtain rets expired t where q: "returnEdgesForCallWithControl (graph cfg) (CallSite edge) (FuncKey (To edge))
    (control cfg) (clock st0) = (rets, expired, t)" by (metis prod_cases3)
  let ?body = "\<lambda>st ret. case checkpoint cfg ?p ?w st of (ok, st') \<Rightarrow> if \<not> ok then (False, st')
    else registerDependency cfg (callDependency snap edge ?es ?ef ?p ?w ret) st'"
  obtain ok2 st2 where f: "for_each ?body (st0\<lparr>clock := t\<rparr>) rets = (ok2, st2)" by force
  have "P (snd (for_each ?body (st0\<lparr>clock := t\<rparr>) rets))"
    by (rule loop [OF clock [OF P0]]) (erule polled, erule registerDependency_P)
  then have "P st2" by (simp add: f)
  then have e: "P st3" if "enqueue cfg e st2 = (go, st3)" for e go st3
    using enqueue_P [of st2 e] that by simp
  show ?thesis
    using P0 \<open>P st2\<close> clock [OF P0, of t] enqueue_P [OF P0]
    by (auto simp: followEdge_def c q f Let_def dest: e intro: exceeded split: prod.splits)
qed

lemma leaveNode_P: "P st \<Longrightarrow> P (snd (leaveNode cfg snap rets st))"
  by (auto simp: leaveNode_def Let_def split: prod.splits
      intro!: publishSummary_P exceeded clock loop followEdge_P)

lemma record_P: "P st \<Longrightarrow> P (recordUnsafe snap st)" "P st \<Longrightarrow> P (recordInconclusive r snap st)"
  by (auto simp: recordUnsafe_def recordInconclusive_def preferInterprocResult_def candidateResult_def
      intro!: unsafe inconclusive split: option.splits)

lemma processPathEdge_P: "P st \<Longrightarrow> P (snd (processPathEdge cfg snap st))"
  by (auto simp: processPathEdge_def Let_def split: prod.splits
      intro!: record_P observe exceeded clock leaveNode_P)

lemma loopBody_P: "P st \<Longrightarrow> P (snd (loopBody cfg st))"
  by (auto simp: loopBody_def Let_def split: prod.splits option.splits
      intro!: processPathEdge_P pop dest: poll)

lemma tabulationLoop_P: "P st \<Longrightarrow> P (tabulationLoop cfg st)"
proof (induction "weight cfg st" arbitrary: st rule: less_induct)
  case less
  obtain go st' where b: "loopBody cfg st = (go, st')" by force
  then have "P st'" using loopBody_P [OF less.prems] by simp
  then show ?case
    using less b loopBody_weight [of st cfg st']
    by (subst tabulationLoop.simps) (auto split: if_splits)
qed

lemma finalTabState_P: "P (initialTabState t) \<Longrightarrow> P (finalTabState cfg t)"
  unfolding finalTabState_def by (intro tabulationLoop_P enqueue_P)

end

section \<open>The budget and the antichains\<close>

definition workSpent :: "interprocTabulationStats \<Rightarrow> nat" where
  "workSpent s = PathEdges s + Dependencies s + Summaries s"

definition within_budget :: "('n, 'e) tabConfig \<Rightarrow> ('n, 'e) tabState \<Rightarrow> bool" where
  "within_budget cfg st \<longleftrightarrow>
     int (workSpent (stats st)) \<le> workUnits st \<and> int (workSpent (stats st)) \<le> effectiveMaxStates cfg"

interpretation budget: solver_invariant cfg "within_budget cfg"
  by unfold_locales (auto simp: within_budget_def workSpent_def only_controlD)

definition antichains_bounded :: "('n, 'e) tabState \<Rightarrow> bool" where
  "antichains_bounded st \<longleftrightarrow> (\<forall>ck. length (pathEdgeWitnesses st ck) \<le> interprocWitnessAntichainLimit)"

lemma length_update: "length (AList.update k v xs) \<le> Suc (length xs)"
  by (induction xs) auto

text \<open>A recorded outcome is never withdrawn.\<close>

interpretation budget_kept: solver_invariant cfg "\<lambda>st. budgetResult st \<noteq> None"
  by unfold_locales (auto dest: only_control_outcome(1))

interpretation unsafe_kept: solver_invariant cfg "\<lambda>st. unsafeResult st \<noteq> None"
  by unfold_locales (auto simp: only_controlD)

interpretation inconclusive_kept: solver_invariant cfg "\<lambda>st. inconclusiveResult st \<noteq> None"
  by unfold_locales (auto simp: only_controlD)

text \<open>Each recorded outcome has the class of its kind.\<close>

definition classes_ok :: "('n, 'e) tabState \<Rightarrow> bool" where
  "classes_ok st \<longleftrightarrow>
     (\<forall>r. budgetResult st = Some r \<longrightarrow> Class r = interprocOutcomeInconclusive) \<and>
     (\<forall>r. unsafeResult st = Some r \<longrightarrow> Class r = interprocOutcomeUnsafe) \<and>
     (\<forall>r. inconclusiveResult st = Some r \<longrightarrow> Class r = interprocOutcomeInconclusive)"

interpretation outcome_class: solver_invariant cfg classes_ok
  by unfold_locales (auto simp: classes_ok_def only_controlD dest: only_control_outcome(2))

interpretation antichain: solver_invariant cfg antichains_bounded
proof unfold_locales
  fix st :: "('a, 'b) tabState" and ck keep and m :: "string \<rightharpoonup> interprocPathEdge"
  assume "antichains_bounded st"
  then show "antichains_bounded (st\<lparr>pathEdgeWitnesses := (pathEdgeWitnesses st)
      (ck := filter keep (pathEdgeWitnesses st ck)), pathEdges := m\<rparr>)"
    by (auto simp: antichains_bounded_def intro: order_trans [OF length_filter_le])
next
  fix st :: "('a, 'b) tabState" and ck wid sk q and m :: "string \<rightharpoonup> interprocPathEdge"
  assume "antichains_bounded st" "length (pathEdgeWitnesses st ck) < interprocWitnessAntichainLimit"
  then show "antichains_bounded (st\<lparr>workUnits := workUnits st + 1, pathEdges := m,
      pathEdgeWitnesses := (pathEdgeWitnesses st)(ck := AList.update wid sk (pathEdgeWitnesses st ck)),
      queue := q, stats := (stats st)\<lparr>PathEdges := PathEdges (stats st) + 1\<rparr>\<rparr>)"
    using length_update [of wid sk "pathEdgeWitnesses st ck"] by (auto simp: antichains_bounded_def)
qed (auto simp: antichains_bounded_def only_controlD)

text \<open>
  C16. The solver stays within its limits for every graph and every client: the path edges,
  call dependencies and procedure summaries it ever admits are together at most the state
  budget (20000 when none is given), and no path-edge contribution ever retains more than 64
  witnesses.  The solver is a total function, so every run ends.
\<close>

theorem tabulation_within_limits:
  "int (workSpent (snd (runIFDSPropagationWithStatsOptions cfg t))) \<le> effectiveMaxStates cfg \<and>
   length (pathEdgeWitnesses (finalTabState cfg t) contributionKey) \<le> 64"
proof -
  have "within_budget cfg (initialTabState t')" for t'
    by (simp add: within_budget_def workSpent_def initialTabState_def noStats_def effectiveMaxStates_def
        defaultCFGMaxStates_def)
  then have "int (workSpent (stats (finalTabState cfg t'))) \<le> effectiveMaxStates cfg" for t'
    using budget.finalTabState_P by (fastforce simp: within_budget_def)
  moreover have "int (workSpent noStats) \<le> effectiveMaxStates cfg"
    by (simp add: workSpent_def noStats_def effectiveMaxStates_def defaultCFGMaxStates_def)
  moreover have "antichains_bounded (finalTabState cfg t)"
    by (rule antichain.finalTabState_P) (simp add: antichains_bounded_def initialTabState_def)
  ultimately show ?thesis
    by (auto simp: runIFDSPropagationWithStatsOptions_def antichains_bounded_def
        interprocWitnessAntichainLimit_def Let_def split: prod.splits)
qed

end
