(* ===== verification/Tabulation_Tables.thy ===== *)
theory Tabulation_Tables
  imports Tabulation_Bounds
begin

text \<open>
  The tables of the tabulation solver (\<open>goplint/cfa_ifds_tabulation.go\<close>): the string keys
  identify the facts they stand for, and each operation (\<open>enqueue\<close>, \<open>applySummary\<close>,
  \<open>registerDependency\<close>, \<open>publishSummary\<close>) keeps the tables consistent, only adds
  contributions, queues what it adds, and joins every summary with every waiting dependency.
\<close>

section \<open>Keys identify contributions\<close>

definition fact_wf :: "interprocEntryFact \<Rightarrow> bool" where
  "fact_wf f \<longleftrightarrow> node_wf (fact_node f)"

definition pathEdge_wf :: "interprocPathEdge \<Rightarrow> bool" where
  "pathEdge_wf e \<longleftrightarrow> fact_wf (pe_entry e) \<and> node_wf (pe_node e)"

definition dependency_wf :: "interprocCallDependency \<Rightarrow> bool" where
  "dependency_wf d \<longleftrightarrow> fact_wf (calleeEntry d) \<and> node_wf (calleeExit d) \<and> fact_wf (callerEntry d) \<and>
     CHR ''='' \<notin> set (dep_callSite d) \<and> node_wf (returnNode d)"

definition summary_wf :: "interprocProcedureSummary \<Rightarrow> bool" where
  "summary_wf s \<longleftrightarrow> fact_wf (sum_entry s) \<and> node_wf (sum_exit s)"

type_synonym contribution =
  "interprocEntryFact \<times> interprocNodeID \<times> protocolAbstractState \<times> interprocConditionalEdgeFunc"

definition core :: "interprocPathEdge \<Rightarrow> contribution" where
  "core e = (pe_entry e, pe_node e, pe_state e, pe_edgeFunction e)"

definition summary_core :: "interprocProcedureSummary \<Rightarrow> contribution" where
  "summary_core s = (sum_entry s, sum_exit s, sum_state s, sum_edgeFunction s)"

definition dependency_core :: "interprocCallDependency \<Rightarrow>
    interprocEntryFact \<times> interprocNodeID \<times> interprocEntryFact \<times> string \<times> interprocNodeID \<times> interprocConditionalEdgeFunc" where
  "dependency_core d =
     (calleeEntry d, calleeExit d, callerEntry d, dep_callSite d, returnNode d, callerEffect d)"

lemma entryFact_key_split:
  "fact_wf f \<Longrightarrow> split_on (CHR ''='') (entryFact_key f @ rest) =
     (node_Key (fact_node f) @ ''|entry-fact'') # split_on (CHR ''='') (state_key (fact_state f) @ rest)"
  using node_Key_no_eq [of "fact_node f"]
  by (simp add: entryFact_key_def fact_wf_def split_on_free_append)

lemma entryFact_key_inj: "fact_wf f \<Longrightarrow> fact_wf g \<Longrightarrow> entryFact_key f = entryFact_key g \<longleftrightarrow> f = g"
proof
  assume wf: "fact_wf f" "fact_wf g" and eq: "entryFact_key f = entryFact_key g"
  from wf entryFact_key_split [of f "[]"] entryFact_key_split [of g "[]"]
  have "node_Key (fact_node f) = node_Key (fact_node g)"
    and "split_on (CHR ''='') (state_key (fact_state f)) = split_on (CHR ''='') (state_key (fact_state g))"
    by (simp_all add: eq)
  with wf show "f = g"
    by (auto simp: fact_wf_def node_Key_inj dest!: split_on_inj intro: interprocEntryFact.equality)
qed simp

lemma pathEdge_key_inj:
  assumes wf: "pathEdge_wf a" "pathEdge_wf b"
    and eq: "storageKey (pathEdge_key a) v = storageKey (pathEdge_key b) w"
  shows "core a = core b"
proof -
  have nk: "node_wf (pe_node a)" "node_wf (pe_node b)" "fact_wf (pe_entry a)" "fact_wf (pe_entry b)"
    using wf by (simp_all add: pathEdge_wf_def)
  have *: "split_on (CHR ''='') (storageKey (pathEdge_key a) v) = split_on (CHR ''='') (storageKey (pathEdge_key b) w)"
    using eq by simp
  have "node_Key (fact_node (pe_entry a)) = node_Key (fact_node (pe_entry b))"
    "fact_state (pe_entry a) = fact_state (pe_entry b)" "node_Key (pe_node a) = node_Key (pe_node b)"
    "pe_state a = pe_state b" "required (pe_edgeFunction a) = required (pe_edgeFunction b)"
    "proven (pe_edgeFunction a) = proven (pe_edgeFunction b)"
    using * nk node_Key_no_eq [OF nk(1)] node_Key_no_eq [OF nk(2)]
    by (simp_all add: storageKey_def pathEdge_key_def entryFact_key_split state_key_split effect_key_def
        split_on_free_append split_on_free node_wf_def protocolAbstractState.equality word_unat_eq_iff)
  with nk show ?thesis
    by (simp add: core_def fact_wf_def node_Key_inj interprocEntryFact.equality interprocConditionalEdgeFunc.equality)
qed

lemmas key_split = entryFact_key_split state_key_split effect_key_def split_on_free_append split_on_free
  node_wf_def protocolAbstractState.equality word_unat_eq_iff

lemma dependency_key_inj:
  assumes wf: "dependency_wf a" "dependency_wf b" and eq: "dependency_key a = dependency_key b"
  shows "dependency_core a = dependency_core b"
proof -
  have nk: "node_wf (calleeExit a)" "node_wf (calleeExit b)" "node_wf (returnNode a)" "node_wf (returnNode b)"
    "fact_wf (calleeEntry a)" "fact_wf (calleeEntry b)" "fact_wf (callerEntry a)" "fact_wf (callerEntry b)"
    "CHR ''='' \<notin> set (dep_callSite a)" "CHR ''='' \<notin> set (dep_callSite b)"
    using wf by (simp_all add: dependency_wf_def)
  have *: "split_on (CHR ''='') (dependency_key a) = split_on (CHR ''='') (dependency_key b)"
    using eq by simp
  have "node_Key (fact_node (calleeEntry a)) = node_Key (fact_node (calleeEntry b))"
    "fact_state (calleeEntry a) = fact_state (calleeEntry b)"
    "node_Key (fact_node (callerEntry a)) = node_Key (fact_node (callerEntry b))"
    "fact_state (callerEntry a) = fact_state (callerEntry b)"
    "node_Key (calleeExit a) = node_Key (calleeExit b)" "node_Key (returnNode a) = node_Key (returnNode b)"
    "dep_callSite a = dep_callSite b"
    "required (callerEffect a) = required (callerEffect b)" "proven (callerEffect a) = proven (callerEffect b)"
    using * nk node_Key_no_eq [OF nk(1)] node_Key_no_eq [OF nk(2)] node_Key_no_eq [OF nk(3)] node_Key_no_eq [OF nk(4)]
      state_key_split [of "proven (callerEffect a)" "[]"] state_key_split [of "proven (callerEffect b)" "[]"]
    by (simp_all add: dependency_key_def key_split)
  with nk show ?thesis
    by (simp add: dependency_core_def fact_wf_def node_Key_inj interprocEntryFact.equality interprocConditionalEdgeFunc.equality)
qed

lemma summary_key_inj:
  assumes wf: "summary_wf a" "summary_wf b" and eq: "summary_key a = summary_key b"
  shows "summary_core a = summary_core b"
proof -
  have nk: "node_wf (sum_exit a)" "node_wf (sum_exit b)" "fact_wf (sum_entry a)" "fact_wf (sum_entry b)"
    using wf by (simp_all add: summary_wf_def)
  have *: "split_on (CHR ''='') (summary_key a) = split_on (CHR ''='') (summary_key b)"
    using eq by simp
  have "node_Key (fact_node (sum_entry a)) = node_Key (fact_node (sum_entry b))"
    "fact_state (sum_entry a) = fact_state (sum_entry b)" "node_Key (sum_exit a) = node_Key (sum_exit b)"
    "sum_state a = sum_state b"
    "required (sum_edgeFunction a) = required (sum_edgeFunction b)"
    "proven (sum_edgeFunction a) = proven (sum_edgeFunction b)"
    using * nk node_Key_no_eq [OF nk(1)] node_Key_no_eq [OF nk(2)]
      state_key_split [of "proven (sum_edgeFunction a)" "[]"] state_key_split [of "proven (sum_edgeFunction b)" "[]"]
    by (simp_all add: summary_key_def key_split)
  with nk show ?thesis
    by (simp add: summary_core_def fact_wf_def node_Key_inj interprocEntryFact.equality interprocConditionalEdgeFunc.equality)
qed

text \<open>
  C18. The formatted keys of the solver tables are faithful: for nodes whose function keys
  contain no equality sign, two path edges get the same key exactly when they agree on entry
  fact, node, fact and edge function, two dependencies when they agree on everything but the
  recorded path and witness, and two summaries when they agree on entry, exit, exit fact and
  edge function.  So deduplication by key never merges different facts.
\<close>

theorem tabulation_keys_faithful:
  assumes "pathEdge_wf e" "pathEdge_wf e'" "dependency_wf d" "dependency_wf d'" "summary_wf s" "summary_wf s'"
  shows "(pathEdge_key e = pathEdge_key e' \<longleftrightarrow> core e = core e') \<and>
    (dependency_key d = dependency_key d' \<longleftrightarrow> dependency_core d = dependency_core d') \<and>
    (summary_key s = summary_key s' \<longleftrightarrow> summary_core s = summary_core s')"
proof (intro conjI iffI)
  show "core e = core e'" if "pathEdge_key e = pathEdge_key e'"
    using pathEdge_key_inj [OF assms(1,2), of "[]" "[]"] that by simp
  show "dependency_core d = dependency_core d'" if "dependency_key d = dependency_key d'"
    using dependency_key_inj [OF assms(3,4) that] .
  show "summary_core s = summary_core s'" if "summary_key s = summary_key s'"
    using summary_key_inj [OF assms(5,6) that] .
qed (auto simp: pathEdge_key_def core_def dependency_key_def dependency_core_def summary_key_def summary_core_def)

definition sampleNode :: "string \<Rightarrow> interprocNodeID" where
  "sampleNode f = \<lparr>FuncKey = f, BlockIndex = 0, NodeIndex = 0, CallOrdinal = 0, NodeKind = interprocNodeKindCFG\<rparr>"

definition samplePathEdge :: "string \<Rightarrow> interprocPathEdge" where
  "samplePathEdge f = zeroPathEdge\<lparr>pe_node := sampleNode f\<rparr>"

lemma samplePathEdge_wf: "CHR ''='' \<notin> set f \<Longrightarrow> pathEdge_wf (samplePathEdge f)"
  by (simp add: samplePathEdge_def pathEdge_wf_def fact_wf_def zeroPathEdge_def node_wf_def zeroNode_def
      sampleNode_def go_const)

theorem tabulation_keys_faithful_witness:
  "pathEdge_key (samplePathEdge ''pkg.F'') \<noteq> pathEdge_key (samplePathEdge ''pkg.F|lit'')"
proof -
  define d where "d = callDependency (samplePathEdge ''pkg.F'')
    \<lparr>From = sampleNode ''f'', To = sampleNode ''g'', EdgeKind = interprocEdgeCall, CallSite = ''c'', Reason = [], PredicateProvenance = []\<rparr>
    zeroState identityInterprocConditionalEdgeFunc [] []
    \<lparr>From = sampleNode ''g'', To = sampleNode ''f'', EdgeKind = interprocEdgeReturn, CallSite = ''c'', Reason = [], PredicateProvenance = []\<rparr>"
  define s where "s = exitSummary (samplePathEdge ''pkg.F'') zeroState identityInterprocConditionalEdgeFunc []"
  have wf: "node_wf (sampleNode ''f'')" "node_wf (sampleNode ''g'')" "node_wf (sampleNode ''pkg.F'')" "node_wf zeroNode"
    by (simp_all add: node_wf_def sampleNode_def zeroNode_def go_const)
  have "dependency_wf d" "summary_wf s"
    using wf by (simp_all add: d_def s_def dependency_wf_def summary_wf_def callDependency_def exitSummary_def
        samplePathEdge_def zeroPathEdge_def fact_wf_def)
  then show ?thesis
    using tabulation_keys_faithful [of "samplePathEdge ''pkg.F''" "samplePathEdge ''pkg.F|lit''" d d s s]
    by (simp add: samplePathEdge_wf core_def) (simp add: samplePathEdge_def sampleNode_def)
qed

section \<open>The tables\<close>

definition contributions :: "('n, 'e) tabState \<Rightarrow> contribution set" where
  "contributions st = core ` ran (pathEdges st)"

definition summary_set :: "('n, 'e) tabState \<Rightarrow> contribution set" where
  "summary_set st = summary_core ` ran (summaries st)"

definition dependency_set where
  "dependency_set st = dependency_core ` ran (dependencies st)"

definition pending :: "('n, 'e) tabState \<Rightarrow> contribution \<Rightarrow> bool" where
  "pending st c \<longleftrightarrow> (\<exists>k\<in>set (queue st). \<exists>e. pathEdges st k = Some e \<and> core e = c)"

text \<open>Every table entry sits under its own key, and the indexes list exactly the stored entries.\<close>

definition edges_ok :: "('n, 'e) tabState \<Rightarrow> bool" where
  "edges_ok st \<longleftrightarrow>
     (\<forall>k e. pathEdges st k = Some e \<longrightarrow> pathEdge_wf e \<and>
        k = storageKey (pathEdge_key e) (interprocWitnessIdentity (pe_witness e))) \<and>
     (\<forall>ck w k. (w, k) \<in> set (pathEdgeWitnesses st ck) \<longrightarrow>
        (\<exists>e. pathEdges st k = Some e \<and> pathEdge_key e = ck \<and> w = interprocWitnessIdentity (pe_witness e)))"

definition indexed ::
  "(string \<rightharpoonup> 'a) \<Rightarrow> (string \<Rightarrow> string list) \<Rightarrow> ('a \<Rightarrow> bool) \<Rightarrow> ('a \<Rightarrow> string) \<Rightarrow> ('a \<Rightarrow> string) \<Rightarrow> bool" where
  "indexed tbl idx ok key ek \<longleftrightarrow>
     (\<forall>k d. tbl k = Some d \<longrightarrow> ok d \<and> k = key d \<and> k \<in> set (idx (ek d))) \<and>
     (\<forall>e k. k \<in> set (idx e) \<longrightarrow> (\<exists>d. tbl k = Some d \<and> e = ek d))"

lemma indexedD:
  assumes "indexed tbl idx ok key ek"
  shows "tbl k = Some d \<Longrightarrow> ok d" "tbl k = Some d \<Longrightarrow> k = key d" "tbl k = Some d \<Longrightarrow> k \<in> set (idx (ek d))"
    "k \<in> set (idx e) \<Longrightarrow> \<exists>d. tbl k = Some d \<and> e = ek d"
  using assms unfolding indexed_def by blast+

lemma indexed_insert:
  assumes ix: "indexed tbl idx ok key ek" and new: "ok d" "tbl (key d) = None"
  shows "indexed (tbl(key d \<mapsto> d)) (idx(ek d := sort (idx (ek d) @ [key d]))) ok key ek"
  unfolding indexed_def
proof (intro conjI allI impI)
  fix k d' assume "(tbl(key d \<mapsto> d)) k = Some d'"
  then consider "k = key d \<and> d' = d" | "tbl k = Some d'"
    by (cases "k = key d") (simp_all only: fun_upd_apply if_True if_False option.inject simp_thms)
  then have "ok d' \<and> k = key d' \<and> k \<in> set ((idx(ek d := sort (idx (ek d) @ [key d]))) (ek d'))"
  proof cases
    case 1
    with new(1) show ?thesis by simp
  next
    case 2
    from indexedD(1-3) [OF ix this] show ?thesis by auto
  qed
  then show "ok d'" "k = key d'" "k \<in> set ((idx(ek d := sort (idx (ek d) @ [key d]))) (ek d'))"
    by blast+
next
  fix e k assume "k \<in> set ((idx(ek d := sort (idx (ek d) @ [key d]))) e)"
  then consider "k = key d \<and> e = ek d" | "k \<in> set (idx e)"
    by (cases "e = ek d") (auto simp: fun_upd_apply)
  then show "\<exists>d'. (tbl(key d \<mapsto> d)) k = Some d' \<and> e = ek d'"
  proof cases
    case 2
    then obtain d' where "tbl k = Some d'" "e = ek d'" using indexedD(4) [OF ix] by blast
    then show ?thesis using new(2) by (intro exI [of _ d']) auto
  qed simp
qed

definition tables_ok :: "('n, 'e) tabState \<Rightarrow> bool" where
  "tables_ok st \<longleftrightarrow>
     indexed (dependencies st) (dependenciesByEntry st) dependency_wf dependency_key
       (\<lambda>d. entryFact_key (calleeEntry d)) \<and>
     indexed (summaries st) (summariesByEntry st) summary_wf summary_key (\<lambda>s. entryFact_key (sum_entry s))"

lemma tables_okD:
  assumes "tables_ok st"
  shows "indexed (dependencies st) (dependenciesByEntry st) dependency_wf dependency_key
       (\<lambda>d. entryFact_key (calleeEntry d))"
    "indexed (summaries st) (summariesByEntry st) summary_wf summary_key (\<lambda>s. entryFact_key (sum_entry s))"
  using assms unfolding tables_ok_def by blast+

text \<open>Every summary has been applied to every dependency that waits for it.\<close>

definition joined :: "interprocCallDependency \<Rightarrow> interprocProcedureSummary \<Rightarrow> contribution set \<Rightarrow> bool" where
  "joined d s C \<longleftrightarrow>
     (calleeEntry d = sum_entry s \<and> calleeExit d = sum_exit s \<longrightarrow>
      (callerEntry d, returnNode d, sum_state s, effect_thenSummary (callerEffect d) (sum_edgeFunction s)) \<in> C)"

definition all_joined :: "('n, 'e) tabState \<Rightarrow> bool" where
  "all_joined st \<longleftrightarrow> (\<forall>d\<in>ran (dependencies st). \<forall>s\<in>ran (summaries st). joined d s (contributions st))"

definition tab_ok :: "('n, 'e) tabState \<Rightarrow> bool" where
  "tab_ok st \<longleftrightarrow> edges_ok st \<and> tables_ok st"

text \<open>What an operation may do to the tables: add, and queue what it adds.\<close>

definition grows :: "('n, 'e) tabState \<Rightarrow> ('n, 'e) tabState \<Rightarrow> bool" where
  "grows st st' \<longleftrightarrow>
     contributions st \<subseteq> contributions st' \<and>
     dependency_set st \<subseteq> dependency_set st' \<and> summary_set st \<subseteq> summary_set st' \<and>
     (\<forall>c\<in>contributions st'. c \<in> contributions st \<or> pending st' c) \<and>
     (\<forall>c. pending st c \<longrightarrow> pending st' c) \<and>
     unsafeResult st' = unsafeResult st \<and> inconclusiveResult st' = inconclusiveResult st"

lemma grows_refl [simp]: "grows st st"
  by (simp add: grows_def)

lemma grows_trans: "grows a b \<Longrightarrow> grows b c \<Longrightarrow> grows a c"
  unfolding grows_def by (metis (no_types, opaque_lifting) order_trans subsetD)

lemma control_tables:
  assumes "only_control st st'"
  shows "tab_ok st' = tab_ok st" "all_joined st' = all_joined st" "grows st st'"
    "contributions st' = contributions st" "dependency_set st' = dependency_set st" "summary_set st' = summary_set st"
  using only_controlD [OF assms]
  by (auto simp: tab_ok_def edges_ok_def tables_ok_def all_joined_def contributions_def grows_def
      dependency_set_def summary_set_def pending_def)

lemma for_each_chain:
  assumes "for_each f s xs = (True, s')" and "I s"
    and "\<And>x s s'. x \<in> set xs \<Longrightarrow> I s \<Longrightarrow> f s x = (True, s') \<Longrightarrow> I s' \<and> R s s' \<and> Q x s'"
    and "\<And>x s s'. Q x s \<Longrightarrow> R s s' \<Longrightarrow> Q x s'" and "\<And>s. R s s" and "\<And>a b c. R a b \<Longrightarrow> R b c \<Longrightarrow> R a c"
  shows "I s' \<and> R s s' \<and> (\<forall>x\<in>set xs. Q x s')"
  using assms(1-3)
proof (induction xs arbitrary: s)
  case Nil
  then show ?case using assms(5) by simp
next
  case (Cons x xs)
  obtain t where t: "f s x = (True, t)" "for_each f t xs = (True, s')"
    using Cons.prems(1) by (auto split: prod.splits if_splits)
  have "I t \<and> R s t \<and> Q x t" by (rule Cons.prems(3) [OF _ Cons.prems(2) t(1)]) simp
  with Cons.IH [OF t(2)] Cons.prems(3) assms(4,6) show ?case
    by (metis insert_iff list.simps(15))
qed

subsection \<open>Adding a path edge\<close>

lemma scan_retained:
  assumes "scanAntichain cfg edge wid xs acc st = (ScanRetained, st')" shows "xs \<noteq> []"
  using assms by (cases xs) auto

lemma scan_drops:
  "scanAntichain cfg edge wid xs acc st = (ScanDrop ks, st') \<Longrightarrow> set ks \<subseteq> set acc \<union> snd ` set xs"
proof (induction xs arbitrary: acc st)
  case (Cons x xs)
  then show ?case
    by (cases x) (fastforce simp: Let_def split: prod.splits if_splits)
qed simp

definition drop_step :: "string \<Rightarrow> ('n, 'e) tabState \<Rightarrow> ('n, 'e) tabState \<Rightarrow> bool" where
  "drop_step ck st st' \<longleftrightarrow>
     (\<forall>k e. pathEdges st' k = Some e \<longrightarrow> pathEdges st k = Some e) \<and>
     (\<forall>k e. pathEdges st k = Some e \<and> pathEdge_key e \<noteq> ck \<longrightarrow> pathEdges st' k = Some e) \<and>
     queue st' = queue st \<and> dependencies st' = dependencies st \<and> dependenciesByEntry st' = dependenciesByEntry st \<and>
     summaries st' = summaries st \<and> summariesByEntry st' = summariesByEntry st \<and>
     unsafeResult st' = unsafeResult st \<and> inconclusiveResult st' = inconclusiveResult st"

lemma dropSubsumed_ok:
  assumes d: "dropSubsumed cfg edge ck st sk = (True, st')" and ok: "edges_ok st"
    and key: "\<And>e. pathEdges st sk = Some e \<Longrightarrow> pathEdge_key e = ck"
  shows "edges_ok st' \<and> drop_step ck st st'"
proof -
  obtain ok0 st0 where c: "checkpoint cfg (pe_path edge) (pe_witness edge) st = (ok0, st0)" by force
  note same = checkpoint_fields [OF c]
  let ?rid = "interprocWitnessIdentity (pe_witness (lookupPathEdge st sk))"
  have st': "st' = st0\<lparr>pathEdgeWitnesses := (pathEdgeWitnesses st)
      (ck := filter (\<lambda>p. fst p \<noteq> ?rid) (pathEdgeWitnesses st ck)), pathEdges := (pathEdges st)(sk := None)\<rparr>"
    using d same by (auto simp: dropSubsumed_def c Let_def lookupPathEdge_def split: if_splits)
  have "\<exists>e. pathEdges st' k = Some e \<and> pathEdge_key e = ck' \<and> w = interprocWitnessIdentity (pe_witness e)"
    if "(w, k) \<in> set (pathEdgeWitnesses st' ck')" for ck' w k
  proof -
    have "(w, k) \<in> set (pathEdgeWitnesses st ck')" using that by (auto simp: st' split: if_splits)
    then obtain e where e: "pathEdges st k = Some e" "pathEdge_key e = ck'" "w = interprocWitnessIdentity (pe_witness e)"
      using ok unfolding edges_ok_def by blast
    have "k \<noteq> sk"
    proof
      assume "k = sk"
      with e key have "ck' = ck" "w = ?rid" by (auto simp: lookupPathEdge_def)
      with that show False by (simp add: st')
    qed
    with e show ?thesis by (simp add: st')
  qed
  with ok have "edges_ok st'" by (auto simp: edges_ok_def st')
  with key same show ?thesis
    by (auto simp: drop_step_def st')
qed

definition same_procedures :: "('n, 'e) tabState \<Rightarrow> ('n, 'e) tabState \<Rightarrow> bool" where
  "same_procedures st st' \<longleftrightarrow>
     dependencies st' = dependencies st \<and> dependenciesByEntry st' = dependenciesByEntry st \<and>
     summaries st' = summaries st \<and> summariesByEntry st' = summariesByEntry st"

lemma drop_step_trans: "drop_step ck a b \<Longrightarrow> drop_step ck b c \<Longrightarrow> drop_step ck a c"
  unfolding drop_step_def by metis

lemma drop_step_refl [simp]: "drop_step ck a a"
  by (simp add: drop_step_def)

lemma dropAll_ok:
  assumes "for_each (dropSubsumed cfg edge ck) st ks = (True, st')" and "edges_ok st"
    and "\<And>k e. k \<in> set ks \<Longrightarrow> pathEdges st k = Some e \<Longrightarrow> pathEdge_key e = ck"
  shows "edges_ok st' \<and> drop_step ck st st'"
proof -
  let ?I = "\<lambda>s. edges_ok s \<and> (\<forall>k\<in>set ks. \<forall>e. pathEdges s k = Some e \<longrightarrow> pathEdge_key e = ck)"
  have "?I st' \<and> drop_step ck st st' \<and> (\<forall>k\<in>set ks. True)"
  proof (rule for_each_chain [OF assms(1), where I = ?I])
    show "?I st" using assms(2,3) by blast
    show "?I s' \<and> drop_step ck s s' \<and> True"
      if "k \<in> set ks" "?I s" "dropSubsumed cfg edge ck s k = (True, s')" for k s s'
      using dropSubsumed_ok [OF that(3)] that(1,2) unfolding drop_step_def by blast
  qed (auto intro: drop_step_trans)
  then show ?thesis by blast
qed

lemma same_key_same_core:
  "edges_ok st \<Longrightarrow> pathEdges st k = Some e' \<Longrightarrow> pathEdge_wf e \<Longrightarrow> pathEdge_key e' = pathEdge_key e \<Longrightarrow> core e' = core e"
  using pathEdge_key_inj [of e' e "[]" "[]"] by (auto simp: edges_ok_def)

lemma core_key: "core e' = core e \<Longrightarrow> pathEdge_key e' = pathEdge_key e"
  by (simp add: core_def pathEdge_key_def)

lemma update_members: "(w, k) \<in> set (AList.update a b xs) \<Longrightarrow> w = a \<and> k = b \<or> (w, k) \<in> set xs"
  by (induction xs) (auto split: if_splits)

text \<open>Storing an edge in place of edges with the same key keeps the table right.\<close>

lemma store_ok:
  assumes ok: "edges_ok st" "pathEdge_wf e" and drop: "drop_step (pathEdge_key e) st st2" "edges_ok st2"
    and sk: "sk = storageKey (pathEdge_key e) (interprocWitnessIdentity (pe_witness e))"
    and new: "pathEdges st' = (pathEdges st2)(sk \<mapsto> e)" "queue st' = queue st2 @ [sk]"
      "pathEdgeWitnesses st' = (pathEdgeWitnesses st2) (pathEdge_key e :=
         AList.update (interprocWitnessIdentity (pe_witness e)) sk (pathEdgeWitnesses st2 (pathEdge_key e)))"
      "same_procedures st2 st'" "unsafeResult st' = unsafeResult st2" "inconclusiveResult st' = inconclusiveResult st2"
  shows "edges_ok st' \<and> grows st st' \<and> core e \<in> contributions st' \<and> same_procedures st st'"
proof -
  have at_sk: "core e' = core e" if "pathEdges st2 sk = Some e'" for e'
    using pathEdge_key_inj [of e' e] that drop(2) ok(2) sk unfolding edges_ok_def by metis
  have kept: "(pathEdges st' k = Some e' \<and> k \<noteq> sk) \<or> core e' = core e" if "pathEdges st k = Some e'" for k e'
  proof (cases "pathEdge_key e' = pathEdge_key e")
    case True
    from same_key_same_core [OF ok(1) that ok(2) this] show ?thesis ..
  next
    case False
    with drop(1) that have "pathEdges st2 k = Some e'" unfolding drop_step_def by blast
    with at_sk new(1) show ?thesis by (cases "k = sk") simp_all
  qed
  have pend: "pending st' (core e)" by (auto simp: pending_def new)
  have "pending st' c" if "pending st c" for c
  proof -
    from that obtain k e' where "k \<in> set (queue st)" "pathEdges st k = Some e'" "core e' = c"
      by (auto simp: pending_def)
    moreover from this(1) drop(1) new(2) have "k \<in> set (queue st')" unfolding drop_step_def by simp
    ultimately show ?thesis
      using kept [of k e'] pend unfolding pending_def by metis
  qed
  moreover have C: "contributions st \<subseteq> contributions st'" "core e \<in> contributions st'"
  proof -
    show ce: "core e \<in> contributions st'" by (auto simp: contributions_def new ran_def)
    show "contributions st \<subseteq> contributions st'"
    proof
      fix c assume "c \<in> contributions st"
      then obtain k e' where "pathEdges st k = Some e'" "c = core e'" by (auto simp: contributions_def ran_def)
      with kept [of k e'] ce show "c \<in> contributions st'" by (auto simp: contributions_def ran_def)
    qed
  qed
  moreover have "c \<in> contributions st \<or> pending st' c" if "c \<in> contributions st'" for c
  proof -
    from that obtain k e' where k: "pathEdges st' k = Some e'" "c = core e'" by (auto simp: contributions_def ran_def)
    show ?thesis
    proof (cases "k = sk")
      case True with k pend new(1) show ?thesis by simp
    next
      case False
      with k(1) new(1) have "pathEdges st2 k = Some e'" by simp
      then have "pathEdges st k = Some e'" using drop(1) unfolding drop_step_def by blast
      with k(2) show ?thesis by (auto simp: contributions_def ran_def)
    qed
  qed
  moreover have "edges_ok st'"
    unfolding edges_ok_def
  proof (intro conjI allI impI)
    fix k e' assume "pathEdges st' k = Some e'"
    with drop(2) ok(2) sk new(1)
    show "pathEdge_wf e'" "k = storageKey (pathEdge_key e') (interprocWitnessIdentity (pe_witness e'))"
      by (auto simp: edges_ok_def split: if_splits)
  next
    fix ck w k assume "(w, k) \<in> set (pathEdgeWitnesses st' ck)"
    then consider "k = sk" "w = interprocWitnessIdentity (pe_witness e)" "ck = pathEdge_key e"
      | "(w, k) \<in> set (pathEdgeWitnesses st2 ck)"
      by (cases "ck = pathEdge_key e") (auto simp: new(3) dest: update_members)
    then show "\<exists>e. pathEdges st' k = Some e \<and> pathEdge_key e = ck \<and> w = interprocWitnessIdentity (pe_witness e)"
    proof cases
      case 1 with new(1) show ?thesis by auto
    next
      case 2
      with drop(2) obtain e' where e': "pathEdges st2 k = Some e'" "pathEdge_key e' = ck"
        "w = interprocWitnessIdentity (pe_witness e')" unfolding edges_ok_def by blast
      show ?thesis
      proof (cases "k = sk")
        case True
        with at_sk e' have "pathEdge_key e' = pathEdge_key e" by (auto intro: core_key)
        moreover from True drop(2) e' have "storageKey ck w = sk" by (auto simp: edges_ok_def)
        ultimately show ?thesis using True e' new(1) by (auto simp: sk storageKey_def)
      next
        case False with e' new(1) show ?thesis by auto
      qed
    qed
  qed
  ultimately show ?thesis
    using drop(1) new(4-6)
    unfolding grows_def drop_step_def same_procedures_def dependency_set_def summary_set_def by simp
qed

lemma control_edges: "only_control st st' \<Longrightarrow> edges_ok st' = edges_ok st"
  "only_control st st' \<Longrightarrow> same_procedures st st'"
  by (auto simp: edges_ok_def same_procedures_def only_controlD)

lemma same_procedures_trans: "same_procedures a b \<Longrightarrow> same_procedures b c \<Longrightarrow> same_procedures a c"
  by (simp add: same_procedures_def)

lemma enqueue_ok:
  assumes ok: "edges_ok st" "pathEdge_wf e" and run: "enqueue cfg e st = (True, st')"
  shows "edges_ok st' \<and> grows st st' \<and> core e \<in> contributions st' \<and> same_procedures st st'"
proof -
  let ?ck = "pathEdge_key e" and ?wid = "interprocWitnessIdentity (pe_witness e)"
  obtain ok0 st0 where c: "checkpoint cfg (pe_path e) (pe_witness e) st = (ok0, st0)" by force
  obtain r st1 where s: "scanAntichain cfg e ?wid (pathEdgeWitnesses st0 ?ck) [] st0 = (r, st1)" by force
  have oc: "only_control st st1"
    using checkpointD(1) [OF c] scanAntichain_control [OF s] by (rule only_control_trans)
  note C1 = control_tables [OF oc] and E1 = control_edges [OF oc]
  have e1: "edges_ok st1" using E1 ok by simp
  show ?thesis
  proof (cases r)
    case ScanExpired
    with run show ?thesis by (auto simp: enqueue_def c s split: if_splits)
  next
    case ScanRetained
    then have "pathEdgeWitnesses st0 ?ck \<noteq> []" using s scan_retained by auto
    then obtain w k where "(w, k) \<in> set (pathEdgeWitnesses st ?ck)"
      using checkpoint_fields(2) [OF c] by (cases "pathEdgeWitnesses st0 ?ck") auto
    then obtain e' where "pathEdges st k = Some e'" "pathEdge_key e' = ?ck"
      using ok(1) unfolding edges_ok_def by blast
    with ok have "core e \<in> contributions st"
      using same_key_same_core [OF ok(1) _ ok(2)] by (auto simp: contributions_def ran_def image_iff)
    moreover have "st' = st1" using run ScanRetained by (auto simp: enqueue_def c s split: if_splits)
    ultimately show ?thesis using C1 E1 ok by auto
  next
    case (ScanDrop ks)
    obtain ok2 st2 where f: "for_each (dropSubsumed cfg e ?ck) st1 ks = (ok2, st2)" by force
    obtain ok3 st3 where w: "reserveWorkUnit cfg (pe_path e) (pe_witness e) st2 = (ok3, st3)" by force
    from run have oks: "ok2" "ok3"
      and st': "st' = st3\<lparr>pathEdges := (pathEdges st3)(storageKey ?ck ?wid \<mapsto> e),
        pathEdgeWitnesses := (pathEdgeWitnesses st3)
          (?ck := AList.update ?wid (storageKey ?ck ?wid) (pathEdgeWitnesses st3 ?ck)),
        queue := queue st3 @ [storageKey ?ck ?wid],
        stats := (stats st3)\<lparr>PathEdges := PathEdges (stats st3) + 1\<rparr>\<rparr>"
      by (auto simp: enqueue_def c s ScanDrop f w Let_def split: if_splits)
    have keys: "pathEdge_key e' = ?ck" if "k \<in> set ks" "pathEdges st1 k = Some e'" for k e'
    proof -
      have "set ks \<subseteq> snd ` set (pathEdgeWitnesses st1 ?ck)"
        using scan_drops s ScanDrop scanAntichain_control [OF s] by (fastforce simp: only_controlD)
      with that(1) obtain w where "(w, k) \<in> set (pathEdgeWitnesses st1 ?ck)" by auto
      with e1 that(2) show ?thesis unfolding edges_ok_def by (metis option.inject)
    qed
    have d: "edges_ok st2" "drop_step ?ck st1 st2"
      using dropAll_ok [of cfg e ?ck st1 ks st2] f oks(1) e1 keys by auto
    obtain n where n: "only_control (st2\<lparr>workUnits := n\<rparr>) st3" using reserveWorkUnitD(1) [OF w] by blast
    note same = only_controlD [OF n, simplified]
    have "edges_ok st' \<and> grows st1 st' \<and> core e \<in> contributions st' \<and> same_procedures st1 st'"
      by (rule store_ok [OF e1 ok(2) d(2,1) refl])
        (simp_all add: st' same same_procedures_def)
    with C1 E1 show ?thesis by (meson grows_trans same_procedures_trans)
  qed
qed

lemma scan_stops: "scanAntichain cfg e wid xs acc st = (ScanExpired, st') \<Longrightarrow> budgetResult st' \<noteq> None"
proof (induction xs arbitrary: acc st)
  case (Cons x xs)
  then show ?case
    by (cases x) (auto simp: Let_def dest: checkpointD(3) split: prod.splits if_splits)
qed simp

lemma dropSubsumed_stops: "\<not> fst (dropSubsumed cfg e ck st k) \<Longrightarrow> budgetResult (snd (dropSubsumed cfg e ck st k)) \<noteq> None"
  by (auto simp: dropSubsumed_def Let_def dest: checkpointD(3) split: prod.splits)

lemma loop_stops:
  "(\<And>s x. \<not> fst (f s x) \<Longrightarrow> budgetResult (snd (f s x)) \<noteq> None) \<Longrightarrow> for_each f st xs = (False, st') \<Longrightarrow>
   budgetResult st' \<noteq> None"
  using for_each_stop [of f st xs "\<lambda>s. budgetResult s \<noteq> None"] by (metis fst_conv snd_conv)

lemma enqueue_stops: "enqueue cfg e st = (False, st') \<Longrightarrow> budgetResult st' \<noteq> None"
  using loop_stops [OF dropSubsumed_stops]
  by (auto simp: enqueue_def Let_def dest: checkpointD(3) scan_stops reserveWorkUnitD(3)
      split: prod.splits if_splits antichainScan.splits)

lemma applySummary_stops: "applySummary cfg d s st = (False, st') \<Longrightarrow> budgetResult st' \<noteq> None"
  by (auto simp: applySummary_def dest: checkpointD(3) enqueue_stops split: prod.splits if_splits)

lemma polled_stops:
  "(\<And>st. \<not> fst (f st) \<Longrightarrow> budgetResult (snd (f st)) \<noteq> None) \<Longrightarrow>
   \<not> fst (case checkpoint cfg p w st of (ok, st') \<Rightarrow> if \<not> ok then (False, st') else f st') \<Longrightarrow>
   budgetResult (snd (case checkpoint cfg p w st of (ok, st') \<Rightarrow> if \<not> ok then (False, st') else f st')) \<noteq> None"
  by (auto dest: checkpointD(3) split: prod.splits)

lemma applied_stops:
  "for_each (\<lambda>st k. case checkpoint cfg p w st of (ok, st') \<Rightarrow> if \<not> ok then (False, st')
     else applySummary cfg (d st' k) (s st' k) st') st ks = (False, st') \<Longrightarrow> budgetResult st' \<noteq> None"
  by (erule loop_stops [rotated]) (erule polled_stops [rotated], metis applySummary_stops prod.collapse)

lemma registerDependency_stops: "registerDependency cfg d st = (False, st') \<Longrightarrow> budgetResult st' \<noteq> None"
  by (auto simp: registerDependency_def Let_def dest: checkpointD(3) reserveWorkUnitD(3) applied_stops
      split: prod.splits if_splits)

lemma publishSummary_stops: "publishSummary cfg s st = (False, st') \<Longrightarrow> budgetResult st' \<noteq> None"
  by (auto simp: publishSummary_def Let_def dest: checkpointD(3) reserveWorkUnitD(3) applied_stops
      split: prod.splits if_splits)

subsection \<open>Applying summaries, registering dependencies, publishing summaries\<close>

lemma joined_mono: "joined d s C \<Longrightarrow> C \<subseteq> C' \<Longrightarrow> joined d s C'"
  by (auto simp: joined_def)

lemma grows_contributions: "grows st st' \<Longrightarrow> contributions st \<subseteq> contributions st'"
  by (simp add: grows_def)

lemma procedures_tables: "same_procedures st st' \<Longrightarrow> tables_ok st' = tables_ok st"
  by (simp add: same_procedures_def tables_ok_def)

lemma applySummary_ok:
  assumes ok: "edges_ok st" "dependency_wf d" "summary_wf s" and run: "applySummary cfg d s st = (True, st')"
  shows "edges_ok st' \<and> grows st st' \<and> joined d s (contributions st') \<and> same_procedures st st'"
proof -
  obtain ok0 st0 where c: "checkpoint cfg (callerPath d) (callerWitness d) st = (ok0, st0)" by force
  note oc = checkpointD(1) [OF c]
  have base: "edges_ok st0" "grows st st0" "same_procedures st st0"
    using control_edges [OF oc] control_tables [OF oc] ok by auto
  show ?thesis
  proof (cases "node_Key (calleeExit d) = node_Key (sum_exit s)")
    case False
    then have "st' = st0" "joined d s (contributions st')"
      using run by (auto simp: applySummary_def c joined_def split: if_splits)
    with base show ?thesis by simp
  next
    case True
    obtain ok1 st1 where e: "enqueue cfg (appliedEdge d s) st0 = (ok1, st1)" by force
    with run True have ok1: ok1 and st': "st' = st1\<lparr>stats := (stats st1)\<lparr>SummaryReuses := SummaryReuses (stats st1) + 1\<rparr>\<rparr>"
      by (auto simp: applySummary_def c split: if_splits)
    have "pathEdge_wf (appliedEdge d s)"
      using ok(2) by (simp add: pathEdge_wf_def appliedEdge_def dependency_wf_def)
    from enqueue_ok [OF base(1) this, of cfg st1] e ok1
    have st1: "edges_ok st1" "grows st0 st1" "core (appliedEdge d s) \<in> contributions st1" "same_procedures st0 st1"
      by auto
    have same: "edges_ok st' = edges_ok st1" "grows st1 st'" "contributions st' = contributions st1" "same_procedures st1 st'"
      by (auto simp: st' edges_ok_def grows_def contributions_def dependency_set_def summary_set_def pending_def
          same_procedures_def)
    have "joined d s (contributions st')"
      using st1(3) by (simp add: joined_def same core_def appliedEdge_def)
    with base st1 same show ?thesis by (meson grows_trans same_procedures_trans)
  qed
qed

lemma applied_loop_ok:
  assumes run: "for_each (\<lambda>st k. case checkpoint cfg p w st of (ok, st') \<Rightarrow>
      if \<not> ok then (False, st') else applySummary cfg (d st' k) (s st' k) st') st ks = (True, st')"
    and ok: "edges_ok st" "\<And>k st'. k \<in> set ks \<Longrightarrow> same_procedures st st' \<Longrightarrow> d st' k = d st k \<and> s st' k = s st k"
      "\<And>k. k \<in> set ks \<Longrightarrow> dependency_wf (d st k) \<and> summary_wf (s st k)"
  shows "edges_ok st' \<and> same_procedures st st' \<and> grows st st' \<and>
    (\<forall>k\<in>set ks. joined (d st k) (s st k) (contributions st'))"
proof -
  let ?I = "\<lambda>x. edges_ok x \<and> same_procedures st x"
  have "?I st' \<and> grows st st' \<and> (\<forall>k\<in>set ks. joined (d st k) (s st k) (contributions st'))"
  proof (rule for_each_chain [OF run, where I = ?I])
    show "?I st" using ok(1) by (simp add: same_procedures_def)
  next
    fix k x x'
    assume k: "k \<in> set ks" and I: "?I x"
      and step: "(case checkpoint cfg p w x of (ok, st') \<Rightarrow>
        if \<not> ok then (False, st') else applySummary cfg (d st' k) (s st' k) st') = (True, x')"
    obtain ok0 x0 where c: "checkpoint cfg p w x = (ok0, x0)" by force
    note oc = checkpointD(1) [OF c]
    have x0: "edges_ok x0" "grows x x0" "same_procedures st x0"
      using control_edges [OF oc] control_tables [OF oc] I by (auto intro: same_procedures_trans)
    have "applySummary cfg (d st k) (s st k) x0 = (True, x')"
      using step ok(2) [OF k x0(3)] by (auto simp: c split: if_splits)
    from applySummary_ok [OF x0(1) _ _ this] ok(3) [OF k] x0
    show "?I x' \<and> grows x x' \<and> joined (d st k) (s st k) (contributions x')"
      by (meson grows_trans same_procedures_trans)
  qed (auto intro: grows_trans joined_mono dest: grows_contributions)
  then show ?thesis by blast
qed

lemma reserved_after_poll:
  assumes "checkpoint cfg p w st = (ok0, st0)" "reserveWorkUnit cfg p' w' st0 = (ok1, st1)"
  obtains n where "only_control (st\<lparr>workUnits := n\<rparr>) st1"
proof -
  obtain n where "only_control (st0\<lparr>workUnits := n\<rparr>) st1" using reserveWorkUnitD(1) [OF assms(2)] by blast
  moreover have "only_control (st\<lparr>workUnits := n\<rparr>) (st0\<lparr>workUnits := n\<rparr>)"
    using checkpointD(1) [OF assms(1)] by (cases st; cases st0) (simp add: only_control_def)
  ultimately show ?thesis using that only_control_trans by blast
qed

lemma registerDependency_ok:
  assumes ok: "tab_ok st" "all_joined st" "dependency_wf d" and run: "registerDependency cfg d st = (True, st')"
  shows "tab_ok st' \<and> all_joined st' \<and> grows st st' \<and> dependency_core d \<in> dependency_set st'"
proof -
  obtain ok0 st0 where c: "checkpoint cfg (callerPath d) (callerWitness d) st = (ok0, st0)" by force
  obtain ok1 st1 where r: "reserveWorkUnit cfg (callerPath d) (callerWitness d) st0 = (ok1, st1)" by force
  note oc = checkpointD(1) [OF c] and ct = control_tables [OF checkpointD(1) [OF c]]
  let ?key = "dependency_key d" and ?ek = "entryFact_key (calleeEntry d)"
  note ixs = tables_okD [OF conjunct2 [OF ok(1) [unfolded tab_ok_def]]]
  show ?thesis
  proof (cases "dependencies st ?key")
    case (Some d')
    then have "st' = st0" using run checkpoint_fields(4) [OF c] by (auto simp: registerDependency_def c Let_def split: if_splits)
    moreover have "dependency_wf d'" "?key = dependency_key d'"
      using indexedD(1,2) [OF ixs(1) Some] by auto
    then have "dependency_core d = dependency_core d'" using dependency_key_inj ok(3) by blast
    with Some have "dependency_core d \<in> dependency_set st" by (auto simp: dependency_set_def ran_def)
    ultimately show ?thesis using ct ok by simp
  next
    case None
    obtain n where n: "only_control (st\<lparr>workUnits := n\<rparr>) st1" using reserved_after_poll [OF c r] .
    note same = only_controlD [OF n, simplified]
    let ?st2 = "st1\<lparr>dependencies := (dependencies st1)(?key \<mapsto> d),
      dependenciesByEntry := (dependenciesByEntry st1) (?ek := sort (dependenciesByEntry st1 ?ek @ [?key])),
      stats := (stats st1)\<lparr>Dependencies := Dependencies (stats st1) + 1\<rparr>\<rparr>"
    from run None have ok1: ok1 and loop: "for_each (\<lambda>st summaryKey.
        case checkpoint cfg (callerPath d) (callerWitness d) st of (ok, st') \<Rightarrow>
          if \<not> ok then (False, st') else applySummary cfg d (the (summaries st' summaryKey)) st')
        ?st2 (summariesByEntry st1 ?ek) = (True, st')"
      by (auto simp: registerDependency_def c r Let_def checkpoint_fields(4) [OF c] split: if_splits)
    have e2: "edges_ok ?st2" using ok(1) by (simp add: tab_ok_def edges_ok_def same)
    have t2: "tables_ok ?st2"
      using indexed_insert [OF ixs(1) ok(3) None] ixs(2) by (simp add: tables_ok_def same)
    have g2: "grows st ?st2" "contributions ?st2 = contributions st"
      by (auto simp: grows_def contributions_def dependency_set_def summary_set_def pending_def same None ran_map_upd)
    have "edges_ok st' \<and> same_procedures ?st2 st' \<and> grows ?st2 st' \<and>
        (\<forall>k\<in>set (summariesByEntry st1 ?ek). joined d (the (summaries ?st2 k)) (contributions st'))"
    proof (rule applied_loop_ok [OF loop e2])
      fix k assume "k \<in> set (summariesByEntry st1 ?ek)"
      then obtain s where "summaries st k = Some s" using indexedD(4) [OF ixs(2)] by (auto simp: same)
      with ok(3) indexedD(1) [OF ixs(2)] show "dependency_wf d \<and> summary_wf (the (summaries ?st2 k))"
        by (simp add: same)
    qed (simp add: same_procedures_def)
    then have fin: "edges_ok st'" "same_procedures ?st2 st'" "grows ?st2 st'"
      and j: "\<And>k. k \<in> set (summariesByEntry st ?ek) \<Longrightarrow> joined d (the (summaries st k)) (contributions st')"
      by (auto simp: same)
    have "all_joined st'"
      unfolding all_joined_def
    proof (intro ballI)
      fix d0 s assume mem: "d0 \<in> ran (dependencies st')" "s \<in> ran (summaries st')"
      then obtain k where k: "summaries st k = Some s" using fin(2) by (auto simp: same_procedures_def ran_def same)
      then have ks: "k \<in> set (summariesByEntry st (entryFact_key (sum_entry s)))"
        using indexedD(3) [OF ixs(2)] by blast
      from mem(1) fin(2) None consider "d0 = d" | "d0 \<in> ran (dependencies st)"
        by (auto simp: same_procedures_def same ran_map_upd)
      then show "joined d0 s (contributions st')"
      proof cases
        case 1
        show ?thesis
          using j [of k] ks k by (cases "calleeEntry d = sum_entry s") (auto simp: 1 joined_def)
      next
        case 2
        with ok(2) k have "joined d0 s (contributions st)" by (auto simp: all_joined_def ran_def)
        then show ?thesis by (rule joined_mono) (use g2 grows_contributions [OF fin(3)] in simp)
      qed
    qed
    moreover have "dependency_core d \<in> dependency_set st'"
      using fin(2) by (auto simp: dependency_set_def same_procedures_def ran_def)
    ultimately show ?thesis
      using fin t2 g2 procedures_tables [OF fin(2)] by (auto simp: tab_ok_def intro: grows_trans)
  qed
qed

lemma publishSummary_ok:
  assumes ok: "tab_ok st" "all_joined st" "summary_wf s" "injectSummary cfg = None"
    and run: "publishSummary cfg s st = (True, st')"
  shows "tab_ok st' \<and> all_joined st' \<and> grows st st' \<and> summary_core s \<in> summary_set st'"
proof -
  obtain ok0 st0 where c: "checkpoint cfg (sum_path s) (sum_witness s) st = (ok0, st0)" by force
  obtain ok1 st1 where r: "reserveWorkUnit cfg (sum_path s) (sum_witness s) st0 = (ok1, st1)" by force
  note oc = checkpointD(1) [OF c] and ct = control_tables [OF checkpointD(1) [OF c]]
  let ?key = "summary_key s" and ?ek = "entryFact_key (sum_entry s)"
  note ixs = tables_okD [OF conjunct2 [OF ok(1) [unfolded tab_ok_def]]]
  have inj: "injectProtocolSummaryEvidence cfg s = s" using ok(4) by (simp add: injectProtocolSummaryEvidence_def)
  show ?thesis
  proof (cases "summaries st ?key")
    case (Some s')
    then have "st' = st0" using run checkpoint_fields(6) [OF c] by (auto simp: publishSummary_def inj c Let_def split: if_splits)
    moreover have "summary_wf s'" "?key = summary_key s'"
      using indexedD(1,2) [OF ixs(2) Some] by auto
    then have "summary_core s = summary_core s'" using summary_key_inj ok(3) by blast
    with Some have "summary_core s \<in> summary_set st" by (auto simp: summary_set_def ran_def)
    ultimately show ?thesis using ct ok by simp
  next
    case None
    obtain n where n: "only_control (st\<lparr>workUnits := n\<rparr>) st1" using reserved_after_poll [OF c r] .
    note same = only_controlD [OF n, simplified]
    let ?st2 = "st1\<lparr>summaries := (summaries st1)(?key \<mapsto> s),
      summariesByEntry := (summariesByEntry st1) (?ek := sort (summariesByEntry st1 ?ek @ [?key])),
      stats := (stats st1)\<lparr>Summaries := Summaries (stats st1) + 1\<rparr>\<rparr>"
    from run None have ok1: ok1 and loop: "for_each (\<lambda>st dependencyKey.
        case checkpoint cfg (sum_path s) (sum_witness s) st of (ok, st') \<Rightarrow>
          if \<not> ok then (False, st') else applySummary cfg (the (dependencies st' dependencyKey)) s st')
        ?st2 (dependenciesByEntry st1 ?ek) = (True, st')"
      by (auto simp: publishSummary_def inj c r Let_def checkpoint_fields(6) [OF c] split: if_splits)
    have e2: "edges_ok ?st2" using ok(1) by (simp add: tab_ok_def edges_ok_def same)
    have t2: "tables_ok ?st2"
      using indexed_insert [OF ixs(2) ok(3) None] ixs(1) by (simp add: tables_ok_def same)
    have g2: "grows st ?st2" "contributions ?st2 = contributions st"
      by (auto simp: grows_def contributions_def dependency_set_def summary_set_def pending_def same None ran_map_upd)
    have "edges_ok st' \<and> same_procedures ?st2 st' \<and> grows ?st2 st' \<and>
        (\<forall>k\<in>set (dependenciesByEntry st1 ?ek). joined (the (dependencies ?st2 k)) s (contributions st'))"
    proof (rule applied_loop_ok [OF loop e2])
      fix k assume "k \<in> set (dependenciesByEntry st1 ?ek)"
      then obtain d where "dependencies st k = Some d" using indexedD(4) [OF ixs(1)] by (auto simp: same)
      with ok(3) indexedD(1) [OF ixs(1)] show "dependency_wf (the (dependencies ?st2 k)) \<and> summary_wf s"
        by (simp add: same)
    qed (simp add: same_procedures_def)
    then have fin: "edges_ok st'" "same_procedures ?st2 st'" "grows ?st2 st'"
      and j: "\<And>k. k \<in> set (dependenciesByEntry st ?ek) \<Longrightarrow> joined (the (dependencies st k)) s (contributions st')"
      by (auto simp: same)
    have "all_joined st'"
      unfolding all_joined_def
    proof (intro ballI)
      fix d s0 assume mem: "d \<in> ran (dependencies st')" "s0 \<in> ran (summaries st')"
      then obtain k where k: "dependencies st k = Some d" using fin(2) by (auto simp: same_procedures_def ran_def same)
      then have ks: "k \<in> set (dependenciesByEntry st (entryFact_key (calleeEntry d)))"
        using indexedD(3) [OF ixs(1)] by blast
      from mem(2) fin(2) None consider "s0 = s" | "s0 \<in> ran (summaries st)"
        by (auto simp: same_procedures_def same ran_map_upd)
      then show "joined d s0 (contributions st')"
      proof cases
        case 1
        show ?thesis
          using j [of k] ks k by (cases "calleeEntry d = sum_entry s") (auto simp: 1 joined_def)
      next
        case 2
        with ok(2) k have "joined d s0 (contributions st)" by (auto simp: all_joined_def ran_def)
        then show ?thesis by (rule joined_mono) (use g2 grows_contributions [OF fin(3)] in simp)
      qed
    qed
    moreover have "summary_core s \<in> summary_set st'"
      using fin(2) by (auto simp: summary_set_def same_procedures_def ran_def)
    ultimately show ?thesis
      using fin t2 g2 procedures_tables [OF fin(2)] by (auto simp: tab_ok_def intro: grows_trans)
  qed
qed

end
