(* ===== verification/Tabulation_Sound.thy ===== *)
theory Tabulation_Sound
  imports Tabulation_Tables
begin

text \<open>
  Soundness of the tabulation solver (\<open>goplint/cfa_ifds_tabulation.go\<close>): a finished run is
  closed under the flow rules, and a closed solution covers every interprocedural path whose
  calls and returns match, so a safe verdict speaks for all of them.
\<close>

section \<open>The flow rules\<close>

definition leaving :: "('n, 'e) tabConfig \<Rightarrow> interprocNodeID \<Rightarrow> interprocEdge set" where
  "leaving cfg n = {e \<in> set (Edges (graph cfg)). node_Key (From e) = node_Key n}"

definition has_returns :: "('n, 'e) tabConfig \<Rightarrow> interprocNodeID \<Rightarrow> bool" where
  "has_returns cfg n \<longleftrightarrow> (\<exists>e\<in>leaving cfg n. EdgeKind e = interprocEdgeReturn)"

definition returnsOf :: "('n, 'e) tabConfig \<Rightarrow> string \<Rightarrow> string \<Rightarrow> interprocEdge set" where
  "returnsOf cfg site callee =
     {e \<in> set (Edges (graph cfg)). EdgeKind e = interprocEdgeReturn \<and> CallSite e = site \<and> FuncKey (From e) = callee}"

text \<open>A fact in front of a node makes the solver record a candidate result.\<close>

definition observes :: "('n, 'e) tabConfig \<Rightarrow> interprocNodeID \<Rightarrow> protocolAbstractState \<Rightarrow> bool" where
  "observes cfg n s \<longleftrightarrow>
     blockedByReason cfg n s \<or> unsafeUnaliased cfg n (nodeState cfg n s) \<or>
     relevantUncertainty cfg n (nodeState cfg n s) (\<not> has_returns cfg n) \<or> unsafeAtNode cfg n (nodeState cfg n s)"

text \<open>
  The paths of the program: a configuration is a node, the fact in front of it and the stack
  of open calls (call site and callee).  A return edge is taken only to the call site on top.
\<close>

inductive reaches ::
  "('n, 'e) tabConfig \<Rightarrow> (string \<times> string) list \<Rightarrow> interprocNodeID \<Rightarrow> protocolAbstractState \<Rightarrow> bool"
  for cfg where
  begin_run: "reaches cfg [] (start cfg) (pe_state (rootPathEdge cfg))"
| local_step: "reaches cfg stack n s \<Longrightarrow> \<not> has_returns cfg n \<Longrightarrow> edge \<in> leaving cfg n \<Longrightarrow>
    EdgeKind edge \<noteq> interprocEdgeCall \<Longrightarrow> \<not> pruned cfg edge (nodeState cfg n s) \<Longrightarrow>
    reaches cfg stack (To edge) (nextState cfg n edge (nodeState cfg n s))"
| call_step: "reaches cfg stack n s \<Longrightarrow> \<not> has_returns cfg n \<Longrightarrow> edge \<in> leaving cfg n \<Longrightarrow>
    EdgeKind edge = interprocEdgeCall \<Longrightarrow> \<not> pruned cfg edge (nodeState cfg n s) \<Longrightarrow>
    reaches cfg ((CallSite edge, FuncKey (To edge)) # stack) (To edge) (edgeState cfg edge (nodeState cfg n s))"
| return_step: "reaches cfg ((site, callee) # stack) n s \<Longrightarrow> ret \<in> returnsOf cfg site callee \<Longrightarrow>
    From ret = n \<Longrightarrow> reaches cfg stack (To ret) (nodeState cfg n s)"

inductive_simps reaches_simps: "reaches cfg stack n s"
inductive_cases reaches_rootE: "reaches cfg [] n s"

type_synonym waiting =
  "interprocEntryFact \<times> interprocNodeID \<times> interprocEntryFact \<times> string \<times> interprocNodeID \<times> interprocConditionalEdgeFunc"

text \<open>Sets of contributions, dependencies and summaries closed under the rules of the solver.\<close>

locale tabulation_closure =
  fixes cfg :: "('n, 'e) tabConfig" and C :: "contribution set" and D :: "waiting set" and S :: "contribution set"
  assumes clean: "(f, n, s, e) \<in> C \<Longrightarrow> \<not> observes cfg n s"
    and exit_rule: "(f, n, s, e) \<in> C \<Longrightarrow> has_returns cfg n \<Longrightarrow>
      (f, n, nodeState cfg n s, effect_then e (nodeTag cfg n s)) \<in> S"
    and local_rule: "(f, n, s, e) \<in> C \<Longrightarrow> \<not> has_returns cfg n \<Longrightarrow> edge \<in> leaving cfg n \<Longrightarrow>
      EdgeKind edge \<noteq> interprocEdgeCall \<Longrightarrow> \<not> pruned cfg edge (nodeState cfg n s) \<Longrightarrow>
      (f, To edge, nextState cfg n edge (nodeState cfg n s),
        edgeEffect cfg edge (nodeState cfg n s) (effect_then e (nodeTag cfg n s))) \<in> C"
    and call_rule: "(f, n, s, e) \<in> C \<Longrightarrow> \<not> has_returns cfg n \<Longrightarrow> edge \<in> leaving cfg n \<Longrightarrow>
      EdgeKind edge = interprocEdgeCall \<Longrightarrow> \<not> pruned cfg edge (nodeState cfg n s) \<Longrightarrow>
      es = edgeState cfg edge (nodeState cfg n s) \<Longrightarrow>
      (\<lparr>fact_node = To edge, fact_state = es\<rparr>, To edge, es, identityInterprocConditionalEdgeFunc) \<in> C"
    and wait_rule: "(f, n, s, e) \<in> C \<Longrightarrow> \<not> has_returns cfg n \<Longrightarrow> edge \<in> leaving cfg n \<Longrightarrow>
      EdgeKind edge = interprocEdgeCall \<Longrightarrow> \<not> pruned cfg edge (nodeState cfg n s) \<Longrightarrow>
      es = edgeState cfg edge (nodeState cfg n s) \<Longrightarrow> ret \<in> returnsOf cfg (CallSite edge) (FuncKey (To edge)) \<Longrightarrow>
      (\<lparr>fact_node = To edge, fact_state = es\<rparr>, From ret, f, CallSite edge, To ret,
        edgeEffect cfg edge (nodeState cfg n s) (effect_then e (nodeTag cfg n s))) \<in> D"
    and join_rule: "(ce, cx, re, site, rn, ef) \<in> D \<Longrightarrow> (ce, cx, ss, sf) \<in> S \<Longrightarrow>
      (re, rn, ss, effect_thenSummary ef sf) \<in> C"
begin

fun waits :: "interprocEntryFact \<Rightarrow> (string \<times> string) list \<Rightarrow> bool" where
  "waits f [] = True"
| "waits f ((site, callee) # stack) =
     (\<exists>f' e. (\<forall>ret\<in>returnsOf cfg site callee. (f, From ret, f', site, To ret, e) \<in> D) \<and> waits f' stack)"

lemma covers:
  assumes "reaches cfg stack n s" and root: "core (rootPathEdge cfg) \<in> C"
  shows "\<exists>f e. (f, n, s, e) \<in> C \<and> waits f stack"
  using assms(1)
proof induction
  case begin_run
  have "core (rootPathEdge cfg) = (pe_entry (rootPathEdge cfg), start cfg, pe_state (rootPathEdge cfg),
      pe_edgeFunction (rootPathEdge cfg))"
    by (simp add: core_def rootPathEdge_def Let_def)
  with root show ?case by (metis waits.simps(1))
next
  case (local_step stack n s edge)
  then show ?case using local_rule by blast
next
  case (call_step stack n s edge)
  then obtain f e where f: "(f, n, s, e) \<in> C" "waits f stack" by blast
  with call_step call_rule [OF f(1)] wait_rule [OF f(1)] show ?case by fastforce
next
  case (return_step site callee stack n s ret)
  then obtain f e f' e' where f: "(f, n, s, e) \<in> C" and w: "waits f' stack"
    and d: "\<forall>ret\<in>returnsOf cfg site callee. (f, From ret, f', site, To ret, e') \<in> D" by auto
  have "has_returns cfg n"
    using return_step by (auto simp: has_returns_def leaving_def returnsOf_def)
  from exit_rule [OF f this] d return_step.hyps join_rule w show ?case by blast
qed

lemma never_observed: "reaches cfg stack n s \<Longrightarrow> core (rootPathEdge cfg) \<in> C \<Longrightarrow> \<not> observes cfg n s"
  using covers clean by blast

end

section \<open>A finished run is closed\<close>

definition followed ::
  "('n, 'e) tabConfig \<Rightarrow> ('n, 'e) tabState \<Rightarrow> interprocEntryFact \<Rightarrow> protocolAbstractState \<Rightarrow>
   interprocNodeID \<Rightarrow> interprocConditionalEdgeFunc \<Rightarrow> interprocEdge \<Rightarrow> bool" where
  "followed cfg st f ns n ne edge \<longleftrightarrow>
     (EdgeKind edge \<noteq> interprocEdgeReturn \<longrightarrow> \<not> pruned cfg edge ns \<longrightarrow>
      (if EdgeKind edge = interprocEdgeCall then
         (\<lparr>fact_node = To edge, fact_state = edgeState cfg edge ns\<rparr>, To edge, edgeState cfg edge ns,
            identityInterprocConditionalEdgeFunc) \<in> contributions st \<and>
         (\<forall>ret\<in>returnsOf cfg (CallSite edge) (FuncKey (To edge)).
            (\<lparr>fact_node = To edge, fact_state = edgeState cfg edge ns\<rparr>, From ret, f, CallSite edge, To ret,
              edgeEffect cfg edge ns ne) \<in> dependency_set st)
       else (f, To edge, nextState cfg n edge ns, edgeEffect cfg edge ns ne) \<in> contributions st))"

definition left_by :: "('n, 'e) tabConfig \<Rightarrow> ('n, 'e) tabState \<Rightarrow> contribution \<Rightarrow> bool" where
  "left_by cfg st c = (case c of (f, n, s, e) \<Rightarrow>
     let ns = nodeState cfg n s; ne = effect_then e (nodeTag cfg n s) in
     if has_returns cfg n then (f, n, ns, ne) \<in> summary_set st
     else \<forall>edge\<in>leaving cfg n. followed cfg st f ns n ne edge)"

definition handled :: "('n, 'e) tabConfig \<Rightarrow> ('n, 'e) tabState \<Rightarrow> contribution \<Rightarrow> bool" where
  "handled cfg st c \<longleftrightarrow> \<not> observes cfg (fst (snd c)) (fst (snd (snd c))) \<and> left_by cfg st c"

lemma followed_grows: "followed cfg st f ns n ne edge \<Longrightarrow> grows st st' \<Longrightarrow> followed cfg st' f ns n ne edge"
  by (auto simp: followed_def grows_def subset_iff)

lemma handled_grows: "handled cfg st c \<Longrightarrow> grows st st' \<Longrightarrow> handled cfg st' c"
  using followed_grows [of cfg st _ _ _ _ _ st']
  by (auto simp: handled_def left_by_def Let_def grows_def subset_iff split: prod.splits if_splits)

text \<open>Graphs whose keys can be told apart, and a solver run without test hooks or discharges.\<close>

definition graph_wf :: "('n, 'e) tabConfig \<Rightarrow> bool" where
  "graph_wf cfg \<longleftrightarrow> node_wf (start cfg) \<and>
     (\<forall>e\<in>set (Edges (graph cfg)). node_wf (From e) \<and> node_wf (To e) \<and> CHR ''='' \<notin> set (CallSite e))"

definition plain_run :: "('n, 'e) tabConfig \<Rightarrow> bool" where
  "plain_run cfg \<longleftrightarrow> graph_wf cfg \<and> dischargedWitnesses cfg = [] \<and> injectSummary cfg = None"

definition solving :: "('n, 'e) tabState \<Rightarrow> bool" where
  "solving st \<longleftrightarrow> tab_ok st \<and> all_joined st"

lemma solving_control: "only_control st st' \<Longrightarrow> solving st' = solving st"
  by (simp add: solving_def control_tables)

lemma enqueue_solving:
  assumes "solving st" "pathEdge_wf e" "enqueue cfg e st = (True, st')"
  shows "solving st' \<and> grows st st' \<and> core e \<in> contributions st'"
proof -
  have "edges_ok st" using assms(1) by (simp add: solving_def tab_ok_def)
  from enqueue_ok [OF this assms(2,3)]
  have e: "edges_ok st'" "grows st st'" "core e \<in> contributions st'" "same_procedures st st'" by auto
  have "all_joined st'"
    unfolding all_joined_def
  proof (intro ballI)
    fix d s assume "d \<in> ran (dependencies st')" "s \<in> ran (summaries st')"
    with assms(1) e(4) have "joined d s (contributions st)"
      by (simp add: solving_def all_joined_def same_procedures_def)
    then show "joined d s (contributions st')" using grows_contributions [OF e(2)] by (rule joined_mono)
  qed
  with e assms(1) procedures_tables [OF e(4)] show ?thesis by (simp add: solving_def tab_ok_def)
qed

lemma polled_chain:
  assumes run: "for_each (\<lambda>st x. case checkpoint cfg p w st of (ok, st') \<Rightarrow>
      if \<not> ok then (False, st') else f x st') st xs = (True, st')"
    and "solving st"
    and step: "\<And>x s s'. x \<in> set xs \<Longrightarrow> solving s \<Longrightarrow> f x s = (True, s') \<Longrightarrow> solving s' \<and> grows s s' \<and> Q x s'"
    and stable: "\<And>x s s'. Q x s \<Longrightarrow> grows s s' \<Longrightarrow> Q x s'"
  shows "solving st' \<and> grows st st' \<and> (\<forall>x\<in>set xs. Q x st')"
proof (rule for_each_chain [OF run, where I = solving and R = grows and Q = Q])
  fix x s s'
  assume x: "x \<in> set xs" "solving s"
    and f: "(case checkpoint cfg p w s of (ok, st') \<Rightarrow> if \<not> ok then (False, st') else f x st') = (True, s')"
  obtain ok s0 where c: "checkpoint cfg p w s = (ok, s0)" by force
  note oc = checkpointD(1) [OF c]
  from x f c step [OF x(1), of s0 s'] show "solving s' \<and> grows s s' \<and> Q x s'"
    using solving_control [OF oc] control_tables(3) [OF oc] by (auto split: if_splits intro: grows_trans)
qed (use \<open>solving st\<close> stable in \<open>auto intro: grows_trans\<close>)

lemma pollEach_clock: "only_control st (st\<lparr>clock := t\<rparr>)"
  by simp

lemma returnEdgesForCall_set:
  "returnEdgesForCallWithControl (graph cfg) site callee d t = (rets, False, t') \<Longrightarrow> set rets = returnsOf cfg site callee"
  by (auto simp: returnEdgesForCallWithControl_def returnsOf_def split: prod.splits if_splits)

lemma outgoing_set:
  "outgoingWithControl (graph cfg) n d t = (out, False, t') \<Longrightarrow> set out = leaving cfg n"
  by (auto simp: outgoingWithControl_def leaving_def split: prod.splits if_splits)

lemma returnEdgesFrom_set:
  "returnEdgesFromWithControl (graph cfg) n d t = (rets, False, t') \<Longrightarrow> rets = [] \<longleftrightarrow> \<not> has_returns cfg n"
  using outgoing_set [of cfg n d t]
  by (auto simp: returnEdgesFromWithControl_def has_returns_def filter_empty_conv split: prod.splits if_splits)

lemma followEdge_ok:
  assumes st: "solving st" and wf: "graph_wf cfg" "pathEdge_wf snap" and edge: "edge \<in> leaving cfg (pe_node snap)"
    and run: "followEdge cfg snap ns ne st edge = (True, st')" and none: "budgetResult st' = None"
  shows "solving st' \<and> grows st st' \<and> followed cfg st' (pe_entry snap) ns (pe_node snap) ne edge"
proof -
  obtain ok st0 where c: "checkpoint cfg (pe_path snap) (pe_witness snap) st = (ok, st0)" by force
  note oc = checkpointD(1) [OF c]
  have ok: ok using run by (auto simp: followEdge_def c split: if_splits)
  have s0: "solving st0" "grows st st0" using st solving_control [OF oc] control_tables(3) [OF oc] by auto
  have nodes: "node_wf (To edge)" "CHR ''='' \<notin> set (CallSite edge)" "fact_wf (pe_entry snap)"
    using wf edge by (auto simp: graph_wf_def leaving_def pathEdge_wf_def)
  let ?es = "edgeState cfg edge ns" and ?ef = "edgeEffect cfg edge ns ne"
  let ?p = "appendWitnessBlock (pe_path snap) (BlockIndex (To edge))"
  let ?w = "appendInterprocWitnessEdge (pe_witness snap) edge (pe_state snap) ?es
    (interprocTransitionTag (pe_state snap) ?es)"
  consider "EdgeKind edge = interprocEdgeReturn \<or> pruned cfg edge ns"
    | "EdgeKind edge \<noteq> interprocEdgeReturn" "\<not> pruned cfg edge ns" "EdgeKind edge = interprocEdgeCall"
    | "EdgeKind edge \<noteq> interprocEdgeReturn" "\<not> pruned cfg edge ns" "EdgeKind edge \<noteq> interprocEdgeCall" by blast
  then show ?thesis
  proof cases
    case 1
    then have "st' = st0" using run ok by (auto simp: followEdge_def c split: if_splits)
    with 1 s0 show ?thesis by (auto simp: followed_def)
  next
    case 2
    let ?dep = "callDependency snap edge ?es ?ef ?p ?w"
    let ?new = "\<lparr>pe_entry = \<lparr>fact_node = To edge, fact_state = ?es\<rparr>, pe_node = To edge, pe_state = ?es,
      pe_edgeFunction = identityInterprocConditionalEdgeFunc, pe_path = [BlockIndex (To edge)], pe_witness = []\<rparr>"
    obtain rets expired t where q: "returnEdgesForCallWithControl (graph cfg) (CallSite edge) (FuncKey (To edge))
      (control cfg) (clock st0) = (rets, expired, t)" by (metis prod_cases3)
    let ?body = "\<lambda>st ret. case checkpoint cfg ?p ?w st of (ok, st') \<Rightarrow> if \<not> ok then (False, st')
      else registerDependency cfg (?dep ret) st'"
    obtain ok2 st2 where f: "for_each ?body (st0\<lparr>clock := t\<rparr>) rets = (ok2, st2)" by force
    obtain ok3 st3 where e: "enqueue cfg ?new st2 = (ok3, st3)" by force
    have st': "st' = st3" "\<not> expired" "budgetResult st2 = None"
      using run ok 2 by (auto simp: followEdge_def c q f e Let_def split: if_splits)
    have ok3: ok3 using none enqueue_stops [of cfg ?new st2 st3] e st'(1) by (cases ok3) auto
    have ok2: ok2
    proof (rule ccontr)
      assume "\<not> ok2"
      with f have "for_each ?body (st0\<lparr>clock := t\<rparr>) rets = (False, st2)" by simp
      then have "budgetResult st2 \<noteq> None"
        by (rule loop_stops [rotated]) (erule polled_stops [rotated], metis registerDependency_stops prod.collapse)
      with st'(3) show False by simp
    qed
    have rets: "set rets = returnsOf cfg (CallSite edge) (FuncKey (To edge))"
      using returnEdgesForCall_set q st'(2) by simp
    let ?Q = "\<lambda>ret s. dependency_core (?dep ret) \<in> dependency_set s"
    have "solving st2 \<and> grows (st0\<lparr>clock := t\<rparr>) st2 \<and> (\<forall>ret\<in>set rets. ?Q ret st2)"
    proof (rule polled_chain [where Q = ?Q])
      show "for_each ?body (st0\<lparr>clock := t\<rparr>) rets = (True, st2)" using f ok2 by simp
      show "solving (st0\<lparr>clock := t\<rparr>)" using s0(1) solving_control [OF pollEach_clock] by blast
    next
      fix ret s s' assume a: "ret \<in> set rets" "solving s" "registerDependency cfg (?dep ret) s = (True, s')"
      then have "dependency_wf (?dep ret)"
        using wf nodes rets by (auto simp: dependency_wf_def callDependency_def fact_wf_def returnsOf_def graph_wf_def)
      from registerDependency_ok [OF _ _ this a(3)] a(2)
      show "solving s' \<and> grows s s' \<and> ?Q ret s'" by (simp add: solving_def)
    qed (auto simp: grows_def)
    moreover have "pathEdge_wf ?new" using nodes by (simp add: pathEdge_wf_def fact_wf_def)
    moreover have "grows st0 (st0\<lparr>clock := t\<rparr>)" by (rule control_tables(3)) simp
    moreover note en = enqueue_solving [OF _ calculation(2), of st2 cfg st3]
    ultimately have fin: "solving st3" "grows st st3" "grows st2 st3" "core ?new \<in> contributions st3"
      and deps: "\<forall>ret\<in>set rets. ?Q ret st2"
      using e ok3 s0(2) by (auto intro: grows_trans)
    have "\<forall>ret\<in>set rets. ?Q ret st3" using deps fin(3) by (auto simp: grows_def)
    with fin rets 2 show ?thesis
      by (simp add: st' followed_def core_def dependency_core_def callDependency_def)
  next
    case 3
    let ?new = "\<lparr>pe_entry = pe_entry snap, pe_node = To edge, pe_state = nextState cfg (pe_node snap) edge ns,
      pe_edgeFunction = ?ef, pe_path = ?p, pe_witness =
        (if unresolvedHere cfg (pe_node snap) edge ns
         then setLastStateAfter ?w (nextState cfg (pe_node snap) edge ns) else ?w)\<rparr>"
    have e: "enqueue cfg ?new st0 = (True, st')" using run ok 3 by (auto simp: followEdge_def c Let_def)
    have "pathEdge_wf ?new" using nodes by (simp add: pathEdge_wf_def)
    from enqueue_solving [OF s0(1) this e] s0(2) 3 show ?thesis
      by (auto simp: followed_def core_def intro: grows_trans)
  qed
qed

lemma followEdge_kept: "followEdge cfg snap ns ne s x = (go, s') \<Longrightarrow> budgetResult s' = None \<Longrightarrow> budgetResult s = None"
  using budget_kept.followEdge_P [of s cfg snap ns ne x] by fastforce

lemma followEdge_stops: "followEdge cfg snap ns ne st edge = (False, st') \<Longrightarrow> budgetResult st' \<noteq> None"
  by (auto simp: followEdge_def Let_def dest: checkpointD(3) enqueue_stops split: prod.splits if_splits)

lemma leaveNode_ok:
  assumes st: "solving st" and wf: "graph_wf cfg" "pathEdge_wf snap" "injectSummary cfg = None"
    and rets: "rets = [] \<longleftrightarrow> \<not> has_returns cfg (pe_node snap)"
    and run: "leaveNode cfg snap rets st = (go, st')" and none: "budgetResult st' = None"
  shows "solving st' \<and> grows st st' \<and> left_by cfg st' (core snap)"
proof -
  let ?n = "pe_node snap" and ?t = "nodeTag cfg (pe_node snap) (pe_state snap)"
  let ?ns = "nodeState cfg ?n (pe_state snap)"
  let ?ne = "effect_then (pe_edgeFunction snap) ?t"
  show ?thesis
  proof (cases "rets = []")
    case False
    have p: "publishSummary cfg (exitSummary snap ?ns ?ne ?t) st = (go, st')"
      using run False by (simp add: leaveNode_def Let_def)
    have go: "go = True" using none p publishSummary_stops [of cfg _ st st'] by (cases go) auto
    have "summary_wf (exitSummary snap ?ns ?ne ?t)"
      using wf(2) by (simp add: summary_wf_def exitSummary_def pathEdge_wf_def)
    from publishSummary_ok [OF _ _ this wf(3) p [unfolded go]] st False rets show ?thesis
      by (simp add: solving_def left_by_def core_def summary_core_def exitSummary_def)
  next
    case True
    obtain out expired t where q: "outgoingWithControl (graph cfg) ?n (control cfg) (clock st) = (out, expired, t)"
      by (metis prod_cases3)
    obtain ok2 st2 where f: "for_each (followEdge cfg snap ?ns ?ne) (st\<lparr>clock := t\<rparr>) out = (ok2, st2)" by force
    have st': "st' = st2" "\<not> expired"
      using run True none by (auto simp: leaveNode_def Let_def q f split: if_splits)
    have out: "set out = leaving cfg ?n" using outgoing_set q st'(2) by simp
    have ok2: "ok2 = True"
    proof (rule ccontr)
      assume "ok2 \<noteq> True"
      with f have "for_each (followEdge cfg snap ?ns ?ne) (st\<lparr>clock := t\<rparr>) out = (False, st2)" by simp
      then have "budgetResult st2 \<noteq> None"
        by (rule loop_stops [rotated]) (metis followEdge_stops prod.collapse)
      with none st'(1) show False by simp
    qed
    let ?I = "\<lambda>s. budgetResult s = None \<longrightarrow> solving s"
    let ?R = "\<lambda>s s'. budgetResult s' = None \<longrightarrow> budgetResult s = None \<and> grows s s'"
    let ?Q = "\<lambda>x s. budgetResult s = None \<longrightarrow> followed cfg s (pe_entry snap) ?ns ?n ?ne x"
    have "?I st2 \<and> ?R (st\<lparr>clock := t\<rparr>) st2 \<and> (\<forall>x\<in>set out. ?Q x st2)"
    proof (rule for_each_chain [OF f [unfolded ok2], where I = ?I and R = ?R and Q = ?Q])
      show "?I (st\<lparr>clock := t\<rparr>)" using st solving_control [OF pollEach_clock] by blast
    next
      fix x s s' assume x: "x \<in> set out" and I: "?I s" and r: "followEdge cfg snap ?ns ?ne s x = (True, s')"
      have "budgetResult s' = None \<Longrightarrow> solving s' \<and> budgetResult s = None \<and> grows s s' \<and>
          followed cfg s' (pe_entry snap) ?ns ?n ?ne x"
        using followEdge_ok [OF _ wf(1,2) _ r] followEdge_kept [OF r] I x out by blast
      then show "?I s' \<and> ?R s s' \<and> ?Q x s'" by blast
    qed (auto intro: grows_trans followed_grows)
    with none st' have "solving st'" "grows (st\<lparr>clock := t\<rparr>) st'"
      "\<forall>x\<in>leaving cfg ?n. followed cfg st' (pe_entry snap) ?ns ?n ?ne x" by (auto simp: out)
    moreover have "grows st (st\<lparr>clock := t\<rparr>)" by (rule control_tables(3)) simp
    ultimately show ?thesis
      using True rets by (auto simp: left_by_def core_def Let_def intro: grows_trans)
  qed
qed

definition undecided :: "('n, 'e) tabState \<Rightarrow> bool" where
  "undecided st \<longleftrightarrow> budgetResult st = None \<and> unsafeResult st = None \<and> inconclusiveResult st = None"

lemma record_decides [simp]: "\<not> undecided (recordUnsafe snap st)" "\<not> undecided (recordInconclusive r snap st)"
  by (auto simp: undecided_def recordUnsafe_def recordInconclusive_def preferInterprocResult_def split: option.splits)

lemma leaveNode_decided:
  "leaveNode cfg snap rets st = (go, st') \<Longrightarrow> undecided st' \<Longrightarrow> undecided st"
  using budget_kept.leaveNode_P [of st cfg snap rets] unsafe_kept.leaveNode_P [of st cfg snap rets]
    inconclusive_kept.leaveNode_P [of st cfg snap rets]
  by (cases "budgetResult st"; cases "unsafeResult st"; cases "inconclusiveResult st") (auto simp: undecided_def)

lemma loopBody_decided:
  "loopBody cfg st = (go, st') \<Longrightarrow> undecided st' \<Longrightarrow> undecided st"
  using budget_kept.loopBody_P [of st cfg] unsafe_kept.loopBody_P [of st cfg] inconclusive_kept.loopBody_P [of st cfg]
  by (cases "budgetResult st"; cases "unsafeResult st"; cases "inconclusiveResult st") (auto simp: undecided_def)

lemma processPathEdge_ok:
  assumes st: "solving st" and cfg: "plain_run cfg" and snap: "pathEdge_wf snap"
    and run: "processPathEdge cfg snap st = (go, st')" and none: "undecided st'"
  shows "solving st' \<and> grows st st' \<and> handled cfg st' (core snap)"
proof -
  let ?n = "pe_node snap" and ?s = "pe_state snap"
  let ?ns = "nodeState cfg ?n ?s"
  have nd: "isDischarged cfg snap trig = False" for trig
    using cfg by (simp add: isDischarged_def witnessIsDischarged_def plain_run_def split: option.splits)
  have b: "\<not> blockedByReason cfg ?n ?s"
    using run none by (auto simp: processPathEdge_def nd Let_def split: if_splits)
  define st0 where "st0 = (if ObserveExit cfg \<and> FuncKey ?n = FuncKey (start cfg) \<and> isFunctionExitNode (graph cfg) ?n
    then st\<lparr>observed := observed st @ [(?n, ?ns)]\<rparr> else st)"
  obtain rets expired t where q: "returnEdgesFromWithControl (graph cfg) ?n (control cfg) (clock st0) = (rets, expired, t)"
    by (metis prod_cases3)
  have exp: "\<not> expired"
    using run none b q by (auto simp: processPathEdge_def st0_def [symmetric] Let_def undecided_def split: if_splits)
  have rets: "rets = [] \<longleftrightarrow> \<not> has_returns cfg ?n" using returnEdgesFrom_set q exp by simp
  have l: "leaveNode cfg snap rets (st0\<lparr>clock := t\<rparr>) = (go, st')"
    and no: "\<not> unsafeUnaliased cfg ?n ?ns" "\<not> relevantUncertainty cfg ?n ?ns (rets = [])" "\<not> unsafeAtNode cfg ?n ?ns"
    using run none b q exp leaveNode_decided [of cfg snap rets "recordInconclusive _ snap _" go st']
    by (auto simp: processPathEdge_def st0_def [symmetric] Let_def nd split: if_splits)
  have "solving (st0\<lparr>clock := t\<rparr>)" "grows st (st0\<lparr>clock := t\<rparr>)"
    using st by (auto simp: st0_def solving_def tab_ok_def edges_ok_def tables_ok_def all_joined_def contributions_def
        grows_def dependency_set_def summary_set_def pending_def)
  with leaveNode_ok [OF _ _ snap _ rets l] cfg none
  have "solving st'" "grows st st'" "left_by cfg st' (core snap)"
    by (auto simp: plain_run_def undecided_def intro: grows_trans)
  moreover have "\<not> observes cfg ?n ?s" using no b rets by (auto simp: observes_def)
  ultimately show ?thesis by (simp add: handled_def core_def)
qed

definition loop_inv :: "('n, 'e) tabConfig \<Rightarrow> ('n, 'e) tabState \<Rightarrow> bool" where
  "loop_inv cfg st \<longleftrightarrow> solving st \<and> core (rootPathEdge cfg) \<in> contributions st \<and>
     (\<forall>c\<in>contributions st. pending st c \<or> handled cfg st c)"

lemma take_set: "q \<noteq> [] \<Longrightarrow> takeProtocolWorklist cfg q = (k, r) \<Longrightarrow> set q = insert k (set r)"
proof -
  assume q: "q \<noteq> []" and t: "takeProtocolWorklist cfg q = (k, r)"
  show ?thesis
  proof (cases "worklistOrder cfg = Some protocolWorklistLIFO")
    case True
    with t have "q = r @ [k]" using append_butlast_last_id [OF q] by (auto simp: takeProtocolWorklist_def)
    then show ?thesis by simp
  next
    case False
    with t q show ?thesis by (cases q) (auto simp: takeProtocolWorklist_def)
  qed
qed

lemma loopBody_ok:
  assumes cfg: "plain_run cfg" and q: "queue st \<noteq> []" and inv: "loop_inv cfg st"
    and run: "loopBody cfg st = (go, st')" and none: "undecided st'"
  shows "loop_inv cfg st'"
proof -
  obtain ok st0 where c: "checkpoint cfg [] [] st = (ok, st0)" by force
  note oc = checkpointD(1) [OF c]
  obtain k r where t: "takeProtocolWorklist cfg (queue st0) = (k, r)" by force
  have ok: ok using run none checkpointD(3) [OF c] by (auto simp: loopBody_def c undecided_def split: if_splits)
  have set_q: "set (queue st) = insert k (set r)" using take_set [OF _ t] q only_controlD(3) [OF oc] by simp
  let ?st1 = "st0\<lparr>queue := r\<rparr>"
  have s1: "solving ?st1" "contributions ?st1 = contributions st" "dependency_set ?st1 = dependency_set st"
    "summary_set ?st1 = summary_set st" "pathEdges ?st1 = pathEdges st"
    using inv by (auto simp: loop_inv_def solving_def tab_ok_def edges_ok_def tables_ok_def all_joined_def
        contributions_def dependency_set_def summary_set_def only_controlD [OF oc])
  have handled1: "handled cfg ?st1 x = handled cfg st x" for x
    by (simp add: handled_def left_by_def followed_def s1(2-4))
  have pend1: "pending st x \<Longrightarrow> pending ?st1 x \<or> (\<exists>e. pathEdges st k = Some e \<and> core e = x)" for x
    by (auto simp: pending_def s1(5) set_q)
  show ?thesis
  proof (cases "pathEdges st k")
    case None
    then have "st' = ?st1" using run ok t s1(5) by (auto simp: loopBody_def c Let_def split: option.splits)
    with None pend1 handled1 inv s1 show ?thesis by (auto simp: loop_inv_def)
  next
    case (Some snap)
    then have p: "processPathEdge cfg snap ?st1 = (go, st')"
      using run ok t s1(5) by (auto simp: loopBody_def c Let_def split: option.splits)
    have "pathEdge_wf snap" using inv Some by (auto simp: loop_inv_def solving_def tab_ok_def edges_ok_def)
    from processPathEdge_ok [OF s1(1) cfg this p none]
    have fin: "solving st'" "grows ?st1 st'" "handled cfg st' (core snap)" by auto
    have "pending st' x \<or> handled cfg st' x" if "x \<in> contributions st'" for x
    proof (cases "x \<in> contributions st")
      case True
      with inv pend1 [of x] Some handled1 [of x] have "pending ?st1 x \<or> handled cfg ?st1 x \<or> x = core snap"
        by (auto simp: loop_inv_def)
      moreover have "handled cfg ?st1 x \<Longrightarrow> handled cfg st' x" using fin(2) handled_grows by blast
      moreover have "pending ?st1 x \<Longrightarrow> pending st' x" using fin(2) unfolding grows_def by blast
      ultimately show ?thesis using fin(3) by blast
    next
      case False
      with that fin(2) s1(2) show ?thesis by (auto simp: grows_def)
    qed
    moreover have "core (rootPathEdge cfg) \<in> contributions st'"
      using inv grows_contributions [OF fin(2)] s1(2) by (auto simp: loop_inv_def)
    ultimately show ?thesis using fin(1) by (simp add: loop_inv_def)
  qed
qed

lemma loopBody_stops: "loopBody cfg st = (False, st') \<Longrightarrow> budgetResult st' \<noteq> None"
  by (auto simp: loopBody_def processPathEdge_def leaveNode_def Let_def dest: checkpointD(3) publishSummary_stops
      split: prod.splits if_splits option.splits)

lemma tabulationLoop_ok:
  assumes "plain_run cfg"
  shows "loop_inv cfg st \<Longrightarrow> undecided (tabulationLoop cfg st) \<Longrightarrow>
    loop_inv cfg (tabulationLoop cfg st) \<and> queue (tabulationLoop cfg st) = []"
proof (induction "weight cfg st" arbitrary: st rule: less_induct)
  case less
  show ?case
  proof (cases "queue st \<noteq> [] \<and> budgetResult st = None")
    case False
    then have "tabulationLoop cfg st = st" by (subst tabulationLoop.simps) (simp only: if_False)
    with less.prems False show ?thesis by (auto simp: undecided_def)
  next
    case True
    obtain go st' where b: "loopBody cfg st = (go, st')" by force
    have l: "tabulationLoop cfg st = (if go then tabulationLoop cfg st' else st')"
      using True b by (subst tabulationLoop.simps) simp
    have "go = True"
      using less.prems(2) l b loopBody_stops [of cfg st st'] by (cases go) (auto simp: undecided_def)
    with l b have eq: "tabulationLoop cfg st = tabulationLoop cfg st'" "loopBody cfg st = (True, st')" by simp_all
    have "undecided st'"
      using budget_kept.tabulationLoop_P [of st' cfg] unsafe_kept.tabulationLoop_P [of st' cfg]
        inconclusive_kept.tabulationLoop_P [of st' cfg] less.prems(2)
      by (cases "budgetResult st'"; cases "unsafeResult st'"; cases "inconclusiveResult st'")
        (auto simp: undecided_def eq)
    with loopBody_ok [OF assms _ less.prems(1) eq(2)] True have "loop_inv cfg st'" by simp
    with less.hyps [of st'] loopBody_weight [OF _ eq(2)] True less.prems(2) show ?thesis by (simp add: eq)
  qed
qed

lemma initial_ok:
  assumes "graph_wf cfg" and "enqueue cfg (rootPathEdge cfg) (initialTabState t) = (True, st)"
  shows "loop_inv cfg st"
proof -
  have "solving (initialTabState t)"
    by (simp add: solving_def tab_ok_def edges_ok_def tables_ok_def indexed_def all_joined_def initialTabState_def)
  moreover have "pathEdge_wf (rootPathEdge cfg)"
    using assms(1) by (simp add: pathEdge_wf_def fact_wf_def rootPathEdge_def Let_def graph_wf_def)
  ultimately have st: "solving st" "grows (initialTabState t) st" "core (rootPathEdge cfg) \<in> contributions st"
    using enqueue_solving assms(2) by blast+
  then show ?thesis
    by (auto simp: loop_inv_def grows_def contributions_def initialTabState_def)
qed

lemma final_ok:
  assumes "plain_run cfg" and "undecided (finalTabState cfg t)"
  shows "loop_inv cfg (finalTabState cfg t) \<and> queue (finalTabState cfg t) = []"
proof -
  obtain go st where e: "enqueue cfg (rootPathEdge cfg) (initialTabState t) = (go, st)" by force
  have "budgetResult st = None"
    using budget_kept.tabulationLoop_P [of st cfg] assms(2)
    by (cases "budgetResult st") (auto simp: undecided_def finalTabState_def e)
  then have "go = True" using enqueue_stops [of cfg "rootPathEdge cfg" "initialTabState t" st] e by (cases go) auto
  with e initial_ok [of cfg t st] assms tabulationLoop_ok [OF assms(1), of st] show ?thesis
    by (simp add: finalTabState_def plain_run_def)
qed

text \<open>
  The sets a decided run computes; a run that ends with a result of its own computes none.
\<close>

definition solved :: "('n, 'e) tabConfig \<Rightarrow> nat \<Rightarrow> bool" where
  "solved cfg t \<longleftrightarrow> plain_run cfg \<and> undecided (finalTabState cfg t)"

definition solvedContributions :: "('n, 'e) tabConfig \<Rightarrow> nat \<Rightarrow> contribution set" where
  "solvedContributions cfg t = (if solved cfg t then contributions (finalTabState cfg t) else {})"

definition solvedDependencies :: "('n, 'e) tabConfig \<Rightarrow> nat \<Rightarrow> waiting set" where
  "solvedDependencies cfg t = (if solved cfg t then dependency_set (finalTabState cfg t) else {})"

definition solvedSummaries :: "('n, 'e) tabConfig \<Rightarrow> nat \<Rightarrow> contribution set" where
  "solvedSummaries cfg t = (if solved cfg t then summary_set (finalTabState cfg t) else {})"

lemma final_handled:
  assumes "c \<in> solvedContributions cfg t" shows "solved cfg t \<and> handled cfg (finalTabState cfg t) c"
  using assms final_ok [of cfg t]
  by (auto simp: solvedContributions_def solved_def loop_inv_def pending_def split: if_splits)

lemma final_joined:
  assumes "solved cfg t" shows "all_joined (finalTabState cfg t)"
  using assms final_ok [of cfg t] by (simp add: solved_def loop_inv_def solving_def)

interpretation solution: tabulation_closure cfg "solvedContributions cfg t" "solvedDependencies cfg t" "solvedSummaries cfg t"
proof unfold_locales
  fix f n s e assume c: "(f, n, s, e) \<in> solvedContributions cfg t"
  note h = final_handled [OF c]
  show "\<not> observes cfg n s" using h by (simp add: handled_def)
  show "(f, n, nodeState cfg n s, effect_then e (nodeTag cfg n s)) \<in> solvedSummaries cfg t" if "has_returns cfg n"
    using h that by (simp add: handled_def left_by_def solvedSummaries_def)
  fix edge assume l: "\<not> has_returns cfg n" "edge \<in> leaving cfg n" and p: "\<not> pruned cfg edge (nodeState cfg n s)"
  then have fo: "followed cfg (finalTabState cfg t) f (nodeState cfg n s) n (effect_then e (nodeTag cfg n s)) edge"
    and nr: "EdgeKind edge \<noteq> interprocEdgeReturn"
    using h by (auto simp: handled_def left_by_def Let_def has_returns_def)
  show "(f, To edge, nextState cfg n edge (nodeState cfg n s),
      edgeEffect cfg edge (nodeState cfg n s) (effect_then e (nodeTag cfg n s))) \<in> solvedContributions cfg t"
    if "EdgeKind edge \<noteq> interprocEdgeCall"
    using fo nr p that h by (simp add: followed_def solvedContributions_def)
  fix es assume k: "EdgeKind edge = interprocEdgeCall" "es = edgeState cfg edge (nodeState cfg n s)"
  show "(\<lparr>fact_node = To edge, fact_state = es\<rparr>, To edge, es, identityInterprocConditionalEdgeFunc) \<in> solvedContributions cfg t"
    using fo nr p k h by (simp add: followed_def solvedContributions_def)
  show "(\<lparr>fact_node = To edge, fact_state = es\<rparr>, From ret, f, CallSite edge, To ret,
      edgeEffect cfg edge (nodeState cfg n s) (effect_then e (nodeTag cfg n s))) \<in> solvedDependencies cfg t"
    if "ret \<in> returnsOf cfg (CallSite edge) (FuncKey (To edge))" for ret
    using fo nr p k h that by (simp add: followed_def solvedDependencies_def)
next
  fix ce cx re site rn ef ss sf
  assume "(ce, cx, re, site, rn, ef) \<in> solvedDependencies cfg t" "(ce, cx, ss, sf) \<in> solvedSummaries cfg t"
  then obtain d s where d: "d \<in> ran (dependencies (finalTabState cfg t))" "dependency_core d = (ce, cx, re, site, rn, ef)"
    and s: "s \<in> ran (summaries (finalTabState cfg t))" "summary_core s = (ce, cx, ss, sf)" and ok: "solved cfg t"
    by (auto simp: solvedDependencies_def solvedSummaries_def dependency_set_def summary_set_def split: if_splits)
  have "joined d s (contributions (finalTabState cfg t))"
    using final_joined [OF ok] d(1) s(1) by (simp add: all_joined_def)
  with d(2) s(2) ok show "(re, rn, ss, effect_thenSummary ef sf) \<in> solvedContributions cfg t"
    by (simp add: joined_def dependency_core_def summary_core_def solvedContributions_def)
qed

section \<open>A safe verdict\<close>

lemma finish_safe:
  assumes "classes_ok st" and "Class (finishTabulation cfg st) = interprocOutcomeSafe"
  shows "undecided st"
proof -
  have distinct: "interprocOutcomeSafe \<noteq> interprocOutcomeInconclusive" "interprocOutcomeSafe \<noteq> interprocOutcomeUnsafe"
    by (simp_all add: go_const)
  define st1 where "st1 = (if budgetResult st = None then snd (checkpoint cfg [] [] st) else st)"
  obtain ok st0 where c: "checkpoint cfg [] [] st = (ok, st0)" by force
  have oc: "only_control st st1" using checkpointD(1) [OF c] by (simp add: st1_def c)
  then have "classes_ok st1" using assms(1) outcome_class.control by blast
  moreover have "Class (if WitnessEdges r \<noteq> [] then r\<lparr>witnessGraph := g\<rparr> else r) = Class r"
    for r :: "('a, 'b) interprocPathResult" and g by simp
  ultimately have "undecided st1"
    using assms(2) distinct
    by (cases "budgetResult st1"; cases "unsafeResult st1"; cases "inconclusiveResult st1")
      (simp_all add: finishTabulation_def st1_def [symmetric] classes_ok_def undecided_def)
  with only_control_outcome(1) [OF oc] only_controlD [OF oc] show ?thesis
    by (cases "budgetResult st") (auto simp: undecided_def)
qed

lemma safe_run_solved:
  assumes "plain_run cfg" and "Class (fst (runIFDSPropagationWithStatsOptions cfg t)) = interprocOutcomeSafe"
  shows "\<exists>t'. solved cfg t'"
proof -
  obtain expired t' where d: "feasibilityDeadlineReached (control cfg) t = (expired, t')" by force
  from assms(2) have "Class (finishTabulation cfg (finalTabState cfg t')) = interprocOutcomeSafe"
    by (auto simp: runIFDSPropagationWithStatsOptions_def d Let_def go_const interprocPathResultFromOutcome_def
        interprocOutcomeClassFromPathOutcome_def split: if_splits)
  moreover have "classes_ok (finalTabState cfg t')"
    by (rule outcome_class.finalTabState_P) (simp add: classes_ok_def initialTabState_def)
  ultimately show ?thesis using assms(1) finish_safe by (auto simp: solved_def)
qed

text \<open>
  C1. A safe verdict covers every path.  When a run without discharged witnesses ends with
  the class safe, then along every path of the supergraph whose calls and returns match, of
  any length and any call depth, and with the facts the transfer functions give: no node is
  unsafe with the fact after it, no node carries a relevant uncertainty, and no transfer
  blocks with a reason that has no possible effect.  The budget, the timeout, the antichain
  limit and the deduplication by keys therefore never turn an unexplored path into a safe
  verdict.
\<close>

theorem safe_verdict_covers_all_paths:
  assumes "plain_run cfg" and "Class (fst (runIFDSPropagationWithStatsOptions cfg t)) = interprocOutcomeSafe"
    and "reaches cfg stack n s"
  shows "\<not> unsafeAtNode cfg n (nodeState cfg n s) \<and>
    \<not> relevantUncertainty cfg n (nodeState cfg n s) (\<not> has_returns cfg n) \<and> \<not> blockedByReason cfg n s"
proof -
  obtain t' where t': "solved cfg t'" using safe_run_solved [OF assms(1,2)] by blast
  then have "core (rootPathEdge cfg) \<in> solvedContributions cfg t'"
    using final_ok [of cfg t'] by (simp add: solved_def loop_inv_def solvedContributions_def)
  then have "\<not> observes cfg n s" by (rule solution.never_observed [OF assms(3)])
  then show ?thesis by (simp add: observes_def)
qed

text \<open>
  A call of a function that validates, and a use after it: the caller's fact is only proven
  through the callee's summary.
\<close>

definition callNode :: interprocNodeID where "callNode = (sampleNode ''main'')\<lparr>NodeKind := interprocNodeKindCall\<rparr>"
definition calleeNode :: interprocNodeID where "calleeNode = sampleNode ''check''"
definition useNode :: interprocNodeID where "useNode = (sampleNode ''main'')\<lparr>BlockIndex := 1\<rparr>"

definition sampleEdge :: "interprocNodeID \<Rightarrow> interprocNodeID \<Rightarrow> string \<Rightarrow> interprocEdge" where
  "sampleEdge a b k = \<lparr>From = a, To = b, EdgeKind = k, CallSite = ''site'', Reason = [], PredicateProvenance = []\<rparr>"

definition validatingCall :: "(unit, unit) tabConfig" where
  "validatingCall =
     \<lparr>graph = newInterprocSupergraph\<lparr>Nodes := [node_Key callNode \<mapsto> callNode],
        Edges := [sampleEdge callNode calleeNode interprocEdgeCall, sampleEdge calleeNode useNode interprocEdgeReturn]\<rparr>,
      start = callNode, maxStates = 0, dischargedWitnesses = [], witnessHash = None,
      transfer = (\<lambda>n _ _. (if n = calleeNode then ideEdgeFuncValidate else ideEdgeFuncIdentity, [])),
      terminalUnsafe = (\<lambda>n _ s. n = useNode \<and> validationRequired s), unresolvedCallRelevant = None,
      obligationSink = None,
      sinkPolicy = \<lparr>TerminalCanObserve = True, UnresolvedIdentityAtSink = False, MustAliasUncertaintyAtSink = False\<rparr>,
      edgeTransfer = None, control = None, worklistOrder = None, InitialState = None, ObserveExit = False,
      PruneEdge = None, injectSummary = None, injectReason = None\<rparr>"

lemma validatingCall_safe: "Class (fst (runIFDSPropagationWithStatsOptions validatingCall 0)) = interprocOutcomeSafe"
  by code_simp

lemma validatingCall_plain: "plain_run validatingCall"
  by (simp add: plain_run_def graph_wf_def validatingCall_def newInterprocSupergraph_def sampleEdge_def node_wf_def
      callNode_def calleeNode_def useNode_def sampleNode_def go_const)

lemma validatingCall_edges:
  "\<not> has_returns validatingCall callNode"
  "sampleEdge callNode calleeNode interprocEdgeCall \<in> leaving validatingCall callNode"
  "sampleEdge calleeNode useNode interprocEdgeReturn \<in> returnsOf validatingCall ''site'' (FuncKey calleeNode)"
  by code_simp+

definition provenState :: protocolAbstractState where
  "provenState = nodeState validatingCall calleeNode
     (edgeState validatingCall (sampleEdge callNode calleeNode interprocEdgeCall)
       (nodeState validatingCall callNode newProtocolRequiredState))"

lemma validatingCall_path: "reaches validatingCall [] useNode provenState"
proof -
  let ?call = "sampleEdge callNode calleeNode interprocEdgeCall"
  have "pe_state (rootPathEdge validatingCall) = newProtocolRequiredState" "start validatingCall = callNode"
    by (simp_all add: rootPathEdge_def validatingCall_def ideStateNeedsValidate_def)
  with begin_run [of validatingCall] have "reaches validatingCall [] callNode newProtocolRequiredState" by simp
  from call_step [OF this validatingCall_edges(1,2)]
  have "reaches validatingCall [(''site'', FuncKey calleeNode)] calleeNode
      (edgeState validatingCall ?call (nodeState validatingCall callNode newProtocolRequiredState))"
    by (simp add: sampleEdge_def pruned_def validatingCall_def)
  from return_step [OF this validatingCall_edges(3)] show ?thesis
    by (simp add: provenState_def) (simp add: sampleEdge_def)
qed

theorem safe_verdict_covers_all_paths_witness:
  "validationProven provenState \<and> \<not> unsafeAtNode validatingCall useNode (nodeState validatingCall useNode provenState)"
  using safe_verdict_covers_all_paths [OF validatingCall_plain validatingCall_safe validatingCall_path]
  by (auto simp: provenState_def) code_simp

end
