(* ===== verification/Constraints.thy ===== *)
theory Constraints
  imports Supergraph
begin

text \<open>
  The SSA constraint fragment of the feasibility check (\<open>goplint/cfa_ssa_constraints.go\<close> and
  \<open>exprConstraintValue\<close> of \<open>goplint/cfa_feasibility.go\<close>): constraint formulas in disjunctive
  normal form, their conjunction and disjunction under the limit of 256 alternatives, and
  their extraction from branch conditions.  A formula marked \<open>unsupported\<close> over-approximates
  its condition.
\<close>

section \<open>Atoms and formulas\<close>

record cfgPredicateConstraint =
  subject :: string
  cmp_op :: string
  cvalue :: string

record cfgSSAConstraintFormula =
  alternatives :: "cfgPredicateConstraint list list"
  unsupported :: bool

definition cfgSSAConstraintAlternativeLimit :: nat where "cfgSSAConstraintAlternativeLimit = 256"

definition emptyFormula :: cfgSSAConstraintFormula where
  "emptyFormula = \<lparr>alternatives = [], unsupported = False\<rparr>"

definition cfgSSAUnsupportedFormula :: cfgSSAConstraintFormula where
  "cfgSSAUnsupportedFormula = \<lparr>alternatives = [[]], unsupported = True\<rparr>"

definition cfgSSAConstantFormula :: "bool \<Rightarrow> cfgSSAConstraintFormula" where
  "cfgSSAConstantFormula b = (if b then \<lparr>alternatives = [[]], unsupported = False\<rparr> else emptyFormula)"

definition atomFormula :: "cfgPredicateConstraint \<Rightarrow> cfgSSAConstraintFormula" where
  "atomFormula c = \<lparr>alternatives = [[c]], unsupported = False\<rparr>"

section \<open>Operators\<close>

datatype token = LAND | LOR | LNOT | EQL | NEQ | LSS | LEQ | GTR | GEQ | ARROW | OtherToken nat

definition cfgComparisonOp :: "token \<Rightarrow> string" where
  "cfgComparisonOp operator =
     (case operator of EQL \<Rightarrow> ''eq'' | NEQ \<Rightarrow> ''neq'' | LSS \<Rightarrow> ''lt'' | LEQ \<Rightarrow> ''le'' | GTR \<Rightarrow> ''gt'' | GEQ \<Rightarrow> ''ge''
      | _ \<Rightarrow> '''')"

definition reverseComparisonToken :: "token \<Rightarrow> token" where
  "reverseComparisonToken operator =
     (case operator of LSS \<Rightarrow> GTR | LEQ \<Rightarrow> GEQ | GTR \<Rightarrow> LSS | GEQ \<Rightarrow> LEQ | _ \<Rightarrow> operator)"

definition negateCFGComparisonOp :: "string \<Rightarrow> string" where
  "negateCFGComparisonOp operator =
     (if operator = ''eq'' then ''neq'' else if operator = ''neq'' then ''eq''
      else if operator = ''lt'' then ''ge'' else if operator = ''le'' then ''gt''
      else if operator = ''gt'' then ''le'' else if operator = ''ge'' then ''lt'' else '''')"

definition isCFGComparisonOp :: "string \<Rightarrow> bool" where
  "isCFGComparisonOp operator \<longleftrightarrow> operator \<in> {''eq'', ''neq'', ''lt'', ''le'', ''gt'', ''ge''}"

section \<open>Keys and normal order\<close>

definition cfgConstraintKey :: "cfgPredicateConstraint \<Rightarrow> string" where
  "cfgConstraintKey c = subject c @ ''|'' @ cmp_op c @ ''|'' @ cvalue c"

definition stringsCompare :: "string \<Rightarrow> string \<Rightarrow> int" where
  "stringsCompare left right = (if left < right then -1 else if left > right then 1 else 0)"

text \<open>
  \<open>normalize\<close> sorts every alternative by its keys and then the alternatives lexicographically
  by their key sequences.  The control is polled at the start, before and after each
  alternative, and at the end.
\<close>

definition sortedAlternatives :: "cfgPredicateConstraint list list \<Rightarrow> cfgPredicateConstraint list list" where
  "sortedAlternatives alts = sort_key (map cfgConstraintKey) (map (sort_key cfgConstraintKey) alts)"

definition normalizeWithControl ::
  "cfgSSAConstraintFormula \<Rightarrow> deadline \<Rightarrow> nat \<Rightarrow> cfgSSAConstraintFormula \<times> bool \<times> nat" where
  "normalizeWithControl formula d t =
     (case feasibilityDeadlineReached d t of (e0, t0) \<Rightarrow>
      if e0 then (formula, True, t0)
      else case pollEach d t0 (concat (map (\<lambda>a. [a, a]) (alternatives formula))) of (e1, t1) \<Rightarrow>
        if e1 then (formula, True, t1)
        else case feasibilityDeadlineReached d t1 of (e2, t2) \<Rightarrow>
          (formula\<lparr>alternatives := sortedAlternatives (alternatives formula)\<rparr>, e2, t2))"

section \<open>Conjunction and disjunction\<close>

fun combineAlternatives ::
  "deadline \<Rightarrow> nat \<Rightarrow> 'a list list \<Rightarrow> 'a list list \<Rightarrow> 'a list list \<Rightarrow> 'a list list \<times> bool \<times> nat" where
  "combineAlternatives d t [] rights acc = (acc, False, t)"
| "combineAlternatives d t (l # ls) rights acc =
     (case feasibilityDeadlineReached d t of (e0, t0) \<Rightarrow>
      if e0 then ([], True, t0)
      else case pollEach d t0 rights of (e1, t1) \<Rightarrow>
        if e1 then ([], True, t1)
        else combineAlternatives d t1 ls rights (acc @ map (\<lambda>r. l @ r) rights))"

definition cfgSSAFormulaAndWithControl ::
  "cfgSSAConstraintFormula \<Rightarrow> cfgSSAConstraintFormula \<Rightarrow> deadline \<Rightarrow> nat \<Rightarrow> cfgSSAConstraintFormula \<times> bool \<times> nat" where
  "cfgSSAFormulaAndWithControl left right d t =
     (case feasibilityDeadlineReached d t of (e0, t0) \<Rightarrow>
      if e0 then (emptyFormula, True, t0)
      else if alternatives left = [] \<or> alternatives right = [] then
        (\<lparr>alternatives = [], unsupported = (unsupported left \<or> unsupported right)\<rparr>, False, t0)
      else if length (alternatives left) * length (alternatives right) > cfgSSAConstraintAlternativeLimit then
        (cfgSSAUnsupportedFormula, False, t0)
      else case combineAlternatives d t0 (alternatives left) (alternatives right) [] of (alts, e1, t1) \<Rightarrow>
        if e1 then (emptyFormula, True, t1)
        else case feasibilityDeadlineReached d t1 of (e2, t2) \<Rightarrow>
          (\<lparr>alternatives = alts, unsupported = (unsupported left \<or> unsupported right)\<rparr>, e2, t2))"

definition cfgSSAFormulaOrWithControl ::
  "cfgSSAConstraintFormula \<Rightarrow> cfgSSAConstraintFormula \<Rightarrow> deadline \<Rightarrow> nat \<Rightarrow> cfgSSAConstraintFormula \<times> bool \<times> nat" where
  "cfgSSAFormulaOrWithControl left right d t =
     (case feasibilityDeadlineReached d t of (e0, t0) \<Rightarrow>
      if e0 then (emptyFormula, True, t0)
      else if length (alternatives left) + length (alternatives right) > cfgSSAConstraintAlternativeLimit then
        (cfgSSAUnsupportedFormula, False, t0)
      else case feasibilityDeadlineReached d t0 of (e1, t1) \<Rightarrow>
        (\<lparr>alternatives = alternatives left @ alternatives right,
          unsupported = (unsupported left \<or> unsupported right)\<rparr>, e1, t1))"

section \<open>Branch conditions\<close>

text \<open>
  The expressions a branch condition is made of.  Every other form of \<open>ast.Expr\<close> is
  \<open>OtherExpr\<close>.  A type is what \<open>cfgSSAComparisonSupported\<close> distinguishes of the underlying type.
\<close>

datatype expr =
    Ident string
  | BasicLit string
  | ParenExpr expr
  | UnaryExpr token expr
  | BinaryExpr token expr expr
  | TypeAssertExpr expr
  | OtherExpr nat

datatype basicKind = KBool | KString | KInt | KInt8 | KInt16 | KInt32 | KInt64
  | KUint | KUint8 | KUint16 | KUint32 | KUint64 | KUintptr | KUnsafePointer | KOtherBasic

datatype goType = TChan | TInterface | TMap | TPointer | TSignature | TSlice | TBasic basicKind | TOther

record ssaValue =
  valueKey :: string
  valueType :: "goType option"
  isPhi :: bool

text \<open>
  What the extraction asks of the type checker and of the SSA form (\<open>golang.org/x/tools\<close>):
  the SSA value of an expression (\<open>cfgSSAValueForExpr\<close>) and the exact text of a constant
  expression (\<open>pass.TypesInfo\<close>).
\<close>

record ssaIndex =
  valueForExpr :: "expr \<Rightarrow> ssaValue option"
  typesConstant :: "expr \<Rightarrow> string option"

fun stripParens :: "expr \<Rightarrow> expr" where
  "stripParens (ParenExpr e) = stripParens e"
| "stripParens e = e"

definition exprConstraintValue :: "ssaIndex \<Rightarrow> expr \<Rightarrow> string option" where
  "exprConstraintValue ix e =
     (case stripParens e of
        Ident name \<Rightarrow> if name = ''nil'' then Some ''<nil>''
          else if name = ''true'' \<or> name = ''false'' then Some name else typesConstant ix e
      | BasicLit text \<Rightarrow> Some text
      | _ \<Rightarrow> typesConstant ix e)"

definition cfgSSAComparisonSupported :: "goType option \<Rightarrow> string \<Rightarrow> bool" where
  "cfgSSAComparisonSupported subjectType constant =
     (case subjectType of None \<Rightarrow> False
      | Some ty \<Rightarrow>
          if constant = ''<nil>'' then
            ty \<in> {TChan, TInterface, TMap, TPointer, TSignature, TSlice, TBasic KUnsafePointer}
          else (case ty of TBasic k \<Rightarrow> k \<noteq> KUnsafePointer \<and> k \<noteq> KOtherBasic | _ \<Rightarrow> False))"

definition extractSSAComparisonAtom ::
  "ssaIndex \<Rightarrow> expr \<Rightarrow> expr \<Rightarrow> token \<Rightarrow> cfgPredicateConstraint option" where
  "extractSSAComparisonAtom ix subjectExpression valueExpression operator =
     (case valueForExpr ix subjectExpression of None \<Rightarrow> None
      | Some v \<Rightarrow>
          if operator \<noteq> EQL \<and> operator \<noteq> NEQ \<and> isPhi v then None
          else (case exprConstraintValue ix valueExpression of None \<Rightarrow> None
            | Some constant \<Rightarrow>
                if \<not> cfgSSAComparisonSupported (valueType v) constant then None
                else if cfgComparisonOp operator = '''' then None
                else Some \<lparr>subject = valueKey v, cmp_op = cfgComparisonOp operator, cvalue = constant\<rparr>))"

definition comparisonFormula :: "ssaIndex \<Rightarrow> token \<Rightarrow> expr \<Rightarrow> expr \<Rightarrow> bool \<Rightarrow> cfgSSAConstraintFormula" where
  "comparisonFormula ix operator x y truthy =
     (let atom = (case extractSSAComparisonAtom ix x y operator of
            Some a \<Rightarrow> Some a
          | None \<Rightarrow> extractSSAComparisonAtom ix y x (reverseComparisonToken operator))
      in case atom of None \<Rightarrow> cfgSSAUnsupportedFormula
         | Some a \<Rightarrow> atomFormula (if truthy then a else a\<lparr>cmp_op := negateCFGComparisonOp (cmp_op a)\<rparr>))"

definition identFormula :: "ssaIndex \<Rightarrow> expr \<Rightarrow> bool \<Rightarrow> cfgSSAConstraintFormula" where
  "identFormula ix e truthy =
     (case valueForExpr ix e of None \<Rightarrow> cfgSSAUnsupportedFormula
      | Some v \<Rightarrow>
          if \<not> cfgSSAComparisonSupported (valueType v) ''true'' then cfgSSAUnsupportedFormula
          else atomFormula \<lparr>subject = valueKey v, cmp_op = ''eq'',
                 cvalue = (if truthy then ''true'' else ''false'')\<rparr>)"

lemma stripParens_size [simp]: "size (stripParens e) \<le> size e"
  by (induction e) auto

lemma strip_binary: "stripParens e = BinaryExpr op x y \<Longrightarrow> size x < size e \<and> size y < size e"
  using stripParens_size [of e] by simp

lemma strip_unary: "stripParens e = UnaryExpr op x \<Longrightarrow> size x < size e"
  using stripParens_size [of e] by simp

function extractSSAPredicateFormulaWithControl ::
  "ssaIndex \<Rightarrow> expr \<Rightarrow> bool \<Rightarrow> deadline \<Rightarrow> nat \<Rightarrow> cfgSSAConstraintFormula \<times> bool \<times> nat" where
  "extractSSAPredicateFormulaWithControl ix expression truthy d t =
     (case feasibilityDeadlineReached d t of (e0, t0) \<Rightarrow>
      if e0 then (emptyFormula, True, t0)
      else case stripParens expression of
        Ident name \<Rightarrow>
          if name = ''true'' then (cfgSSAConstantFormula truthy, False, t0)
          else if name = ''false'' then (cfgSSAConstantFormula (\<not> truthy), False, t0)
          else (identFormula ix (Ident name) truthy, False, t0)
      | UnaryExpr op x \<Rightarrow>
          if op \<noteq> LNOT then (cfgSSAUnsupportedFormula, False, t0)
          else extractSSAPredicateFormulaWithControl ix x (\<not> truthy) d t0
      | BinaryExpr op x y \<Rightarrow>
          if op = LAND \<or> op = LOR then
            (case extractSSAPredicateFormulaWithControl ix x truthy d t0 of (left, e1, t1) \<Rightarrow>
             if e1 then (emptyFormula, True, t1)
             else case extractSSAPredicateFormulaWithControl ix y truthy d t1 of (right, e2, t2) \<Rightarrow>
               if e2 then (emptyFormula, True, t2)
               else if (op = LAND) = truthy then cfgSSAFormulaAndWithControl left right d t2
               else cfgSSAFormulaOrWithControl left right d t2)
          else if op \<in> {EQL, NEQ, LSS, LEQ, GTR, GEQ} then (comparisonFormula ix op x y truthy, False, t0)
          else (cfgSSAUnsupportedFormula, False, t0)
      | _ \<Rightarrow> (cfgSSAUnsupportedFormula, False, t0))"
  by pat_completeness auto
termination
  by (relation "measure (\<lambda>(ix, e, b, d, t). size e)") (auto dest: strip_binary strip_unary)

declare extractSSAPredicateFormulaWithControl.simps [simp del]

definition extractSSASwitchCasePredicate :: "ssaIndex \<Rightarrow> expr option list \<Rightarrow> bool \<Rightarrow> cfgSSAConstraintFormula" where
  "extractSSASwitchCasePredicate ix nodes truthy =
     (if length nodes < 2 then cfgSSAUnsupportedFormula
      else case (nodes ! (length nodes - 2), nodes ! (length nodes - 1)) of
        (Some subj, Some constant) \<Rightarrow>
          (case extractSSAComparisonAtom ix subj constant EQL of None \<Rightarrow> cfgSSAUnsupportedFormula
           | Some atom \<Rightarrow> atomFormula (atom\<lparr>cmp_op := (if truthy then ''eq'' else ''neq'')\<rparr>))
      | _ \<Rightarrow> cfgSSAUnsupportedFormula)"

section \<open>Provenance recorded on witness edges\<close>

text \<open>
  A provenance string carries a formula as base64-encoded JSON.  The decoding of the text is
  the parameter \<open>decode\<close> (\<open>None\<close> for text that does not parse); what is checked of the decoded
  atoms is modelled.
\<close>

definition cfgSSAPredicateFormulaPrefix :: string where "cfgSSAPredicateFormulaPrefix = ''ssa-formula-v1:''"

type_synonym decoder = "string \<Rightarrow> (string \<times> string \<times> string) list list option"

definition atom_shape_ok :: "string \<times> string \<times> string \<Rightarrow> bool" where
  "atom_shape_ok a = (case a of (s, op, v) \<Rightarrow> s \<noteq> '''' \<and> isCFGComparisonOp op \<and> v \<noteq> '''')"

definition atomOf :: "string \<times> string \<times> string \<Rightarrow> cfgPredicateConstraint" where
  "atomOf a = (case a of (s, op, v) \<Rightarrow> \<lparr>subject = s, cmp_op = op, cvalue = v\<rparr>)"

text \<open>The two nested loops over the decoded atoms: expired, ill-shaped, or all atoms read.\<close>

datatype atomScan = AtomsExpired | AtomsIllShaped | AtomsRead "cfgPredicateConstraint list"

fun readAtoms :: "deadline \<Rightarrow> nat \<Rightarrow> (string \<times> string \<times> string) list \<Rightarrow> cfgPredicateConstraint list \<Rightarrow> atomScan \<times> nat" where
  "readAtoms d t [] acc = (AtomsRead acc, t)"
| "readAtoms d t (a # as) acc =
     (case feasibilityDeadlineReached d t of (e0, t0) \<Rightarrow>
      if e0 then (AtomsExpired, t0)
      else if \<not> atom_shape_ok a then (AtomsIllShaped, t0)
      else readAtoms d t0 as (acc @ [atomOf a]))"

fun readAlternatives ::
  "deadline \<Rightarrow> nat \<Rightarrow> (string \<times> string \<times> string) list list \<Rightarrow> cfgPredicateConstraint list list \<Rightarrow>
   cfgSSAConstraintFormula \<times> bool \<times> nat" where
  "readAlternatives d t [] acc =
     (case feasibilityDeadlineReached d t of (e0, t0) \<Rightarrow>
      if e0 then (emptyFormula, True, t0)
      else case normalizeWithControl \<lparr>alternatives = acc, unsupported = False\<rparr> d t0 of (f, e1, t1) \<Rightarrow>
        if e1 then (emptyFormula, True, t1) else (f, False, t1))"
| "readAlternatives d t (alt # alts) acc =
     (case feasibilityDeadlineReached d t of (e0, t0) \<Rightarrow>
      if e0 then (emptyFormula, True, t0)
      else case readAtoms d t0 alt [] of
        (AtomsExpired, t1) \<Rightarrow> (emptyFormula, True, t1)
      | (AtomsIllShaped, t1) \<Rightarrow> (cfgSSAUnsupportedFormula, False, t1)
      | (AtomsRead atoms, t1) \<Rightarrow> readAlternatives d t1 alts (acc @ [atoms]))"

definition cfgSSAFormulaFromPredicateProvenanceWithControl ::
  "decoder \<Rightarrow> string \<Rightarrow> deadline \<Rightarrow> nat \<Rightarrow> cfgSSAConstraintFormula \<times> bool \<times> nat" where
  "cfgSSAFormulaFromPredicateProvenanceWithControl decode provenance d t =
     (case feasibilityDeadlineReached d t of (e0, t0) \<Rightarrow>
      if e0 then (emptyFormula, True, t0)
      else if \<not> strings_HasPrefix provenance cfgSSAPredicateFormulaPrefix then (cfgSSAUnsupportedFormula, False, t0)
      else case decode (drop (length cfgSSAPredicateFormulaPrefix) provenance) of
        None \<Rightarrow> (cfgSSAUnsupportedFormula, False, t0)
      | Some decoded \<Rightarrow> readAlternatives d t0 decoded [])"

text \<open>The two nested loops that conjoin the predicates recorded on the witness edges.\<close>

fun conjoinProvenance ::
  "decoder \<Rightarrow> deadline \<Rightarrow> nat \<Rightarrow> string list \<Rightarrow> cfgSSAConstraintFormula \<Rightarrow> cfgSSAConstraintFormula \<times> bool \<times> nat" where
  "conjoinProvenance decode d t [] formula = (formula, False, t)"
| "conjoinProvenance decode d t (p # ps) formula =
     (case feasibilityDeadlineReached d t of (e0, t0) \<Rightarrow>
      if e0 then (emptyFormula, True, t0)
      else case cfgSSAFormulaFromPredicateProvenanceWithControl decode p d t0 of (predicate, e1, t1) \<Rightarrow>
        if e1 then (emptyFormula, True, t1)
        else case cfgSSAFormulaAndWithControl formula predicate d t1 of (formula', e2, t2) \<Rightarrow>
          if e2 then (emptyFormula, True, t2) else conjoinProvenance decode d t2 ps formula')"

fun conjoinEdges ::
  "decoder \<Rightarrow> deadline \<Rightarrow> nat \<Rightarrow> string list list \<Rightarrow> cfgSSAConstraintFormula \<Rightarrow> cfgSSAConstraintFormula \<times> bool \<times> nat" where
  "conjoinEdges decode d t [] formula = (formula, False, t)"
| "conjoinEdges decode d t (ps # edges) formula =
     (case feasibilityDeadlineReached d t of (e0, t0) \<Rightarrow>
      if e0 then (emptyFormula, True, t0)
      else case conjoinProvenance decode d t0 ps formula of (formula', e1, t1) \<Rightarrow>
        if e1 then (emptyFormula, True, t1) else conjoinEdges decode d t1 edges formula')"

section \<open>What a formula says\<close>

text \<open>
  A valuation gives each SSA subject a value, and each constant text a value; the values are
  linearly ordered.
\<close>

definition holds :: "(string \<Rightarrow> 'v::linorder) \<Rightarrow> (string \<Rightarrow> 'v) \<Rightarrow> cfgPredicateConstraint \<Rightarrow> bool" where
  "holds val den c \<longleftrightarrow>
     (let x = val (subject c); y = den (cvalue c); op = cmp_op c in
      if op = ''eq'' then x = y else if op = ''neq'' then x \<noteq> y
      else if op = ''lt'' then x < y else if op = ''le'' then x \<le> y
      else if op = ''gt'' then y < x else if op = ''ge'' then y \<le> x else False)"

definition satisfied :: "(string \<Rightarrow> 'v::linorder) \<Rightarrow> (string \<Rightarrow> 'v) \<Rightarrow> cfgSSAConstraintFormula \<Rightarrow> bool" where
  "satisfied val den f \<longleftrightarrow> (\<exists>alt\<in>set (alternatives f). \<forall>c\<in>set alt. holds val den c)"

text \<open>A formula describes a condition: it is implied by it, and equivalent unless marked unsupported.\<close>

definition describes :: "(string \<Rightarrow> 'v::linorder) \<Rightarrow> (string \<Rightarrow> 'v) \<Rightarrow> cfgSSAConstraintFormula \<Rightarrow> bool \<Rightarrow> bool" where
  "describes val den f condition \<longleftrightarrow>
     (condition \<longrightarrow> satisfied val den f) \<and> (\<not> unsupported f \<and> satisfied val den f \<longrightarrow> condition)"

lemma describes_unsupported [simp]: "describes val den cfgSSAUnsupportedFormula b"
  by (simp add: describes_def satisfied_def cfgSSAUnsupportedFormula_def)

lemma describes_constant [simp]: "describes val den (cfgSSAConstantFormula b) c \<longleftrightarrow> b = c"
  by (auto simp: describes_def satisfied_def cfgSSAConstantFormula_def emptyFormula_def)

lemma describes_atom [simp]: "describes val den (atomFormula a) c \<longleftrightarrow> holds val den a = c"
  by (auto simp: describes_def satisfied_def atomFormula_def)

lemma combine_alternatives:
  "combineAlternatives d t ls rs acc = (alts, False, t') \<Longrightarrow> alts = acc @ concat (map (\<lambda>l. map (\<lambda>r. l @ r) rs) ls)"
  by (induction d t ls rs acc rule: combineAlternatives.induct) (auto split: prod.splits if_splits)

lemma satisfied_pairs:
  "(\<exists>alt\<in>set (concat (map (\<lambda>l. map (\<lambda>r. l @ r) rs) ls)). \<forall>c\<in>set alt. P c) \<longleftrightarrow>
   (\<exists>alt\<in>set ls. \<forall>c\<in>set alt. P c) \<and> (\<exists>alt\<in>set rs. \<forall>c\<in>set alt. P c)"
  by (auto simp: ball_Un)

lemma describes_and:
  assumes "cfgSSAFormulaAndWithControl f g d t = (h, False, t')" "describes val den f a" "describes val den g b"
  shows "describes val den h (a \<and> b)"
proof -
  consider "h = cfgSSAUnsupportedFormula"
    | "alternatives f = [] \<or> alternatives g = []" "h = \<lparr>alternatives = [], unsupported = (unsupported f \<or> unsupported g)\<rparr>"
    | "h = \<lparr>alternatives = concat (map (\<lambda>l. map (\<lambda>r. l @ r) (alternatives g)) (alternatives f)),
        unsupported = (unsupported f \<or> unsupported g)\<rparr>"
    using assms(1) combine_alternatives [of d _ "alternatives f" "alternatives g" "[]"]
    by (auto simp: cfgSSAFormulaAndWithControl_def split: prod.splits if_splits)
  then show ?thesis
  proof cases
    case 1
    then show ?thesis by simp
  next
    case 3
    then have "satisfied val den h \<longleftrightarrow> satisfied val den f \<and> satisfied val den g"
      by (simp only: satisfied_def cfgSSAConstraintFormula.select_convs satisfied_pairs)
    with assms(2,3) 3 show ?thesis by (auto simp: describes_def)
  qed (use assms(2,3) in \<open>auto simp: describes_def satisfied_def\<close>)
qed

lemma describes_or:
  assumes "cfgSSAFormulaOrWithControl f g d t = (h, False, t')" "describes val den f a" "describes val den g b"
  shows "describes val den h (a \<or> b)"
proof -
  have "h = cfgSSAUnsupportedFormula \<or>
      h = \<lparr>alternatives = alternatives f @ alternatives g, unsupported = (unsupported f \<or> unsupported g)\<rparr>"
    using assms(1) by (auto simp: cfgSSAFormulaOrWithControl_def split: prod.splits if_splits)
  then show ?thesis
  proof
    assume h: "h = \<lparr>alternatives = alternatives f @ alternatives g, unsupported = (unsupported f \<or> unsupported g)\<rparr>"
    then have "satisfied val den h \<longleftrightarrow> satisfied val den f \<or> satisfied val den g"
      by (simp add: satisfied_def bex_Un)
    with assms(2,3) h show ?thesis by (auto simp: describes_def)
  qed simp
qed

lemma describes_normalize:
  assumes "normalizeWithControl f d t = (g, False, t')"
  shows "describes val den g b = describes val den f b"
proof -
  have "g = f\<lparr>alternatives := sortedAlternatives (alternatives f)\<rparr>"
    using assms by (auto simp: normalizeWithControl_def split: prod.splits if_splits)
  then have "satisfied val den g = satisfied val den f" "unsupported g = unsupported f"
    by (simp_all add: satisfied_def sortedAlternatives_def)
  then show ?thesis by (simp add: describes_def)
qed

section \<open>Extraction describes the condition\<close>

text \<open>
  A program state as the extraction sees it: every expression has a value, an expression with
  an SSA value has the value of that SSA register, and a constant has the value its text
  denotes.
\<close>

fun tokenHolds :: "token \<Rightarrow> 'v::linorder \<Rightarrow> 'v \<Rightarrow> bool" where
  "tokenHolds EQL x y = (x = y)"
| "tokenHolds NEQ x y = (x \<noteq> y)"
| "tokenHolds LSS x y = (x < y)"
| "tokenHolds LEQ x y = (x \<le> y)"
| "tokenHolds GTR x y = (y < x)"
| "tokenHolds GEQ x y = (y \<le> x)"
| "tokenHolds _ x y = False"

fun evalCond :: "(expr \<Rightarrow> 'v::linorder) \<Rightarrow> (string \<Rightarrow> 'v) \<Rightarrow> expr \<Rightarrow> bool" where
  "evalCond ev den (ParenExpr e) = evalCond ev den e"
| "evalCond ev den (Ident n) = (if n = ''true'' then True else if n = ''false'' then False else ev (Ident n) = den ''true'')"
| "evalCond ev den (UnaryExpr op e) = (if op = LNOT then \<not> evalCond ev den e else ev (UnaryExpr op e) = den ''true'')"
| "evalCond ev den (BinaryExpr op x y) =
     (if op = LAND then evalCond ev den x \<and> evalCond ev den y
      else if op = LOR then evalCond ev den x \<or> evalCond ev den y
      else if op \<in> {EQL, NEQ, LSS, LEQ, GTR, GEQ} then tokenHolds op (ev x) (ev y)
      else ev (BinaryExpr op x y) = den ''true'')"
| "evalCond ev den e = (ev e = den ''true'')"

definition state_agrees ::
  "ssaIndex \<Rightarrow> (expr \<Rightarrow> 'v::linorder) \<Rightarrow> (string \<Rightarrow> 'v) \<Rightarrow> (string \<Rightarrow> 'v) \<Rightarrow> bool" where
  "state_agrees ix ev val den \<longleftrightarrow>
     (\<forall>e v. valueForExpr ix e = Some v \<longrightarrow> ev e = val (valueKey v) \<and>
        (valueType v = Some (TBasic KBool) \<longrightarrow> ev e = den ''true'' \<or> ev e = den ''false'')) \<and>
     (\<forall>e c. exprConstraintValue ix e = Some c \<longrightarrow> ev e = den c) \<and>
     den ''true'' \<noteq> den ''false''"

text \<open>The type checker admits only boolean identifiers as conditions.\<close>

fun boolTyped :: "ssaIndex \<Rightarrow> expr \<Rightarrow> bool" where
  "boolTyped ix (ParenExpr e) = boolTyped ix e"
| "boolTyped ix (Ident n) = (case valueForExpr ix (Ident n) of None \<Rightarrow> True | Some v \<Rightarrow> valueType v = Some (TBasic KBool))"
| "boolTyped ix (UnaryExpr op e) = (op = LNOT \<longrightarrow> boolTyped ix e)"
| "boolTyped ix (BinaryExpr op x y) = (op = LAND \<or> op = LOR \<longrightarrow> boolTyped ix x \<and> boolTyped ix y)"
| "boolTyped ix e = True"

lemma evalCond_strip: "evalCond ev den (stripParens e) = evalCond ev den e"
  by (induction e) auto

lemma boolTyped_strip: "boolTyped ix (stripParens e) = boolTyped ix e"
  by (induction e) auto

lemma comparison_atom:
  assumes "extractSSAComparisonAtom ix x y op = Some a"
  obtains v c where "valueForExpr ix x = Some v" "exprConstraintValue ix y = Some c"
    "a = \<lparr>subject = valueKey v, cmp_op = cfgComparisonOp op, cvalue = c\<rparr>" "cfgComparisonOp op \<noteq> ''''"
  using assms that by (auto simp: extractSSAComparisonAtom_def split: option.splits if_splits)

lemma atom_holds:
  assumes "state_agrees ix ev val den" "extractSSAComparisonAtom ix x y op = Some a"
  shows "holds val den a = tokenHolds op (ev x) (ev y) \<and>
    holds val den (a\<lparr>cmp_op := negateCFGComparisonOp (cmp_op a)\<rparr>) = (\<not> tokenHolds op (ev x) (ev y))"
proof -
  from assms(2) obtain v c where a: "valueForExpr ix x = Some v" "exprConstraintValue ix y = Some c"
    "a = \<lparr>subject = valueKey v, cmp_op = cfgComparisonOp op, cvalue = c\<rparr>" "cfgComparisonOp op \<noteq> ''''"
    by (rule comparison_atom)
  then have "ev x = val (valueKey v)" "ev y = den c" using assms(1) unfolding state_agrees_def by blast+
  with a(3,4) show ?thesis
    by (cases op) (simp_all add: holds_def cfgComparisonOp_def negateCFGComparisonOp_def not_less not_le)
qed

lemma token_reverse: "op \<in> {EQL, NEQ, LSS, LEQ, GTR, GEQ} \<Longrightarrow>
    tokenHolds (reverseComparisonToken op) x y = tokenHolds op y x"
  by (auto simp: reverseComparisonToken_def)

lemma comparison_describes:
  assumes "state_agrees ix ev val den" "op \<in> {EQL, NEQ, LSS, LEQ, GTR, GEQ}"
  shows "describes val den (comparisonFormula ix op x y truthy) (tokenHolds op (ev x) (ev y) = truthy)"
  using atom_holds [OF assms(1)] token_reverse [OF assms(2)]
  by (cases truthy; auto simp: comparisonFormula_def split: option.splits)

lemma ident_describes:
  assumes "state_agrees ix ev val den" "n \<noteq> ''true''" "n \<noteq> ''false''" "boolTyped ix (Ident n)"
  shows "describes val den (identFormula ix (Ident n) truthy) ((ev (Ident n) = den ''true'') = truthy)"
proof (cases "valueForExpr ix (Ident n)")
  case (Some v)
  with assms(4) have "valueType v = Some (TBasic KBool)" by simp
  with Some assms(1) have "ev (Ident n) = val (valueKey v)" "den ''true'' \<noteq> den ''false''"
    "ev (Ident n) = den ''true'' \<or> ev (Ident n) = den ''false''"
    unfolding state_agrees_def by blast+
  with Some show ?thesis by (auto simp: identFormula_def holds_def)
qed (simp add: identFormula_def)

lemma extract_describes:
  assumes st: "state_agrees ix ev val den"
  shows "boolTyped ix e \<Longrightarrow> extractSSAPredicateFormulaWithControl ix e truthy d t = (f, False, t') \<Longrightarrow>
    describes val den f (evalCond ev den e = truthy)"
proof (induction "size e" arbitrary: e truthy t f t' rule: less_induct)
  case less
  let ?ex = "extractSSAPredicateFormulaWithControl ix"
  obtain e0 t0 where p: "feasibilityDeadlineReached d t = (e0, t0)" by force
  note run = less.prems(2) [unfolded extractSSAPredicateFormulaWithControl.simps [of ix e] p prod.case]
  have "\<not> e0" using run by (auto split: if_splits)
  have ty: "boolTyped ix (stripParens e)" using less.prems(1) by (simp add: boolTyped_strip)
  have "describes val den f (evalCond ev den (stripParens e) = truthy)"
  proof (cases "stripParens e")
    case (Ident n)
    have f: "f = (if n = ''true'' then cfgSSAConstantFormula truthy
        else if n = ''false'' then cfgSSAConstantFormula (\<not> truthy) else identFormula ix (expr.Ident n) truthy)"
      using run \<open>\<not> e0\<close> by (simp add: Ident split: if_splits)
    consider "n = ''true''" | "n = ''false''" | "n \<noteq> ''true''" "n \<noteq> ''false''" by blast
    then show ?thesis
    proof cases
      case 3
      with ident_describes [OF st 3] ty show ?thesis by (simp add: f Ident)
    qed (simp_all add: f Ident)
  next
    case (UnaryExpr op x)
    show ?thesis
    proof (cases "op = LNOT")
      case True
      with run \<open>\<not> e0\<close> have "?ex x (\<not> truthy) d t0 = (f, False, t')" by (simp add: UnaryExpr)
      from less.hyps [OF strip_unary [OF UnaryExpr] _ this] ty show ?thesis
        by (cases truthy) (simp_all add: UnaryExpr True)
    next
      case False
      with run \<open>\<not> e0\<close> show ?thesis by (simp add: UnaryExpr)
    qed
  next
    case (BinaryExpr op x y)
    note sizes = strip_binary [OF BinaryExpr]
    consider "op = LAND \<or> op = LOR" | "op \<in> {EQL, NEQ, LSS, LEQ, GTR, GEQ}"
      | "op \<noteq> LAND" "op \<noteq> LOR" "op \<notin> {EQL, NEQ, LSS, LEQ, GTR, GEQ}" by blast
    then show ?thesis
    proof cases
      case 1
      obtain l e1 t1 where l: "?ex x truthy d t0 = (l, e1, t1)" by (metis prod_cases3)
      obtain r e2 t2 where r: "?ex y truthy d t1 = (r, e2, t2)" by (metis prod_cases3)
      have ne: "\<not> e1" "\<not> e2" and
        fin: "(if (op = LAND) = truthy then cfgSSAFormulaAndWithControl l r d t2
               else cfgSSAFormulaOrWithControl l r d t2) = (f, False, t')"
        using run \<open>\<not> e0\<close> 1 by (auto simp: BinaryExpr l r split: if_splits)
      have dl: "describes val den l (evalCond ev den x = truthy)" using less.hyps sizes l ne ty 1 by (auto simp: BinaryExpr)
      have dr: "describes val den r (evalCond ev den y = truthy)" using less.hyps sizes r ne ty 1 by (auto simp: BinaryExpr)
      show ?thesis
      proof (cases "(op = LAND) = truthy")
        case True
        with fin have "cfgSSAFormulaAndWithControl l r d t2 = (f, False, t')" by simp
        from describes_and [OF this dl dr] True 1 show ?thesis
          by (cases truthy) (auto simp: BinaryExpr)
      next
        case False
        with fin have "cfgSSAFormulaOrWithControl l r d t2 = (f, False, t')" by simp
        from describes_or [OF this dl dr] False 1 show ?thesis
          by (cases truthy) (auto simp: BinaryExpr)
      qed
    next
      case 2
      then have "f = comparisonFormula ix op x y truthy" "op \<noteq> LAND" "op \<noteq> LOR"
        using run \<open>\<not> e0\<close> by (auto simp: BinaryExpr)
      with comparison_describes [OF st 2] 2 show ?thesis by (simp add: BinaryExpr)
    next
      case 3
      with run \<open>\<not> e0\<close> show ?thesis by (simp add: BinaryExpr)
    qed
  qed (use run \<open>\<not> e0\<close> in \<open>auto split: if_splits\<close>)
  then show ?case by (simp add: evalCond_strip)
qed

text \<open>
  C17. The extraction of a branch condition is sound: when it is not cut off by the deadline,
  the formula holds in every state in which the condition has the branch's polarity, whatever
  the nesting of parentheses, negations and connectives and even where parts are unsupported
  or the alternative limit is hit; and a formula not marked unsupported holds in no other
  state.
\<close>

theorem extracted_formula_describes_branch:
  assumes "state_agrees ix ev val den" and "boolTyped ix e"
    and "extractSSAPredicateFormulaWithControl ix e truthy d t = (f, False, t')"
  shows "(evalCond ev den e = truthy \<longrightarrow> satisfied val den f) \<and>
    (\<not> unsupported f \<longrightarrow> satisfied val den f \<longrightarrow> evalCond ev den e = truthy)"
  using extract_describes [OF assms(1,2,3)] by (simp add: describes_def)

definition sampleIndex :: ssaIndex where
  "sampleIndex = \<lparr>valueForExpr = (\<lambda>e. if e = Ident ''x''
      then Some \<lparr>valueKey = ''t0'', valueType = Some (TBasic KInt), isPhi = False\<rparr> else None),
    typesConstant = (\<lambda>_. None)\<rparr>"

definition sampleDen :: "string \<Rightarrow> int" where
  "sampleDen c = (if c = ''1'' then 1 else if c = ''2'' then 2 else if c = ''true'' then -1
     else if c = ''false'' then -2 else -3)"

definition sampleEval :: "int \<Rightarrow> expr \<Rightarrow> int" where
  "sampleEval x e = (if stripParens e = Ident ''x'' then x
     else (case exprConstraintValue sampleIndex e of Some c \<Rightarrow> sampleDen c | None \<Rightarrow> 0))"

definition sampleVal :: "int \<Rightarrow> string \<Rightarrow> int" where
  "sampleVal x s = x"

text \<open>The condition \<open>x == 1 && !(x > 2)\<close>.\<close>

definition sampleCondition :: expr where
  "sampleCondition = BinaryExpr LAND (BinaryExpr EQL (Ident ''x'') (BasicLit ''1''))
     (UnaryExpr LNOT (ParenExpr (BinaryExpr GTR (Ident ''x'') (BasicLit ''2''))))"

lemma sample_agrees: "state_agrees sampleIndex (sampleEval x) (sampleVal x) sampleDen"
proof -
  have "exprConstraintValue sampleIndex e \<noteq> Some c" if "stripParens e = Ident ''x''" for e c
    using that by (simp add: exprConstraintValue_def sampleIndex_def)
  then show ?thesis
    by (auto simp: state_agrees_def sampleEval_def sampleVal_def sampleDen_def sampleIndex_def split: if_splits)
qed

theorem extracted_formula_describes_branch_witness:
  "alternatives (fst (extractSSAPredicateFormulaWithControl sampleIndex sampleCondition True None 0)) =
     [[\<lparr>subject = ''t0'', cmp_op = ''eq'', cvalue = ''1''\<rparr>, \<lparr>subject = ''t0'', cmp_op = ''le'', cvalue = ''2''\<rparr>]] \<and>
   satisfied (sampleVal 1) sampleDen (fst (extractSSAPredicateFormulaWithControl sampleIndex sampleCondition True None 0))"
proof -
  let ?r = "extractSSAPredicateFormulaWithControl sampleIndex sampleCondition True None 0"
  let ?f = "\<lparr>alternatives = [[\<lparr>subject = ''t0'', cmp_op = ''eq'', cvalue = ''1''\<rparr>,
    \<lparr>subject = ''t0'', cmp_op = ''le'', cvalue = ''2''\<rparr>]], unsupported = False\<rparr>"
  have r: "?r = (?f, False, 0)" by code_simp
  have "evalCond (sampleEval 1) sampleDen sampleCondition"
    by (simp add: sampleCondition_def sampleEval_def sampleDen_def exprConstraintValue_def)
  moreover have "boolTyped sampleIndex sampleCondition" by (simp add: sampleCondition_def)
  ultimately show ?thesis
    using extracted_formula_describes_branch [OF sample_agrees _ r] by (simp add: r)
qed

end
