(* ===== verification/Dominators.thy ===== *)
theory Dominators
  imports Prelude
begin

text \<open>
  Control-flow graphs and their block dominators (\<open>protocolCFGBlockDominators\<close> of
  \<open>goplint/constructor_deferred.go\<close>), with the searches over blocks that the deferred-call
  planner makes.  A block of \<open>golang.org/x/tools/go/cfg\<close> is identified by its index, which is
  how the code keys its maps; a successor pointer is the index of the block it points to, or
  \<open>None\<close> for nil.  The iteration is proved to end, and to compute dominance.
\<close>

section \<open>Control-flow graphs\<close>

record 'n cfgBlock =
  cfgIndex :: int
  cfgNodes :: "'n list"
  cfgSuccs :: "int option list"

type_synonym 'n CFG = "'n cfgBlock option list"

definition cfgBlocks :: "'n CFG \<Rightarrow> 'n cfgBlock list" where
  "cfgBlocks cfg = concat (map (\<lambda>b. case b of None \<Rightarrow> [] | Some block \<Rightarrow> [block]) cfg)"

definition blockAt :: "'n CFG \<Rightarrow> int \<Rightarrow> 'n cfgBlock option" where
  "blockAt cfg i = find (\<lambda>b. cfgIndex b = i) (cfgBlocks cfg)"

text \<open>The index of a block is unique in its graph (it is the position in \<open>CFG.Blocks\<close>).\<close>

definition cfg_wf :: "'n CFG \<Rightarrow> bool" where
  "cfg_wf cfg \<longleftrightarrow> distinct (map cfgIndex (cfgBlocks cfg))"

definition indices :: "'n CFG \<Rightarrow> int set" where
  "indices cfg = cfgIndex ` set (cfgBlocks cfg)"

lemma finite_indices [simp]: "finite (indices cfg)"
  by (simp add: indices_def)

lemma blockAt_Some: "blockAt cfg i = Some b \<Longrightarrow> b \<in> set (cfgBlocks cfg) \<and> cfgIndex b = i \<and> i \<in> indices cfg"
  by (auto simp: blockAt_def indices_def find_Some_iff)

lemma blockAt_index: "blockAt cfg i = Some b \<Longrightarrow> cfgIndex b = i"
  by (simp add: blockAt_Some)

lemma blockAt_defined: "blockAt cfg i \<noteq> None \<longleftrightarrow> i \<in> indices cfg"
  by (auto simp: blockAt_def indices_def find_None_iff)

lemma blockAt_None: "blockAt cfg i = None \<longleftrightarrow> i \<notin> indices cfg"
  using blockAt_defined [of cfg i] by auto

lemma blockAt_wf: "cfg_wf cfg \<Longrightarrow> b \<in> set (cfgBlocks cfg) \<Longrightarrow> blockAt cfg (cfgIndex b) = Some b"
proof -
  assume wf: "cfg_wf cfg" and b: "b \<in> set (cfgBlocks cfg)"
  then obtain c where c: "blockAt cfg (cfgIndex b) = Some c"
    using blockAt_defined [of cfg "cfgIndex b"] by (auto simp: indices_def)
  from blockAt_Some [OF c] have "c \<in> set (cfgBlocks cfg)" "cfgIndex c = cfgIndex b" by auto
  with wf b have "c = b" by (auto simp: cfg_wf_def distinct_map inj_on_def)
  with c show ?thesis by simp
qed

section \<open>Breadth-first searches\<close>

function reachableBlocks :: "'n CFG \<Rightarrow> int option list \<Rightarrow> int set \<Rightarrow> int set" where
  "reachableBlocks cfg [] reachable = reachable"
| "reachableBlocks cfg (s # queue) reachable =
     (case Option.bind s (blockAt cfg) of
        None \<Rightarrow> reachableBlocks cfg queue reachable
      | Some block \<Rightarrow>
          if cfgIndex block \<in> reachable then reachableBlocks cfg queue reachable
          else reachableBlocks cfg (queue @ cfgSuccs block) (insert (cfgIndex block) reachable))"
  by pat_completeness auto
termination
proof (relation "measures [\<lambda>(cfg, q, r). card (indices cfg - r), \<lambda>(cfg, q, r). length q]", goal_cases)
  case (4 cfg s queue reachable block)
  then have "cfgIndex block \<in> indices cfg - reachable"
    by (cases s) (auto dest: blockAt_Some)
  then have "card (indices cfg - insert (cfgIndex block) reachable) < card (indices cfg - reachable)"
    by (intro psubset_card_mono) auto
  then show ?case by simp
qed auto

text \<open>The search of \<open>registrationMayReachReturn\<close>, which stops at its target.\<close>

function mayReach :: "'n CFG \<Rightarrow> int \<Rightarrow> int option list \<Rightarrow> int set \<Rightarrow> bool" where
  "mayReach cfg target [] seen = False"
| "mayReach cfg target (s # queue) seen =
     (case Option.bind s (blockAt cfg) of
        None \<Rightarrow> mayReach cfg target queue seen
      | Some block \<Rightarrow>
          if cfgIndex block \<in> seen then mayReach cfg target queue seen
          else if cfgIndex block = target then True
          else mayReach cfg target (queue @ cfgSuccs block) (insert (cfgIndex block) seen))"
  by pat_completeness auto
termination
proof (relation "measures [\<lambda>(cfg, t, q, r). card (indices cfg - r), \<lambda>(cfg, t, q, r). length q]", goal_cases)
  case (4 cfg target s queue seen block)
  then have "cfgIndex block \<in> indices cfg - seen"
    by (cases s) (auto dest: blockAt_Some)
  then have "card (indices cfg - insert (cfgIndex block) seen) < card (indices cfg - seen)"
    by (intro psubset_card_mono) auto
  then show ?case by simp
qed auto

section \<open>Dominators\<close>

definition entryBlock :: "'n CFG \<Rightarrow> 'n cfgBlock option" where
  "entryBlock cfg = (case cfgBlocks cfg of [] \<Rightarrow> None | b # _ \<Rightarrow> Some b)"

definition predecessorsOf :: "'n cfgBlock list \<Rightarrow> int set \<Rightarrow> int \<Rightarrow> int list" where
  "predecessorsOf blocks reachable i =
     concat (map (\<lambda>block. map (\<lambda>_. cfgIndex block) (filter (\<lambda>s. s = Some i \<and> i \<in> reachable) (cfgSuccs block))) blocks)"

type_synonym dominatorMap = "int \<Rightarrow> int set option"

definition setAt :: "dominatorMap \<Rightarrow> int \<Rightarrow> int set" where
  "setAt result i = (case result i of None \<Rightarrow> {} | Some s \<Rightarrow> s)"

fun intersectPredecessors :: "dominatorMap \<Rightarrow> int list \<Rightarrow> int set option \<Rightarrow> int set option" where
  "intersectPredecessors result [] current = current"
| "intersectPredecessors result (p # ps) current =
     intersectPredecessors result ps
       (Some (case current of None \<Rightarrow> setAt result p | Some s \<Rightarrow> s \<inter> setAt result p))"

definition nextDominators :: "dominatorMap \<Rightarrow> int list \<Rightarrow> int \<Rightarrow> int set" where
  "nextDominators result ps i =
     insert i (case intersectPredecessors result ps None of None \<Rightarrow> {} | Some s \<Rightarrow> s)"

text \<open>One pass over the blocks, and the iteration until a pass changes nothing.\<close>

fun dominatorPass ::
  "(int \<Rightarrow> int list) \<Rightarrow> int \<Rightarrow> int list \<Rightarrow> dominatorMap \<Rightarrow> bool \<Rightarrow> dominatorMap \<times> bool" where
  "dominatorPass preds entry [] result changed = (result, changed)"
| "dominatorPass preds entry (i # is) result changed =
     (if i = entry then dominatorPass preds entry is result changed
      else let new = nextDominators result (preds i) i in
        if setAt result i \<noteq> new then dominatorPass preds entry is (result(i \<mapsto> new)) True
        else dominatorPass preds entry is result changed)"

partial_function (option) dominatorLoop ::
  "(int \<Rightarrow> int list) \<Rightarrow> int \<Rightarrow> int list \<Rightarrow> dominatorMap \<Rightarrow> dominatorMap option" where
  "dominatorLoop preds entry is result =
     (case dominatorPass preds entry is result False of (result', changed) \<Rightarrow>
        if changed then dominatorLoop preds entry is result' else Some result')"

declare dominatorLoop.simps [code]

definition initialDominators :: "int \<Rightarrow> int list \<Rightarrow> dominatorMap" where
  "initialDominators entry is =
     (\<lambda>i. if i \<notin> set is then None else if i = entry then Some {entry} else Some (set is))"

definition protocolCFGBlockDominators :: "'n CFG \<Rightarrow> dominatorMap option" where
  "protocolCFGBlockDominators cfg =
     (case entryBlock cfg of None \<Rightarrow> Some (\<lambda>_. None)
      | Some e \<Rightarrow>
          (let entry = cfgIndex e;
               reachable = reachableBlocks cfg [Some entry] {};
               blocks = filter (\<lambda>b. cfgIndex b \<in> reachable) (cfgBlocks cfg);
               is = map cfgIndex blocks
           in dominatorLoop (predecessorsOf blocks reachable) entry is (initialDominators entry is)))"

section \<open>Paths and dominance\<close>

definition cfg_edge :: "'n CFG \<Rightarrow> int \<Rightarrow> int \<Rightarrow> bool" where
  "cfg_edge cfg a b \<longleftrightarrow> (\<exists>block. blockAt cfg a = Some block \<and> Some b \<in> set (cfgSuccs block) \<and> b \<in> indices cfg)"

inductive cfg_path :: "'n CFG \<Rightarrow> int \<Rightarrow> int list \<Rightarrow> int \<Rightarrow> bool" for cfg where
  path_refl: "a \<in> indices cfg \<Longrightarrow> cfg_path cfg a [a] a"
| path_step: "cfg_path cfg a p b \<Longrightarrow> cfg_edge cfg b c \<Longrightarrow> cfg_path cfg a (p @ [c]) c"

definition dominates :: "'n CFG \<Rightarrow> int \<Rightarrow> int \<Rightarrow> int \<Rightarrow> bool" where
  "dominates cfg entry a b \<longleftrightarrow> (\<forall>p. cfg_path cfg entry p b \<longrightarrow> a \<in> set p)"

lemma path_ends: "cfg_path cfg a p b \<Longrightarrow> a \<in> indices cfg \<and> b \<in> indices cfg \<and> a \<in> set p \<and> b \<in> set p"
  by (induction rule: cfg_path.induct) (auto simp: cfg_edge_def)

lemma edge_source: "cfg_edge cfg a b \<Longrightarrow> a \<in> indices cfg"
  by (auto simp: cfg_edge_def dest: blockAt_Some)

lemma path_prepend: "cfg_path cfg b p c \<Longrightarrow> cfg_edge cfg a b \<Longrightarrow> cfg_path cfg a (a # p) c"
proof (induction rule: cfg_path.induct)
  case (path_refl b)
  then have "cfg_path cfg a ([a] @ [b]) b"
    by (intro path_step [OF cfg_path.path_refl]) (auto dest: edge_source)
  then show ?case by simp
next
  case (path_step b p c d)
  then show ?case using cfg_path.path_step by fastforce
qed

lemma path_append: "cfg_path cfg b q c \<Longrightarrow> cfg_path cfg a p b \<Longrightarrow> cfg_path cfg a (p @ tl q) c"
proof (induction rule: cfg_path.induct)
  case (path_step b q c d)
  have "q \<noteq> []" using path_step.hyps(1) by (auto dest: path_ends)
  then show ?case using cfg_path.path_step [OF path_step.IH [OF path_step.prems] path_step.hyps(2)] by simp
qed simp

section \<open>The searches find what is reachable\<close>

lemma blockAt_succ: "blockAt cfg i = Some block \<Longrightarrow> Some j \<in> set (cfgSuccs block) \<Longrightarrow> j \<in> indices cfg \<Longrightarrow> cfg_edge cfg i j"
  by (auto simp: cfg_edge_def)

lemma reachable_sound:
  "a \<in> reachableBlocks cfg queue R \<Longrightarrow> a \<in> R \<or> (\<exists>s p. Some s \<in> set queue \<and> cfg_path cfg s p a)"
proof (induction cfg queue R rule: reachableBlocks.induct)
  case (2 cfg s queue R)
  show ?case
  proof (cases "Option.bind s (blockAt cfg)")
    case None
    with 2 show ?thesis by auto
  next
    case (Some block)
    then obtain i where i: "s = Some i" "blockAt cfg i = Some block" "cfgIndex block = i" "i \<in> indices cfg"
      by (cases s) (auto dest: blockAt_Some)
    show ?thesis
    proof (cases "i \<in> R")
      case True
      with 2 Some i show ?thesis by auto
    next
      case False
      with 2 Some i have "a \<in> insert i R \<or> (\<exists>s p. Some s \<in> set (queue @ cfgSuccs block) \<and> cfg_path cfg s p a)"
        by simp
      then show ?thesis
      proof (elim disjE exE conjE)
        assume "a \<in> insert i R"
        with path_refl [OF i(4)] i(1) show ?thesis by auto
      next
        fix s' p
        assume s': "Some s' \<in> set (queue @ cfgSuccs block)" "cfg_path cfg s' p a"
        show ?thesis
        proof (cases "Some s' \<in> set queue")
          case False
          with s' have "cfg_edge cfg i s'" by (auto intro: blockAt_succ [OF i(2)] dest: path_ends)
          with s'(2) i(1) show ?thesis by (auto intro: path_prepend)
        qed (use s' in auto)
      qed
    qed
  qed
qed simp

lemma reachable_grows:
  "R \<subseteq> reachableBlocks cfg queue R \<and> (\<forall>s. Some s \<in> set queue \<and> s \<in> indices cfg \<longrightarrow> s \<in> reachableBlocks cfg queue R)"
proof (induction cfg queue R rule: reachableBlocks.induct)
  case (2 cfg s queue R)
  show ?case
  proof (cases "Option.bind s (blockAt cfg)")
    case None
    have "s \<noteq> Some i" if "i \<in> indices cfg" for i
      using None that by (auto simp: blockAt_None)
    moreover have "reachableBlocks cfg (s # queue) R = reachableBlocks cfg queue R" using None by simp
    ultimately show ?thesis using 2(1) [OF None] by auto
  next
    case (Some block)
    then obtain i where i: "s = Some i" "blockAt cfg i = Some block" "cfgIndex block = i"
      by (cases s) (auto dest: blockAt_Some)
    with 2 Some show ?thesis by (cases "i \<in> R") auto
  qed
qed simp

definition search_closed :: "'n CFG \<Rightarrow> int option list \<Rightarrow> int set \<Rightarrow> bool" where
  "search_closed cfg queue R \<longleftrightarrow> (\<forall>a\<in>R. \<forall>b. cfg_edge cfg a b \<longrightarrow> b \<in> R \<or> Some b \<in> set queue)"

lemma reachable_closed:
  "search_closed cfg queue R \<Longrightarrow> search_closed cfg [] (reachableBlocks cfg queue R)"
proof (induction cfg queue R rule: reachableBlocks.induct)
  case (2 cfg s queue R)
  show ?case
  proof (cases "Option.bind s (blockAt cfg)")
    case None
    then have "search_closed cfg queue R"
      using 2(4) by (cases s) (auto simp: search_closed_def cfg_edge_def blockAt_None)
    with 2(1) None show ?thesis by simp
  next
    case (Some block)
    then obtain i where i: "s = Some i" "blockAt cfg i = Some block" "cfgIndex block = i"
      by (cases s) (auto dest: blockAt_Some)
    have "search_closed cfg queue R" if "i \<in> R"
      using 2(4) that i(1) by (auto simp: search_closed_def)
    moreover have "search_closed cfg (queue @ cfgSuccs block) (insert i R)"
      using 2(4) i(1,2) by (auto simp: search_closed_def cfg_edge_def)
    ultimately show ?thesis using 2(2,3) Some i by (cases "i \<in> R") auto
  qed
qed (simp add: search_closed_def)

lemma closed_path: "cfg_path cfg a p b \<Longrightarrow> search_closed cfg [] R \<Longrightarrow> a \<in> R \<Longrightarrow> b \<in> R"
  by (induction rule: cfg_path.induct) (auto simp: search_closed_def)

lemma reachable_iff:
  "i \<in> indices cfg \<Longrightarrow> a \<in> reachableBlocks cfg [Some i] {} \<longleftrightarrow> (\<exists>p. cfg_path cfg i p a)"
  using reachable_sound [of a cfg "[Some i]" "{}"] reachable_grows [of "{}" cfg "[Some i]"]
    closed_path [of cfg i _ a, OF _ reachable_closed [of cfg "[Some i]" "{}"]]
  by (auto simp: search_closed_def)

lemma mayReach_iff:
  "t \<notin> seen \<Longrightarrow> mayReach cfg t queue seen \<longleftrightarrow> t \<in> reachableBlocks cfg queue seen"
proof (induction cfg t queue seen rule: mayReach.induct)
  case (2 cfg t s queue seen)
  show ?case
  proof (cases "Option.bind s (blockAt cfg)")
    case None
    with 2 show ?thesis by simp
  next
    case (Some block)
    have "t \<in> reachableBlocks cfg q (insert t S)" for q S
      using reachable_grows [of "insert t S" cfg q] by auto
    with 2 Some show ?thesis by (cases "cfgIndex block = t") auto
  qed
qed simp

section \<open>The iteration ends with the dominators\<close>

lemma intersect_some:
  "intersectPredecessors r ps (Some s) = Some (s \<inter> (\<Inter>p\<in>set ps. setAt r p))"
  by (induction ps arbitrary: s) auto

lemma nextDominators_eq:
  "nextDominators r ps i = insert i (if ps = [] then {} else (\<Inter>p\<in>set ps. setAt r p))"
  by (cases ps) (simp_all add: nextDominators_def intersect_some)

lemma nextDominators_mono:
  "(\<And>p. setAt r p \<subseteq> setAt r' p) \<Longrightarrow> nextDominators r ps i \<subseteq> nextDominators r' ps i"
  by (fastforce simp: nextDominators_eq)

lemma setAt_upd [simp]: "setAt (r(i \<mapsto> s)) j = (if j = i then s else setAt r j)"
  by (simp add: setAt_def)

text \<open>
  What the iteration keeps: the sets only shrink towards \<open>next\<close>, and never below a family
  \<open>Dom\<close> that is consistent with the predecessors.
\<close>

definition over_dominators ::
  "(int \<Rightarrow> int set) \<Rightarrow> (int \<Rightarrow> int list) \<Rightarrow> int \<Rightarrow> int list \<Rightarrow> dominatorMap \<Rightarrow> bool" where
  "over_dominators Dom preds entry is r \<longleftrightarrow>
     (\<forall>i\<in>set is. finite (setAt r i) \<and> Dom i \<subseteq> setAt r i) \<and> (\<forall>i. r i = None \<longleftrightarrow> i \<notin> set is) \<and>
     r entry = Some {entry} \<and>
     (\<forall>i\<in>set is. i \<noteq> entry \<longrightarrow> nextDominators r (preds i) i \<subseteq> setAt r i)"

definition consistent :: "(int \<Rightarrow> int set) \<Rightarrow> (int \<Rightarrow> int list) \<Rightarrow> int \<Rightarrow> int list \<Rightarrow> bool" where
  "consistent Dom preds entry is \<longleftrightarrow>
     (\<forall>i\<in>set is. i \<noteq> entry \<longrightarrow> preds i \<noteq> [] \<and> (\<forall>p\<in>set (preds i). p \<in> set is \<and> Dom i \<subseteq> insert i (Dom p)))"

lemma over_step:
  assumes c: "consistent Dom preds entry is" and o: "over_dominators Dom preds entry is r"
    and i: "i \<in> set is" "i \<noteq> entry"
  shows "over_dominators Dom preds entry is (r(i \<mapsto> nextDominators r (preds i) i))"
proof -
  let ?new = "nextDominators r (preds i) i" let ?r = "r(i \<mapsto> ?new)"
  have below: "?new \<subseteq> setAt r i" using o i by (simp add: over_dominators_def)
  have "nextDominators ?r (preds j) j \<subseteq> setAt ?r j" if j: "j \<in> set is" "j \<noteq> entry" for j
  proof -
    have "nextDominators ?r (preds j) j \<subseteq> nextDominators r (preds j) j"
      by (rule nextDominators_mono) (use below in simp)
    moreover have "nextDominators r (preds j) j \<subseteq> setAt r j" using o j by (simp add: over_dominators_def)
    ultimately show ?thesis by (cases "j = i") auto
  qed
  moreover have "Dom i \<subseteq> ?new"
  proof
    fix a assume a: "a \<in> Dom i"
    have "a \<in> setAt r p" if "p \<in> set (preds i)" "a \<noteq> i" for p
    proof -
      have "p \<in> set is \<and> Dom i \<subseteq> insert i (Dom p)" using c i that(1) unfolding consistent_def by blast
      moreover from this have "Dom p \<subseteq> setAt r p" using o unfolding over_dominators_def by blast
      ultimately show ?thesis using a that(2) by blast
    qed
    then show "a \<in> ?new" using c i by (auto simp: nextDominators_eq consistent_def)
  qed
  ultimately show ?thesis
    using o i below finite_subset [OF below] by (auto simp: over_dominators_def)
qed

text \<open>The size of the sets, which every changing step makes smaller.\<close>

definition total :: "int list \<Rightarrow> dominatorMap \<Rightarrow> nat" where
  "total is r = (\<Sum>i\<in>set is. card (setAt r i))"

lemma total_step:
  assumes o: "over_dominators Dom preds entry is r" and i: "i \<in> set is" "i \<noteq> entry"
    and new: "setAt r i \<noteq> nextDominators r (preds i) i"
  shows "total is (r(i \<mapsto> nextDominators r (preds i) i)) < total is r"
proof -
  let ?new = "nextDominators r (preds i) i"
  have "?new \<subset> setAt r i" "finite (setAt r i)" using o i new by (auto simp: over_dominators_def)
  then have "card ?new < card (setAt r i)" by (rule psubset_card_mono [rotated])
  then show ?thesis
    unfolding total_def by (intro sum_strict_mono_ex1) (use i in \<open>auto intro: less_imp_le\<close>)
qed

lemma pass_changed: "dominatorPass preds entry js r True = (r', ch) \<Longrightarrow> ch"
  by (induction js arbitrary: r) (auto simp: Let_def split: if_splits)

lemma pass_step:
  assumes c: "consistent Dom preds entry is"
  shows "over_dominators Dom preds entry is r \<Longrightarrow> set js \<subseteq> set is \<Longrightarrow>
    dominatorPass preds entry js r ch = (r', ch') \<Longrightarrow>
    over_dominators Dom preds entry is r' \<and> total is r' \<le> total is r \<and>
    (ch' \<and> \<not> ch \<longrightarrow> total is r' < total is r) \<and>
    (\<not> ch' \<longrightarrow> r' = r \<and> (\<forall>j\<in>set js. j \<noteq> entry \<longrightarrow> setAt r j = nextDominators r (preds j) j))"
proof (induction js arbitrary: r ch)
  case (Cons j js)
  show ?case
  proof (cases "j \<noteq> entry \<and> setAt r j \<noteq> nextDominators r (preds j) j")
    case True
    let ?r = "r(j \<mapsto> nextDominators r (preds j) j)"
    have j: "j \<in> set is" "j \<noteq> entry" using Cons.prems(2) True by auto
    have p: "dominatorPass preds entry js ?r True = (r', ch')" using Cons.prems(3) True by (simp add: Let_def)
    have sub: "set js \<subseteq> set is" using Cons.prems(2) by simp
    note Cons.IH [OF over_step [OF c Cons.prems(1) j] sub p]
    then have "over_dominators Dom preds entry is r'" "total is r' \<le> total is ?r" by blast+
    moreover have "ch'" by (rule pass_changed [OF p])
    moreover have "total is ?r < total is r" using total_step [OF Cons.prems(1) j] True by blast
    ultimately show ?thesis by linarith
  next
    case False
    then have "dominatorPass preds entry js r ch = (r', ch')" using Cons.prems(3) by (auto simp: Let_def split: if_splits)
    from Cons.IH [OF Cons.prems(1) _ this] Cons.prems(2) False show ?thesis by auto
  qed
qed simp

lemma loop_ends:
  assumes c: "consistent Dom preds entry is"
  shows "over_dominators Dom preds entry is r \<Longrightarrow>
    \<exists>r'. dominatorLoop preds entry is r = Some r' \<and> over_dominators Dom preds entry is r' \<and>
      (\<forall>i\<in>set is. i \<noteq> entry \<longrightarrow> setAt r' i = nextDominators r' (preds i) i)"
proof (induction "total is r" arbitrary: r rule: less_induct)
  case less
  obtain r' ch where p: "dominatorPass preds entry is r False = (r', ch)" by force
  note step = pass_step [OF c less.prems order.refl p]
  show ?case
  proof (cases ch)
    case True
    with step less.hyps [of r'] show ?thesis by (subst dominatorLoop.simps) (simp add: p)
  next
    case False
    with step have "over_dominators Dom preds entry is r" "r' = r"
      "\<forall>i\<in>set is. i \<noteq> entry \<longrightarrow> setAt r i = nextDominators r (preds i) i" by auto
    with False show ?thesis by (subst dominatorLoop.simps) (simp add: p)
  qed
qed

section \<open>The dominators of a graph\<close>

lemma predecessors_iff:
  "p \<in> set (predecessorsOf blocks R i) \<longleftrightarrow> i \<in> R \<and> (\<exists>b\<in>set blocks. cfgIndex b = p \<and> Some i \<in> set (cfgSuccs b))"
  by (auto simp: predecessorsOf_def)

lemma entry_in: "entryBlock cfg = Some e \<Longrightarrow> cfgIndex e \<in> indices cfg"
  by (auto simp: entryBlock_def indices_def split: list.splits)

text \<open>What a block's dominators are told from: a path to it ends with an edge, or is the entry.\<close>

lemma path_last:
  "cfg_path cfg a p b \<Longrightarrow> b \<noteq> a \<Longrightarrow> \<exists>q c. p = q @ [b] \<and> cfg_path cfg a q c \<and> cfg_edge cfg c b"
  by (cases rule: cfg_path.cases) auto

lemma dominates_pred:
  "dominates cfg e a b \<Longrightarrow> cfg_edge cfg c b \<Longrightarrow> a = b \<or> dominates cfg e a c"
  by (auto simp: dominates_def dest: path_step)

lemma dominators_consistent:
  assumes wf: "cfg_wf cfg" and e: "e \<in> indices cfg"
    and R: "R = reachableBlocks cfg [Some e] {}" and bs: "blocks = filter (\<lambda>b. cfgIndex b \<in> R) (cfgBlocks cfg)"
  shows "consistent (\<lambda>b. {a. dominates cfg e a b}) (predecessorsOf blocks R) e (map cfgIndex blocks)"
  unfolding consistent_def
proof (intro ballI impI conjI)
  fix i assume i: "i \<in> set (map cfgIndex blocks)" "i \<noteq> e"
  then have "i \<in> R" by (auto simp: bs)
  then obtain p where "cfg_path cfg e p i" using reachable_iff [OF e] R by blast
  from path_last [OF this i(2)] obtain q c where q: "cfg_path cfg e q c" "cfg_edge cfg c i" by blast
  then obtain blk where blk: "blockAt cfg c = Some blk" "Some i \<in> set (cfgSuccs blk)" by (auto simp: cfg_edge_def)
  from q(1) have "c \<in> R" using reachable_iff [OF e] R by blast
  with blk \<open>i \<in> R\<close> have "c \<in> set (predecessorsOf blocks R i)"
    using blockAt_Some [OF blk(1)] by (auto simp: predecessors_iff bs)
  then show "predecessorsOf blocks R i \<noteq> []" by (metis empty_iff list.set(1))
  fix p assume p: "p \<in> set (predecessorsOf blocks R i)"
  then obtain b where b: "b \<in> set blocks" "cfgIndex b = p" "Some i \<in> set (cfgSuccs b)" by (auto simp: predecessors_iff)
  then show "p \<in> set (map cfgIndex blocks)" by auto
  have "blockAt cfg p = Some b" using blockAt_wf [OF wf] b by (auto simp: bs)
  then have "cfg_edge cfg p i" using b i by (auto simp: cfg_edge_def indices_def bs)
  then show "{a. dominates cfg e a i} \<subseteq> insert i {a. dominates cfg e a p}"
    using dominates_pred by fast
qed

lemma protocol_dominators:
  assumes wf: "cfg_wf cfg" and "entryBlock cfg = Some eb"
  shows "\<exists>r. protocolCFGBlockDominators cfg = Some r \<and>
    (\<forall>b. r b = (if \<exists>p. cfg_path cfg (cfgIndex eb) p b then Some {a. dominates cfg (cfgIndex eb) a b} else None))"
proof -
  define e where "e = cfgIndex eb"
  define R where "R = reachableBlocks cfg [Some e] {}"
  define blocks where "blocks = filter (\<lambda>b. cfgIndex b \<in> R) (cfgBlocks cfg)"
  let ?is = "map cfgIndex blocks" let ?Dom = "\<lambda>b. {a. dominates cfg e a b}"
  have e: "e \<in> indices cfg" using entry_in [OF assms(2)] by (simp add: e_def)
  have R_iff: "b \<in> R \<longleftrightarrow> (\<exists>p. cfg_path cfg e p b)" for b using reachable_iff [OF e] R_def by simp
  have is_iff: "b \<in> set ?is \<longleftrightarrow> b \<in> R" for b
  proof -
    have "b \<in> indices cfg" if "b \<in> R" using that R_iff [of b] path_ends by blast
    then show ?thesis by (auto simp: blocks_def indices_def)
  qed
  have path_e: "cfg_path cfg e [e] e" by (rule path_refl [OF e])
  then have eR: "e \<in> R" using R_iff by blast
  note cons = dominators_consistent [OF wf e R_def blocks_def]
  have path_in: "cfg_path cfg a p b \<Longrightarrow> cfg_path cfg e q a \<Longrightarrow> set p \<subseteq> R" for a p b q
  proof (induction arbitrary: q rule: cfg_path.induct)
    case (path_refl a)
    then show ?case using R_iff by auto
  next
    case (path_step a p b c)
    then have "cfg_path cfg e (q @ tl (p @ [c])) c" by (blast intro: path_append cfg_path.path_step)
    with path_step show ?case using R_iff by auto
  qed
  have dom_sub: "?Dom b \<subseteq> R" if "b \<in> R" for b
  proof -
    from that obtain p where p: "cfg_path cfg e p b" using R_iff by blast
    with path_in [OF p path_e] show ?thesis by (auto simp: dominates_def)
  qed
  have "over_dominators ?Dom (predecessorsOf blocks R) e ?is (initialDominators e ?is)"
    unfolding over_dominators_def
  proof (intro conjI allI ballI impI)
    fix i assume i: "i \<in> set ?is"
    show "finite (setAt (initialDominators e ?is) i)" by (simp add: setAt_def initialDominators_def)
    have "a = e" if "dominates cfg e a e" for a using that path_e by (auto simp: dominates_def)
    then show "?Dom i \<subseteq> setAt (initialDominators e ?is) i"
      using i dom_sub [of i] is_iff by (auto simp: setAt_def initialDominators_def)
    assume "i \<noteq> e"
    have sub: "setAt (initialDominators e ?is) p \<subseteq> set ?is" for p
      using eR is_iff [of e] by (auto simp: setAt_def initialDominators_def)
    have "nextDominators (initialDominators e ?is) (predecessorsOf blocks R i) i \<subseteq> insert i (set ?is)"
      using sub by (cases "predecessorsOf blocks R i") (fastforce simp: nextDominators_eq)+
    also have "\<dots> = setAt (initialDominators e ?is) i" using i \<open>i \<noteq> e\<close> by (auto simp: setAt_def initialDominators_def)
    finally show "nextDominators (initialDominators e ?is) (predecessorsOf blocks R i) i \<subseteq> setAt (initialDominators e ?is) i" .
  qed (use eR is_iff [of e] in \<open>auto simp: initialDominators_def\<close>)
  from loop_ends [OF cons this] obtain r where
    r: "dominatorLoop (predecessorsOf blocks R) e ?is (initialDominators e ?is) = Some r"
      "over_dominators ?Dom (predecessorsOf blocks R) e ?is r"
      "\<forall>i\<in>set ?is. i \<noteq> e \<longrightarrow> setAt r i = nextDominators r (predecessorsOf blocks R i) i" by blast
  have on_path: "cfg_path cfg e' p b \<Longrightarrow> e' = e \<Longrightarrow> setAt r b \<subseteq> set p" for e' p b
  proof (induction rule: cfg_path.induct)
    case (path_refl a)
    then show ?case using r(2) by (auto simp: over_dominators_def setAt_def)
  next
    case (path_step e' p b c)
    show ?case
    proof (cases "c = e")
      case True
      then show ?thesis using r(2) path_ends [OF path_step.hyps(1)] path_step.prems
        by (auto simp: over_dominators_def setAt_def)
    next
      case False
      have bc: "b \<in> R" "c \<in> R" using path_step R_iff cfg_path.path_step by blast+
      obtain blk where blk: "blockAt cfg b = Some blk" "Some c \<in> set (cfgSuccs blk)"
        using path_step.hyps(2) by (auto simp: cfg_edge_def)
      then have "b \<in> set (predecessorsOf blocks R c)"
        using bc blockAt_Some [OF blk(1)] by (auto simp: predecessors_iff blocks_def)
      moreover have "setAt r c = nextDominators r (predecessorsOf blocks R c) c" using r(3) is_iff [of c] bc False by blast
      ultimately show ?thesis using path_step.IH [OF path_step.prems] by (auto simp: nextDominators_eq split: if_splits)
    qed
  qed
  have "r b = (if b \<in> R then Some (?Dom b) else None)" for b
  proof (cases "b \<in> R")
    case True
    then have "?Dom b \<subseteq> setAt r b" "r b \<noteq> None" using r(2) is_iff [of b] by (auto simp: over_dominators_def)
    moreover have "setAt r b \<subseteq> ?Dom b" using on_path by (fastforce simp: dominates_def)
    ultimately show ?thesis using True by (auto simp: setAt_def)
  next
    case False
    then show ?thesis using r(2) is_iff [of b] by (auto simp: over_dominators_def)
  qed
  moreover have "protocolCFGBlockDominators cfg = Some r"
    using r(1) assms(2) by (simp add: protocolCFGBlockDominators_def Let_def e_def R_def blocks_def)
  ultimately show ?thesis using R_iff by (auto simp: e_def)
qed

text \<open>
  C6. The dominator computation returns, for every control-flow graph with unique block
  indices, and is exact: a block is given a set precisely when it can be reached from the
  entry, and the set holds precisely the blocks that lie on every path from the entry to it.
\<close>

theorem protocolCFGBlockDominators_exact:
  assumes "cfg_wf cfg" and "entryBlock cfg = Some e"
  shows "\<exists>r. protocolCFGBlockDominators cfg = Some r \<and>
    (\<forall>b. r b = (if \<exists>p. cfg_path cfg (cfgIndex e) p b then Some {a. dominates cfg (cfgIndex e) a b} else None))"
  by (rule protocol_dominators [OF assms])

text \<open>A branch that joins again, a nil block and a block that is never reached.\<close>

definition diamond :: "nat CFG" where
  "diamond = [Some \<lparr>cfgIndex = 0, cfgNodes = [], cfgSuccs = [Some 1, Some 2]\<rparr>,
     Some \<lparr>cfgIndex = 1, cfgNodes = [], cfgSuccs = [Some 3]\<rparr>, None,
     Some \<lparr>cfgIndex = 2, cfgNodes = [], cfgSuccs = [Some 3, None]\<rparr>,
     Some \<lparr>cfgIndex = 3, cfgNodes = [], cfgSuccs = []\<rparr>,
     Some \<lparr>cfgIndex = 4, cfgNodes = [], cfgSuccs = [Some 3]\<rparr>]"

theorem protocolCFGBlockDominators_exact_witness:
  "{a. dominates diamond 0 a 3} = {0, 3} \<and> \<not> (\<exists>p. cfg_path diamond 0 p 4)"
proof -
  have wf: "cfg_wf diamond" by code_simp
  have e: "entryBlock diamond = Some \<lparr>cfgIndex = 0, cfgNodes = [], cfgSuccs = [Some 1, Some 2]\<rparr>" by code_simp
  have run: "map_option (\<lambda>r. (r 3, r 4)) (protocolCFGBlockDominators diamond) = Some (Some {0, 3}, None)"
    by code_simp
  from protocolCFGBlockDominators_exact [OF wf e] obtain r where
    r: "protocolCFGBlockDominators diamond = Some r"
      "\<And>b. r b = (if \<exists>p. cfg_path diamond 0 p b then Some {a. dominates diamond 0 a b} else None)" by auto
  with run show ?thesis using r(2) [of 3] r(2) [of 4] by (auto split: if_splits)
qed

end
