(* ===== verification/Witness_Formula.thy ===== *)
theory Witness_Formula
  imports Constraints Dominators Witness
begin

text \<open>
  The constraint formula of a witness (\<open>goplint/cfa_ssa_constraints.go\<close>): the predicates along
  a block path, the predicates of the branches that dominate the origin of the tracked fact,
  the provenance recorded on witness edges, and their conjunction.  The index of SSA values is
  built from the SSA form (\<open>golang.org/x/tools/go/ssa\<close>) and is a parameter, as are the JSON
  and base64 codecs of the Go library.
\<close>

section \<open>Branches\<close>

text \<open>A block holds the statements and expressions of \<open>go/cfg\<close>; \<open>None\<close> is a node that is no expression.\<close>

type_synonym exprCFG = "expr option CFG"

text \<open>The index of SSA values: \<open>None\<close> when empty; and the polls its construction makes.\<close>

type_synonym indexBuilder = "deadline \<Rightarrow> nat \<Rightarrow> ssaIndex option \<times> bool \<times> nat"

definition trueFormula :: cfgSSAConstraintFormula where
  "trueFormula = \<lparr>alternatives = [[]], unsupported = False\<rparr>"

definition cfgPathSuccessorPolarity :: "'n cfgBlock \<Rightarrow> 'n cfgBlock \<Rightarrow> bool option" where
  "cfgPathSuccessorPolarity from to =
     (if cfgSuccs from ! 0 = Some (cfgIndex to) then Some True
      else if cfgSuccs from ! 1 = Some (cfgIndex to) then Some False else None)"

definition branchPredicate ::
  "ssaIndex \<Rightarrow> expr option cfgBlock \<Rightarrow> expr \<Rightarrow> bool \<Rightarrow> deadline \<Rightarrow> nat \<Rightarrow> cfgSSAConstraintFormula \<times> bool \<times> nat" where
  "branchPredicate ix block condition truthy d t =
     (case extractSSAPredicateFormulaWithControl ix condition truthy d t of (predicate, e0, t0) \<Rightarrow>
      if e0 then (emptyFormula, True, t0)
      else if unsupported predicate then
        (let switchPredicate = extractSSASwitchCasePredicate ix (cfgNodes block) truthy
         in (if \<not> unsupported switchPredicate then switchPredicate else predicate, False, t0))
      else (predicate, False, t0))"

text \<open>The branch taken from a block to the next one of a path, where there is one.\<close>

definition branchTaken :: "expr option cfgBlock option \<Rightarrow> expr option cfgBlock option \<Rightarrow> (expr option cfgBlock \<times> expr \<times> bool) option" where
  "branchTaken from to =
     (case (from, to) of
        (Some f, Some g) \<Rightarrow>
          if length (cfgSuccs f) \<noteq> 2 \<or> cfgNodes f = [] then None
          else (case last (cfgNodes f) of None \<Rightarrow> None
            | Some condition \<Rightarrow>
                (case cfgPathSuccessorPolarity f g of None \<Rightarrow> None | Some truthy \<Rightarrow> Some (f, condition, truthy)))
      | _ \<Rightarrow> None)"

fun conjoinPath ::
  "ssaIndex \<Rightarrow> exprCFG \<Rightarrow> deadline \<Rightarrow> nat \<Rightarrow> int list \<Rightarrow> cfgSSAConstraintFormula \<Rightarrow>
   cfgSSAConstraintFormula \<times> bool \<times> nat" where
  "conjoinPath ix cfg d t (a # b # rest) formula =
     (case feasibilityDeadlineReached d t of (e0, t0) \<Rightarrow>
      if e0 then (emptyFormula, True, t0)
      else case branchTaken (blockAt cfg a) (blockAt cfg b) of
        None \<Rightarrow> conjoinPath ix cfg d t0 (b # rest) formula
      | Some (block, condition, truthy) \<Rightarrow>
          (case branchPredicate ix block condition truthy d t0 of (predicate, e1, t1) \<Rightarrow>
           if e1 then (emptyFormula, True, t1)
           else case cfgSSAFormulaAndWithControl formula predicate d t1 of (formula', e2, t2) \<Rightarrow>
             if e2 then (emptyFormula, True, t2) else conjoinPath ix cfg d t2 (b # rest) formula'))"
| "conjoinPath ix cfg d t _ formula = (formula, False, t)"

definition normalizedOr ::
  "cfgSSAConstraintFormula \<Rightarrow> deadline \<Rightarrow> nat \<Rightarrow> cfgSSAConstraintFormula \<times> bool \<times> nat" where
  "normalizedOr formula d t =
     (case normalizeWithControl formula d t of (f, e, t') \<Rightarrow> if e then (emptyFormula, True, t') else (f, False, t'))"

definition extractSSAWitnessConstraintsWithControl ::
  "indexBuilder option \<Rightarrow> exprCFG option \<Rightarrow> int list \<Rightarrow> deadline \<Rightarrow> nat \<Rightarrow> cfgSSAConstraintFormula \<times> bool \<times> nat" where
  "extractSSAWitnessConstraintsWithControl pass cfg path d t =
     (case feasibilityDeadlineReached d t of (e0, t0) \<Rightarrow>
      if e0 then (emptyFormula, True, t0)
      else case pass of None \<Rightarrow> (cfgSSAUnsupportedFormula, False, t0)
      | Some build \<Rightarrow>
      case cfg of None \<Rightarrow> (trueFormula, False, t0)
      | Some blocks \<Rightarrow>
      if length path < 2 then (trueFormula, False, t0)
      else case build d t0 of (index, e1, t1) \<Rightarrow>
      if e1 then (emptyFormula, True, t1)
      else case index of None \<Rightarrow> (cfgSSAUnsupportedFormula, False, t1)
      | Some ix \<Rightarrow>
      case pollEach d t1 blocks of (e2, t2) \<Rightarrow>
      if e2 then (emptyFormula, True, t2)
      else case conjoinPath ix blocks d t2 path trueFormula of (formula, e3, t3) \<Rightarrow>
      if e3 then (emptyFormula, True, t3)
      else case feasibilityDeadlineReached d t3 of (e4, t4) \<Rightarrow>
      if e4 then (emptyFormula, True, t4)
      else normalizedOr formula d t4)"

section \<open>The conditions that dominate the origin\<close>

definition dominatesTarget :: "int set \<Rightarrow> int option \<Rightarrow> bool" where
  "dominatesTarget targetDominators s \<longleftrightarrow> (case s of None \<Rightarrow> False | Some i \<Rightarrow> i \<in> targetDominators)"

text \<open>
  A block that contributes its branch: it dominates the target, has two successors of which
  exactly one dominates the target, and the flag says whether that is the first one.
\<close>

definition dominatingPolarity :: "int set \<Rightarrow> int \<Rightarrow> expr option cfgBlock option \<Rightarrow> (expr option cfgBlock \<times> bool) option" where
  "dominatingPolarity targetDominators target block =
     (case block of None \<Rightarrow> None
      | Some b \<Rightarrow>
          if cfgIndex b = target \<or> cfgIndex b \<notin> targetDominators \<or> length (cfgSuccs b) \<noteq> 2 \<or> cfgNodes b = [] then None
          else (let trueDominates = dominatesTarget targetDominators (cfgSuccs b ! 0);
                    falseDominates = dominatesTarget targetDominators (cfgSuccs b ! 1)
                in if trueDominates = falseDominates then None else Some (b, trueDominates)))"

fun conjoinDominating ::
  "ssaIndex \<Rightarrow> int set \<Rightarrow> int \<Rightarrow> deadline \<Rightarrow> nat \<Rightarrow> exprCFG \<Rightarrow> cfgSSAConstraintFormula \<Rightarrow>
   cfgSSAConstraintFormula \<times> bool \<times> nat" where
  "conjoinDominating ix doms target d t [] formula = (formula, False, t)"
| "conjoinDominating ix doms target d t (block # blocks) formula =
     (case feasibilityDeadlineReached d t of (e0, t0) \<Rightarrow>
      if e0 then (emptyFormula, True, t0)
      else case dominatingPolarity doms target block of
        None \<Rightarrow> conjoinDominating ix doms target d t0 blocks formula
      | Some (b, truthy) \<Rightarrow>
          (case (case last (cfgNodes b) of None \<Rightarrow> (cfgSSAUnsupportedFormula, False, t0)
                 | Some condition \<Rightarrow> branchPredicate ix b condition truthy d t0) of (predicate, e1, t1) \<Rightarrow>
           if e1 then (emptyFormula, True, t1)
           else case cfgSSAFormulaAndWithControl formula predicate d t1 of (formula', e2, t2) \<Rightarrow>
             if e2 then (emptyFormula, True, t2) else conjoinDominating ix doms target d t2 blocks formula'))"

definition extractSSADominatingConstraintsForWitnessStartWithControl ::
  "indexBuilder option \<Rightarrow> exprCFG option \<Rightarrow> int list \<Rightarrow> deadline \<Rightarrow> nat \<Rightarrow> cfgSSAConstraintFormula \<times> bool \<times> nat" where
  "extractSSADominatingConstraintsForWitnessStartWithControl pass cfg path d t =
     (case feasibilityDeadlineReached d t of (e0, t0) \<Rightarrow>
      if e0 then (emptyFormula, True, t0)
      else case (pass, cfg, path) of
        (Some build, Some blocks, targetIndex # _) \<Rightarrow>
          if blocks = [] then (trueFormula, False, t0)
          else (case Option.bind (protocolCFGBlockDominators blocks) (\<lambda>dominators. dominators targetIndex) of
              None \<Rightarrow> (cfgSSAUnsupportedFormula, False, t0)
            | Some targetDominators \<Rightarrow>
                (case build d t0 of (index, e1, t1) \<Rightarrow>
                 if e1 then (emptyFormula, True, t1)
                 else case index of None \<Rightarrow> (cfgSSAUnsupportedFormula, False, t1)
                 | Some ix \<Rightarrow>
                     (case conjoinDominating ix targetDominators targetIndex d t1 blocks trueFormula of (formula, e2, t2) \<Rightarrow>
                      if e2 then (emptyFormula, True, t2) else normalizedOr formula d t2)))
      | _ \<Rightarrow> (trueFormula, False, t0))"

section \<open>The witness record\<close>

record cfgWitnessRecord =
  Category :: string
  FindingID :: string
  OriginAnchors :: "(string \<times> string) list"
  RecordFactFamily :: string
  RecordFactKey :: string
  RecordEdgeTag :: ideEdgeFuncTag
  FactOriginPath :: "int list"
  CFGPath :: "int list"
  RecordWitnessEdges :: "interprocWitnessEdge list"
  RecordWitnessTerminal :: interprocNodeID
  CallChain :: "string list"
  TriggerReason :: string
  RecordWitnessHash :: string

definition extractSSAConstraintsForWitnessRecordWithControl ::
  "indexBuilder option \<Rightarrow> decoder \<Rightarrow> exprCFG option \<Rightarrow> cfgWitnessRecord \<Rightarrow> deadline \<Rightarrow> nat \<Rightarrow>
   cfgSSAConstraintFormula \<times> bool \<times> nat" where
  "extractSSAConstraintsForWitnessRecordWithControl pass decode cfg witness d t =
     (case feasibilityDeadlineReached d t of (e0, t0) \<Rightarrow>
      if e0 then (emptyFormula, True, t0)
      else let originPath = (if FactOriginPath witness = [] then CFGPath witness else FactOriginPath witness) in
      case extractSSADominatingConstraintsForWitnessStartWithControl pass cfg originPath d t0 of (pre, e1, t1) \<Rightarrow>
      if e1 then (pre, True, t1)
      else if RecordWitnessEdges witness = [] then
        (case extractSSAWitnessConstraintsWithControl pass cfg (CFGPath witness) d t1 of (suf, e2, t2) \<Rightarrow>
         if e2 then (emptyFormula, True, t2) else cfgSSAFormulaAndWithControl pre suf d t2)
      else
        (case conjoinEdges decode d t1 (map WPredicates (RecordWitnessEdges witness)) trueFormula of (formula, e2, t2) \<Rightarrow>
         if e2 then (emptyFormula, True, t2)
         else case feasibilityDeadlineReached d t2 of (e3, t3) \<Rightarrow>
         if e3 then (emptyFormula, True, t3)
         else case normalizedOr formula d t3 of (formula', e4, t4) \<Rightarrow>
         if e4 then (emptyFormula, True, t4) else cfgSSAFormulaAndWithControl pre formula' d t4))"

section \<open>Provenance of graph edges\<close>

type_synonym encoder = "(string \<times> string \<times> string) list list \<Rightarrow> string option"

definition encodedAtom :: "cfgPredicateConstraint \<Rightarrow> string \<times> string \<times> string" where
  "encodedAtom c = (subject c, cmp_op c, cvalue c)"

definition encodeCFGSSAPredicateFormula :: "encoder \<Rightarrow> cfgSSAConstraintFormula \<Rightarrow> string" where
  "encodeCFGSSAPredicateFormula encode formula =
     (if unsupported formula then ''''
      else case encode (map (map encodedAtom) (sortedAlternatives (alternatives formula))) of
        None \<Rightarrow> ''''
      | Some text \<Rightarrow> cfgSSAPredicateFormulaPrefix @ text)"

definition cfgSSAPredicateIsNondeterministicBranch :: "expr \<Rightarrow> bool" where
  "cfgSSAPredicateIsNondeterministicBranch expression =
     (case stripParens expression of TypeAssertExpr _ \<Rightarrow> True | UnaryExpr op _ \<Rightarrow> op = ARROW | _ \<Rightarrow> False)"

definition show_bool :: "bool \<Rightarrow> string" where
  "show_bool b = (if b then ''true'' else ''false'')"

text \<open>The text of an edge whose condition is not supported; \<open>nodeKey\<close> is the source position of the condition.\<close>

definition unsupportedProvenance :: "int \<Rightarrow> int \<Rightarrow> string \<Rightarrow> bool \<Rightarrow> string" where
  "unsupportedProvenance from to nodeKey truthy =
     ''ssa-unsupported|from='' @ show_int from @ ''|to='' @ show_int to @ ''|condition='' @ nodeKey @
     ''|truthy='' @ show_bool truthy"

definition edgeFormula :: "ssaIndex \<Rightarrow> expr option cfgBlock \<Rightarrow> expr \<Rightarrow> bool \<Rightarrow> cfgSSAConstraintFormula" where
  "edgeFormula ix from condition truthy =
     (let formula = fst (extractSSAPredicateFormulaWithControl ix condition truthy None 0);
          formula = (if unsupported formula then extractSSASwitchCasePredicate ix (cfgNodes from) truthy else formula)
      in if unsupported formula \<and> cfgSSAPredicateIsNondeterministicBranch condition then trueFormula else formula)"

definition cfgSSAPredicateProvenance ::
  "ssaIndex option \<Rightarrow> encoder \<Rightarrow> (expr \<Rightarrow> string) \<Rightarrow> expr option cfgBlock option \<Rightarrow> expr option cfgBlock option \<Rightarrow> string list" where
  "cfgSSAPredicateProvenance index encode nodeKey from to =
     (case (from, to) of
        (Some f, Some g) \<Rightarrow>
          if length (cfgSuccs f) \<noteq> 2 \<or> cfgNodes f = [] then []
          else (case cfgPathSuccessorPolarity f g of
              None \<Rightarrow> [''ssa-invalid-successor|from='' @ show_int (cfgIndex f) @ ''|to='' @ show_int (cfgIndex g)]
            | Some truthy \<Rightarrow>
                (case last (cfgNodes f) of
                   None \<Rightarrow> [encodeCFGSSAPredicateFormula encode trueFormula]
                 | Some condition \<Rightarrow>
                     (case index of
                        None \<Rightarrow> [''ssa-unavailable|from='' @ show_int (cfgIndex f) @ ''|to='' @ show_int (cfgIndex g) @
                          ''|truthy='' @ show_bool truthy]
                      | Some ix \<Rightarrow>
                          (let formula = edgeFormula ix f condition truthy;
                               encodedFormula = encodeCFGSSAPredicateFormula encode formula
                           in if unsupported formula \<or> encodedFormula = ''''
                              then [unsupportedProvenance (cfgIndex f) (cfgIndex g) (nodeKey condition) truthy]
                              else [encodedFormula]))))
      | _ \<Rightarrow> [])"

section \<open>Recorded provenance reads back\<close>

lemma sortedAlternatives_sorted: "sortedAlternatives (sortedAlternatives alts) = sortedAlternatives alts"
proof -
  have "map (sort_key cfgConstraintKey) (sortedAlternatives alts) = sortedAlternatives alts"
    by (intro map_idI sort_key_id_if_sorted) (auto simp: sortedAlternatives_def)
  then show ?thesis by (simp add: sortedAlternatives_def sort_key_id_if_sorted)
qed

lemma no_deadline [simp]: "feasibilityDeadlineReached None t = (False, t)"
  by (simp add: feasibilityDeadlineReached_def)

lemma pollEach_no_deadline [simp]: "pollEach None t xs = (False, t)"
  by (induction xs) auto

definition atom_ok :: "cfgPredicateConstraint \<Rightarrow> bool" where
  "atom_ok c \<longleftrightarrow> subject c \<noteq> '''' \<and> isCFGComparisonOp (cmp_op c) \<and> cvalue c \<noteq> ''''"

lemma atomOf_encoded [simp]: "atomOf (encodedAtom c) = c"
  by (simp add: atomOf_def encodedAtom_def)

lemma readAtoms_encoded:
  "\<forall>c\<in>set alt. atom_ok c \<Longrightarrow> readAtoms None t (map encodedAtom alt) acc = (AtomsRead (acc @ alt), t)"
  by (induction alt arbitrary: acc) (auto simp: atom_shape_ok_def encodedAtom_def atomOf_def atom_ok_def)

lemma readAlternatives_encoded:
  "\<forall>alt\<in>set alts. \<forall>c\<in>set alt. atom_ok c \<Longrightarrow>
    readAlternatives None t (map (map encodedAtom) alts) acc =
      (\<lparr>alternatives = sortedAlternatives (acc @ alts), unsupported = False\<rparr>, False, t)"
  by (induction alts arbitrary: acc) (simp_all add: readAtoms_encoded normalizeWithControl_def)

lemma set_sortedAlternatives: "set (sortedAlternatives alts) = sort_key cfgConstraintKey ` set alts"
  by (simp add: sortedAlternatives_def)

lemma provenance_reads_back:
  assumes "\<And>xs body. encode xs = Some body \<Longrightarrow> decode body = Some xs"
    and "\<not> unsupported f" "\<forall>alt\<in>set (alternatives f). \<forall>c\<in>set alt. atom_ok c"
    and "encodeCFGSSAPredicateFormula encode f \<noteq> ''''"
  shows "cfgSSAFormulaFromPredicateProvenanceWithControl decode (encodeCFGSSAPredicateFormula encode f) None t =
    (f\<lparr>alternatives := sortedAlternatives (alternatives f)\<rparr>, False, t)"
proof -
  let ?alts = "sortedAlternatives (alternatives f)"
  obtain body where body: "encode (map (map encodedAtom) ?alts) = Some body"
    using assms(2,4) by (auto simp: encodeCFGSSAPredicateFormula_def split: option.splits)
  have "decode body = Some (map (map encodedAtom) ?alts)" by (rule assms(1) [OF body])
  moreover have "\<forall>alt\<in>set ?alts. \<forall>c\<in>set alt. atom_ok c" using assms(3) by (auto simp: set_sortedAlternatives)
  ultimately show ?thesis
    using assms(2) body
    by (simp add: encodeCFGSSAPredicateFormula_def cfgSSAFormulaFromPredicateProvenanceWithControl_def
        readAlternatives_encoded sortedAlternatives_sorted)
qed

section \<open>Executions\<close>

text \<open>
  An execution is a path of blocks and a value for every SSA register; at each branch the
  program is in some state that agrees with the registers.  The valuation is one for the whole
  path: a register that is assigned anew in a loop is covered for one iteration.

  \<open>caseTag\<close> tells which blocks test a case of an expression switch, and against which tag; the
  graph itself does not say so.
\<close>

definition branch_value ::
  "(int \<Rightarrow> expr option) \<Rightarrow> (expr \<Rightarrow> 'v::linorder) \<Rightarrow> (string \<Rightarrow> 'v) \<Rightarrow> 'n cfgBlock \<Rightarrow> expr \<Rightarrow> bool" where
  "branch_value caseTag ev den b condition =
     (case caseTag (cfgIndex b) of None \<Rightarrow> evalCond ev den condition | Some ctag \<Rightarrow> ev ctag = ev condition)"

definition taken ::
  "ssaIndex \<Rightarrow> (int \<Rightarrow> expr option) \<Rightarrow> (string \<Rightarrow> 'v::linorder) \<Rightarrow> (string \<Rightarrow> 'v) \<Rightarrow> exprCFG \<Rightarrow> int \<Rightarrow> int \<Rightarrow> bool" where
  "taken ix caseTag val den cfg a b \<longleftrightarrow> cfg_edge cfg a b \<and>
     (\<exists>ev. state_agrees ix ev val den \<and>
        (\<forall>block condition. blockAt cfg a = Some block \<and> length (cfgSuccs block) = 2 \<and> cfgNodes block \<noteq> [] \<and>
           last (cfgNodes block) = Some condition \<longrightarrow>
           (cfgSuccs block ! 0 = Some b \<and> branch_value caseTag ev den block condition) \<or>
           (cfgSuccs block ! 1 = Some b \<and> \<not> branch_value caseTag ev den block condition)))"

text \<open>
  What the extraction relies on at a branch block: its successors differ; an ordinary
  condition has boolean identifiers and is not mistaken for a case; the constant of a switch
  case is not itself read as a boolean condition, and the tag is the node in front of it.
\<close>

definition branch_faithful :: "ssaIndex \<Rightarrow> (int \<Rightarrow> expr option) \<Rightarrow> expr option cfgBlock \<Rightarrow> bool" where
  "branch_faithful ix caseTag b \<longleftrightarrow>
     (length (cfgSuccs b) = 2 \<and> cfgNodes b \<noteq> [] \<longrightarrow> cfgSuccs b ! 0 \<noteq> cfgSuccs b ! 1 \<and>
       (\<forall>condition. last (cfgNodes b) = Some condition \<longrightarrow>
         (case caseTag (cfgIndex b) of
            None \<Rightarrow> boolTyped ix condition \<and> (\<forall>truthy. unsupported (extractSSASwitchCasePredicate ix (cfgNodes b) truthy))
          | Some ctag \<Rightarrow>
              (\<forall>truthy d t. fst (extractSSAPredicateFormulaWithControl ix condition truthy d t) = cfgSSAUnsupportedFormula \<or>
                 fst (snd (extractSSAPredicateFormulaWithControl ix condition truthy d t))) \<and>
              (length (cfgNodes b) \<ge> 2 \<longrightarrow> cfgNodes b ! (length (cfgNodes b) - 2) = Some ctag))))"

definition cfg_faithful :: "ssaIndex \<Rightarrow> (int \<Rightarrow> expr option) \<Rightarrow> exprCFG \<Rightarrow> bool" where
  "cfg_faithful ix caseTag cfg \<longleftrightarrow> cfg_wf cfg \<and> (\<forall>b\<in>set (cfgBlocks cfg). branch_faithful ix caseTag b)"

lemma describes_True: "describes val den f True \<longleftrightarrow> satisfied val den f"
  by (simp add: describes_def)

lemma satisfied_true [simp]: "satisfied val den trueFormula"
  by (simp add: satisfied_def trueFormula_def)

lemma satisfied_unsupported [simp]: "satisfied val den cfgSSAUnsupportedFormula"
  by (simp add: satisfied_def cfgSSAUnsupportedFormula_def)

lemma satisfied_and:
  "cfgSSAFormulaAndWithControl f g d t = (h, False, t') \<Longrightarrow> satisfied val den f \<Longrightarrow> satisfied val den g \<Longrightarrow>
    satisfied val den h"
  using describes_and [of f g d t h t' val den True True] by (simp add: describes_True)

lemma satisfied_normalized:
  "normalizedOr f d t = (g, False, t') \<Longrightarrow> satisfied val den g = satisfied val den f"
  using describes_normalize [of f d t g t' val den True]
  by (auto simp: normalizedOr_def describes_True split: prod.splits if_splits)

text \<open>Over-approximation also holds of the parts of a formula that are not supported.\<close>

lemma over_extract:
  assumes "state_agrees ix ev val den" "boolTyped ix e" "evalCond ev den e = truthy"
    and "extractSSAPredicateFormulaWithControl ix e truthy d t = (f, False, t')"
  shows "satisfied val den f"
  using extract_describes [OF assms(1,2,4)] assms(3) by (simp add: describes_True)

lemma switch_satisfied:
  assumes st: "state_agrees ix ev val den" and c: "nodes \<noteq> []" "last nodes = Some c"
    and tagged: "length nodes \<ge> 2 \<Longrightarrow> nodes ! (length nodes - 2) = Some ctag" and truthy: "(ev ctag = ev c) = truthy"
  shows "satisfied val den (extractSSASwitchCasePredicate ix nodes truthy)"
proof (cases "length nodes \<ge> 2")
  case True
  have l: "nodes ! (length nodes - Suc 0) = Some c" using c by (simp add: last_conv_nth)
  show ?thesis
  proof (cases "extractSSAComparisonAtom ix ctag c EQL")
    case None
    then show ?thesis using True by (simp add: extractSSASwitchCasePredicate_def tagged l)
  next
    case (Some atom)
    have eq: "cmp_op atom = ''eq''"
      by (rule comparison_atom [OF Some]) (simp add: cfgComparisonOp_def)
    have same: "atom\<lparr>cmp_op := ''eq''\<rparr> = atom" using eq by (cases atom) simp
    have neg: "negateCFGComparisonOp ''eq'' = ''neq''" by (simp add: negateCFGComparisonOp_def)
    have "holds val den (atom\<lparr>cmp_op := (if truthy then ''eq'' else ''neq'')\<rparr>)"
      using atom_holds [OF st Some] truthy by (cases truthy) (simp_all add: eq same neg)
    then show ?thesis
      using True Some by (simp add: extractSSASwitchCasePredicate_def tagged l satisfied_def atomFormula_def)
  qed
qed (simp add: extractSSASwitchCasePredicate_def)

lemma branchPredicate_satisfied:
  assumes st: "state_agrees ix ev val den" and b: "branch_faithful ix caseTag b" "length (cfgSuccs b) = 2" "cfgNodes b \<noteq> []"
    and c: "last (cfgNodes b) = Some condition" and v: "branch_value caseTag ev den b condition = truthy"
    and run: "branchPredicate ix b condition truthy d t = (f, False, t')"
  shows "satisfied val den f"
proof -
  obtain p e0 t0 where p: "extractSSAPredicateFormulaWithControl ix condition truthy d t = (p, e0, t0)"
    by (metis prod_cases3)
  let ?sw = "extractSSASwitchCasePredicate ix (cfgNodes b) truthy"
  have e0: "\<not> e0" and f: "f = (if unsupported p \<and> \<not> unsupported ?sw then ?sw else p)"
    using run by (auto simp: branchPredicate_def p Let_def split: if_splits)
  show ?thesis
  proof (cases "caseTag (cfgIndex b)")
    case None
    then have "boolTyped ix condition" "unsupported ?sw" "evalCond ev den condition = truthy"
      using b c v by (auto simp: branch_faithful_def branch_value_def)
    with over_extract [OF st] p e0 f show ?thesis by simp
  next
    case (Some ctag)
    then have n: "cfgNodes b ! (length (cfgNodes b) - 2) = Some ctag" if "length (cfgNodes b) \<ge> 2"
      using b c that by (simp add: branch_faithful_def)
    have "fst (extractSSAPredicateFormulaWithControl ix condition truthy d t) = cfgSSAUnsupportedFormula \<or>
        fst (snd (extractSSAPredicateFormulaWithControl ix condition truthy d t))"
      using b c Some unfolding branch_faithful_def by simp
    then have "p = cfgSSAUnsupportedFormula" using p e0 by simp
    moreover have "satisfied val den ?sw"
      using switch_satisfied [OF st b(3) c n] v Some by (simp add: branch_value_def)
    ultimately show ?thesis using f by simp
  qed
qed

section \<open>The formula holds on every execution of the witness\<close>

text \<open>What every build of the index answers: the same index, or none at all.\<close>

definition builds :: "indexBuilder \<Rightarrow> ssaIndex \<Rightarrow> bool" where
  "builds build ix \<longleftrightarrow> (\<forall>d t. fst (build d t) = Some ix \<or> fst (build d t) = None)"

lemma taken_branch:
  assumes tk: "taken ix caseTag val den cfg a b" and f: "cfg_faithful ix caseTag cfg"
    and blk: "blockAt cfg a = Some block" "length (cfgSuccs block) = 2" "cfgNodes block \<noteq> []"
      "last (cfgNodes block) = Some condition"
    and dir: "cfgSuccs block ! (if truthy then 0 else 1) = Some b"
    and run: "branchPredicate ix block condition truthy d t = (g, False, t')"
  shows "satisfied val den g"
proof -
  from tk obtain ev where st: "state_agrees ix ev val den" and
    "(cfgSuccs block ! 0 = Some b \<and> branch_value caseTag ev den block condition) \<or>
     (cfgSuccs block ! 1 = Some b \<and> \<not> branch_value caseTag ev den block condition)"
    using blk unfolding taken_def by blast
  moreover have bf: "branch_faithful ix caseTag block" using f blockAt_Some [OF blk(1)] by (simp add: cfg_faithful_def)
  then have "cfgSuccs block ! 0 \<noteq> cfgSuccs block ! 1" using blk by (simp add: branch_faithful_def)
  ultimately have "branch_value caseTag ev den block condition = truthy" using dir by (cases truthy) auto
  from branchPredicate_satisfied [OF st bf blk(2-4) this run] show ?thesis .
qed

lemma polarity_successor:
  "cfgPathSuccessorPolarity f g = Some truthy \<Longrightarrow> cfgSuccs f ! (if truthy then 0 else 1) = Some (cfgIndex g)"
  by (auto simp: cfgPathSuccessorPolarity_def split: if_splits)

lemma conjoinPath_satisfied:
  "conjoinPath ix cfg d t path g = (h, False, t') \<Longrightarrow> successively (taken ix caseTag val den cfg) path \<Longrightarrow>
    satisfied val den g \<Longrightarrow> cfg_faithful ix caseTag cfg \<Longrightarrow> satisfied val den h"
proof (induction ix cfg d t path g arbitrary: h t' rule: conjoinPath.induct)
  case (1 ix cfg d t a b rest g)
  obtain e0 t0 where p0: "feasibilityDeadlineReached d t = (e0, t0)" by force
  with "1.prems"(1) have "\<not> e0" by (auto split: if_splits)
  show ?case
  proof (cases "branchTaken (blockAt cfg a) (blockAt cfg b)")
    case None
    from "1.IH"(1) [OF p0 [symmetric] \<open>\<not> e0\<close> None] "1.prems" p0 \<open>\<not> e0\<close> None show ?thesis by simp
  next
    case (Some bt)
    obtain block condition truthy where bt: "bt = (block, condition, truthy)" by (metis prod_cases3)
    from Some obtain to where br: "blockAt cfg a = Some block" "blockAt cfg b = Some to" "length (cfgSuccs block) = 2"
      "cfgNodes block \<noteq> []" "last (cfgNodes block) = Some condition" "cfgPathSuccessorPolarity block to = Some truthy"
      by (auto simp: branchTaken_def bt split: option.splits if_splits)
    obtain g1 e1 t1 where p1: "branchPredicate ix block condition truthy d t0 = (g1, e1, t1)" by (metis prod_cases3)
    obtain g2 e2 t2 where p2: "cfgSSAFormulaAndWithControl g g1 d t1 = (g2, e2, t2)" by (metis prod_cases3)
    have e: "\<not> e1" "\<not> e2" and rest: "conjoinPath ix cfg d t2 (b # rest) g2 = (h, False, t')"
      using "1.prems"(1) p0 \<open>\<not> e0\<close> Some bt p1 p2 by (auto split: if_splits)
    have "taken ix caseTag val den cfg a b" using "1.prems"(2) by simp
    moreover have "cfgSuccs block ! (if truthy then 0 else 1) = Some b"
      using polarity_successor [OF br(6)] blockAt_index [OF br(2)] by simp
    moreover have "branchPredicate ix block condition truthy d t0 = (g1, False, t1)" using p1 e(1) by simp
    ultimately have "satisfied val den g1" by (rule taken_branch [OF _ "1.prems"(4) br(1,3-5)])
    then have "satisfied val den g2" using satisfied_and [of g g1 d t1 g2 t2] p2 e "1.prems"(3) by simp
    with "1.IH"(2) [OF p0 [symmetric] \<open>\<not> e0\<close> Some [unfolded bt] refl refl p1 [symmetric] refl e(1) p2 [symmetric] refl e(2)] rest "1.prems"(2,4)
    show ?thesis by simp
  qed
qed auto

definition branches_satisfied ::
  "(string \<Rightarrow> 'v::linorder) \<Rightarrow> (string \<Rightarrow> 'v) \<Rightarrow> ssaIndex \<Rightarrow> int set \<Rightarrow> int \<Rightarrow> exprCFG \<Rightarrow> bool" where
  "branches_satisfied val den ix doms target blocks \<longleftrightarrow>
     (\<forall>b truthy condition d t f t'. Some b \<in> set blocks \<longrightarrow> dominatingPolarity doms target (Some b) = Some (b, truthy) \<longrightarrow>
        last (cfgNodes b) = Some condition \<longrightarrow> branchPredicate ix b condition truthy d t = (f, False, t') \<longrightarrow>
        satisfied val den f)"

lemma conjoinDominating_satisfied:
  assumes run: "conjoinDominating ix doms target d t blocks g = (h, False, t')" and g: "satisfied val den g"
    and ok: "branches_satisfied val den ix doms target blocks"
  shows "satisfied val den h"
  using run g ok
proof (induction ix doms target d t blocks g rule: conjoinDominating.induct)
  case (2 ix doms target d t block blocks g)
  obtain e0 t0 where p0: "feasibilityDeadlineReached d t = (e0, t0)" by force
  with "2.prems"(1) have e0: "\<not> e0" by (auto split: if_splits)
  show ?case
  proof (cases "dominatingPolarity doms target block")
    case None
    have "branches_satisfied val den ix doms target blocks" using "2.prems"(3) by (simp add: branches_satisfied_def)
    from "2.IH"(1) [OF p0 [symmetric] e0 None _ "2.prems"(2) this] "2.prems"(1) p0 e0 None show ?thesis by simp
  next
    case (Some bt)
    obtain b truthy where bt: "bt = (b, truthy)" by force
    then have blk: "block = Some b"
      using Some by (auto simp: dominatingPolarity_def Let_def split: option.splits if_splits)
    let ?pred = "case last (cfgNodes b) of None \<Rightarrow> (cfgSSAUnsupportedFormula, False, t0)
                 | Some condition \<Rightarrow> branchPredicate ix b condition truthy d t0"
    obtain g1 e1 t1 where p1: "?pred = (g1, e1, t1)" by (metis prod_cases3)
    obtain g2 e2 t2 where p2: "cfgSSAFormulaAndWithControl g g1 d t1 = (g2, e2, t2)" by (metis prod_cases3)
    have e: "\<not> e1" "\<not> e2" and rest: "conjoinDominating ix doms target d t2 blocks g2 = (h, False, t')"
      using "2.prems"(1) p0 e0 Some bt p1 p2 by (auto split: if_splits)
    have "satisfied val den g1"
    proof (cases "last (cfgNodes b)")
      case (Some condition)
      with p1 e(1) have "branchPredicate ix b condition truthy d t0 = (g1, False, t1)" by simp
      with "2.prems"(3) \<open>dominatingPolarity doms target block = Some bt\<close> bt blk Some show ?thesis
        unfolding branches_satisfied_def by (metis list.set_intros(1))
    qed (use p1 in auto)
    then have "satisfied val den g2" using satisfied_and [of g g1 d t1 g2 t2] p2 e "2.prems"(2) by simp
    moreover have "branches_satisfied val den ix doms target blocks" using "2.prems"(3) by (simp add: branches_satisfied_def)
    ultimately show ?thesis
      using "2.IH"(2) [OF p0 [symmetric] e0 Some [unfolded bt] refl p1 [symmetric] refl e(1) p2 [symmetric] refl e(2)] rest by simp
  qed
qed simp

text \<open>
  A branch of a dominating block is decided for every execution that reaches the target only
  when the successor on that side cannot be entered otherwise: each edge into it comes from
  the block itself or from behind the successor.
\<close>

definition private_successors :: "exprCFG \<Rightarrow> int \<Rightarrow> int \<Rightarrow> bool" where
  "private_successors cfg entry target \<longleftrightarrow>
     (\<forall>b truthy s. Some b \<in> set cfg \<longrightarrow>
        dominatingPolarity {a. dominates cfg entry a target} target (Some b) = Some (b, truthy) \<longrightarrow>
        cfgSuccs b ! (if truthy then 0 else 1) = Some s \<longrightarrow>
        s \<noteq> entry \<and> (\<forall>c. cfg_edge cfg c s \<longrightarrow> c = cfgIndex b \<or> dominates cfg entry s c))"

lemma cfgBlocks_set: "b \<in> set (cfgBlocks cfg) \<longleftrightarrow> Some b \<in> set cfg"
  by (auto simp: cfgBlocks_def split: option.splits)

lemma entered_through:
  assumes "cfg_path cfg entry p t" and "s \<in> set p" and "s \<noteq> entry"
    and "\<And>c. cfg_edge cfg c s \<Longrightarrow> c = b \<or> dominates cfg entry s c"
  shows "\<exists>k. Suc k < length p \<and> p ! k = b \<and> p ! Suc k = s"
  using assms
proof (induction rule: cfg_path.induct)
  case (path_step a p c e)
  show ?case
  proof (cases "s \<in> set p")
    case True
    with path_step obtain k where "Suc k < length p" "p ! k = b" "p ! Suc k = s" by blast
    then show ?thesis by (intro exI [of _ k]) (simp add: nth_append)
  next
    case False
    with path_step have "e = s" by auto
    with path_step have "c = b \<or> dominates cfg a s c" by blast
    with False path_step(1) have "c = b" by (auto simp: dominates_def)
    have "p \<noteq> [] \<and> last p = c"
      using path_step(1) by (cases rule: cfg_path.cases) auto
    then have "p \<noteq> [] \<and> p ! (length p - 1) = c" by (metis last_conv_nth)
    with \<open>c = b\<close> \<open>e = s\<close> have "Suc (length p - 1) < length (p @ [e])" "(p @ [e]) ! (length p - 1) = b"
      "(p @ [e]) ! Suc (length p - 1) = s" by (simp_all add: nth_append)
    then show ?thesis by blast
  qed
qed simp

lemma successively_nth: "successively P p \<Longrightarrow> Suc k < length p \<Longrightarrow> P (p ! k) (p ! Suc k)"
  by (induction P p arbitrary: k rule: successively.induct) (auto simp: nth_Cons split: nat.splits)

lemma dominating_satisfied:
  assumes f: "cfg_faithful ix caseTag cfg" and e: "entryBlock cfg = Some eb" and build: "builds build ix"
    and p: "cfg_path cfg (cfgIndex eb) p target" and tk: "successively (taken ix caseTag val den cfg) p"
    and priv: "private_successors cfg (cfgIndex eb) target"
    and run: "extractSSADominatingConstraintsForWitnessStartWithControl (Some build) (Some cfg) (target # path) d t = (h, False, t')"
  shows "satisfied val den h"
proof -
  let ?doms = "{a. dominates cfg (cfgIndex eb) a target}"
  have wf: "cfg_wf cfg" using f by (simp add: cfg_faithful_def)
  from protocol_dominators [OF wf e] p
  have doms: "Option.bind (protocolCFGBlockDominators cfg) (\<lambda>dominators. dominators target) = Some ?doms" by auto
  obtain e0 t0 where p0: "feasibilityDeadlineReached d t = (e0, t0)" by force
  obtain index e1 t1 where p1: "build d t0 = (index, e1, t1)" by (metis prod_cases3)
  have "cfg \<noteq> []" using e by (auto simp: entryBlock_def cfgBlocks_def)
  show ?thesis
  proof (cases index)
    case None
    with run p0 p1 doms \<open>cfg \<noteq> []\<close> show ?thesis
      by (auto simp: extractSSADominatingConstraintsForWitnessStartWithControl_def split: if_splits)
  next
    case (Some ix')
    have "ix' = ix" using build p1 Some unfolding builds_def by (metis fst_conv option.distinct(1) option.inject)
    obtain g e2 t2 where p2: "conjoinDominating ix ?doms target d t1 cfg trueFormula = (g, e2, t2)" by (metis prod_cases3)
    have e2': "e2 = False" and n: "normalizedOr g d t2 = (h, False, t')"
      using run p0 p1 p2 doms \<open>cfg \<noteq> []\<close> Some \<open>ix' = ix\<close>
      by (auto simp: extractSSADominatingConstraintsForWitnessStartWithControl_def split: if_splits)
    have "satisfied val den g"
    proof (rule conjoinDominating_satisfied [OF p2 [unfolded e2']])
      show "branches_satisfied val den ix ?doms target cfg"
        unfolding branches_satisfied_def
      proof (intro allI impI)
      fix b truthy condition d t f' t'
      assume b: "Some b \<in> set cfg" and pol: "dominatingPolarity ?doms target (Some b) = Some (b, truthy)"
        and c: "last (cfgNodes b) = Some condition" and br: "branchPredicate ix b condition truthy d t = (f', False, t')"
      let ?s = "cfgSuccs b ! (if truthy then 0 else 1)"
      have "\<exists>s. ?s = Some s \<and> s \<in> ?doms" "cfgIndex b \<noteq> target" "cfgIndex b \<in> ?doms" "length (cfgSuccs b) = 2" "cfgNodes b \<noteq> []"
        using pol by (auto simp: dominatingPolarity_def dominatesTarget_def Let_def split: if_splits option.splits)
      then obtain s where s: "?s = Some s" "s \<in> ?doms" and bb: "length (cfgSuccs b) = 2" "cfgNodes b \<noteq> []" by blast
      have "blockAt cfg (cfgIndex b) = Some b" using blockAt_wf [OF wf] b by (simp add: cfgBlocks_set)
      show "satisfied val den f'"
      proof -
        have priv_s: "s \<noteq> cfgIndex eb" "\<And>c. cfg_edge cfg c s \<Longrightarrow> c = cfgIndex b \<or> dominates cfg (cfgIndex eb) s c"
          using priv b pol s(1) unfolding private_successors_def by blast+
        have "s \<in> set p" using s(2) p by (auto simp: dominates_def)
        from entered_through [OF p this priv_s] obtain k where
          k: "Suc k < length p" "p ! k = cfgIndex b" "p ! Suc k = s" by blast
        then have "taken ix caseTag val den cfg (cfgIndex b) s" using successively_nth [OF tk] by metis
        from taken_branch [OF this f \<open>blockAt cfg (cfgIndex b) = Some b\<close> bb c s(1) br] show ?thesis .
      qed
      qed
    qed simp
    with satisfied_normalized [OF n] show ?thesis by blast
  qed
qed

section \<open>Provenance recorded along the execution\<close>

lemma combine_no_deadline: "fst (snd (combineAlternatives None t ls rs acc)) = False"
  by (induction ls arbitrary: acc) auto

lemma and_no_deadline: "fst (snd (cfgSSAFormulaAndWithControl f g None t)) = False"
  using combine_no_deadline [of t "alternatives f" "alternatives g" "[]"]
  by (auto simp: cfgSSAFormulaAndWithControl_def split: prod.splits)

lemma or_no_deadline: "fst (snd (cfgSSAFormulaOrWithControl f g None t)) = False"
  by (auto simp: cfgSSAFormulaOrWithControl_def)

lemma extract_no_deadline: "fst (snd (extractSSAPredicateFormulaWithControl ix e truthy None t)) = False"
proof (induction "size e" arbitrary: e truthy t rule: less_induct)
  case less
  show ?case
  proof (cases "stripParens e")
    case (UnaryExpr op x)
    then show ?thesis
      using less.hyps [OF strip_unary [OF UnaryExpr]]
      by (subst extractSSAPredicateFormulaWithControl.simps) simp
  next
    case (BinaryExpr op x y)
    note sz = strip_binary [OF BinaryExpr]
    obtain l e1 t1 where l: "extractSSAPredicateFormulaWithControl ix x truthy None t = (l, e1, t1)" by (metis prod_cases3)
    obtain r e2 t2 where r: "extractSSAPredicateFormulaWithControl ix y truthy None t1 = (r, e2, t2)" by (metis prod_cases3)
    have "e1 = False" "e2 = False" using less.hyps [of x truthy t] less.hyps [of y truthy t1] sz by (simp_all add: l r)
    then show ?thesis
      by (subst extractSSAPredicateFormulaWithControl.simps)
        (simp add: BinaryExpr l r and_no_deadline or_no_deadline del: not_None_eq)
  qed (subst extractSSAPredicateFormulaWithControl.simps, simp)+
qed

lemma edgeFormula_satisfied:
  assumes st: "state_agrees ix ev val den" and b: "branch_faithful ix caseTag b" "length (cfgSuccs b) = 2" "cfgNodes b \<noteq> []"
    and c: "last (cfgNodes b) = Some condition" and v: "branch_value caseTag ev den b condition = truthy"
    and sup: "\<not> unsupported (edgeFormula ix b condition truthy)"
  shows "satisfied val den (edgeFormula ix b condition truthy)"
proof -
  obtain p e t where p: "extractSSAPredicateFormulaWithControl ix condition truthy None 0 = (p, e, t)" by (metis prod_cases3)
  have e: "e = False" using extract_no_deadline [of ix condition truthy 0] p by simp
  have "branchPredicate ix b condition truthy None 0 =
      (if unsupported p \<and> \<not> unsupported (extractSSASwitchCasePredicate ix (cfgNodes b) truthy)
       then extractSSASwitchCasePredicate ix (cfgNodes b) truthy else p, False, t)"
    by (simp add: branchPredicate_def p e Let_def)
  from branchPredicate_satisfied [OF st b c v this] sup
  show ?thesis by (auto simp: edgeFormula_def p Let_def split: if_splits)
qed

definition provenance_true ::
  "ssaIndex \<Rightarrow> encoder \<Rightarrow> (string \<Rightarrow> 'v::linorder) \<Rightarrow> (string \<Rightarrow> 'v) \<Rightarrow> string \<Rightarrow> bool" where
  "provenance_true ix encode val den s \<longleftrightarrow>
     (\<exists>index nodeKey cfg caseTag a b. cfg_faithful ix caseTag cfg \<and> taken ix caseTag val den cfg a b \<and>
        (index = None \<or> index = Some ix) \<and>
        s \<in> set (cfgSSAPredicateProvenance index encode nodeKey (blockAt cfg a) (blockAt cfg b)))"

definition codec :: "encoder \<Rightarrow> decoder \<Rightarrow> bool" where
  "codec encode decode \<longleftrightarrow> (\<forall>xs body. encode xs = Some body \<longrightarrow> decode body = Some xs)"

lemma readAtoms_read: "readAtoms d t xs acc = (AtomsRead atoms, t') \<Longrightarrow> atoms = acc @ map atomOf xs"
  by (induction xs arbitrary: t acc) (fastforce split: prod.splits if_splits)+

lemma readAlternatives_read:
  "readAlternatives d t xs acc = (f, False, t') \<Longrightarrow> f = cfgSSAUnsupportedFormula \<or>
    f = \<lparr>alternatives = sortedAlternatives (acc @ map (map atomOf) xs), unsupported = False\<rparr>"
proof (induction xs arbitrary: t acc)
  case (Cons x xs)
  then show ?case
    by (auto split: prod.splits if_splits atomScan.splits dest!: readAtoms_read Cons.IH)
qed (auto simp: normalizeWithControl_def split: prod.splits if_splits)

lemma satisfied_sorted:
  "satisfied val den \<lparr>alternatives = sortedAlternatives (alternatives f), unsupported = u\<rparr> = satisfied val den f"
  by (simp add: satisfied_def set_sortedAlternatives)

lemma encoded_satisfied:
  assumes cod: "codec encode decode" and f: "satisfied val den f"
    and run: "cfgSSAFormulaFromPredicateProvenanceWithControl decode (encodeCFGSSAPredicateFormula encode f) d t = (g, False, t')"
  shows "satisfied val den g"
proof (cases "encodeCFGSSAPredicateFormula encode f = ''''")
  case True
  then have "g = cfgSSAUnsupportedFormula"
    using run by (auto simp: cfgSSAFormulaFromPredicateProvenanceWithControl_def strings_HasPrefix_def
        cfgSSAPredicateFormulaPrefix_def split: prod.splits if_splits)
  then show ?thesis by simp
next
  case False
  let ?xs = "map (map encodedAtom) (sortedAlternatives (alternatives f))"
  obtain body where body: "encode ?xs = Some body" "encodeCFGSSAPredicateFormula encode f = cfgSSAPredicateFormulaPrefix @ body"
    using False by (auto simp: encodeCFGSSAPredicateFormula_def split: if_splits option.splits)
  have "decode body = Some ?xs" using cod body(1) unfolding codec_def by blast
  then obtain t0 where "readAlternatives d t0 ?xs [] = (g, False, t')"
    using run by (auto simp: cfgSSAFormulaFromPredicateProvenanceWithControl_def body(2) split: prod.splits if_splits)
  moreover have "map (map atomOf) ?xs = sortedAlternatives (alternatives f)" by (simp add: comp_def)
  ultimately have "g = cfgSSAUnsupportedFormula \<or>
      g = \<lparr>alternatives = sortedAlternatives (sortedAlternatives (alternatives f)), unsupported = False\<rparr>"
    using readAlternatives_read [of d t0 ?xs "[]" g t'] by simp
  then show ?thesis using f by (auto simp: sortedAlternatives_sorted satisfied_sorted)
qed

lemma other_provenance:
  assumes "cfgSSAFormulaFromPredicateProvenanceWithControl decode s d t = (g, False, t')"
    and "\<not> strings_HasPrefix s cfgSSAPredicateFormulaPrefix"
  shows "satisfied val den g"
  using assms by (auto simp: cfgSSAFormulaFromPredicateProvenanceWithControl_def split: prod.splits if_splits)

lemma provenance_satisfied:
  assumes cod: "codec encode decode" and s: "provenance_true ix encode val den s"
    and run: "cfgSSAFormulaFromPredicateProvenanceWithControl decode s d t = (g, False, t')"
  shows "satisfied val den g"
proof -
  from s obtain index nodeKey cfg caseTag a b where f: "cfg_faithful ix caseTag cfg" and tk: "taken ix caseTag val den cfg a b"
    and index: "index = None \<or> index = Some ix"
    and prov: "s \<in> set (cfgSSAPredicateProvenance index encode nodeKey (blockAt cfg a) (blockAt cfg b))"
    unfolding provenance_true_def by blast
  then obtain src dst where blk: "blockAt cfg a = Some src" "blockAt cfg b = Some dst"
    by (cases "blockAt cfg a"; cases "blockAt cfg b") (auto simp: cfgSSAPredicateProvenance_def)
  then have two: "length (cfgSuccs src) = 2" "cfgNodes src \<noteq> []"
    using prov by (simp_all add: cfgSSAPredicateProvenance_def split: if_splits)
  consider "\<not> strings_HasPrefix s cfgSSAPredicateFormulaPrefix"
    | "s = encodeCFGSSAPredicateFormula encode trueFormula"
    | condition truthy where "last (cfgNodes src) = Some condition" "cfgPathSuccessorPolarity src dst = Some truthy"
      "\<not> unsupported (edgeFormula ix src condition truthy)"
      "s = encodeCFGSSAPredicateFormula encode (edgeFormula ix src condition truthy)"
    using prov index two
    by (auto simp: cfgSSAPredicateProvenance_def blk Let_def unsupportedProvenance_def strings_HasPrefix_def
        cfgSSAPredicateFormulaPrefix_def split: option.splits if_splits)
  then show ?thesis
  proof cases
    case 1
    with other_provenance [OF run] show ?thesis by blast
  next
    case 2
    with encoded_satisfied [OF cod satisfied_true] run show ?thesis by blast
  next
    case 3
    from tk obtain ev where st: "state_agrees ix ev val den" and dir:
      "(cfgSuccs src ! 0 = Some b \<and> branch_value caseTag ev den src condition) \<or>
       (cfgSuccs src ! 1 = Some b \<and> \<not> branch_value caseTag ev den src condition)"
      using blk(1) two 3(1) unfolding taken_def by blast
    have bf: "branch_faithful ix caseTag src" using f blockAt_Some [OF blk(1)] by (simp add: cfg_faithful_def)
    have "cfgSuccs src ! (if truthy then 0 else 1) = Some b"
      using polarity_successor [OF 3(2)] blockAt_index [OF blk(2)] by simp
    moreover have "cfgSuccs src ! 0 \<noteq> cfgSuccs src ! 1" using bf two by (simp add: branch_faithful_def)
    ultimately have "branch_value caseTag ev den src condition = truthy" using dir by (cases truthy) auto
    from edgeFormula_satisfied [OF st bf two 3(1) this 3(3)] encoded_satisfied [OF cod] run 3(4)
    show ?thesis by blast
  qed
qed

lemma conjoinProvenance_satisfied:
  assumes cod: "codec encode decode" 
  shows "conjoinProvenance decode d t ps g = (h, False, t') \<Longrightarrow> \<forall>s\<in>set ps. provenance_true ix encode val den s \<Longrightarrow>
    satisfied val den g \<Longrightarrow> satisfied val den h"
proof (induction ps arbitrary: t g)
  case (Cons s ps)
  obtain e0 t0 where p0: "feasibilityDeadlineReached d t = (e0, t0)" by force
  obtain g1 e1 t1 where p1: "cfgSSAFormulaFromPredicateProvenanceWithControl decode s d t0 = (g1, e1, t1)" by (metis prod_cases3)
  obtain g2 e2 t2 where p2: "cfgSSAFormulaAndWithControl g g1 d t1 = (g2, e2, t2)" by (metis prod_cases3)
  have e: "\<not> e1" "\<not> e2" and rest: "conjoinProvenance decode d t2 ps g2 = (h, False, t')"
    using Cons.prems(1) by (auto simp: p0 p1 p2 split: if_splits)
  have "satisfied val den g1" using provenance_satisfied [OF cod, of ix val den s d t0 g1 t1] p1 e Cons.prems(2) by simp
  then have "satisfied val den g2" using satisfied_and [of g g1 d t1 g2 t2] p2 e Cons.prems(3) by simp
  with Cons.IH [OF rest] Cons.prems(2) show ?case by simp
qed simp

lemma conjoinEdges_satisfied:
  assumes cod: "codec encode decode"
  shows "conjoinEdges decode d t edges g = (h, False, t') \<Longrightarrow>
    \<forall>ps\<in>set edges. \<forall>s\<in>set ps. provenance_true ix encode val den s \<Longrightarrow>
    satisfied val den g \<Longrightarrow> satisfied val den h"
proof (induction edges arbitrary: t g)
  case (Cons ps edges)
  obtain e0 t0 where p0: "feasibilityDeadlineReached d t = (e0, t0)" by force
  obtain g1 e1 t1 where p1: "conjoinProvenance decode d t0 ps g = (g1, e1, t1)" by (metis prod_cases3)
  have e: "\<not> e1" and rest: "conjoinEdges decode d t1 edges g1 = (h, False, t')"
    using Cons.prems(1) by (auto simp: p0 p1 split: if_splits)
  have "satisfied val den g1"
    using conjoinProvenance_satisfied [OF cod, of d t0 ps g g1 t1 ix val den] p1 e Cons.prems(2,3) by simp
  with Cons.IH [OF rest] Cons.prems(2) show ?case by simp
qed simp

section \<open>The formula of a witness record\<close>

lemma suffix_satisfied:
  assumes f: "cfg_faithful ix caseTag cfg" and build: "builds build ix"
    and tk: "successively (taken ix caseTag val den cfg) path"
    and run: "extractSSAWitnessConstraintsWithControl (Some build) (Some cfg) path d t = (h, False, t')"
  shows "satisfied val den h"
proof -
  obtain e0 t0 where p0: "feasibilityDeadlineReached d t = (e0, t0)" by force
  obtain index e1 t1 where p1: "build d t0 = (index, e1, t1)" by (metis prod_cases3)
  consider "h = trueFormula" | "index = None" "h = cfgSSAUnsupportedFormula" | ix' where "index = Some ix'"
    using run p0 p1 by (cases index) (auto simp: extractSSAWitnessConstraintsWithControl_def split: if_splits)
  then show ?thesis
  proof cases
    case 3
    then have ix: "index = Some ix" using build p1 unfolding builds_def by (metis fst_conv option.distinct(1))
    consider "h = trueFormula" | g t2 t3 t4 where "conjoinPath ix cfg d t2 path trueFormula = (g, False, t3)"
      "normalizedOr g d t4 = (h, False, t')"
      using run p0 p1 ix by (auto simp: extractSSAWitnessConstraintsWithControl_def split: if_splits prod.splits)
    then show ?thesis
    proof cases
      case 2
      from conjoinPath_satisfied [OF 2(1) tk satisfied_true f] satisfied_normalized [OF 2(2)] show ?thesis by blast
    qed simp
  qed simp_all
qed

lemma record_satisfied:
  assumes f: "cfg_faithful ix caseTag cfg" and e: "entryBlock cfg = Some eb" and build: "builds build ix" and cod: "codec encode decode"
    and origin: "(if FactOriginPath w = [] then CFGPath w else FactOriginPath w) = origin # rest"
    and p: "cfg_path cfg (cfgIndex eb) p origin" "successively (taken ix caseTag val den cfg) p"
    and priv: "private_successors cfg (cfgIndex eb) origin"
    and path: "RecordWitnessEdges w = [] \<Longrightarrow> successively (taken ix caseTag val den cfg) (CFGPath w)"
    and prov: "\<And>we s. we \<in> set (RecordWitnessEdges w) \<Longrightarrow> s \<in> set (WPredicates we) \<Longrightarrow> provenance_true ix encode val den s"
    and run: "extractSSAConstraintsForWitnessRecordWithControl (Some build) decode (Some cfg) w d t = (h, False, t')"
  shows "satisfied val den h"
proof -
  obtain e0 t0 where p0: "feasibilityDeadlineReached d t = (e0, t0)" by force
  obtain pre e1 t1 where p1:
    "extractSSADominatingConstraintsForWitnessStartWithControl (Some build) (Some cfg) (origin # rest) d t0 = (pre, e1, t1)"
    by (metis prod_cases3)
  have e1: "e1 = False" using run by (auto simp: extractSSAConstraintsForWitnessRecordWithControl_def p0 origin p1 Let_def split: if_splits)
  have pre: "satisfied val den pre"
    by (rule dominating_satisfied [OF f e build p priv p1 [unfolded e1]])
  show ?thesis
  proof (cases "RecordWitnessEdges w = []")
    case True
    obtain suf e2 t2 where p2: "extractSSAWitnessConstraintsWithControl (Some build) (Some cfg) (CFGPath w) d t1 = (suf, e2, t2)"
      by (metis prod_cases3)
    have e2: "e2 = False" and fin: "cfgSSAFormulaAndWithControl pre suf d t2 = (h, False, t')"
      using run True by (auto simp: extractSSAConstraintsForWitnessRecordWithControl_def p0 origin p1 p2 e1 Let_def split: if_splits)
    from suffix_satisfied [OF f build path [OF True] p2 [unfolded e2]] satisfied_and [OF fin pre] show ?thesis by blast
  next
    case False
    obtain g e2 t2 where p2: "conjoinEdges decode d t1 (map WPredicates (RecordWitnessEdges w)) trueFormula = (g, e2, t2)"
      by (metis prod_cases3)
    obtain e3 t3 where p3: "feasibilityDeadlineReached d t2 = (e3, t3)" by force
    obtain g' e4 t4 where p4: "normalizedOr g d t3 = (g', e4, t4)" by (metis prod_cases3)
    have e2: "e2 = False" and e4: "e4 = False" and fin: "cfgSSAFormulaAndWithControl pre g' d t4 = (h, False, t')"
      using run False by (auto simp: extractSSAConstraintsForWitnessRecordWithControl_def p0 origin p1 p2 p3 p4 e1 Let_def split: if_splits)
    have "satisfied val den g"
      by (rule conjoinEdges_satisfied [OF cod p2 [unfolded e2], where ix = ix]) (use prov in auto)
    then have "satisfied val den g'" using satisfied_normalized [OF p4 [unfolded e4]] by blast
    from satisfied_and [OF fin pre this] show ?thesis .
  qed
qed

section \<open>Properties\<close>

text \<open>
  Provenance reads back: the text recorded on a graph edge for a supported formula decodes
  to the same formula in its normal order, for every codec that reads back what it wrote.
\<close>

theorem provenance_roundtrip:
  assumes "codec encode decode" and "\<not> unsupported f" and "\<forall>alt\<in>set (alternatives f). \<forall>c\<in>set alt. atom_ok c"
    and "encodeCFGSSAPredicateFormula encode f \<noteq> ''''"
  shows "cfgSSAFormulaFromPredicateProvenanceWithControl decode (encodeCFGSSAPredicateFormula encode f) None t =
    (f\<lparr>alternatives := sortedAlternatives (alternatives f)\<rparr>, False, t)"
  using provenance_reads_back [OF _ assms(2-4)] assms(1) unfolding codec_def by blast

text \<open>A codec for the one formula \<open>x == 1\<close>.\<close>

definition sampleAtoms :: "(string \<times> string \<times> string) list list" where
  "sampleAtoms = [[(''t0'', ''eq'', ''1'')]]"

definition sampleEncode :: encoder where
  "sampleEncode xs = (if xs = sampleAtoms then Some ''A'' else None)"

definition sampleDecode :: decoder where
  "sampleDecode body = (if body = ''A'' then Some sampleAtoms else None)"

lemma sample_codec: "codec sampleEncode sampleDecode"
  by (simp add: codec_def sampleEncode_def sampleDecode_def)

theorem provenance_roundtrip_witness:
  "cfgSSAFormulaFromPredicateProvenanceWithControl sampleDecode ''ssa-formula-v1:A'' None 0 =
    (atomFormula \<lparr>subject = ''t0'', cmp_op = ''eq'', cvalue = ''1''\<rparr>, False, 0)"
proof -
  let ?f = "atomFormula \<lparr>subject = ''t0'', cmp_op = ''eq'', cvalue = ''1''\<rparr>"
  have enc: "encodeCFGSSAPredicateFormula sampleEncode ?f = ''ssa-formula-v1:A''" by code_simp
  have "\<not> unsupported ?f" "\<forall>alt\<in>set (alternatives ?f). \<forall>c\<in>set alt. atom_ok c"
    by (simp_all add: atomFormula_def atom_ok_def isCFGComparisonOp_def)
  from provenance_roundtrip [OF sample_codec this, of 0, unfolded enc] show ?thesis
    by (simp add: atomFormula_def sortedAlternatives_def)
qed

text \<open>
  C7. The formula of a witness never excludes a real execution: along every execution that
  runs from the entry of the function to the origin of the tracked fact and on along the
  witness, the extracted formula holds, whatever the budget of alternatives, provided that the
  branches are as the extraction reads them and that the dominating branches are entered from
  nowhere else.
\<close>

theorem witness_formula_holds_on_executions:
  assumes "cfg_faithful ix caseTag cfg" and "entryBlock cfg = Some eb" and "builds build ix" and "codec encode decode"
    and "(if FactOriginPath w = [] then CFGPath w else FactOriginPath w) = origin # rest"
    and "cfg_path cfg (cfgIndex eb) p origin" and "successively (taken ix caseTag val den cfg) p"
    and "private_successors cfg (cfgIndex eb) origin"
    and "RecordWitnessEdges w = [] \<Longrightarrow> successively (taken ix caseTag val den cfg) (CFGPath w)"
    and "\<And>we s. we \<in> set (RecordWitnessEdges w) \<Longrightarrow> s \<in> set (WPredicates we) \<Longrightarrow> provenance_true ix encode val den s"
    and "extractSSAConstraintsForWitnessRecordWithControl (Some build) decode (Some cfg) w d t = (f, False, t')"
  shows "satisfied val den f"
  using record_satisfied [OF assms] .

text \<open>Two tests of the same integer: \<open>if x == 1 { origin; if x > 2 { use } }\<close>.\<close>

definition nestedCFG :: exprCFG where
  "nestedCFG =
     [Some \<lparr>cfgIndex = 0, cfgNodes = [Some (BinaryExpr EQL (Ident ''x'') (BasicLit ''1''))], cfgSuccs = [Some 1, Some 3]\<rparr>,
      Some \<lparr>cfgIndex = 1, cfgNodes = [None, Some (BinaryExpr GTR (Ident ''x'') (BasicLit ''2''))], cfgSuccs = [Some 2, Some 3]\<rparr>,
      Some \<lparr>cfgIndex = 2, cfgNodes = [None], cfgSuccs = [Some 3]\<rparr>,
      Some \<lparr>cfgIndex = 3, cfgNodes = [], cfgSuccs = []\<rparr>]"

definition sampleBuild :: indexBuilder where
  "sampleBuild d t = (Some sampleIndex, False, t)"

definition sampleRecord :: "int list \<Rightarrow> cfgWitnessRecord" where
  "sampleRecord path =
     \<lparr>Category = ''cast'', FindingID = '''', OriginAnchors = [], RecordFactFamily = '''', RecordFactKey = '''',
      RecordEdgeTag = ideEdgeFuncIdentity, FactOriginPath = [], CFGPath = path, RecordWitnessEdges = [],
      RecordWitnessTerminal = zeroNode, CallChain = [], TriggerReason = '''', RecordWitnessHash = ''''\<rparr>"

lemma sample_taken:
  "cfg_edge cfg a b \<Longrightarrow>
   (\<forall>block condition. blockAt cfg a = Some block \<and> length (cfgSuccs block) = 2 \<and> cfgNodes block \<noteq> [] \<and>
      last (cfgNodes block) = Some condition \<longrightarrow>
      (cfgSuccs block ! 0 = Some b \<and> evalCond (sampleEval x) sampleDen condition) \<or>
      (cfgSuccs block ! 1 = Some b \<and> \<not> evalCond (sampleEval x) sampleDen condition)) \<Longrightarrow>
   taken sampleIndex (\<lambda>_. None) (sampleVal x) sampleDen cfg a b"
  unfolding taken_def branch_value_def using sample_agrees [of x] by auto

lemmas sample_eval = sampleEval_def sampleDen_def exprConstraintValue_def

definition nestedEntry :: "expr option cfgBlock" where
  "nestedEntry = \<lparr>cfgIndex = 0, cfgNodes = [Some (BinaryExpr EQL (Ident ''x'') (BasicLit ''1''))], cfgSuccs = [Some 1, Some 3]\<rparr>"

lemmas nested_defs = nestedCFG_def blockAt_def cfgBlocks_def indices_def

lemma nested_faithful: "cfg_faithful sampleIndex (\<lambda>_. None) nestedCFG"
  by (simp add: cfg_faithful_def cfg_wf_def branch_faithful_def nested_defs extractSSASwitchCasePredicate_def
      cfgSSAUnsupportedFormula_def)

lemma nested_entry: "entryBlock nestedCFG = Some nestedEntry"
  by (simp add: entryBlock_def nested_defs nestedEntry_def)

lemma nested_edges: "cfg_edge nestedCFG 0 1" "cfg_edge nestedCFG 1 3"
  by (simp_all add: cfg_edge_def nested_defs)

lemma nested_path: "cfg_path nestedCFG (cfgIndex nestedEntry) [0, 1] 1"
  using path_step [OF path_refl nested_edges(1)] edge_source [OF nested_edges(1)] by (simp add: nestedEntry_def)

lemma nested_private: "private_successors nestedCFG (cfgIndex nestedEntry) 1"
proof -
  have "cfg_edge nestedCFG c 1 \<Longrightarrow> c = 0" for c
    by (auto simp: cfg_edge_def nested_defs split: if_splits)
  then show ?thesis
    using nested_path
    by (auto simp: private_successors_def dominatingPolarity_def dominatesTarget_def dominates_def Let_def nestedCFG_def
        nestedEntry_def split: if_splits)
qed

lemma sample_builds: "builds sampleBuild sampleIndex"
  by (simp add: builds_def sampleBuild_def)

text \<open>With \<open>x = 1\<close> the run through blocks 0, 1 and 3 is an execution; the formula of the path 1, 3 holds.\<close>

theorem witness_formula_holds_on_executions_witness:
  "satisfied (sampleVal 1) sampleDen
     (fst (extractSSAConstraintsForWitnessRecordWithControl (Some sampleBuild) sampleDecode (Some nestedCFG) (sampleRecord [1, 3]) None 0)) \<and>
   alternatives (fst (extractSSAConstraintsForWitnessRecordWithControl (Some sampleBuild) sampleDecode (Some nestedCFG) (sampleRecord [1, 3]) None 0)) =
     [[\<lparr>subject = ''t0'', cmp_op = ''eq'', cvalue = ''1''\<rparr>, \<lparr>subject = ''t0'', cmp_op = ''le'', cvalue = ''2''\<rparr>]]"
proof -
  let ?f = "\<lparr>alternatives = [[\<lparr>subject = ''t0'', cmp_op = ''eq'', cvalue = ''1''\<rparr>, \<lparr>subject = ''t0'', cmp_op = ''le'', cvalue = ''2''\<rparr>]],
    unsupported = False\<rparr>"
  have run: "extractSSAConstraintsForWitnessRecordWithControl (Some sampleBuild) sampleDecode (Some nestedCFG) (sampleRecord [1, 3]) None 0 =
      (?f, False, 0)" by code_simp
  let ?t = "taken sampleIndex (\<lambda>_. None) (sampleVal 1) sampleDen nestedCFG"
  have taken: "?t 0 1" "?t 1 3"
    by (rule sample_taken [OF nested_edges(1)], simp add: nested_defs sample_eval,
        rule sample_taken [OF nested_edges(2)], simp add: nested_defs sample_eval)
  have origin: "(if FactOriginPath (sampleRecord [1, 3]) = [] then CFGPath (sampleRecord [1, 3]) else FactOriginPath (sampleRecord [1, 3])) = 1 # [3]"
    by (simp add: sampleRecord_def)
  have t1: "successively ?t [0, 1]" using taken(1) by simp
  have t2: "successively ?t (CFGPath (sampleRecord [1, 3]))" using taken(2) by (simp add: sampleRecord_def)
  have e: "provenance_true sampleIndex sampleEncode (sampleVal 1) sampleDen s"
    if "we \<in> set (RecordWitnessEdges (sampleRecord [1, 3]))" "s \<in> set (WPredicates we)" for we s
    using that by (simp add: sampleRecord_def)
  from witness_formula_holds_on_executions [OF nested_faithful nested_entry sample_builds sample_codec origin nested_path t1 nested_private t2 e run]
  show ?thesis by (simp add: run)
qed

section \<open>Where the extraction excludes real executions\<close>








end
