(* ===== verification/Big_Rat.thy ===== *)
theory Big_Rat
  imports Prelude
begin

text \<open>
  The part of Go's \<open>math/big\<close> that the analyzer uses: \<open>Rat.SetString\<close> and \<open>Rat.Cmp\<close>, called
  by \<open>compareCFGNumericConstants\<close> (\<open>goplint/cfa_feasibility_ssa_constraints.go\<close>) on the
  texts of constants.  A rational is a pair of a numerator and a positive denominator that
  need not be reduced.
\<close>

definition digitValue :: "char \<Rightarrow> nat" where
  "digitValue c =
     (let n = of_char c in
      if 48 \<le> n \<and> n \<le> 57 then n - 48
      else if 97 \<le> n \<and> n \<le> 122 then n - 97 + 10
      else if 65 \<le> n \<and> n \<le> 90 then n - 65 + 10
      else 63)"

text \<open>
  The scanner of natural numbers.  \<open>prevCh\<close> is \<open>'0'\<close> after a digit or a prefix, \<open>'_'\<close> after a
  separator and \<open>'.'\<close> otherwise; \<open>dp\<close> is the digit count at the radix point.  The result has
  the value, the digit count, the radix point, whether a separator was misplaced, and the
  unread rest.
\<close>

fun scanDigits ::
  "nat \<Rightarrow> bool \<Rightarrow> string \<Rightarrow> nat \<Rightarrow> nat \<Rightarrow> nat option \<Rightarrow> char \<Rightarrow> bool \<Rightarrow> nat \<times> nat \<times> nat option \<times> bool \<times> string" where
  "scanDigits b fracOk [] v count dp prevCh inval = (v, count, dp, inval \<or> prevCh = CHR ''_'', [])"
| "scanDigits b fracOk (ch # rest) v count dp prevCh inval =
     (if ch = CHR ''.'' \<and> fracOk then
        scanDigits b False rest v count (Some count) (CHR ''.'') (inval \<or> prevCh = CHR ''_'')
      else if ch = CHR ''_'' then
        scanDigits b fracOk rest v count dp (CHR ''_'') (inval \<or> prevCh \<noteq> CHR ''0'')
      else if digitValue ch \<ge> b then (v, count, dp, inval \<or> prevCh = CHR ''_'', ch # rest)
      else scanDigits b fracOk rest (v * b + digitValue ch) (Suc count) dp (CHR ''0'') inval)"

definition finishScan ::
  "nat \<Rightarrow> bool \<Rightarrow> nat \<times> nat \<times> nat option \<times> bool \<times> string \<Rightarrow> (nat \<times> nat \<times> nat \<times> string) option" where
  "finishScan b octal r =
     (case r of (v, count, dp, inval, rest) \<Rightarrow>
        if inval then None
        else if count = 0 then (if octal then Some (0, 10, 0, rest) else None)
        else Some (v, b, (case dp of None \<Rightarrow> 0 | Some p \<Rightarrow> count - p), rest))"

text \<open>\<open>nat.scan\<close> with base 0: value, base, number of fractional digits, rest.\<close>

definition scanNat :: "bool \<Rightarrow> string \<Rightarrow> (nat \<times> nat \<times> nat \<times> string) option" where
  "scanNat fracOk s =
     (case s of
        c0 # c1 # rest \<Rightarrow>
          if c0 \<noteq> CHR ''0'' then finishScan 10 False (scanDigits 10 fracOk s 0 0 None (CHR ''.'') False)
          else if c1 = CHR ''b'' \<or> c1 = CHR ''B'' then
            finishScan 2 False (scanDigits 2 fracOk rest 0 0 None (CHR ''0'') False)
          else if c1 = CHR ''o'' \<or> c1 = CHR ''O'' then
            finishScan 8 False (scanDigits 8 fracOk rest 0 0 None (CHR ''0'') False)
          else if c1 = CHR ''x'' \<or> c1 = CHR ''X'' then
            finishScan 16 False (scanDigits 16 fracOk rest 0 0 None (CHR ''0'') False)
          else if \<not> fracOk then
            finishScan 8 True (scanDigits 8 fracOk (c1 # rest) 0 0 None (CHR ''0'') False)
          else finishScan 10 False (scanDigits 10 fracOk (c1 # rest) 0 1 None (CHR ''0'') False)
      | _ \<Rightarrow> finishScan 10 False (scanDigits 10 fracOk s 0 0 None (CHR ''.'') False))"

definition scanSign :: "string \<Rightarrow> bool \<times> string" where
  "scanSign s = (case s of [] \<Rightarrow> (False, [])
     | c # rest \<Rightarrow> if c = CHR ''-'' then (True, rest) else if c = CHR ''+'' then (False, rest) else (False, s))"

fun scanExponentDigits :: "string \<Rightarrow> nat \<Rightarrow> bool \<Rightarrow> char \<Rightarrow> bool \<Rightarrow> (nat \<times> string) option" where
  "scanExponentDigits [] v hasDigits prevCh inval =
     (if \<not> hasDigits \<or> inval \<or> prevCh = CHR ''_'' then None else Some (v, []))"
| "scanExponentDigits (ch # rest) v hasDigits prevCh inval =
     (if ch = CHR ''_'' then scanExponentDigits rest v hasDigits (CHR ''_'') (inval \<or> prevCh \<noteq> CHR ''0'')
      else if digitValue ch < 10 then scanExponentDigits rest (v * 10 + digitValue ch) True (CHR ''0'') inval
      else if \<not> hasDigits \<or> inval \<or> prevCh = CHR ''_'' then None else Some (v, ch # rest))"

text \<open>Exponent, its base, rest.\<close>

definition scanExponent :: "string \<Rightarrow> (int \<times> nat \<times> string) option" where
  "scanExponent s =
     (case s of [] \<Rightarrow> Some (0, 10, [])
      | c # rest \<Rightarrow>
          if c \<in> {CHR ''e'', CHR ''E'', CHR ''p'', CHR ''P''} then
            (case scanSign rest of (neg, ds) \<Rightarrow>
               case scanExponentDigits ds 0 False (CHR ''.'') False of None \<Rightarrow> None
               | Some (v, r) \<Rightarrow> if v \<ge> 2 ^ 63 then None
                   else Some (if neg then - int v else int v, if c \<in> {CHR ''e'', CHR ''E''} then 10 else 2, r))
          else Some (0, 10, s))"

text \<open>A value times a power of two and a power of five, within the bounds of the library.\<close>

definition scaled :: "int \<Rightarrow> int \<Rightarrow> int \<Rightarrow> (int \<times> nat) option" where
  "scaled m exp5 exp2 =
     (if m = 0 then Some (0, 1)
      else if \<bar>exp5\<bar> > 1000000 \<or> \<bar>exp2\<bar> > 10000000 then None
      else Some (m * 5 ^ nat exp5 * 2 ^ nat exp2, 5 ^ nat (- exp5) * 2 ^ nat (- exp2)))"

definition Rat_SetString :: "string \<Rightarrow> (int \<times> nat) option" where
  "Rat_SetString s =
     (if s = [] then None
      else case split_on (CHR ''/'') s of
        [_] \<Rightarrow>
          (case scanSign s of (neg, s1) \<Rightarrow>
           case scanNat True s1 of None \<Rightarrow> None
           | Some (v, base, frac, s2) \<Rightarrow>
               (case scanExponent s2 of None \<Rightarrow> None
                | Some (e, ebase, s3) \<Rightarrow>
                    if s3 \<noteq> [] then None
                    else scaled (if neg then - int v else int v)
                      ((if base = 10 then - int frac else 0) + (if ebase = 10 then e else 0))
                      ((if base = 10 \<or> base = 2 then - int frac else if base = 8 then - 3 * int frac else - 4 * int frac) + e)))
      | p # _ \<Rightarrow>
          (case scanSign p of (neg, s1) \<Rightarrow>
           case scanNat False s1 of None \<Rightarrow> None
           | Some (v, _, _, s2) \<Rightarrow>
               if s2 \<noteq> [] then None
               else (case scanNat False (drop (Suc (length p)) s) of None \<Rightarrow> None
                 | Some (q, _, _, s3) \<Rightarrow>
                     if s3 \<noteq> [] \<or> q = 0 then None else Some (if neg then - int v else int v, q))))"

definition Rat_Cmp :: "int \<times> nat \<Rightarrow> int \<times> nat \<Rightarrow> int" where
  "Rat_Cmp x y = cmp_Compare (fst x * int (snd y)) (fst y * int (snd x))"

lemma SetString_positive: "Rat_SetString s = Some (n, d) \<Longrightarrow> 0 < d"
  by (auto simp: Rat_SetString_def scaled_def split: if_splits option.splits list.splits prod.splits)

lemma SetString_examples:
  "Rat_SetString ''16'' = Some (16, 1)" "Rat_SetString ''0x10'' = Some (16, 1)" "Rat_SetString ''010'' = Some (10, 1)"
  "Rat_SetString ''-1_000'' = Some (-1000, 1)" "Rat_SetString ''1.50'' = Some (150, 100)"
  "Rat_SetString ''3/4'' = Some (3, 4)" "Rat_SetString ''nil'' = None" "Rat_SetString ''1__0'' = None"
  by (code_simp)+

lemma Cmp_trans:
  assumes "0 < snd x" "0 < snd y" "0 < snd z" "Rat_Cmp x y \<le> 0" "Rat_Cmp y z \<le> 0"
  shows "Rat_Cmp x z \<le> 0"
proof -
  obtain a p b q c r where e: "x = (a, p)" "y = (b, q)" "z = (c, r)" by (cases x; cases y; cases z)
  have "a * int q \<le> b * int p" "b * int r \<le> c * int q"
    using assms by (auto simp: e Rat_Cmp_def cmp_Compare_def split: if_splits)
  then have "a * int q * int r \<le> b * int p * int r" "b * int r * int p \<le> c * int q * int p"
    by (auto intro: mult_right_mono)
  then have "(a * int r) * int q \<le> (c * int p) * int q" by (simp add: mult.assoc mult.commute mult.left_commute)
  with assms(2) have "a * int r \<le> c * int p" by (simp add: e)
  then show ?thesis by (simp add: e Rat_Cmp_def cmp_Compare_def)
qed

end
