(* ===== verification/Feasibility.thy ===== *)
theory Feasibility
  imports Witness_Formula Big_Rat
begin

text \<open>
  The feasibility decision over extracted constraints
  (\<open>goplint/cfa_feasibility_ssa_constraints.go\<close>) on the query of a witness: the search for a contradiction in every
  alternative, the evidence built from it, and the independent check of evidence before an
  UNSAT answer may discharge a witness.
\<close>

section \<open>Contradictory atoms\<close>

definition compareCFGNumericConstants :: "string \<Rightarrow> string \<Rightarrow> int option" where
  "compareCFGNumericConstants left right =
     (case (Rat_SetString left, Rat_SetString right) of
        (Some l, Some r) \<Rightarrow> Some (Rat_Cmp l r)
      | _ \<Rightarrow> None)"

definition cfgEqualityContradicts :: "string \<Rightarrow> cfgPredicateConstraint \<Rightarrow> bool" where
  "cfgEqualityContradicts v c =
     (if cmp_op c = ''neq'' then v = cvalue c
      else case compareCFGNumericConstants v (cvalue c) of
        None \<Rightarrow> False
      | Some comparison \<Rightarrow>
          if cmp_op c = ''lt'' then comparison \<ge> 0
          else if cmp_op c = ''le'' then comparison > 0
          else if cmp_op c = ''gt'' then comparison \<le> 0
          else if cmp_op c = ''ge'' then comparison < 0
          else False)"

definition cfgOrderedBounds ::
  "cfgPredicateConstraint \<Rightarrow> cfgPredicateConstraint \<Rightarrow> (cfgPredicateConstraint \<times> cfgPredicateConstraint) option" where
  "cfgOrderedBounds lowerCandidate upperCandidate =
     (if (cmp_op lowerCandidate \<noteq> ''gt'' \<and> cmp_op lowerCandidate \<noteq> ''ge'') \<or>
         (cmp_op upperCandidate \<noteq> ''lt'' \<and> cmp_op upperCandidate \<noteq> ''le'') then None
      else Some (lowerCandidate, upperCandidate))"

definition cfgOrderedConstraintsContradict :: "cfgPredicateConstraint \<Rightarrow> cfgPredicateConstraint \<Rightarrow> bool" where
  "cfgOrderedConstraintsContradict left right =
     (case (case cfgOrderedBounds left right of None \<Rightarrow> cfgOrderedBounds right left | b \<Rightarrow> b) of
        None \<Rightarrow> False
      | Some (lower, upper) \<Rightarrow>
          (case compareCFGNumericConstants (cvalue lower) (cvalue upper) of
             None \<Rightarrow> False
           | Some comparison \<Rightarrow>
               comparison > 0 \<or> (comparison = 0 \<and> (cmp_op lower = ''gt'' \<or> cmp_op upper = ''lt''))))"

definition ssaConstraintsContradict :: "cfgPredicateConstraint \<Rightarrow> cfgPredicateConstraint \<Rightarrow> bool" where
  "ssaConstraintsContradict left right =
     (if subject left = '''' \<or> subject left \<noteq> subject right \<or> cvalue left = '''' \<or> cvalue right = '''' then False
      else if cmp_op left = ''eq'' \<and> cmp_op right = ''eq'' then cvalue left \<noteq> cvalue right
      else if cmp_op left = ''eq'' then cfgEqualityContradicts (cvalue left) right
      else if cmp_op right = ''eq'' then cfgEqualityContradicts (cvalue right) left
      else if cmp_op left = ''neq'' \<or> cmp_op right = ''neq'' then False
      else cfgOrderedConstraintsContradict left right)"

section \<open>Evidence\<close>

record cfgSSAConstraintContradiction =
  Alternative :: nat
  Left :: cfgPredicateConstraint
  Right :: cfgPredicateConstraint

record cfgSSAConstraintEvidence =
  FormatVersion :: nat
  ConstantFalse :: bool
  EvidencePath :: "int list"
  Subjects :: "string list"
  Contradictions :: "cfgSSAConstraintContradiction list"

definition cfgSSAConstraintEvidenceVersion :: nat where "cfgSSAConstraintEvidenceVersion = 1"

definition noEvidence :: cfgSSAConstraintEvidence where
  "noEvidence = \<lparr>FormatVersion = 0, ConstantFalse = False, EvidencePath = [], Subjects = [], Contradictions = []\<rparr>"

text \<open>
  The loops over atoms poll the control once per alternative and once per atom; only whether
  a poll expired matters to the result.
\<close>

definition ssaConstraintSubjectsWithDeadline ::
  "cfgSSAConstraintFormula \<Rightarrow> deadline \<Rightarrow> nat \<Rightarrow> string list \<times> bool \<times> nat" where
  "ssaConstraintSubjectsWithDeadline formula d t =
     (case pollEach d t (concat (map (\<lambda>alt. () # map (\<lambda>_. ()) alt) (alternatives formula))) of (e0, t0) \<Rightarrow>
      if e0 then ([], True, t0)
      else case feasibilityDeadlineReached d t0 of (e1, t1) \<Rightarrow>
        (sort (remdups (filter (\<lambda>s. s \<noteq> '''') (map subject (concat (alternatives formula))))), e1, t1))"

text \<open>The first contradictory pair of an alternative: expired, or the pair found.\<close>

fun contradictWith ::
  "cfgPredicateConstraint \<Rightarrow> cfgPredicateConstraint list \<Rightarrow> deadline \<Rightarrow> nat \<Rightarrow>
   cfgPredicateConstraint option \<times> bool \<times> nat" where
  "contradictWith left [] d t = (None, False, t)"
| "contradictWith left (right # rest) d t =
     (case feasibilityDeadlineReached d t of (e0, t0) \<Rightarrow>
      if e0 then (None, True, t0)
      else if ssaConstraintsContradict left right then (Some right, False, t0)
      else contradictWith left rest d t0)"

fun findSSAConstraintContradictionWithDeadline ::
  "cfgPredicateConstraint list \<Rightarrow> deadline \<Rightarrow> nat \<Rightarrow>
   (cfgPredicateConstraint \<times> cfgPredicateConstraint) option \<times> bool \<times> nat" where
  "findSSAConstraintContradictionWithDeadline [] d t = (None, False, t)"
| "findSSAConstraintContradictionWithDeadline (left # rest) d t =
     (case feasibilityDeadlineReached d t of (e0, t0) \<Rightarrow>
      if e0 then (None, True, t0)
      else case contradictWith left rest d t0 of
        (_, True, t1) \<Rightarrow> (None, True, t1)
      | (Some right, False, t1) \<Rightarrow> (Some (left, right), False, t1)
      | (None, False, t1) \<Rightarrow> findSSAConstraintContradictionWithDeadline rest d t1)"

text \<open>The loop over the alternatives: the contradictions, or \<open>None\<close>; and whether it expired.\<close>

fun findContradictions ::
  "nat \<Rightarrow> cfgPredicateConstraint list list \<Rightarrow> deadline \<Rightarrow> nat \<Rightarrow> cfgSSAConstraintContradiction list \<Rightarrow>
   cfgSSAConstraintContradiction list option \<times> bool \<times> nat" where
  "findContradictions i [] d t acc = (Some acc, False, t)"
| "findContradictions i (alt # alts) d t acc =
     (case feasibilityDeadlineReached d t of (e0, t0) \<Rightarrow>
      if e0 then (None, True, t0)
      else case findSSAConstraintContradictionWithDeadline alt d t0 of
        (_, True, t1) \<Rightarrow> (None, True, t1)
      | (None, False, t1) \<Rightarrow> (None, False, t1)
      | (Some (l, r), False, t1) \<Rightarrow>
          findContradictions (Suc i) alts d t1 (acc @ [\<lparr>Alternative = i, Left = l, Right = r\<rparr>]))"

definition buildSSAConstraintEvidenceWithDeadline ::
  "cfgSSAConstraintFormula \<Rightarrow> deadline \<Rightarrow> nat \<Rightarrow> cfgSSAConstraintEvidence \<times> bool \<times> bool \<times> nat" where
  "buildSSAConstraintEvidenceWithDeadline formula d t =
     (case feasibilityDeadlineReached d t of (e0, t0) \<Rightarrow>
      if e0 then (noEvidence, False, True, t0)
      else let evidence = noEvidence\<lparr>FormatVersion := cfgSSAConstraintEvidenceVersion\<rparr> in
        if alternatives formula = [] then
          (case feasibilityDeadlineReached d t0 of (e1, t1) \<Rightarrow>
           if e1 then (noEvidence, False, True, t1)
           else (evidence\<lparr>ConstantFalse := True\<rparr>, True, False, t1))
        else case findContradictions 0 (alternatives formula) d t0 [] of
          (_, True, t1) \<Rightarrow> (noEvidence, False, True, t1)
        | (None, False, t1) \<Rightarrow> (noEvidence, False, False, t1)
        | (Some cs, False, t1) \<Rightarrow>
            (case feasibilityDeadlineReached d t1 of (e2, t2) \<Rightarrow>
             if e2 then (noEvidence, False, True, t2)
             else (evidence\<lparr>Contradictions := cs\<rparr>, True, False, t2)))"

section \<open>The check of evidence\<close>

fun constraintPresentWithDeadline ::
  "cfgPredicateConstraint list \<Rightarrow> cfgPredicateConstraint \<Rightarrow> deadline \<Rightarrow> nat \<Rightarrow> bool \<times> nat" where
  "constraintPresentWithDeadline [] target d t = (False, t)"
| "constraintPresentWithDeadline (c # cs) target d t =
     (case feasibilityDeadlineReached d t of (e0, t0) \<Rightarrow>
      if e0 then (False, t0)
      else if c = target then (True, t0)
      else constraintPresentWithDeadline cs target d t0)"

text \<open>The check of one certificate; the conjunction is evaluated from the left.\<close>

definition certificateAccepted ::
  "nat \<Rightarrow> cfgPredicateConstraint list \<Rightarrow> cfgSSAConstraintContradiction \<Rightarrow> deadline \<Rightarrow> nat \<Rightarrow> bool \<times> nat" where
  "certificateAccepted i alt certificate d t =
     (if Alternative certificate \<noteq> i then (False, t)
      else case constraintPresentWithDeadline alt (Left certificate) d t of (p0, t0) \<Rightarrow>
        if \<not> p0 then (False, t0)
        else case constraintPresentWithDeadline alt (Right certificate) d t0 of (p1, t1) \<Rightarrow>
          if \<not> p1 then (False, t1)
          else (ssaConstraintsContradict (Left certificate) (Right certificate), t1))"

fun checkCertificates ::
  "nat \<Rightarrow> cfgPredicateConstraint list list \<Rightarrow> cfgSSAConstraintContradiction list \<Rightarrow> deadline \<Rightarrow> nat \<Rightarrow>
   bool \<times> bool \<times> nat" where
  "checkCertificates i (alt # alts) (certificate # rest) d t =
     (case feasibilityDeadlineReached d t of (e0, t0) \<Rightarrow>
      if e0 then (False, True, t0)
      else case certificateAccepted i alt certificate d t0 of (ok, t1) \<Rightarrow>
        if \<not> ok then (case feasibilityDeadlineReached d t1 of (e2, t2) \<Rightarrow> (False, e2, t2))
        else checkCertificates (Suc i) alts rest d t1)"
| "checkCertificates i _ _ d t =
     (case feasibilityDeadlineReached d t of (e0, t0) \<Rightarrow> (\<not> e0, e0, t0))"

definition checkSSAConstraintFormulaEvidenceWithDeadline ::
  "cfgSSAConstraintFormula \<Rightarrow> int list \<Rightarrow> cfgSSAConstraintEvidence \<Rightarrow> deadline \<Rightarrow> nat \<Rightarrow> bool \<times> bool \<times> nat" where
  "checkSSAConstraintFormulaEvidenceWithDeadline formula witnessPath evidence d t =
     (case feasibilityDeadlineReached d t of (e0, t0) \<Rightarrow>
      if e0 then (False, True, t0)
      else if FormatVersion evidence \<noteq> cfgSSAConstraintEvidenceVersion then (False, False, t0)
      else case ssaConstraintSubjectsWithDeadline formula d t0 of (subjects, e1, t1) \<Rightarrow>
        if e1 then (False, True, t1)
        else if EvidencePath evidence \<noteq> witnessPath \<or> Subjects evidence \<noteq> subjects then (False, False, t1)
        else if alternatives formula = [] then
          (case feasibilityDeadlineReached d t1 of (e2, t2) \<Rightarrow>
             (ConstantFalse evidence \<and> Contradictions evidence = [] \<and> \<not> e2, e2, t2))
        else if ConstantFalse evidence \<or> length (alternatives formula) \<noteq> length (Contradictions evidence)
          then (False, False, t1)
        else checkCertificates 0 (alternatives formula) (Contradictions evidence) d t1)"

section \<open>The decision and its digests\<close>

definition cfgFeasibilityResultSAT :: string where [go_const]: "cfgFeasibilityResultSAT = ''sat''"
definition cfgFeasibilityResultUNSAT :: string where [go_const]: "cfgFeasibilityResultUNSAT = ''unsat''"
definition cfgFeasibilityResultUnknown :: string where [go_const]: "cfgFeasibilityResultUnknown = ''unknown''"
definition cfgFeasibilityReasonNone :: string where [go_const]: "cfgFeasibilityReasonNone = ''''"
definition cfgFeasibilityReasonUnsupportedPredicate :: string where [go_const]: "cfgFeasibilityReasonUnsupportedPredicate = ''unsupported-predicate''"
definition cfgFeasibilityReasonTimeout :: string where [go_const]: "cfgFeasibilityReasonTimeout = ''timeout''"
definition cfgFeasibilityReasonSolverError :: string where [go_const]: "cfgFeasibilityReasonSolverError = ''solver-error''"
definition cfgFeasibilityReasonEvidenceRejected :: string where [go_const]: "cfgFeasibilityReasonEvidenceRejected = ''evidence-rejected''"
definition cfgFeasibilityReasonQueryLimit :: string where [go_const]: "cfgFeasibilityReasonQueryLimit = ''query-limit''"
definition cfgFeasibilityReasonIterationLimit :: string where [go_const]: "cfgFeasibilityReasonIterationLimit = ''iteration-limit''"

record cfgFeasibilityDecision =
  Result :: string
  DecisionReason :: string
  Evidence :: cfgSSAConstraintEvidence
  DecisionSubjects :: "string list"
  FormulaDigest :: string
  EvidenceDigest :: string

definition noDecision :: cfgFeasibilityDecision where
  "noDecision = \<lparr>Result = '''', DecisionReason = '''', Evidence = noEvidence, DecisionSubjects = [],
     FormulaDigest = '''', EvidenceDigest = ''''\<rparr>"

definition timedOut :: cfgFeasibilityDecision where
  "timedOut = noDecision\<lparr>Result := cfgFeasibilityResultUnknown, DecisionReason := cfgFeasibilityReasonTimeout\<rparr>"

section \<open>Digests\<close>

text \<open>
  The digests are SHA-256 sums of JSON texts.  What is summed is modelled; the encoding and
  the sum, two library functions on plain data, are the parameters \<open>formulaSum\<close> and
  \<open>evidenceSum\<close>.  \<open>wallClock\<close> is the deadline made from a timeout.
\<close>

record digestEvidence =
  DigestVersion :: nat
  DigestConstantFalse :: bool
  DigestPath :: "int list"
  DigestSubjects :: "string list"
  DigestContradictions :: "(nat \<times> string \<times> string) list"

record feasibilityEnv =
  decodeProvenance :: decoder
  formulaSum :: "string list list \<times> bool \<Rightarrow> string"
  evidenceSum :: "digestEvidence \<Rightarrow> string"
  wallClock :: "int \<Rightarrow> deadline"

definition cfgSSAConstraintEvidenceDigestWithControl ::
  "feasibilityEnv \<Rightarrow> cfgSSAConstraintEvidence \<Rightarrow> deadline \<Rightarrow> nat \<Rightarrow> string \<times> bool \<times> nat" where
  "cfgSSAConstraintEvidenceDigestWithControl env evidence d t =
     (case feasibilityDeadlineReached d t of (e0, t0) \<Rightarrow>
      if e0 then ('''', True, t0)
      else if FormatVersion evidence = 0 then ('''', False, t0)
      else case pollEach d t0 (Contradictions evidence) of (e1, t1) \<Rightarrow>
      if e1 then ('''', True, t1)
      else case feasibilityDeadlineReached d t1 of (e2, t2) \<Rightarrow>
      if e2 then ('''', True, t2)
      else case feasibilityDeadlineReached d t2 of (e3, t3) \<Rightarrow>
        (''cfge2_'' @ evidenceSum env
           \<lparr>DigestVersion = FormatVersion evidence, DigestConstantFalse = ConstantFalse evidence,
            DigestPath = EvidencePath evidence, DigestSubjects = sort (Subjects evidence),
            DigestContradictions =
              map (\<lambda>c. (Alternative c, cfgConstraintKey (Left c), cfgConstraintKey (Right c))) (Contradictions evidence)\<rparr>,
         e3, t3))"

definition cfgSSAConstraintFormulaDigestWithControl ::
  "feasibilityEnv \<Rightarrow> cfgSSAConstraintFormula \<Rightarrow> deadline \<Rightarrow> nat \<Rightarrow> string \<times> bool \<times> nat" where
  "cfgSSAConstraintFormulaDigestWithControl env formula0 d t =
     (case feasibilityDeadlineReached d t of (e0, t0) \<Rightarrow>
      if e0 then ('''', True, t0)
      else case normalizeWithControl formula0 d t0 of (formula, e1, t1) \<Rightarrow>
      if e1 then ('''', True, t1)
      else case pollEach d t1 (concat (map (\<lambda>alt. () # map (\<lambda>_. ()) alt) (alternatives formula))) of (e2, t2) \<Rightarrow>
      if e2 then ('''', True, t2)
      else case feasibilityDeadlineReached d t2 of (e3, t3) \<Rightarrow>
      if e3 then ('''', True, t3)
      else case feasibilityDeadlineReached d t3 of (e4, t4) \<Rightarrow>
        (''cfgf2_'' @ formulaSum env (map (map cfgConstraintKey) (alternatives formula), unsupported formula), e4, t4))"

section \<open>The query and its decision\<close>

record cfgFeasibilityQuery =
  QueryPass :: "indexBuilder option"
  QueryCFG :: "exprCFG option"
  QueryWitness :: cfgWitnessRecord
  QueryTimeout :: int
  QueryDeadline :: deadline

definition feasibilityDeadlineExpired :: "cfgFeasibilityQuery \<Rightarrow> nat \<Rightarrow> bool \<times> nat" where
  "feasibilityDeadlineExpired query t =
     (if QueryDeadline query \<noteq> None then feasibilityDeadlineReached (QueryDeadline query) t
      else (QueryTimeout query \<le> 0, t))"

definition extractQuery :: "feasibilityEnv \<Rightarrow> cfgFeasibilityQuery \<Rightarrow> nat \<Rightarrow> cfgSSAConstraintFormula \<times> bool \<times> nat" where
  "extractQuery env query t =
     extractSSAConstraintsForWitnessRecordWithControl (QueryPass query) (decodeProvenance env) (QueryCFG query)
       (QueryWitness query) (QueryDeadline query) t"

definition withWallClock :: "feasibilityEnv \<Rightarrow> cfgFeasibilityQuery \<Rightarrow> cfgFeasibilityQuery" where
  "withWallClock env query =
     (if QueryDeadline query = None then query\<lparr>QueryDeadline := wallClock env (QueryTimeout query)\<rparr> else query)"

definition effectiveQuery :: "feasibilityEnv \<Rightarrow> cfgFeasibilityQuery \<Rightarrow> cfgFeasibilityQuery" where
  "effectiveQuery env query = (if QueryTimeout query > 0 then withWallClock env query else query)"

text \<open>The UNSAT answer, with its evidence completed and the digests taken.\<close>

definition unsatDecision ::
  "feasibilityEnv \<Rightarrow> cfgFeasibilityQuery \<Rightarrow> cfgSSAConstraintFormula \<Rightarrow> string list \<Rightarrow> cfgSSAConstraintEvidence \<Rightarrow> nat \<Rightarrow>
   cfgFeasibilityDecision \<times> nat" where
  "unsatDecision env query formula subjects evidence0 t =
     (let evidence = evidence0\<lparr>EvidencePath := CFGPath (QueryWitness query), Subjects := subjects\<rparr> in
      case cfgSSAConstraintFormulaDigestWithControl env formula (QueryDeadline query) t of (fd, e0, t0) \<Rightarrow>
      if e0 then (timedOut, t0)
      else case cfgSSAConstraintEvidenceDigestWithControl env evidence (QueryDeadline query) t0 of (ed, e1, t1) \<Rightarrow>
        if e1 then (timedOut, t1)
        else case feasibilityDeadlineExpired query t1 of (e2, t2) \<Rightarrow>
          if e2 then (timedOut, t2)
          else (\<lparr>Result = cfgFeasibilityResultUNSAT, DecisionReason = '''', Evidence = evidence,
                 DecisionSubjects = subjects, FormulaDigest = fd, EvidenceDigest = ed\<rparr>, t2))"

definition ssaConstraintsCheck :: "feasibilityEnv \<Rightarrow> cfgFeasibilityQuery \<Rightarrow> nat \<Rightarrow> cfgFeasibilityDecision \<times> nat" where
  "ssaConstraintsCheck env query0 t =
     (if QueryTimeout query0 \<le> 0 then (timedOut, t)
      else let query = withWallClock env query0; d = QueryDeadline query in
      case feasibilityDeadlineExpired query t of (e0, t0) \<Rightarrow>
      if e0 then (timedOut, t0)
      else case extractQuery env query t0 of (formula, e1, t1) \<Rightarrow>
      if e1 then (timedOut, t1)
      else case feasibilityDeadlineExpired query t1 of (e2, t2) \<Rightarrow>
      if e2 then (timedOut, t2)
      else case ssaConstraintSubjectsWithDeadline formula d t2 of (subjects, e3, t3) \<Rightarrow>
      if e3 then (timedOut, t3)
      else case buildSSAConstraintEvidenceWithDeadline formula d t3 of (evidence, unsat, e4, t4) \<Rightarrow>
      if e4 then (timedOut, t4)
      else case feasibilityDeadlineExpired query t4 of (e5, t5) \<Rightarrow>
      if e5 then (timedOut, t5)
      else if unsat then unsatDecision env query formula subjects evidence t5
      else if unsupported formula then
        (noDecision\<lparr>Result := cfgFeasibilityResultUnknown,
           DecisionReason := cfgFeasibilityReasonUnsupportedPredicate, DecisionSubjects := subjects\<rparr>, t5)
      else case feasibilityDeadlineExpired query t5 of (e6, t6) \<Rightarrow>
      if e6 then (timedOut, t6)
      else (noDecision\<lparr>Result := cfgFeasibilityResultSAT, DecisionSubjects := subjects\<rparr>, t6))"

text \<open>Accepted, expired, and the two digests.\<close>

definition checkSSAConstraintEvidenceWithDigests ::
  "feasibilityEnv \<Rightarrow> cfgFeasibilityQuery \<Rightarrow> cfgSSAConstraintEvidence \<Rightarrow> nat \<Rightarrow> (bool \<times> bool \<times> string \<times> string) \<times> nat" where
  "checkSSAConstraintEvidenceWithDigests env query0 evidence t =
     (let query = effectiveQuery env query0; d = QueryDeadline query in
      case feasibilityDeadlineExpired query t of (e0, t0) \<Rightarrow>
      if e0 \<or> FormatVersion evidence \<noteq> cfgSSAConstraintEvidenceVersion then ((False, e0, '''', ''''), t0)
      else case extractQuery env query t0 of (formula, e1, t1) \<Rightarrow>
      if e1 then ((False, True, '''', ''''), t1)
      else case feasibilityDeadlineExpired query t1 of (e2, t2) \<Rightarrow>
      if e2 then ((False, True, '''', ''''), t2)
      else case checkSSAConstraintFormulaEvidenceWithDeadline formula (CFGPath (QueryWitness query)) evidence d t2 of (accepted, e3, t3) \<Rightarrow>
      if e3 \<or> \<not> accepted then ((False, e3, '''', ''''), t3)
      else case cfgSSAConstraintFormulaDigestWithControl env formula d t3 of (fd, e4, t4) \<Rightarrow>
      if e4 then ((False, True, '''', ''''), t4)
      else case cfgSSAConstraintEvidenceDigestWithControl env evidence d t4 of (ed, e5, t5) \<Rightarrow>
      if e5 then ((False, True, '''', ''''), t5)
      else case feasibilityDeadlineExpired query t5 of (e6, t6) \<Rightarrow>
      if e6 then ((False, True, '''', ''''), t6)
      else ((True, False, fd, ed), t6))"

section \<open>Contradictions are real\<close>

definition constants :: "cfgSSAConstraintFormula \<Rightarrow> string set" where
  "constants f = cvalue ` set (concat (alternatives f))"

text \<open>
  What the decision relies on: different texts denote different values, and texts that parse
  as rationals are ordered as their values are.
\<close>

definition texts_faithful :: "(string \<Rightarrow> 'v::linorder) \<Rightarrow> string set \<Rightarrow> bool" where
  "texts_faithful den S \<longleftrightarrow> inj_on den S \<and>
     (\<forall>a\<in>S. \<forall>b\<in>S. \<forall>c. compareCFGNumericConstants a b = Some c \<longrightarrow>
        (c < 0 \<longleftrightarrow> den a < den b) \<and> (c = 0 \<longleftrightarrow> den a = den b))"

lemma comparison_faithful:
  assumes "texts_faithful den S" "a \<in> S" "b \<in> S" "compareCFGNumericConstants a b = Some c"
  shows "c < 0 \<longleftrightarrow> den a < den b" "c = 0 \<longleftrightarrow> den a = den b" "c > 0 \<longleftrightarrow> den b < den a"
proof -
  show l: "c < 0 \<longleftrightarrow> den a < den b" and e: "c = 0 \<longleftrightarrow> den a = den b"
    using assms unfolding texts_faithful_def by blast+
  have "c > 0 \<longleftrightarrow> \<not> c < 0 \<and> c \<noteq> 0" by auto
  then show "c > 0 \<longleftrightarrow> den b < den a" using l e by (metis neqE order.asym)
qed

lemma equality_contradicts:
  assumes "texts_faithful den S" "v \<in> S" "cvalue c \<in> S" "cfgEqualityContradicts v c" "val (subject c) = den v"
  shows "\<not> holds val den c"
proof (cases "cmp_op c = ''neq''")
  case True
  with assms show ?thesis by (simp add: cfgEqualityContradicts_def holds_def)
next
  case False
  then obtain k where k: "compareCFGNumericConstants v (cvalue c) = Some k"
    using assms(4) by (auto simp: cfgEqualityContradicts_def split: option.splits)
  note cmp = comparison_faithful [OF assms(1-3) k]
  show ?thesis
    using assms(4,5) False cmp
    by (auto simp: cfgEqualityContradicts_def holds_def k not_less not_le le_less split: if_splits)
qed

lemma ordered_contradicts:
  assumes "texts_faithful den S" "cvalue l \<in> S" "cvalue r \<in> S" "subject l = subject r"
    "cfgOrderedConstraintsContradict l r" "holds val den l" "holds val den r"
  shows False
proof -
  have bounds: False
    if "cfgOrderedBounds lo hi = Some (lo, hi)" "{lo, hi} = {l, r}" "compareCFGNumericConstants (cvalue lo) (cvalue hi) = Some k"
      "k > 0 \<or> k = 0 \<and> (cmp_op lo = ''gt'' \<or> cmp_op hi = ''lt'')" for lo hi k
  proof -
    have S: "cvalue lo \<in> S" "cvalue hi \<in> S" "subject lo = subject hi" "holds val den lo" "holds val den hi"
      using that(2) assms by (auto simp: doubleton_eq_iff)
    note cmp = comparison_faithful [OF assms(1) S(1,2) that(3)]
    from that(1) have ops: "cmp_op lo = ''gt'' \<or> cmp_op lo = ''ge''" "cmp_op hi = ''lt'' \<or> cmp_op hi = ''le''"
      by (auto simp: cfgOrderedBounds_def split: if_splits)
    show False
      using ops that(4) cmp S(3-5) by (auto simp: holds_def)
  qed
  have id: "cfgOrderedBounds x y = Some b \<Longrightarrow> b = (x, y)" for x y b
    by (auto simp: cfgOrderedBounds_def split: if_splits)
  show False
  proof (cases "cfgOrderedBounds l r")
    case (Some b)
    then show ?thesis
      using assms(5) bounds [of l r] id [OF Some]
      by (auto simp: cfgOrderedConstraintsContradict_def split: option.splits)
  next
    case None
    then obtain b where b: "cfgOrderedBounds r l = Some b"
      using assms(5) by (auto simp: cfgOrderedConstraintsContradict_def split: option.splits)
    then show ?thesis
      using assms(5) bounds [of r l] id [OF b] None
      by (auto simp: cfgOrderedConstraintsContradict_def split: option.splits)
  qed
qed

lemma contradict_sound:
  assumes "texts_faithful den S" "cvalue l \<in> S" "cvalue r \<in> S" "ssaConstraintsContradict l r"
    "holds val den l" "holds val den r"
  shows False
proof -
  have sub: "subject l = subject r" using assms(4) by (auto simp: ssaConstraintsContradict_def split: if_splits)
  consider "cmp_op l = ''eq''" "cmp_op r = ''eq''" "cvalue l \<noteq> cvalue r"
    | "cmp_op l = ''eq''" "cfgEqualityContradicts (cvalue l) r"
    | "cmp_op r = ''eq''" "cfgEqualityContradicts (cvalue r) l"
    | "cfgOrderedConstraintsContradict l r"
    using assms(4) by (auto simp: ssaConstraintsContradict_def split: if_splits)
  then show False
  proof cases
    case 1
    with assms sub have "den (cvalue l) = den (cvalue r)" by (simp add: holds_def)
    with assms(1-3) 1(3) show ?thesis by (auto simp: texts_faithful_def inj_on_def)
  next
    case 2
    with equality_contradicts [OF assms(1-3), of val] assms(5,6) sub show ?thesis by (simp add: holds_def)
  next
    case 3
    with equality_contradicts [OF assms(1,3,2), of val] assms(5,6) sub show ?thesis by (simp add: holds_def)
  next
    case 4
    with ordered_contradicts [OF assms(1-3) sub] assms(5,6) show ?thesis by blast
  qed
qed

section \<open>Accepted evidence is a proof\<close>

lemma contradiction_in_constants:
  "alt \<in> set (alternatives f) \<Longrightarrow> c \<in> set alt \<Longrightarrow> cvalue c \<in> constants f"
  by (auto simp: constants_def)

lemma constraintPresent_member: "constraintPresentWithDeadline cs c d t = (True, t') \<Longrightarrow> c \<in> set cs"
  by (induction cs c d t rule: constraintPresentWithDeadline.induct) (auto split: prod.splits if_splits)

lemma certificate_refutes:
  assumes "texts_faithful den (constants f)" "alt \<in> set (alternatives f)" "certificateAccepted i alt c d t = (True, t')"
  shows "\<exists>a\<in>set alt. \<not> holds val den a"
proof -
  have m: "Left c \<in> set alt" "Right c \<in> set alt" "ssaConstraintsContradict (Left c) (Right c)"
    using assms(3) by (auto simp: certificateAccepted_def dest!: constraintPresent_member split: prod.splits if_splits)
  from contradict_sound [OF assms(1) _ _ m(3)] contradiction_in_constants [OF assms(2)] m(1,2) show ?thesis by blast
qed

lemma certificates_refute:
  "checkCertificates i alts certs d t = (True, e, t') \<Longrightarrow> length alts = length certs \<Longrightarrow> set alts \<subseteq> set (alternatives f) \<Longrightarrow>
    texts_faithful den (constants f) \<Longrightarrow> \<forall>alt\<in>set alts. \<exists>a\<in>set alt. \<not> holds val den a"
proof (induction i alts certs d t rule: checkCertificates.induct)
  case (1 i alt alts c rest d t)
  obtain e0 t0 where p0: "feasibilityDeadlineReached d t = (e0, t0)" by force
  obtain ok t1 where p1: "certificateAccepted i alt c d t0 = (ok, t1)" by force
  have ok: "\<not> e0" "ok" "checkCertificates (Suc i) alts rest d t1 = (True, e, t')"
    using "1.prems"(1) by (auto simp: p0 p1 split: if_splits prod.splits)
  have "\<exists>a\<in>set alt. \<not> holds val den a"
    using certificate_refutes [of den f alt i c d t0 t1] p1 ok "1.prems" by simp
  moreover have "\<forall>alt\<in>set alts. \<exists>a\<in>set alt. \<not> holds val den a"
    using "1.IH" [OF p0 [symmetric] ok(1) p1 [symmetric] _ ok(3)] ok(2) "1.prems" by simp
  ultimately show ?case by simp
qed auto

lemma accepted_refutes:
  assumes "checkSSAConstraintFormulaEvidenceWithDeadline f path ev d t = (True, e, t')" "texts_faithful den (constants f)"
  shows "\<not> satisfied val den f"
proof (cases "alternatives f = []")
  case True
  then show ?thesis by (simp add: satisfied_def)
next
  case False
  then obtain t0 where "checkCertificates 0 (alternatives f) (Contradictions ev) d t0 = (True, e, t')"
      "length (alternatives f) = length (Contradictions ev)"
    using assms(1) by (auto simp: checkSSAConstraintFormulaEvidenceWithDeadline_def split: prod.splits if_splits)
  from certificates_refute [OF this order.refl assms(2)] show ?thesis by (auto simp: satisfied_def)
qed

section \<open>Evidence that is built is accepted\<close>

lemma contradictWith_found:
  "contradictWith l cs d t = (Some r, e, t') \<Longrightarrow> r \<in> set cs \<and> ssaConstraintsContradict l r"
  by (induction l cs d t rule: contradictWith.induct) (auto split: prod.splits if_splits)

lemma contradiction_found:
  "findSSAConstraintContradictionWithDeadline cs d t = (Some (l, r), False, t') \<Longrightarrow>
    l \<in> set cs \<and> r \<in> set cs \<and> ssaConstraintsContradict l r"
  by (induction cs d t rule: findSSAConstraintContradictionWithDeadline.induct)
    (auto split: prod.splits if_splits option.splits bool.splits dest!: contradictWith_found)

lemma constraintPresent_None: "constraintPresentWithDeadline cs c None t = (c \<in> set cs, t)"
  by (induction cs) (auto simp: feasibilityDeadlineReached_def)

lemma found_accepted:
  "findContradictions i alts d t acc = (Some cs, False, t') \<Longrightarrow>
    \<exists>new. cs = acc @ new \<and> length new = length alts \<and> checkCertificates i alts new None u = (True, False, u)"
proof (induction i alts d t acc rule: findContradictions.induct)
  case (2 i alt alts d t acc)
  obtain e0 t0 where p0: "feasibilityDeadlineReached d t = (e0, t0)" by force
  then have e0: "\<not> e0" using "2.prems" by (auto split: if_splits)
  obtain o1 e1 t1 where p1: "findSSAConstraintContradictionWithDeadline alt d t0 = (o1, e1, t1)" by (metis prod_cases3)
  have e1: "e1 = False" "o1 \<noteq> None" using "2.prems" by (auto simp: p0 e0 p1 split: bool.splits option.splits)
  then obtain l r where lr: "o1 = Some (l, r)" by auto
  let ?c = "\<lparr>Alternative = i, Left = l, Right = r\<rparr>"
  have "findContradictions (Suc i) alts d t1 (acc @ [?c]) = (Some cs, False, t')"
    using "2.prems" by (simp add: p0 e0 p1 e1 lr)
  from "2.IH" [OF p0 [symmetric] e0 p1 [symmetric, unfolded e1(1) lr] refl _ refl refl this] obtain new where
    new: "cs = acc @ ?c # new" "length new = length alts" "checkCertificates (Suc i) alts new None u = (True, False, u)"
    by auto
  have "l \<in> set alt" "r \<in> set alt" "ssaConstraintsContradict l r"
    using contradiction_found [of alt d t0 l r t1] p1 e1 lr by auto
  then have "certificateAccepted i alt ?c None u = (True, u)" for u
    by (simp add: certificateAccepted_def constraintPresent_None)
  with new show ?case by (intro exI [of _ "?c # new"]) simp
qed simp

lemma subjects_None:
  "ssaConstraintSubjectsWithDeadline f d t = (s, False, t') \<Longrightarrow> ssaConstraintSubjectsWithDeadline f None u = (s, False, u)"
  by (auto simp: ssaConstraintSubjectsWithDeadline_def split: prod.splits if_splits)

lemma built_accepted:
  assumes "buildSSAConstraintEvidenceWithDeadline f d t = (ev, True, False, t')"
    and "ssaConstraintSubjectsWithDeadline f d' t1 = (subjects, False, t2)"
  shows "checkSSAConstraintFormulaEvidenceWithDeadline f path (ev\<lparr>EvidencePath := path, Subjects := subjects\<rparr>) None u = (True, False, u)"
proof (cases "alternatives f = []")
  case True
  then show ?thesis
    using assms(1) subjects_None [OF assms(2)] no_deadline
    by (auto simp: buildSSAConstraintEvidenceWithDeadline_def checkSSAConstraintFormulaEvidenceWithDeadline_def
        noEvidence_def split: prod.splits if_splits)
next
  case False
  then obtain t0 t3 cs where cs: "findContradictions 0 (alternatives f) d t0 [] = (Some cs, False, t3)"
    "ev = noEvidence\<lparr>FormatVersion := cfgSSAConstraintEvidenceVersion, Contradictions := cs\<rparr>"
    using assms(1) by (auto simp: buildSSAConstraintEvidenceWithDeadline_def split: prod.splits if_splits option.splits bool.splits)
  from found_accepted [OF cs(1)] have
    "length cs = length (alternatives f)" "checkCertificates 0 (alternatives f) cs None v = (True, False, v)" for v by auto
  then show ?thesis
    using False subjects_None [OF assms(2)] cs(2)
    by (simp add: checkSSAConstraintFormulaEvidenceWithDeadline_def noEvidence_def)
qed

section \<open>Properties\<close>

text \<open>
  C8. The evidence checker is sound on its own: whatever evidence it is given, if it accepts it
  for a formula then no assignment of values satisfies the formula, provided that constants
  are compared as their values are.
\<close>

theorem accepted_evidence_refutes_formula:
  assumes "checkSSAConstraintFormulaEvidenceWithDeadline f path ev d t = (True, e, t')"
    and "texts_faithful den (constants f)"
  shows "\<not> satisfied val den f"
  using accepted_refutes [OF assms] .

definition atomOn :: "string \<Rightarrow> string \<Rightarrow> cfgPredicateConstraint" where
  "atomOn op v = \<lparr>subject = ''t0'', cmp_op = op, cvalue = v\<rparr>"

text \<open>\<open>x == 1 && x > 2 || x <= 1 && x >= 2\<close>.\<close>

definition refutedFormula :: cfgSSAConstraintFormula where
  "refutedFormula = \<lparr>alternatives = [[atomOn ''eq'' ''1'', atomOn ''gt'' ''2''], [atomOn ''le'' ''1'', atomOn ''ge'' ''2'']],
     unsupported = True\<rparr>"

definition refutedEvidence :: "int list \<Rightarrow> cfgSSAConstraintEvidence" where
  "refutedEvidence path = (fst (buildSSAConstraintEvidenceWithDeadline refutedFormula None 0))\<lparr>EvidencePath := path, Subjects := [''t0'']\<rparr>"

lemma sample_compare:
  "compareCFGNumericConstants ''1'' ''1'' = Some 0" "compareCFGNumericConstants ''1'' ''2'' = Some (- 1)"
  "compareCFGNumericConstants ''2'' ''1'' = Some 1" "compareCFGNumericConstants ''2'' ''2'' = Some 0"
  by code_simp+

lemma sample_texts: "texts_faithful sampleDen {''1'', ''2''}"
  by (simp add: texts_faithful_def sampleDen_def sample_compare inj_on_def)

theorem accepted_evidence_refutes_formula_witness:
  "\<forall>x. \<not> satisfied (\<lambda>_. x) sampleDen refutedFormula"
proof
  fix x
  have run: "checkSSAConstraintFormulaEvidenceWithDeadline refutedFormula [0, 1] (refutedEvidence [0, 1]) None 0 = (True, False, 0)"
    by code_simp
  have "constants refutedFormula = {''1'', ''2''}" by (auto simp: constants_def refutedFormula_def atomOn_def)
  with accepted_evidence_refutes_formula [OF run, of sampleDen] sample_texts
  show "\<not> satisfied (\<lambda>_. x) sampleDen refutedFormula" by simp
qed

text \<open>
  C9. Evidence that the search builds is always accepted by the independent check, once it has
  been completed with the path and the subjects, as the decision does; the check is run
  without a deadline.
\<close>

theorem built_evidence_is_accepted:
  assumes "buildSSAConstraintEvidenceWithDeadline f d t = (ev, True, False, t')"
    and "ssaConstraintSubjectsWithDeadline f d' t1 = (subjects, False, t2)"
  shows "checkSSAConstraintFormulaEvidenceWithDeadline f path (ev\<lparr>EvidencePath := path, Subjects := subjects\<rparr>) None u = (True, False, u)"
  using built_accepted [OF assms] .

theorem built_evidence_is_accepted_witness:
  "checkSSAConstraintFormulaEvidenceWithDeadline refutedFormula [3, 4] (refutedEvidence [3, 4]) None 7 = (True, False, 7)"
proof -
  have "buildSSAConstraintEvidenceWithDeadline refutedFormula None 0 =
      (fst (buildSSAConstraintEvidenceWithDeadline refutedFormula None 0), True, False, 0)" by code_simp
  moreover have "ssaConstraintSubjectsWithDeadline refutedFormula None 0 = ([''t0''], False, 0)" by code_simp
  ultimately show ?thesis
    unfolding refutedEvidence_def by (rule built_evidence_is_accepted)
qed

section \<open>No accepted discharge of a real execution\<close>

definition originOf :: "cfgWitnessRecord \<Rightarrow> int list" where
  "originOf w = (if FactOriginPath w = [] then CFGPath w else FactOriginPath w)"

definition witnessed_execution ::
  "ssaIndex \<Rightarrow> (int \<Rightarrow> expr option) \<Rightarrow> encoder \<Rightarrow> (string \<Rightarrow> 'v::linorder) \<Rightarrow> (string \<Rightarrow> 'v) \<Rightarrow> exprCFG \<Rightarrow> cfgWitnessRecord \<Rightarrow> bool" where
  "witnessed_execution ix caseTag encode val den cfg w \<longleftrightarrow>
     (\<exists>eb p. entryBlock cfg = Some eb \<and> originOf w \<noteq> [] \<and> cfg_path cfg (cfgIndex eb) p (hd (originOf w)) \<and>
        successively (taken ix caseTag val den cfg) p) \<and>
     (RecordWitnessEdges w = [] \<longrightarrow> successively (taken ix caseTag val den cfg) (CFGPath w)) \<and>
     (\<forall>we\<in>set (RecordWitnessEdges w). \<forall>s\<in>set (WPredicates we). provenance_true ix encode val den s)"

definition extraction_faithful ::
  "ssaIndex \<Rightarrow> (int \<Rightarrow> expr option) \<Rightarrow> encoder \<Rightarrow> decoder \<Rightarrow> indexBuilder \<Rightarrow> exprCFG \<Rightarrow> cfgWitnessRecord \<Rightarrow> bool" where
  "extraction_faithful ix caseTag encode decode build cfg w \<longleftrightarrow>
     cfg_faithful ix caseTag cfg \<and> builds build ix \<and> codec encode decode \<and>
     (\<forall>eb. entryBlock cfg = Some eb \<longrightarrow> private_successors cfg (cfgIndex eb) (hd (originOf w)))"

lemma accepted_excludes:
  assumes ef: "extraction_faithful ix caseTag encode (decodeProvenance env) build cfg (QueryWitness q)"
    and q: "QueryPass q = Some build" "QueryCFG q = Some cfg"
    and tf: "\<And>t f t'. extractQuery env (effectiveQuery env q) t = (f, False, t') \<Longrightarrow> texts_faithful den (constants f)"
    and acc: "checkSSAConstraintEvidenceWithDigests env q ev t = ((True, ex, fd, ed), t')"
  shows "\<not> witnessed_execution ix caseTag encode val den cfg (QueryWitness q)"
proof
  assume we: "witnessed_execution ix caseTag encode val den cfg (QueryWitness q)"
  define q' where "q' = effectiveQuery env q"
  have q': "q' = q\<lparr>QueryDeadline := QueryDeadline q'\<rparr>" by (simp add: q'_def effectiveQuery_def withWallClock_def)
  obtain t0 f t1 t2 path e t3 where
    run: "extractQuery env q' t0 = (f, False, t1)"
      "checkSSAConstraintFormulaEvidenceWithDeadline f path ev (QueryDeadline q') t2 = (True, e, t3)"
    using acc unfolding checkSSAConstraintEvidenceWithDigests_def q'_def [symmetric] Let_def
    by (auto split: prod.splits if_splits)
  have "texts_faithful den (constants f)" using run(1) tf [of t0 f t1] by (simp add: q'_def)
  with run(2) have "\<not> satisfied val den f" by (rule accepted_refutes)
  moreover have same: "QueryPass q' = Some build" "QueryCFG q' = Some cfg" "QueryWitness q' = QueryWitness q"
    by (subst q', simp add: q)+
  obtain eb p where eb: "entryBlock cfg = Some eb" and o: "originOf (QueryWitness q) \<noteq> []" and
    p: "cfg_path cfg (cfgIndex eb) p (hd (originOf (QueryWitness q)))" "successively (taken ix caseTag val den cfg) p"
    using we unfolding witnessed_execution_def by blast
  have "satisfied val den f"
  proof (rule record_satisfied [of ix caseTag cfg eb build encode "decodeProvenance env" "QueryWitness q" "hd (originOf (QueryWitness q))"
        "tl (originOf (QueryWitness q))" p val den "QueryDeadline q'" t0 f t1])
    show "extractSSAConstraintsForWitnessRecordWithControl (Some build) (decodeProvenance env) (Some cfg) (QueryWitness q)
        (QueryDeadline q') t0 = (f, False, t1)"
      using run(1) by (simp add: extractQuery_def same)
  qed (use ef we eb o p in \<open>auto simp: extraction_faithful_def witnessed_execution_def originOf_def\<close>)
  ultimately show False by blast
qed

text \<open>
  C2. An accepted discharge never hides a real execution: when the checker accepts UNSAT
  evidence for a witness, then no values of the SSA registers let the program run from the
  entry to the origin of the fact and on along the witness, under the conditions on branches,
  dominating blocks and constants that the extraction relies on.
\<close>

theorem accepted_discharge_has_no_execution:
  assumes "extraction_faithful ix caseTag encode (decodeProvenance env) build cfg (QueryWitness q)"
    and "QueryPass q = Some build" and "QueryCFG q = Some cfg"
    and "\<And>t f t'. extractQuery env (effectiveQuery env q) t = (f, False, t') \<Longrightarrow> texts_faithful den (constants f)"
    and "checkSSAConstraintEvidenceWithDigests env q ev t = ((True, ex, fd, ed), t')"
  shows "\<not> witnessed_execution ix caseTag encode val den cfg (QueryWitness q)"
  using accepted_excludes [OF assms] .

text \<open>The witness that takes both branches of \<open>if x == 1 { if x > 2 { use } }\<close>, under a deadline never reached.\<close>

definition sampleEnv :: feasibilityEnv where
  "sampleEnv = \<lparr>decodeProvenance = sampleDecode, formulaSum = (\<lambda>_. ''f''), evidenceSum = (\<lambda>_. ''e''), wallClock = (\<lambda>_. Some (\<lambda>_. False))\<rparr>"

definition sampleQuery :: cfgFeasibilityQuery where
  "sampleQuery = \<lparr>QueryPass = Some sampleBuild, QueryCFG = Some nestedCFG, QueryWitness = sampleRecord [1, 2],
     QueryTimeout = 50, QueryDeadline = None\<rparr>"

definition sampleEvidence :: cfgSSAConstraintEvidence where
  "sampleEvidence = \<lparr>FormatVersion = 1, ConstantFalse = False, EvidencePath = [1, 2], Subjects = [''t0''],
     Contradictions = [\<lparr>Alternative = 0, Left = atomOn ''eq'' ''1'', Right = atomOn ''gt'' ''2''\<rparr>]\<rparr>"

lemma never_reached [simp]: "feasibilityDeadlineReached (Some (\<lambda>_. False)) t = (False, Suc t)"
  by (simp add: feasibilityDeadlineReached_def)

theorem accepted_discharge_has_no_execution_witness:
  "\<forall>val. \<not> witnessed_execution sampleIndex (\<lambda>_. None) sampleEncode val sampleDen nestedCFG (sampleRecord [1, 2])"
proof
  fix val
  let ?cs = "{''1'', ''2''}"
  have run: "snd (fst (checkSSAConstraintEvidenceWithDigests sampleEnv sampleQuery sampleEvidence 0)) = (False, ''cfgf2_f'', ''cfge2_e'') \<and>
      fst (fst (checkSSAConstraintEvidenceWithDigests sampleEnv sampleQuery sampleEvidence 0))" by code_simp
  then obtain t' where acc: "checkSSAConstraintEvidenceWithDigests sampleEnv sampleQuery sampleEvidence 0 =
      ((True, False, ''cfgf2_f'', ''cfge2_e''), t')"
    by (metis prod.collapse)
  have ext: "alternatives (fst (extractQuery sampleEnv (effectiveQuery sampleEnv sampleQuery) t)) = [[atomOn ''eq'' ''1'', atomOn ''gt'' ''2'']]" for t
    by code_simp
  have tf: "texts_faithful sampleDen (constants f)"
    if "extractQuery sampleEnv (effectiveQuery sampleEnv sampleQuery) t = (f, False, t')" for t f t'
  proof -
    have "constants f = ?cs" using ext [of t] by (simp add: that constants_def atomOn_def)
    then show ?thesis using sample_texts by simp
  qed
  show "\<not> witnessed_execution sampleIndex (\<lambda>_. None) sampleEncode val sampleDen nestedCFG (sampleRecord [1, 2])"
    using accepted_discharge_has_no_execution [OF _ _ _ tf acc, where ix = sampleIndex and caseTag = "\<lambda>_. None"
        and encode = sampleEncode and build = sampleBuild and cfg = nestedCFG]
      nested_faithful nested_entry nested_private sample_builds sample_codec
    by (simp add: extraction_faithful_def sampleQuery_def sampleEnv_def originOf_def sampleRecord_def)
qed

section \<open>Constants are compared by their texts\<close>



end
