(* ===== verification/Refinement.thy ===== *)
theory Refinement
  imports Feasibility Tabulation
begin

text \<open>
  The refinement controller (\<open>goplint/cfa_refinement.go\<close>, \<open>cfa_refinement_cache.go\<close>,
  \<open>cfa_protocol_refinement_options.go\<close> and the witness record of \<open>cfa_feasibility.go\<close>): a
  candidate is checked for feasibility, a witness with accepted UNSAT evidence is discharged
  and the solver is run again without it, within the query and iteration budgets.  The backend
  and the rerun are the parameters the code has them as, an interface value and a closure;
  nothing is assumed of either.
\<close>

section \<open>Options and cache\<close>

definition defaultCFGRefinementMaxIterations :: int where "defaultCFGRefinementMaxIterations = 3"
definition defaultCFGFeasibilityMaxQueries :: int where "defaultCFGFeasibilityMaxQueries = 16"
definition defaultCFGFeasibilityTimeoutMS :: int where "defaultCFGFeasibilityTimeoutMS = 5000"
definition cfgSSAConstraintsEngine :: string where "cfgSSAConstraintsEngine = ''ssa-constraints''"
definition cfgRefinementStatusViolation :: string where "cfgRefinementStatusViolation = ''violation''"
definition cfgRefinementStatusInconclusive :: string where "cfgRefinementStatusInconclusive = ''inconclusive''"
definition cfgRefinementStatusDischargedInfeasible :: string where
  "cfgRefinementStatusDischargedInfeasible = ''discharged-infeasible''"

record cfgProtocolRefinementOptions =
  RefinementMaxIterations :: int
  FeasibilityMaxQueries :: int
  FeasibilityTimeout :: int

definition IterationBudget :: "cfgProtocolRefinementOptions \<Rightarrow> int" where
  "IterationBudget o' = (if RefinementMaxIterations o' > 0 then RefinementMaxIterations o' else defaultCFGRefinementMaxIterations)"

definition QueryBudget :: "cfgProtocolRefinementOptions \<Rightarrow> int" where
  "QueryBudget o' = (if FeasibilityMaxQueries o' > 0 then FeasibilityMaxQueries o' else defaultCFGFeasibilityMaxQueries)"

text \<open>The options made from the flags: iterations, queries and the timeout in milliseconds.\<close>

definition newCFGProtocolRefinementOptions :: "int \<Rightarrow> int \<Rightarrow> int \<Rightarrow> cfgProtocolRefinementOptions" where
  "newCFGProtocolRefinementOptions iterations queries timeoutMS =
     \<lparr>RefinementMaxIterations = iterations, FeasibilityMaxQueries = queries,
      FeasibilityTimeout = (if timeoutMS \<le> 0 then defaultCFGFeasibilityTimeoutMS else timeoutMS) * 1000000\<rparr>"

text \<open>The cache records a discharge once; it says whether the hash is new and not empty.\<close>

definition cache_record :: "string set \<Rightarrow> string \<Rightarrow> bool \<times> string set" where
  "cache_record attempts hash =
     (if hash = '''' \<or> hash \<in> attempts then (False, attempts) else (True, insert hash attempts))"

section \<open>Results and witness records\<close>

record cfgProtocolRefinementResult =
  Enabled :: bool
  FeasibilityEngine :: string
  FeasibilityResult :: string
  FeasibilityReason :: string
  RefinementStatus :: string
  RefinementIterations :: nat
  RefinementTrigger :: string
  RefinementWitnessHash :: string
  SSASubjects :: "string list"
  RefinementEvidence :: cfgSSAConstraintEvidence
  RefinementEvidenceDigest :: string

record ('n, 'e) refinedResult = "('n, 'e) interprocPathResult" +
  Refinement :: cfgProtocolRefinementResult
  WitnessRecord :: cfgWitnessRecord

definition effectiveWitnessPath :: "int list \<Rightarrow> int list \<Rightarrow> int list" where
  "effectiveWitnessPath path syntheticPath = (if path \<noteq> [] then path else syntheticPath)"

definition refinementTriggerForResult :: "('n, 'e, 'z) interprocPathResult_scheme \<Rightarrow> string" where
  "refinementTriggerForResult result =
     (if Class result = interprocOutcomeUnsafe then cfgRefinementTriggerUnsafeCandidate
      else if PathReason result = pathOutcomeReasonNone then cfgRefinementTriggerUnsafeCandidate
      else PathReason result)"

definition normalizeFindingMeta :: "(string \<times> string) list \<Rightarrow> (string \<times> string) list" where
  "normalizeFindingMeta meta = sort_key fst (filter (\<lambda>(key, v). key \<noteq> '''' \<and> v \<noteq> '''') meta)"

text \<open>
  The hash of a witness is a SHA-256 sum of JSON over the record without its category, finding
  id and hash; the sum is the parameter \<open>witnessSum\<close>, and \<open>dischargeSum\<close> that of the discharge.
\<close>

record refinementEnv = feasibilityEnv +
  witnessSum :: "cfgWitnessRecord \<Rightarrow> string"
  dischargeSum :: "string \<Rightarrow> string"
  injectWitnessEvidence :: "(cfgSSAConstraintEvidence \<Rightarrow> cfgSSAConstraintEvidence) option"
  injectRefinementEvidence :: "(cfgFeasibilityDecision \<Rightarrow> cfgFeasibilityDecision) option"

definition computeCFGWitnessHash :: "refinementEnv \<Rightarrow> cfgWitnessRecord \<Rightarrow> string" where
  "computeCFGWitnessHash env r =
     ''cfgw1_'' @ witnessSum env
       (r\<lparr>Category := '''', FindingID := '''', RecordWitnessHash := '''', OriginAnchors := normalizeFindingMeta (OriginAnchors r)\<rparr>)"

record cfgRefinementWitnessIdentity =
  IdentityCategory :: string
  IdentityFindingID :: string
  IdentityAnchors :: "(string \<times> string) list"
  SyntheticPath :: "int list"

definition buildCFGWitnessRecord ::
  "refinementEnv \<Rightarrow> cfgRefinementWitnessIdentity \<Rightarrow> ('n, 'e, 'z) interprocPathResult_scheme \<Rightarrow> string list \<Rightarrow> cfgWitnessRecord" where
  "buildCFGWitnessRecord env identity result chain =
     (let r = \<lparr>Category = IdentityCategory identity, FindingID = IdentityFindingID identity,
                OriginAnchors = IdentityAnchors identity, RecordFactFamily = ResultFactFamily result,
                RecordFactKey = ResultFactKey result, RecordEdgeTag = ResultEdgeTag result,
                FactOriginPath = SyntheticPath identity,
                CFGPath = effectiveWitnessPath (PathWitness result) (SyntheticPath identity),
                RecordWitnessEdges = WitnessEdges result, RecordWitnessTerminal = WitnessTerminal result,
                CallChain = chain, TriggerReason = refinementTriggerForResult result, RecordWitnessHash = ''''\<rparr>
      in r\<lparr>RecordWitnessHash := computeCFGWitnessHash env r\<rparr>)"

section \<open>The request\<close>

record cfgRefinementOverride =
  OverrideMaxStates :: int
  DischargedWitnesses :: "string set"
  AllowSafe :: bool
  ResolveTargets :: bool

definition hasConcreteAction :: "cfgRefinementOverride \<Rightarrow> bool" where
  "hasConcreteAction o' \<longleftrightarrow> OverrideMaxStates o' > 0 \<or> DischargedWitnesses o' \<noteq> {} \<or> ResolveTargets o'"

record ('n, 'e) cfgRefinementRequest =
  RequestPass :: "indexBuilder option"
  RequestCFG :: "exprCFG option"
  RequestResult :: "('n, 'e) refinedResult"
  RequestIdentity :: cfgRefinementWitnessIdentity
  RequestCallChain :: "string list"
  RequestControl :: deadline
  Rerun :: "cfgRefinementOverride \<Rightarrow> nat \<Rightarrow> ('n, 'e) refinedResult \<times> nat"
  WitnessIdentity :: "(('n, 'e) refinedResult \<Rightarrow> cfgRefinementWitnessIdentity) option"

text \<open>A backend answers a query; the default one is \<open>ssaConstraintsCheck\<close>.\<close>

type_synonym backend = "cfgFeasibilityQuery \<Rightarrow> nat \<Rightarrow> cfgFeasibilityDecision \<times> nat"

record cfgRefinementController =
  options :: cfgProtocolRefinementOptions
  deadlineFactory :: "(int \<Rightarrow> deadline) option"
  feasibilityBackend :: "backend option"

definition newCFGRefinementController ::
  "refinementEnv \<Rightarrow> cfgProtocolRefinementOptions \<Rightarrow> (int \<Rightarrow> deadline) option \<Rightarrow> backend option \<Rightarrow> cfgRefinementController" where
  "newCFGRefinementController env opts factory backend =
     \<lparr>options = opts,
      deadlineFactory = Some (case factory of None \<Rightarrow> wallClock env | Some f \<Rightarrow> f),
      feasibilityBackend = Some (case backend of None \<Rightarrow> ssaConstraintsCheck (feasibilityEnv.truncate env) | Some b \<Rightarrow> b)\<rparr>"

definition newDeadline :: "cfgRefinementController \<Rightarrow> deadline" where
  "newDeadline c = (case deadlineFactory c of None \<Rightarrow> None | Some f \<Rightarrow> f (FeasibilityTimeout (options c)))"

section \<open>One feasibility query\<close>

definition injectProtocolWitnessEvidence :: "refinementEnv \<Rightarrow> cfgSSAConstraintEvidence \<Rightarrow> cfgSSAConstraintEvidence" where
  "injectProtocolWitnessEvidence env evidence = (case injectWitnessEvidence env of None \<Rightarrow> evidence | Some f \<Rightarrow> f evidence)"

definition injectProtocolRefinementEvidence :: "refinementEnv \<Rightarrow> cfgFeasibilityDecision \<Rightarrow> cfgFeasibilityDecision" where
  "injectProtocolRefinementEvidence env decision = (case injectRefinementEvidence env of None \<Rightarrow> decision | Some f \<Rightarrow> f decision)"

definition zeroDecision :: cfgFeasibilityDecision where "zeroDecision = noDecision"

definition queryFor ::
  "cfgRefinementController \<Rightarrow> ('n, 'e) cfgRefinementRequest \<Rightarrow> cfgWitnessRecord \<Rightarrow> deadline \<Rightarrow> cfgFeasibilityQuery" where
  "queryFor c request r d =
     \<lparr>QueryPass = RequestPass request, QueryCFG = RequestCFG request, QueryWitness = r,
      QueryTimeout = FeasibilityTimeout (options c), QueryDeadline = d\<rparr>"

definition admitUNSAT ::
  "refinementEnv \<Rightarrow> cfgFeasibilityQuery \<Rightarrow> cfgFeasibilityDecision \<Rightarrow> nat \<Rightarrow> cfgFeasibilityDecision \<times> nat" where
  "admitUNSAT env query decision t =
     (case checkSSAConstraintEvidenceWithDigests (feasibilityEnv.truncate env) query (Evidence decision) t of
        ((accepted, expired, fd, ed), t0) \<Rightarrow>
      if expired then (timedOut, t0)
      else case feasibilityDeadlineExpired query t0 of (e1, t1) \<Rightarrow>
      if e1 then (timedOut, t1)
      else if \<not> accepted then
        (noDecision\<lparr>Result := cfgFeasibilityResultUnknown, DecisionReason := cfgFeasibilityReasonEvidenceRejected,
           Evidence := Evidence decision, DecisionSubjects := DecisionSubjects decision\<rparr>, t1)
      else (decision\<lparr>FormulaDigest := fd, EvidenceDigest := ed\<rparr>, t1))"

definition checkFeasibilityWithDeadline ::
  "refinementEnv \<Rightarrow> cfgRefinementController \<Rightarrow> ('n, 'e) cfgRefinementRequest \<Rightarrow> cfgWitnessRecord \<Rightarrow> deadline \<Rightarrow> nat \<Rightarrow>
   cfgFeasibilityDecision \<times> nat" where
  "checkFeasibilityWithDeadline env c request r d t =
     (case feasibilityBackend c of None \<Rightarrow> (zeroDecision, t)
      | Some Check \<Rightarrow>
      let query = queryFor c request r d in
      case feasibilityDeadlineExpired query t of (e0, t0) \<Rightarrow>
      if e0 then (timedOut, t0)
      else case Check query t0 of (decision0, t1) \<Rightarrow>
      case feasibilityDeadlineExpired query t1 of (e2, t2) \<Rightarrow>
      if e2 then (timedOut, t2)
      else let decision = injectProtocolRefinementEvidence env
                 (decision0\<lparr>Evidence := injectProtocolWitnessEvidence env (Evidence decision0)\<rparr>) in
        if Result decision = cfgFeasibilityResultUNSAT then admitUNSAT env query decision t2
        else (decision, t2))"

section \<open>The refinement loop\<close>

definition shouldAttemptRefinement :: "('n, 'e, 'z) interprocPathResult_scheme \<Rightarrow> string \<Rightarrow> bool" where
  "shouldAttemptRefinement result verdict \<longleftrightarrow>
     Class result \<noteq> interprocOutcomeSafe \<and> verdict = cfgFeasibilityResultUNSAT"

definition refinementMaxStatesForTrigger :: "pathOutcomeReason \<Rightarrow> int" where
  "refinementMaxStatesForTrigger reason = (if reason = pathOutcomeReasonStateBudget then defaultCFGMaxStates else 0)"

definition refinementWitnessReplayRejection :: "('n, 'e) refinedResult \<Rightarrow> string" where
  "refinementWitnessReplayRejection result =
     (if WitnessEdges result = [] then ''''
      else case witnessGraph result of None \<Rightarrow> interprocWitnessReplayMissingNode
        | Some g \<Rightarrow> validateInterprocWitnessReplay g (interprocPathResult.truncate result))"

definition refinementDischargeHash ::
  "refinementEnv \<Rightarrow> ('n, 'e, 'z) interprocPathResult_scheme \<Rightarrow> cfgWitnessRecord \<Rightarrow> cfgFeasibilityDecision \<Rightarrow> string" where
  "refinementDischargeHash env result r decision =
     (if Result decision \<noteq> cfgFeasibilityResultUNSAT then ''''
      else let baseHash = (if WitnessHash result \<noteq> '''' then WitnessHash result else RecordWitnessHash r) in
        if baseHash = '''' \<or> EvidenceDigest decision = '''' \<or> FormulaDigest decision = '''' then ''''
        else baseHash @ ''|cfgd1_'' @
          dischargeSum env (strings_Join [baseHash, FormulaDigest decision, EvidenceDigest decision] ''|''))"

definition buildCFGWitnessRecordForRefinement ::
  "refinementEnv \<Rightarrow> ('n, 'e) cfgRefinementRequest \<Rightarrow> ('n, 'e) refinedResult \<Rightarrow> cfgWitnessRecord" where
  "buildCFGWitnessRecordForRefinement env request result =
     buildCFGWitnessRecord env
       (case WitnessIdentity request of None \<Rightarrow> RequestIdentity request | Some f \<Rightarrow> f result)
       result (RequestCallChain request)"

text \<open>The local variables of the loop, the cache, and the polls made so far.\<close>

record ('n, 'e) refineState =
  current :: "('n, 'e) refinedResult"
  witness :: cfgWitnessRecord
  decision :: cfgFeasibilityDecision
  verdict :: string
  verdictReason :: string
  dischargeHash :: string
  iterations :: nat
  queries :: nat
  discharged :: "string set"
  cache :: "string set"
  ticks :: nat

definition timeOut :: "('n, 'e) refineState \<Rightarrow> ('n, 'e) refineState" where
  "timeOut s = s\<lparr>verdict := cfgFeasibilityResultUnknown, verdictReason := cfgFeasibilityReasonTimeout\<rparr>"

text \<open>Query the feasibility of the current result and take over the answer.\<close>

definition queryStep ::
  "refinementEnv \<Rightarrow> cfgRefinementController \<Rightarrow> ('n, 'e) cfgRefinementRequest \<Rightarrow> deadline \<Rightarrow>
   ('n, 'e) refineState \<Rightarrow> ('n, 'e) refineState" where
  "queryStep env c request d s =
     (case checkFeasibilityWithDeadline env c request (witness s) d (ticks s) of (dec, t0) \<Rightarrow>
      case feasibilityDeadlineReached d t0 of (e1, t1) \<Rightarrow>
      let s1 = s\<lparr>decision := dec, verdict := Result dec, verdictReason := DecisionReason dec,
                 dischargeHash := refinementDischargeHash env (current s) (witness s) dec,
                 queries := Suc (queries s), ticks := t1\<rparr>
      in if e1 then (timeOut s1)\<lparr>dischargeHash := ''''\<rparr> else s1)"

definition refinementResult :: "('n, 'e) refineState \<Rightarrow> string \<Rightarrow> cfgProtocolRefinementResult" where
  "refinementResult s status =
     \<lparr>Enabled = True, FeasibilityEngine = cfgSSAConstraintsEngine, FeasibilityResult = verdict s,
      FeasibilityReason = verdictReason s, RefinementStatus = status, RefinementIterations = iterations s,
      RefinementTrigger = TriggerReason (witness s), RefinementWitnessHash = RecordWitnessHash (witness s),
      SSASubjects = DecisionSubjects (decision s), RefinementEvidence = Evidence (decision s),
      RefinementEvidenceDigest = EvidenceDigest (decision s)\<rparr>"

text \<open>What one round of the loop does: go on, leave the loop, or return a discharged result.\<close>

datatype ('n, 'e) refineNext =
    GoOn "('n, 'e) refineState"
  | Leave "('n, 'e) refineState"
  | Discharge "('n, 'e) refinedResult" "('n, 'e) refineState"

definition overrideFor :: "('n, 'e) refineState \<Rightarrow> cfgRefinementOverride" where
  "overrideFor s =
     \<lparr>OverrideMaxStates = refinementMaxStatesForTrigger (PathReason (current s)),
      DischargedWitnesses = discharged s, AllowSafe = True,
      ResolveTargets = (PathReason (current s) = pathOutcomeReasonUnresolvedTarget)\<rparr>"

text \<open>After the rerun: the result \<open>next\<close> is taken over, discharged, or queried in turn.\<close>

definition afterRerun ::
  "refinementEnv \<Rightarrow> cfgRefinementController \<Rightarrow> ('n, 'e) cfgRefinementRequest \<Rightarrow> deadline \<Rightarrow>
   ('n, 'e) refinedResult \<Rightarrow> ('n, 'e) refineState \<Rightarrow> ('n, 'e) refineNext" where
  "afterRerun env c request d next s =
     (case feasibilityDeadlineReached d (ticks s) of (e0, t0) \<Rightarrow>
      if e0 then Leave (timeOut (s\<lparr>current := next, ticks := t0\<rparr>))
      else if Class next = interprocOutcomeSafe then
        (if verdict s = cfgFeasibilityResultUnknown then Leave (s\<lparr>ticks := t0\<rparr>)
         else case feasibilityDeadlineReached d t0 of (e1, t1) \<Rightarrow>
           if e1 then Leave (timeOut (s\<lparr>current := next, ticks := t1\<rparr>))
           else Discharge (next\<lparr>Refinement := refinementResult s cfgRefinementStatusDischargedInfeasible,
                                WitnessRecord := witness s\<rparr>) (s\<lparr>ticks := t1\<rparr>))
      else GoOn (queryStep env c request d
        (s\<lparr>current := next, witness := buildCFGWitnessRecordForRefinement env request next, ticks := t0\<rparr>)))"

definition refineRound ::
  "refinementEnv \<Rightarrow> cfgRefinementController \<Rightarrow> ('n, 'e) cfgRefinementRequest \<Rightarrow> deadline \<Rightarrow>
   ('n, 'e) refineState \<Rightarrow> ('n, 'e) refineNext" where
  "refineRound env c request d s0 =
     (if \<not> shouldAttemptRefinement (current s0) (verdict s0) then Leave s0
      else case feasibilityDeadlineReached d (ticks s0) of (e0, t0) \<Rightarrow>
      if e0 then Leave (timeOut (s0\<lparr>ticks := t0\<rparr>))
      else case feasibilityDeadlineReached d t0 of (e1, t1) \<Rightarrow>
      if e1 then Leave (timeOut (s0\<lparr>ticks := t1\<rparr>))
      else let s = s0\<lparr>discharged := insert (dischargeHash s0) (discharged s0), ticks := t1\<rparr> in
        if \<not> hasConcreteAction (overrideFor s) then Leave s
        else if dischargeHash s = '''' then Leave s
        else case cache_record (cache s) (dischargeHash s) of (fresh, cache') \<Rightarrow>
          if \<not> fresh then Leave s
          else case Rerun request (overrideFor s) t1 of (next, t2) \<Rightarrow>
            afterRerun env c request d next (s\<lparr>cache := cache', iterations := Suc (iterations s), ticks := t2\<rparr>))"

lemma queryStep_iterations [simp]: "iterations (queryStep env c request d s) = iterations s"
  by (auto simp: queryStep_def timeOut_def Let_def split: prod.splits)

lemma refineRound_iterations: "refineRound env c request d s = GoOn s' \<Longrightarrow> iterations s' = Suc (iterations s)"
  by (auto simp: refineRound_def afterRerun_def timeOut_def Let_def split: prod.splits if_splits)

function refineLoop ::
  "refinementEnv \<Rightarrow> cfgRefinementController \<Rightarrow> ('n, 'e) cfgRefinementRequest \<Rightarrow> deadline \<Rightarrow>
   ('n, 'e) refineState \<Rightarrow> ('n, 'e) refineNext" where
  "refineLoop env c request d s =
     (if int (iterations s) < IterationBudget (options c) \<and> int (queries s) < QueryBudget (options c) then
        (case refineRound env c request d s of GoOn s' \<Rightarrow> refineLoop env c request d s' | r \<Rightarrow> r)
      else Leave s)"
  by pat_completeness auto
termination
  by (relation "measure (\<lambda>(env, c, request, d, s). nat (IterationBudget (options c)) - iterations s)")
    (auto dest!: refineRound_iterations)

declare refineLoop.simps [simp del]

section \<open>Refinement\<close>

definition initialRefineState :: "refinementEnv \<Rightarrow> ('n, 'e) cfgRefinementRequest \<Rightarrow> string set \<Rightarrow> nat \<Rightarrow> ('n, 'e) refineState" where
  "initialRefineState env request attempts t =
     \<lparr>current = RequestResult request, witness = buildCFGWitnessRecordForRefinement env request (RequestResult request),
      decision = noDecision, verdict = '''', verdictReason = '''', dischargeHash = '''', iterations = 0, queries = 0,
      discharged = {}, cache = attempts, ticks = t\<rparr>"

text \<open>The classification after the loop.\<close>

definition concludeRefinement :: "cfgRefinementController \<Rightarrow> ('n, 'e) refineState \<Rightarrow> ('n, 'e) refineState" where
  "concludeRefinement c s =
     (if shouldAttemptRefinement (current s) (verdict s) then
        s\<lparr>current := (current s)\<lparr>Class := interprocOutcomeInconclusive, PathReason := pathOutcomeReasonFeasibilityUnknown\<rparr>,
          verdict := cfgFeasibilityResultUnknown,
          verdictReason := (if int (queries s) \<ge> QueryBudget (options c) then cfgFeasibilityReasonQueryLimit
             else if int (iterations s) \<ge> IterationBudget (options c) then cfgFeasibilityReasonIterationLimit
             else verdictReason s)\<rparr>
      else if verdict s = cfgFeasibilityResultUnknown then
        s\<lparr>current := (current s)\<lparr>Class := interprocOutcomeInconclusive, PathReason := pathOutcomeReasonFeasibilityUnknown\<rparr>\<rparr>
      else s)"

definition refinementStatus :: "string \<Rightarrow> string" where
  "refinementStatus cls =
     (if cls = interprocOutcomeSafe then cfgRefinementStatusDischargedInfeasible
      else if cls = interprocOutcomeUnsafe then cfgRefinementStatusViolation
      else if cls = interprocOutcomeInconclusive then cfgRefinementStatusInconclusive
      else cfgRefinementStatusViolation)"

text \<open>The result for a witness that does not replay.\<close>

definition rejectedReplay :: "refinementEnv \<Rightarrow> ('n, 'e) cfgRefinementRequest \<Rightarrow> ('n, 'e) refinedResult" where
  "rejectedReplay env request =
     (let r = buildCFGWitnessRecordForRefinement env request (RequestResult request) in
      (RequestResult request)
        \<lparr>Class := interprocOutcomeInconclusive, PathReason := pathOutcomeReasonFeasibilityUnknown,
         Refinement := \<lparr>Enabled = True, FeasibilityEngine = cfgSSAConstraintsEngine,
           FeasibilityResult = cfgFeasibilityResultUnknown, FeasibilityReason = cfgFeasibilityReasonEvidenceRejected,
           RefinementStatus = cfgRefinementStatusInconclusive, RefinementIterations = 0,
           RefinementTrigger = TriggerReason r, RefinementWitnessHash = RecordWitnessHash r, SSASubjects = [],
           RefinementEvidence = noEvidence, RefinementEvidenceDigest = ''''\<rparr>,
         WitnessRecord := r\<rparr>)"

definition refineDeadline :: "cfgRefinementController \<Rightarrow> ('n, 'e) cfgRefinementRequest \<Rightarrow> deadline" where
  "refineDeadline c request = (if RequestControl request \<noteq> None then RequestControl request else newDeadline c)"

text \<open>What follows the loop; a discharged result was returned from inside it.\<close>

fun finishRefinement ::
  "cfgRefinementController \<Rightarrow> ('n, 'e) refineNext \<Rightarrow> ('n, 'e) refinedResult \<times> string set \<times> nat" where
  "finishRefinement c (Discharge r s) = (r, cache s, ticks s)"
| "finishRefinement c (GoOn s) = (current s, cache s, ticks s)"
| "finishRefinement c (Leave s0) =
     (let s = concludeRefinement c s0 in
      ((current s)\<lparr>Refinement := refinementResult s (refinementStatus (Class (current s))),
                   WitnessRecord := witness s\<rparr>, cache s, ticks s))"

text \<open>The result, the cache afterwards, and the polls made.\<close>

definition Refine ::
  "refinementEnv \<Rightarrow> cfgRefinementController \<Rightarrow> ('n, 'e) cfgRefinementRequest \<Rightarrow> string set \<Rightarrow> nat \<Rightarrow>
   ('n, 'e) refinedResult \<times> string set \<times> nat" where
  "Refine env c request attempts t =
     (if Class (RequestResult request) = interprocOutcomeSafe then (RequestResult request, attempts, t)
      else if refinementWitnessReplayRejection (RequestResult request) \<noteq> [] then (rejectedReplay env request, attempts, t)
      else let d = refineDeadline c request in
        finishRefinement c (refineLoop env c request d (queryStep env c request d (initialRefineState env request attempts t))))"

section \<open>How a refinement run ends\<close>

text \<open>A decision to discharge is backed by evidence that the independent checker accepted.\<close>

definition backed ::
  "refinementEnv \<Rightarrow> cfgRefinementController \<Rightarrow> ('n, 'e) cfgRefinementRequest \<Rightarrow> deadline \<Rightarrow> cfgWitnessRecord \<Rightarrow>
   cfgFeasibilityDecision \<Rightarrow> bool" where
  "backed env c request d w dec \<longleftrightarrow>
     (\<exists>t t'. checkSSAConstraintEvidenceWithDigests (feasibilityEnv.truncate env) (queryFor c request w d) (Evidence dec) t =
        ((True, False, FormulaDigest dec, EvidenceDigest dec), t'))"

lemma unsat_decision_backed:
  assumes "checkFeasibilityWithDeadline env c request w d t = (dec, t')" "Result dec = cfgFeasibilityResultUNSAT"
  shows "backed env c request d w dec"
proof -
  have ne: "cfgFeasibilityResultUnknown \<noteq> cfgFeasibilityResultUNSAT" "'''' \<noteq> cfgFeasibilityResultUNSAT"
    by (simp_all add: go_const)
  have admitted: "backed env c request d w dec"
    if "admitUNSAT env (queryFor c request w d) dec0 u = (dec, t')" for dec0 u
    using that assms(2) ne
    by (auto simp: admitUNSAT_def backed_def timedOut_def split: prod.splits if_splits) blast+
  show ?thesis
    using assms ne admitted
    by (auto simp: checkFeasibilityWithDeadline_def zeroDecision_def noDecision_def timedOut_def Let_def
        split: option.splits prod.splits if_splits)
qed

text \<open>The invariant of the loop.\<close>

definition justified ::
  "refinementEnv \<Rightarrow> cfgRefinementController \<Rightarrow> ('n, 'e) cfgRefinementRequest \<Rightarrow> deadline \<Rightarrow> string \<Rightarrow> bool" where
  "justified env c request d hash \<longleftrightarrow>
     (\<exists>result w dec. hash = refinementDischargeHash env (result :: ('n, 'e) refinedResult) w dec \<and>
        backed env c request d w dec)"

definition loop_ok ::
  "refinementEnv \<Rightarrow> cfgRefinementController \<Rightarrow> ('n, 'e) cfgRefinementRequest \<Rightarrow> deadline \<Rightarrow> ('n, 'e) refineState \<Rightarrow> bool" where
  "loop_ok env c request d s \<longleftrightarrow>
     (verdict s = cfgFeasibilityResultUNSAT \<longrightarrow> backed env c request d (witness s) (decision s) \<and>
        dischargeHash s = refinementDischargeHash env (current s) (witness s) (decision s)) \<and>
     (\<forall>h\<in>discharged s. justified env c request d h)"

lemma queryStep_ok:
  assumes "\<forall>h\<in>discharged s. justified env c request d h"
  shows "loop_ok env c request d (queryStep env c request d s)"
proof -
  obtain dec t0 where q: "checkFeasibilityWithDeadline env c request (witness s) d (ticks s) = (dec, t0)" by force
  have "cfgFeasibilityResultUnknown \<noteq> cfgFeasibilityResultUNSAT" by (simp add: go_const)
  with assms unsat_decision_backed [OF q] show ?thesis
    by (auto simp: queryStep_def q loop_ok_def timeOut_def Let_def split: prod.splits)
qed

text \<open>The state in which the rerun is made.\<close>

definition ready ::
  "refinementEnv \<Rightarrow> cfgRefinementController \<Rightarrow> ('n, 'e) cfgRefinementRequest \<Rightarrow> deadline \<Rightarrow>
   ('n, 'e) refineState \<Rightarrow> ('n, 'e) refinedResult \<Rightarrow> ('n, 'e) refineState \<Rightarrow> bool" where
  "ready env c request d s0 next s \<longleftrightarrow>
     verdict s = cfgFeasibilityResultUNSAT \<and> (\<exists>t. Rerun request (overrideFor s) t = (next, ticks s)) \<and>
     dischargeHash s \<in> discharged s \<and> dischargeHash s \<noteq> '''' \<and> witness s = witness s0 \<and> decision s = decision s0 \<and>
     dischargeHash s = dischargeHash s0 \<and> discharged s = insert (dischargeHash s) (discharged s0) \<and> verdict s0 = verdict s \<and>
     iterations s = Suc (iterations s0) \<and> queries s = queries s0 \<and>
     dischargeHash s \<notin> cache s0 \<and> cache s = insert (dischargeHash s) (cache s0)"

lemma refineRound_cases:
  assumes "refineRound env c request d s0 = n"
  obtains (left) s where "n = Leave s" "verdict s = verdict s0 \<and> \<not> shouldAttemptRefinement (current s0) (verdict s0) \<or>
      verdict s = cfgFeasibilityResultUnknown \<or> shouldAttemptRefinement (current s) (verdict s)"
      "current s = current s0" "iterations s = iterations s0" "queries s = queries s0" "cache s = cache s0"
    | (rerun) s nx where "n = afterRerun env c request d nx s" "ready env c request d s0 nx s"
proof -
  obtain e0 t0 where p0: "feasibilityDeadlineReached d (ticks s0) = (e0, t0)" by force
  obtain e1 t1 where p1: "feasibilityDeadlineReached d t0 = (e1, t1)" by force
  let ?s = "s0\<lparr>discharged := insert (dischargeHash s0) (discharged s0), ticks := t1\<rparr>"
  obtain nx t2 where p2: "Rerun request (overrideFor ?s) t1 = (nx, t2)" by force
  let ?s' = "?s\<lparr>cache := insert (dischargeHash s0) (cache s0), iterations := Suc (iterations s0), ticks := t2\<rparr>"
  have same: "overrideFor ?s' = overrideFor ?s" by (simp add: overrideFor_def)
  consider "\<not> shouldAttemptRefinement (current s0) (verdict s0)" | "shouldAttemptRefinement (current s0) (verdict s0)" "e0 \<or> e1"
    | "shouldAttemptRefinement (current s0) (verdict s0)" "\<not> e0" "\<not> e1"
      "\<not> hasConcreteAction (overrideFor ?s) \<or> dischargeHash s0 = [] \<or> dischargeHash s0 \<in> cache s0"
    | "shouldAttemptRefinement (current s0) (verdict s0)" "\<not> e0" "\<not> e1"
      "hasConcreteAction (overrideFor ?s)" "dischargeHash s0 \<noteq> []" "dischargeHash s0 \<notin> cache s0"
    by blast
  then show thesis
  proof cases
    case 1
    then have "n = Leave s0" using assms by (simp add: refineRound_def)
    with 1 show thesis by (intro left [of s0]) auto
  next
    case 2
    then obtain t where "n = Leave (timeOut (s0\<lparr>ticks := t\<rparr>))"
      using assms by (cases e0) (auto simp: refineRound_def p0 p1)
    then show thesis by (intro left [of "timeOut (s0\<lparr>ticks := t\<rparr>)"]) (simp_all add: timeOut_def)
  next
    case 3
    then have "n = Leave ?s" using assms by (auto simp: refineRound_def p0 p1 cache_record_def Let_def)
    with 3 show thesis by (intro left [of ?s]) auto
  next
    case 4
    then have "n = afterRerun env c request d nx ?s'"
      using assms by (simp add: refineRound_def p0 p1 p2 cache_record_def Let_def)
    moreover have "ready env c request d s0 nx ?s'"
      using 4 p2 same by (auto simp: ready_def shouldAttemptRefinement_def)
    ultimately show thesis by (rule rerun)
  qed
qed

lemma afterRerun_cases:
  assumes "afterRerun env c request d nx s = n"
  obtains (goOn) t where "Class nx \<noteq> interprocOutcomeSafe"
      "n = GoOn (queryStep env c request d (s\<lparr>current := nx, witness := buildCFGWitnessRecordForRefinement env request nx, ticks := t\<rparr>))"
    | (late) t where "n = Leave (timeOut (s\<lparr>current := nx, ticks := t\<rparr>))"
    | (undecided) t where "n = Leave (s\<lparr>ticks := t\<rparr>)" "verdict s = cfgFeasibilityResultUnknown"
    | (discharge) t where "Class nx = interprocOutcomeSafe"
      "n = Discharge (nx\<lparr>Refinement := refinementResult s cfgRefinementStatusDischargedInfeasible, WitnessRecord := witness s\<rparr>)
        (s\<lparr>ticks := t\<rparr>)"
  using assms by (auto simp: afterRerun_def split: prod.splits if_splits)

lemma round_ok:
  assumes "loop_ok env c request d s" "refineRound env c request d s = GoOn s'"
  shows "loop_ok env c request d s'"
  using assms(2)
proof (cases rule: refineRound_cases)
  case (rerun s1 nx)
  have ok: "\<forall>h\<in>discharged s1. justified env c request d h"
    using rerun(2) assms(1) unfolding loop_ok_def ready_def justified_def by auto
  from rerun(1) [symmetric] show ?thesis
    by (cases rule: afterRerun_cases) (use ok in \<open>auto intro!: queryStep_ok\<close>)
qed simp

section \<open>Safe only by accepted evidence\<close>

text \<open>A result that a rerun returned as safe, and whose every discharged witness is backed.\<close>

definition discharged_by_evidence ::
  "refinementEnv \<Rightarrow> cfgRefinementController \<Rightarrow> ('n, 'e) cfgRefinementRequest \<Rightarrow> ('n, 'e) refinedResult \<Rightarrow> bool" where
  "discharged_by_evidence env c request r \<longleftrightarrow>
     (\<exists>o' t nx t'. Rerun request o' t = (nx, t') \<and> Class nx = interprocOutcomeSafe \<and>
        r = nx\<lparr>Refinement := Refinement r, WitnessRecord := WitnessRecord r\<rparr> \<and> DischargedWitnesses o' \<noteq> {} \<and>
        (\<forall>h\<in>DischargedWitnesses o'. justified env c request (refineDeadline c request) h)) \<and>
     (\<exists>t t' fd. checkSSAConstraintEvidenceWithDigests (feasibilityEnv.truncate env)
        (queryFor c request (WitnessRecord r) (refineDeadline c request)) (RefinementEvidence (Refinement r)) t =
        ((True, False, fd, RefinementEvidenceDigest (Refinement r)), t')) \<and>
     FeasibilityResult (Refinement r) = cfgFeasibilityResultUNSAT \<and>
     RefinementStatus (Refinement r) = cfgRefinementStatusDischargedInfeasible"

lemma discharged_by_evidence_facts:
  assumes "discharged_by_evidence env c request r"
  shows "Class r = interprocOutcomeSafe" "FeasibilityResult (Refinement r) = cfgFeasibilityResultUNSAT"
    "RefinementStatus (Refinement r) = cfgRefinementStatusDischargedInfeasible"
proof -
  from assms obtain nx where nx: "Class nx = interprocOutcomeSafe" "r = nx\<lparr>Refinement := Refinement r, WitnessRecord := WitnessRecord r\<rparr>"
    unfolding discharged_by_evidence_def by blast
  have "Class r = Class (nx\<lparr>Refinement := Refinement r, WitnessRecord := WitnessRecord r\<rparr>)" using nx(2) by (rule arg_cong)
  then show "Class r = interprocOutcomeSafe" using nx(1) by simp
qed (use assms in \<open>auto simp: discharged_by_evidence_def\<close>)

lemma discharge_backed:
  assumes "loop_ok env c request d s0" "refineRound env c request d s0 = Discharge r s'" "d = refineDeadline c request"
  shows "discharged_by_evidence env c request r \<and> iterations s' = Suc (iterations s0) \<and>
    RefinementIterations (Refinement r) = iterations s'"
  using assms(2)
proof (cases rule: refineRound_cases)
  case (rerun s nx)
  from rerun(1) [symmetric] show ?thesis
  proof (cases rule: afterRerun_cases)
    case (discharge t)
    have ok: "\<forall>h\<in>discharged s. justified env c request d h" and bk: "backed env c request d (witness s) (decision s)"
      using rerun(2) assms(1) unfolding loop_ok_def ready_def justified_def by auto
    from rerun(2) obtain u where run: "Rerun request (overrideFor s) u = (nx, ticks s)" and "discharged s \<noteq> {}"
      and "verdict s = cfgFeasibilityResultUNSAT" "iterations s = Suc (iterations s0)" unfolding ready_def by blast
    moreover have "overrideFor s = (overrideFor s)\<lparr>DischargedWitnesses := discharged s\<rparr>" by (simp add: overrideFor_def)
    moreover obtain v v' where "checkSSAConstraintEvidenceWithDigests (feasibilityEnv.truncate env) (queryFor c request (witness s) d)
        (Evidence (decision s)) v = ((True, False, FormulaDigest (decision s), EvidenceDigest (decision s)), v')"
      using bk unfolding backed_def by blast
    moreover have r: "r = nx\<lparr>Refinement := refinementResult s cfgRefinementStatusDischargedInfeasible, WitnessRecord := witness s\<rparr>"
      "s' = s\<lparr>ticks := t\<rparr>" using discharge(2) by simp_all
    moreover have "DischargedWitnesses (overrideFor s) = discharged s" by (simp add: overrideFor_def)
    ultimately have "\<exists>o' t nx t'. Rerun request o' t = (nx, t') \<and> Class nx = interprocOutcomeSafe \<and>
        r = nx\<lparr>Refinement := Refinement r, WitnessRecord := WitnessRecord r\<rparr> \<and> DischargedWitnesses o' \<noteq> {} \<and>
        (\<forall>h\<in>DischargedWitnesses o'. justified env c request (refineDeadline c request) h)"
      "\<exists>t t' fd. checkSSAConstraintEvidenceWithDigests (feasibilityEnv.truncate env)
        (queryFor c request (WitnessRecord r) (refineDeadline c request)) (RefinementEvidence (Refinement r)) t =
        ((True, False, fd, RefinementEvidenceDigest (Refinement r)), t')"
      using discharge(1) ok assms(3)
      by - (rule exI [of _ "overrideFor s"], rule exI [of _ u], rule exI [of _ nx], rule exI [of _ "ticks s"], simp add: r(1),
          rule exI [of _ v], rule exI [of _ v'], rule exI [of _ "FormulaDigest (decision s)"], simp add: r(1) refinementResult_def)
    then show ?thesis
      using \<open>verdict s = cfgFeasibilityResultUNSAT\<close> \<open>iterations s = Suc (iterations s0)\<close>
      unfolding discharged_by_evidence_def by (simp add: r refinementResult_def)
  qed simp_all
qed simp

lemma conclude_not_safe:
  assumes "Class (current s) \<noteq> interprocOutcomeSafe \<or> verdict s = cfgFeasibilityResultUnknown"
  shows "Class (current (concludeRefinement c s)) \<noteq> interprocOutcomeSafe"
proof -
  have "interprocOutcomeInconclusive \<noteq> interprocOutcomeSafe" by (simp add: go_const)
  with assms show ?thesis by (auto simp: concludeRefinement_def)
qed

definition never_safe :: "('n, 'e) refineState \<Rightarrow> bool" where
  "never_safe s \<longleftrightarrow> Class (current s) \<noteq> interprocOutcomeSafe \<or> verdict s = cfgFeasibilityResultUnknown"

lemma queryStep_current [simp]: "current (queryStep env c request d s) = current s"
  by (auto simp: queryStep_def timeOut_def Let_def split: prod.splits)

lemma round_never_safe:
  assumes "Class (current s) \<noteq> interprocOutcomeSafe"
  shows "case refineRound env c request d s of GoOn s' \<Rightarrow> Class (current s') \<noteq> interprocOutcomeSafe
    | Leave s' \<Rightarrow> never_safe s' | Discharge r s' \<Rightarrow> True"
proof -
  obtain n where n: "refineRound env c request d s = n" by blast
  then show ?thesis
  proof (cases rule: refineRound_cases)
    case (left s')
    with assms n show ?thesis by (simp add: never_safe_def)
  next
    case (rerun s' nx)
    from rerun(1) [symmetric] show ?thesis
      by (cases rule: afterRerun_cases) (simp_all add: n never_safe_def timeOut_def)
  qed
qed

text \<open>Every run that is not refused at once ends in a state of the loop.\<close>

lemma Refine_ends:
  assumes "Class (RequestResult request) \<noteq> interprocOutcomeSafe" "refinementWitnessReplayRejection (RequestResult request) = []"
    and "Refine env c request attempts t = result" and d: "d = refineDeadline c request"
    and init: "I (queryStep env c request d (initialRefineState env request attempts t))"
    and step: "\<And>s s'. I s \<Longrightarrow> int (iterations s) < IterationBudget (options c) \<Longrightarrow> refineRound env c request d s = GoOn s' \<Longrightarrow> I s'"
  obtains s where "I s" "result = finishRefinement c (Leave s)"
    | s s' where "I s" "refineRound env c request d s = Leave s'" "result = finishRefinement c (Leave s')"
      "int (iterations s) < IterationBudget (options c)"
    | s r s' where "I s" "refineRound env c request d s = Discharge r s'" "result = (r, cache s', ticks s')"
      "int (iterations s) < IterationBudget (options c)"
proof -
  define s0 where "s0 = queryStep env c request d (initialRefineState env request attempts t)"
  obtain n where n: "refineLoop env c request d s0 = n" by blast
  have "I s0" using init by (simp add: s0_def)
  then have "\<exists>s. I s \<and> (n = Leave s \<or>
      (n = refineRound env c request d s \<and> (\<forall>s'. n \<noteq> GoOn s') \<and> int (iterations s) < IterationBudget (options c)))"
    using n
  proof (induction "nat (IterationBudget (options c)) - iterations s0" arbitrary: s0 rule: less_induct)
    case less
    show ?case
    proof (cases "int (iterations s0) < IterationBudget (options c) \<and> int (queries s0) < QueryBudget (options c)")
      case True
      show ?thesis
      proof (cases "refineRound env c request d s0")
        case (GoOn s')
        with True less.prems(2) have "refineLoop env c request d s' = n" by (subst (asm) refineLoop.simps) simp
        moreover have "nat (IterationBudget (options c)) - iterations s' < nat (IterationBudget (options c)) - iterations s0"
          using refineRound_iterations [OF GoOn] True by auto
        ultimately show ?thesis using less.hyps step [OF less.prems(1) _ GoOn] True by blast
      next
        case (Leave s')
        with True less.prems show ?thesis by (subst (asm) refineLoop.simps) auto
      next
        case (Discharge r s')
        with True less.prems show ?thesis by (subst (asm) refineLoop.simps) auto
      qed
    next
      case False
      with less.prems show ?thesis by (subst (asm) refineLoop.simps) auto
    qed
  qed
  then obtain s where ends: "I s" "n = Leave s \<or>
      (n = refineRound env c request d s \<and> (\<forall>s'. n \<noteq> GoOn s') \<and> int (iterations s) < IterationBudget (options c))"
    by (elim exE conjE)
  have result: "result = finishRefinement c n"
    using assms(1-3) n by (simp add: Refine_def d [symmetric] s0_def [symmetric])
  from ends(2) show thesis
  proof (elim disjE conjE)
    assume "n = Leave s"
    with that(1) ends(1) result show thesis by simp
  next
    assume r: "n = refineRound env c request d s" "\<forall>s'. n \<noteq> GoOn s'" "int (iterations s) < IterationBudget (options c)"
    show thesis
    proof (cases n)
      case (Leave s')
      from that(2) [OF ends(1) r(1) [symmetric, unfolded Leave] _ r(3)] result Leave show thesis by simp
    next
      case (Discharge x s')
      from that(3) [OF ends(1) r(1) [symmetric, unfolded Discharge] _ r(3)] result Discharge show thesis by simp
    qed (use r in simp)
  qed
qed

lemma rejected_not_safe: "Class (rejectedReplay env request) \<noteq> interprocOutcomeSafe"
  by (simp add: rejectedReplay_def Let_def go_const)

lemma Refine_safe:
  assumes ns: "Class (RequestResult request) \<noteq> interprocOutcomeSafe" and run: "Refine env c request attempts t = (r, attempts', t')"
    and safe: "Class r = interprocOutcomeSafe"
  shows "discharged_by_evidence env c request r \<and> 0 < RefinementIterations (Refinement r) \<and>
    int (RefinementIterations (Refinement r)) \<le> IterationBudget (options c)"
proof -
  define d where "d = refineDeadline c request"
  let ?I = "\<lambda>s. loop_ok env c request d s \<and> Class (current s) \<noteq> interprocOutcomeSafe"
  have fin: "refinementWitnessReplayRejection (RequestResult request) = []"
    using ns run safe rejected_not_safe [of env request] by (auto simp: Refine_def split: if_splits)
  have I: "?I (queryStep env c request d (initialRefineState env request attempts t))"
    using ns queryStep_ok [of "initialRefineState env request attempts t" env c request d]
    by (simp add: initialRefineState_def)
  have step: "?I s'" if "?I s" "int (iterations s) < IterationBudget (options c)" "refineRound env c request d s = GoOn s'" for s s'
    using that round_ok [of env c request d s s'] round_never_safe [of s env c request d] by simp
  show ?thesis
  proof (rule Refine_ends [OF ns fin run d_def, of ?I, OF I])
    show "?I s \<Longrightarrow> int (iterations s) < IterationBudget (options c) \<Longrightarrow> refineRound env c request d s = GoOn s' \<Longrightarrow> ?I s'" for s s'
      by (rule step)
  next
    fix s assume "?I s" "(r, attempts', t') = finishRefinement c (Leave s)"
    with safe conclude_not_safe [of s c] show ?thesis by (simp add: Let_def)
  next
    fix s s' assume s: "?I s" "refineRound env c request d s = Leave s'" "(r, attempts', t') = finishRefinement c (Leave s')"
    then have "never_safe s'" using round_never_safe [of s env c request d] by simp
    with s safe conclude_not_safe [of s' c] show ?thesis by (simp add: Let_def never_safe_def)
  next
    fix s r' s' assume s: "?I s" "refineRound env c request d s = Discharge r' s'" "(r, attempts', t') = (r', cache s', ticks s')"
      "int (iterations s) < IterationBudget (options c)"
    with discharge_backed [of env c request d s r' s'] d_def show ?thesis by auto
  qed
qed

section \<open>The cache and the classification\<close>

definition outState :: "('n, 'e) refineNext \<Rightarrow> ('n, 'e) refineState" where
  "outState n = (case n of GoOn s \<Rightarrow> s | Leave s \<Rightarrow> s | Discharge r s \<Rightarrow> s)"

lemma outState_simps [simp]: "outState (GoOn s) = s" "outState (Leave s) = s" "outState (Discharge r s) = s"
  by (simp_all add: outState_def)

lemma queryStep_cache [simp]: "cache (queryStep env c request d s) = cache s"
  by (auto simp: queryStep_def timeOut_def Let_def split: prod.splits)

definition cache_step :: "('n, 'e) refineState \<Rightarrow> ('n, 'e) refineState \<Rightarrow> bool" where
  "cache_step s s' \<longleftrightarrow> cache s' = cache s \<and> iterations s' = iterations s \<or>
     (\<exists>h. h \<notin> cache s \<and> cache s' = insert h (cache s) \<and> iterations s' = Suc (iterations s))"

lemma round_cache: "refineRound env c request d s = n \<Longrightarrow> cache_step s (outState n)"
proof (erule refineRound_cases)
  fix s1 nx assume n: "n = afterRerun env c request d nx s1" and r: "ready env c request d s nx s1"
  then have st: "cache_step s s1" unfolding cache_step_def ready_def by blast
  from n [symmetric] show ?thesis
    by (cases rule: afterRerun_cases) (use st in \<open>simp_all add: cache_step_def timeOut_def\<close>)
qed (simp add: cache_step_def)

definition counted :: "string set \<Rightarrow> ('n, 'e) refineState \<Rightarrow> bool" where
  "counted attempts s \<longleftrightarrow> attempts \<subseteq> cache s \<and> finite (cache s) \<and> card (cache s) = card attempts + iterations s"

lemma counted_step: "counted attempts s \<Longrightarrow> cache_step s s' \<Longrightarrow> counted attempts s'"
  by (auto simp: counted_def cache_step_def)

lemma conclude_fields [simp]:
  "cache (concludeRefinement c s) = cache s" "iterations (concludeRefinement c s) = iterations s"
  "witness (concludeRefinement c s) = witness s" "decision (concludeRefinement c s) = decision s"
  by (simp_all add: concludeRefinement_def)

lemma finish_counted:
  "(r, attempts', t') = finishRefinement c (Leave s) \<Longrightarrow> attempts' = cache s \<and> RefinementIterations (Refinement r) = iterations s"
  by (simp add: Let_def refinementResult_def)

lemma Refine_counts:
  assumes ns: "Class (RequestResult request) \<noteq> interprocOutcomeSafe" and fin: "finite attempts"
    and run: "Refine env c request attempts t = (r, attempts', t')"
  shows "attempts \<subseteq> attempts' \<and> card attempts' = card attempts + RefinementIterations (Refinement r) \<and>
    int (RefinementIterations (Refinement r)) \<le> IterationBudget (options c)"
proof (cases "refinementWitnessReplayRejection (RequestResult request) = []")
  case False
  then have "r = rejectedReplay env request" "attempts' = attempts" using ns run by (simp_all add: Refine_def)
  then show ?thesis
    by (simp add: rejectedReplay_def Let_def IterationBudget_def defaultCFGRefinementMaxIterations_def)
next
  case True
  define d where "d = refineDeadline c request"
  let ?J = "\<lambda>s. counted attempts s \<and> int (iterations s) \<le> IterationBudget (options c)"
  have init: "?J (queryStep env c request d (initialRefineState env request attempts t))"
    using fin by (simp add: counted_def initialRefineState_def IterationBudget_def defaultCFGRefinementMaxIterations_def)
  have stepJ: "?J (outState n)" if "?J s" "int (iterations s) < IterationBudget (options c)" "refineRound env c request d s = n" for s n
    using that round_cache [OF that(3)] counted_step [of attempts s "outState n"] by (auto simp: cache_step_def)
  show ?thesis
  proof (rule Refine_ends [OF ns True run d_def, of ?J, OF init])
    fix s s' assume "?J s" "int (iterations s) < IterationBudget (options c)" "refineRound env c request d s = GoOn s'"
    from stepJ [OF this] show "?J s'" by simp
  next
    fix s assume "?J s" "(r, attempts', t') = finishRefinement c (Leave s)"
    with finish_counted [of r attempts' t' c s] show ?thesis by (auto simp: counted_def)
  next
    fix s s' assume s: "?J s" "refineRound env c request d s = Leave s'" "(r, attempts', t') = finishRefinement c (Leave s')"
      "int (iterations s) < IterationBudget (options c)"
    from stepJ [OF s(1,4,2)] finish_counted [OF s(3)] show ?thesis by (auto simp: counted_def)
  next
    fix s r' s' assume s: "?J s" "refineRound env c request d s = Discharge r' s'" "(r, attempts', t') = (r', cache s', ticks s')"
      "int (iterations s) < IterationBudget (options c)"
    have "RefinementIterations (Refinement r') = iterations s'"
      using s(2) by (rule refineRound_cases) (auto dest!: sym [of "Discharge r' s'"] elim!: afterRerun_cases simp: refinementResult_def)
    with stepJ [OF s(1,4,2)] s(3) show ?thesis by (auto simp: counted_def)
  qed
qed

lemma conclude_classified:
  assumes "(r, attempts', t') = finishRefinement c (Leave s)" and "never_safe s"
  shows "RefinementStatus (Refinement r) = refinementStatus (Class r) \<and> FeasibilityResult (Refinement r) \<noteq> cfgFeasibilityResultUNSAT \<and>
    Class r \<noteq> interprocOutcomeSafe \<and>
    (FeasibilityResult (Refinement r) = cfgFeasibilityResultUnknown \<longrightarrow> Class r = interprocOutcomeInconclusive)"
proof -
  have ne: "cfgFeasibilityResultUnknown \<noteq> cfgFeasibilityResultUNSAT" "interprocOutcomeInconclusive \<noteq> interprocOutcomeSafe"
    by (simp_all add: go_const)
  with assms show ?thesis
    by (auto simp: Let_def refinementResult_def concludeRefinement_def shouldAttemptRefinement_def never_safe_def)
qed

lemma Refine_classifies:
  assumes ns: "Class (RequestResult request) \<noteq> interprocOutcomeSafe"
    and run: "Refine env c request attempts t = (r, attempts', t')"
  shows "RefinementStatus (Refinement r) = refinementStatus (Class r) \<and>
    (FeasibilityResult (Refinement r) = cfgFeasibilityResultUNSAT \<longleftrightarrow> Class r = interprocOutcomeSafe) \<and>
    (FeasibilityResult (Refinement r) = cfgFeasibilityResultUnknown \<longrightarrow> Class r = interprocOutcomeInconclusive)"
proof (cases "refinementWitnessReplayRejection (RequestResult request) = []")
  case False
  then have "r = rejectedReplay env request" using ns run by (simp add: Refine_def)
  then show ?thesis by (simp add: rejectedReplay_def Let_def refinementStatus_def go_const cfgRefinementStatusInconclusive_def)
next
  case True
  define d where "d = refineDeadline c request"
  let ?I = "\<lambda>s. loop_ok env c request d s \<and> Class (current s) \<noteq> interprocOutcomeSafe"
  have I: "?I (queryStep env c request d (initialRefineState env request attempts t))"
    using ns queryStep_ok [of "initialRefineState env request attempts t" env c request d]
    by (simp add: initialRefineState_def)
  show ?thesis
  proof (rule Refine_ends [OF ns True run d_def, of ?I, OF I])
    show "?I s \<Longrightarrow> int (iterations s) < IterationBudget (options c) \<Longrightarrow> refineRound env c request d s = GoOn s' \<Longrightarrow> ?I s'" for s s'
      using round_ok [of env c request d s s'] round_never_safe [of s env c request d] by simp
  next
    fix s assume "?I s" "(r, attempts', t') = finishRefinement c (Leave s)"
    with conclude_classified [of r attempts' t' c s] show ?thesis by (simp add: never_safe_def)
  next
    fix s s' assume s: "?I s" "refineRound env c request d s = Leave s'" "(r, attempts', t') = finishRefinement c (Leave s')"
    then have "never_safe s'" using round_never_safe [of s env c request d] by simp
    with conclude_classified [OF s(3)] show ?thesis by blast
  next
    fix s r' s' assume s: "?I s" "refineRound env c request d s = Discharge r' s'" "(r, attempts', t') = (r', cache s', ticks s')"
    with discharge_backed [of env c request d s r' s'] d_def have "discharged_by_evidence env c request r" by simp
    from discharged_by_evidence_facts [OF this] show ?thesis by (simp add: refinementStatus_def go_const)
  qed
qed

section \<open>An expired deadline\<close>

lemma expired_query:
  assumes "\<forall>k\<ge>ticks s. expired k"
  shows "verdict (queryStep env c request (Some expired) s) = cfgFeasibilityResultUnknown \<and>
    verdictReason (queryStep env c request (Some expired) s) = cfgFeasibilityReasonTimeout"
proof -
  obtain dec t0 where q: "checkFeasibilityWithDeadline env c request (witness s) (Some expired) (ticks s) = (dec, t0)" by force
  have "t0 = ticks s \<or> t0 = Suc (ticks s)"
    using q assms by (auto simp: checkFeasibilityWithDeadline_def feasibilityDeadlineExpired_def queryFor_def
        feasibilityDeadlineReached_def Let_def split: option.splits)
  with assms have "expired t0" by auto
  then show ?thesis by (simp add: queryStep_def q feasibilityDeadlineReached_def timeOut_def Let_def)
qed

section \<open>Properties\<close>


text \<open>A refinement of the witness through both branches of \<open>if x == 1 { if x > 2 { use } }\<close>.\<close>

definition sampleRefined :: "string \<Rightarrow> int list \<Rightarrow> (nat, nat) refinedResult" where
  "sampleRefined cls path =
     \<lparr>Class = cls, PathReason = '''', PathWitness = path, WitnessEdges = [], WitnessTerminal = zeroNode,
      WitnessHash = '''', ResultFactFamily = '''', ResultFactKey = '''', ResultEdgeTag = ideEdgeFuncIdentity,
      Tabulation = noStats, witnessGraph = None,
      Refinement = \<lparr>Enabled = False, FeasibilityEngine = '''', FeasibilityResult = '''', FeasibilityReason = '''',
        RefinementStatus = '''', RefinementIterations = 0, RefinementTrigger = '''', RefinementWitnessHash = '''',
        SSASubjects = [], RefinementEvidence = noEvidence, RefinementEvidenceDigest = ''''\<rparr>,
      WitnessRecord = sampleRecord []\<rparr>"

definition sampleRefinementEnv :: refinementEnv where
  "sampleRefinementEnv = feasibilityEnv.extend sampleEnv
     \<lparr>witnessSum = (\<lambda>_. ''w''), dischargeSum = (\<lambda>_. ''d''), injectWitnessEvidence = None, injectRefinementEvidence = None\<rparr>"

definition sampleController :: cfgRefinementController where
  "sampleController = newCFGRefinementController sampleRefinementEnv (newCFGProtocolRefinementOptions 0 0 0) None None"

definition sampleRequest :: "(nat, nat) cfgRefinementRequest" where
  "sampleRequest =
     \<lparr>RequestPass = Some sampleBuild, RequestCFG = Some nestedCFG, RequestResult = sampleRefined interprocOutcomeUnsafe [1, 2],
      RequestIdentity = \<lparr>IdentityCategory = ''cast'', IdentityFindingID = '''', IdentityAnchors = [], SyntheticPath = []\<rparr>,
      RequestCallChain = [], RequestControl = None,
      Rerun = (\<lambda>o' t. (sampleRefined (if DischargedWitnesses o' = {} then interprocOutcomeUnsafe else interprocOutcomeSafe) [], t)),
      WitnessIdentity = None\<rparr>"

definition sampleRun :: "(nat, nat) refinedResult \<times> string set \<times> nat" where
  "sampleRun = Refine sampleRefinementEnv sampleController sampleRequest {} 0"

lemma sample_run:
  "Class (fst sampleRun) = interprocOutcomeSafe" "RefinementIterations (Refinement (fst sampleRun)) = 1"
  "WitnessRecord (fst sampleRun) = (sampleRecord [1, 2])\<lparr>TriggerReason := ''unsafe-candidate'', RecordWitnessHash := ''cfgw1_w''\<rparr>"
  by code_simp+

lemma sample_unsafe: "Class (RequestResult sampleRequest) \<noteq> interprocOutcomeSafe"
  by code_simp


text \<open>
  C4. A witness that refinement discharges has no execution: when a candidate becomes safe, no
  values of the SSA registers let the program run along the witness the safe result reports,
  under the conditions on branches, dominating blocks and constants of the extraction.
\<close>

theorem discharged_witness_has_no_execution:
  assumes "Class (RequestResult request) \<noteq> interprocOutcomeSafe"
    and "Refine env c request attempts t = (r, attempts', t')" and "Class r = interprocOutcomeSafe"
    and "RequestPass request = Some build" and "RequestCFG request = Some cfg"
    and "extraction_faithful ix caseTag encode (decodeProvenance env) build cfg (WitnessRecord r)"
    and "\<And>u f u'. extractQuery (feasibilityEnv.truncate env)
        (effectiveQuery (feasibilityEnv.truncate env) (queryFor c request (WitnessRecord r) (refineDeadline c request))) u =
        (f, False, u') \<Longrightarrow> texts_faithful den (constants f)"
  shows "\<not> witnessed_execution ix caseTag encode val den cfg (WitnessRecord r)"
proof -
  let ?env = "feasibilityEnv.truncate env" let ?q = "queryFor c request (WitnessRecord r) (refineDeadline c request)"
  from Refine_safe [OF assms(1-3)] obtain u u' fd where
    "checkSSAConstraintEvidenceWithDigests ?env ?q (RefinementEvidence (Refinement r)) u =
      ((True, False, fd, RefinementEvidenceDigest (Refinement r)), u')"
    unfolding discharged_by_evidence_def by blast
  moreover have "extraction_faithful ix caseTag encode (decodeProvenance ?env) build cfg (QueryWitness ?q)"
    "QueryPass ?q = Some build" "QueryCFG ?q = Some cfg"
    using assms(4-6) by (simp_all add: queryFor_def feasibilityEnv.truncate_def)
  ultimately have "\<not> witnessed_execution ix caseTag encode val den cfg (QueryWitness ?q)"
    by (intro accepted_excludes [where env = ?env]) (use assms(7) in auto)
  then show ?thesis by (simp add: queryFor_def)
qed

lemma sample_env: "feasibilityEnv.truncate sampleRefinementEnv = sampleEnv"
  by (simp add: sampleRefinementEnv_def sampleEnv_def feasibilityEnv.defs)

theorem discharged_witness_has_no_execution_witness:
  "\<forall>val. \<not> witnessed_execution sampleIndex (\<lambda>_. None) sampleEncode val sampleDen nestedCFG (WitnessRecord (fst sampleRun))"
proof
  fix val
  have run: "Refine sampleRefinementEnv sampleController sampleRequest {} 0 = (fst sampleRun, fst (snd sampleRun), snd (snd sampleRun))"
    by (simp add: sampleRun_def)
  let ?q = "queryFor sampleController sampleRequest (WitnessRecord (fst sampleRun)) (refineDeadline sampleController sampleRequest)"
  have ext: "alternatives (fst (extractQuery sampleEnv (effectiveQuery sampleEnv (queryFor sampleController sampleRequest
      ((sampleRecord [1, 2])\<lparr>TriggerReason := ''unsafe-candidate'', RecordWitnessHash := ''cfgw1_w''\<rparr>)
      (refineDeadline sampleController sampleRequest))) u)) = [[atomOn ''eq'' ''1'', atomOn ''gt'' ''2'']]" for u
    by code_simp
  have tf: "texts_faithful sampleDen (constants f)"
    if "extractQuery (feasibilityEnv.truncate sampleRefinementEnv) (effectiveQuery (feasibilityEnv.truncate sampleRefinementEnv) ?q) u =
      (f, False, u')" for u f u'
  proof -
    have "constants f = {''1'', ''2''}"
      using ext [of u] that by (simp add: sample_env sample_run(3) constants_def atomOn_def)
    then show ?thesis using sample_texts by simp
  qed
  have ef: "extraction_faithful sampleIndex (\<lambda>_. None) sampleEncode (decodeProvenance sampleRefinementEnv) sampleBuild nestedCFG
      (WitnessRecord (fst sampleRun))"
    using nested_faithful nested_entry nested_private sample_builds sample_codec
    by (simp add: extraction_faithful_def sample_run(3) sampleRefinementEnv_def sampleEnv_def feasibilityEnv.defs
        originOf_def sampleRecord_def)
  have req: "RequestPass sampleRequest = Some sampleBuild" "RequestCFG sampleRequest = Some nestedCFG"
    by (simp_all add: sampleRequest_def)
  show "\<not> witnessed_execution sampleIndex (\<lambda>_. None) sampleEncode val sampleDen nestedCFG (WitnessRecord (fst sampleRun))"
    using discharged_witness_has_no_execution [OF sample_unsafe run sample_run(1) req ef tf] .
qed

text \<open>
  C21. Every rerun uses up a discharge that was never tried before, across all refinements that
  share the cache: the cache only grows, by exactly one entry for each iteration, and the
  iterations stay within the budget.
\<close>

theorem refinement_makes_progress:
  assumes "Class (RequestResult request) \<noteq> interprocOutcomeSafe" and "finite attempts"
    and "Refine env c request attempts t = (r, attempts', t')"
  shows "attempts \<subseteq> attempts' \<and> card attempts' = card attempts + RefinementIterations (Refinement r) \<and>
    int (RefinementIterations (Refinement r)) \<le> IterationBudget (options c)"
  using Refine_counts [OF assms] .

theorem refinement_makes_progress_witness:
  "card (fst (snd sampleRun)) = 1"
proof -
  have run: "Refine sampleRefinementEnv sampleController sampleRequest {} 0 = (fst sampleRun, fst (snd sampleRun), snd (snd sampleRun))"
    by (simp add: sampleRun_def)
  from refinement_makes_progress [OF sample_unsafe _ run] sample_run(2) show ?thesis by simp
qed

text \<open>
  The answer is classified consistently: the refinement status is the one of the outcome
  class, UNSAT is reported for safe results only, and an unknown feasibility always makes the
  outcome inconclusive, never a violation and never safe.
\<close>

theorem refinement_classifies:
  assumes "Class (RequestResult request) \<noteq> interprocOutcomeSafe"
    and "Refine env c request attempts t = (r, attempts', t')"
  shows "RefinementStatus (Refinement r) = refinementStatus (Class r) \<and>
    (FeasibilityResult (Refinement r) = cfgFeasibilityResultUNSAT \<longleftrightarrow> Class r = interprocOutcomeSafe) \<and>
    (FeasibilityResult (Refinement r) = cfgFeasibilityResultUnknown \<longrightarrow> Class r = interprocOutcomeInconclusive)"
  using Refine_classifies [OF assms] .

theorem refinement_classifies_witness:
  "RefinementStatus (Refinement (fst sampleRun)) = ''discharged-infeasible'' \<and>
   FeasibilityResult (Refinement (fst sampleRun)) = ''unsat''"
proof -
  have run: "Refine sampleRefinementEnv sampleController sampleRequest {} 0 = (fst sampleRun, fst (snd sampleRun), snd (snd sampleRun))"
    by (simp add: sampleRun_def)
  from refinement_classifies [OF sample_unsafe run] sample_run(1) show ?thesis
    by (simp add: refinementStatus_def cfgRefinementStatusDischargedInfeasible_def cfgFeasibilityResultUNSAT_def)
qed

text \<open>
  Under an expired deadline the refinement is inconclusive by timeout: it neither reruns
  the solver nor touches the cache, whatever the backend answers.
\<close>

theorem expired_refinement_is_inconclusive:
  assumes "Class (RequestResult request) \<noteq> interprocOutcomeSafe"
    and "refinementWitnessReplayRejection (RequestResult request) = ''''"
    and "RequestControl request = Some expired" and "\<forall>k\<ge>t. expired k"
    and "Refine env c request attempts t = (r, attempts', t')"
  shows "Class r = interprocOutcomeInconclusive \<and> FeasibilityReason (Refinement r) = cfgFeasibilityReasonTimeout \<and>
    RefinementIterations (Refinement r) = 0 \<and> attempts' = attempts"
proof -
  let ?s = "queryStep env c request (Some expired) (initialRefineState env request attempts t)"
  have d: "refineDeadline c request = Some expired" using assms(3) by (simp add: refineDeadline_def)
  have v: "verdict ?s = cfgFeasibilityResultUnknown" "verdictReason ?s = cfgFeasibilityReasonTimeout"
    using expired_query [of "initialRefineState env request attempts t" expired env c request] assms(4)
    by (simp_all add: initialRefineState_def)
  then have ns: "\<not> shouldAttemptRefinement x (verdict ?s)" for x :: "('a, 'b) refinedResult"
    by (simp add: shouldAttemptRefinement_def go_const)
  then have "refineLoop env c request (Some expired) ?s = Leave ?s"
    by (subst refineLoop.simps) (simp add: refineRound_def)
  with assms d have "(r, attempts', t') = finishRefinement c (Leave ?s)"
    by (simp add: Refine_def del: finishRefinement.simps)
  moreover have "concludeRefinement c ?s =
      ?s\<lparr>current := (current ?s)\<lparr>Class := interprocOutcomeInconclusive, PathReason := pathOutcomeReasonFeasibilityUnknown\<rparr>\<rparr>"
    using ns v by (simp add: concludeRefinement_def)
  ultimately show ?thesis
    using v by (simp add: Let_def refinementResult_def initialRefineState_def)
qed

theorem expired_refinement_is_inconclusive_witness:
  "Class (fst (Refine sampleRefinementEnv sampleController (sampleRequest\<lparr>RequestControl := Some (\<lambda>_. True)\<rparr>) {} 0)) =
     interprocOutcomeInconclusive"
proof -
  let ?req = "sampleRequest\<lparr>RequestControl := Some (\<lambda>_. True)\<rparr>"
  obtain r a t where run: "Refine sampleRefinementEnv sampleController ?req {} 0 = (r, a, t)" by (metis prod_cases3)
  have "Class (RequestResult ?req) \<noteq> interprocOutcomeSafe" using sample_unsafe by simp
  moreover have "refinementWitnessReplayRejection (RequestResult ?req) = ''''"
    by (simp add: sampleRequest_def sampleRefined_def refinementWitnessReplayRejection_def)
  ultimately show ?thesis
    using expired_refinement_is_inconclusive [of ?req "\<lambda>_. True" 0, OF _ _ _ _ run] by (simp add: run)
qed

end
