(* ===== verification/Scheduler.thy ===== *)
theory Scheduler
  imports Execution_Plan "HOL-Library.While_Combinator"
begin

text \<open>
  The dependency-ready scheduler of the soundness gate (\<open>internal/soundnessgate/scheduler.go\<close>):
  one goroutine admits work units within the resource budget and receives the completions of
  the goroutines that execute them.

  The world decides what the scheduler cannot: when the caller's context ends, which running
  unit completes next and with what. The scheduler is a step function on the state of its loop,
  whose phase is the place in the loop; \<open>schedulePlan\<close> iterates it until it returns. The
  results hold in every reached state and for every world.
\<close>

section \<open>Admission\<close>

record schedulerState =
  availableCPU :: int
  availableMemory :: int
  running :: int
  exclusive :: "string set"

definition groupsOf :: "PlanCommandBinding \<Rightarrow> string set" where
  "groupsOf command = set (ExclusivityGroups command)"

definition canAdmit :: "schedulerState \<Rightarrow> ExecutionPlan \<Rightarrow> PlanCommandBinding \<Rightarrow> bool" where
  "canAdmit state plan command =
     (if running state \<ge> MaximumWorkers (Resources plan) \<or>
         reservedCPU (ReservedResources command) > availableCPU state \<or>
         reservedMemory (ReservedResources command) > availableMemory state
      then False
      else list_all (\<lambda>group. group \<notin> exclusive state) (ExclusivityGroups command))"

definition reserve :: "schedulerState \<Rightarrow> PlanCommandBinding \<Rightarrow> schedulerState" where
  "reserve state command = state\<lparr>
     availableCPU := availableCPU state - reservedCPU (ReservedResources command),
     availableMemory := availableMemory state - reservedMemory (ReservedResources command),
     running := running state + 1,
     exclusive := exclusive state \<union> groupsOf command\<rparr>"

definition release :: "schedulerState \<Rightarrow> PlanCommandBinding \<Rightarrow> schedulerState" where
  "release state command = state\<lparr>
     availableCPU := availableCPU state + reservedCPU (ReservedResources command),
     availableMemory := availableMemory state + reservedMemory (ReservedResources command),
     running := running state - 1,
     exclusive := exclusive state - groupsOf command\<rparr>"

definition dependenciesComplete :: "string list \<Rightarrow> string set \<Rightarrow> bool" where
  "dependenciesComplete required completed = list_all (\<lambda>dependencyID. dependencyID \<in> completed) required"

definition comparePlanWorkUnitIDs :: "string \<Rightarrow> string \<Rightarrow> int" where
  "comparePlanWorkUnitIDs left right = (if left < right then - 1 else if left > right then 1 else 0)"

text \<open>The difference of the CPU units does not overflow: validation bounds both by the budget.\<close>

definition compareSchedulerPriority :: "PlanCommandBinding \<Rightarrow> PlanCommandBinding \<Rightarrow> int" where
  "compareSchedulerPriority left right =
     (let l = ReservedResources left; r = ReservedResources right in
      if reservedCPU l \<noteq> reservedCPU r then reservedCPU r - reservedCPU l
      else if reservedMemory l \<noteq> reservedMemory r then if reservedMemory l > reservedMemory r then - 1 else 1
      else comparePlanWorkUnitIDs (WorkUnitID left) (WorkUnitID right))"

interpretation unit_order: go_total_compare comparePlanWorkUnitIDs
  by unfold_locales (auto simp: comparePlanWorkUnitIDs_def split: if_splits)

interpretation priority: go_compare compareSchedulerPriority
  by unfold_locales (auto simp: compareSchedulerPriority_def comparePlanWorkUnitIDs_def Let_def split: if_splits)

section \<open>The loop of the scheduler\<close>

text \<open>
  \<open>External t\<close> is the cause of the end of the caller's context if it has ended at the reading
  \<open>t\<close>, \<open>Choose t\<close> picks the running unit whose completion is received, and \<open>Execute t command\<close> is
  what it sends: a value, an error or none, and the time it finished. The clock counts steps.
\<close>

record ('v, 'e, 't) schedulerWorld =
  External :: "nat \<Rightarrow> 'e option"
  Choose :: "nat \<Rightarrow> nat"
  Execute :: "nat \<Rightarrow> PlanCommandBinding \<Rightarrow> 'v \<times> 'e option \<times> 't"
  isCancellation :: "'e \<Rightarrow> bool"
  Now :: "nat \<Rightarrow> 't"

record ('v, 'e, 't) scheduledWorkResult =
  resultUnit :: string
  QueuedAt :: 't
  StartedAt :: 't
  FinishedAt :: 't
  Value :: 'v
  Err :: "'e option"

datatype 'e endCause = FailFast | Caller 'e

datatype 'e schedulerError =
    InvalidPlan go_error
  | ContextEnded "'e endCause"
  | CannotAdmit
  | UnitFailed string 'e
  | CompletedOf nat nat

datatype ('v, 'e, 't) schedulerPhase =
    LoopHead
  | Admitting "PlanCommandBinding list" bool
  | Waiting bool
  | Finishing
  | Returned "('v, 'e, 't) scheduledWorkResult list \<times> 'e schedulerError option"

record ('v, 'e, 't) loopState =
  phase :: "('v, 'e, 't) schedulerPhase"
  clock :: nat
  queued :: 't
  pending :: "(string \<times> PlanCommandBinding) list"
  completed :: "string set"
  resources :: schedulerState
  inFlight :: "(PlanCommandBinding \<times> 't) list"
  results :: "('v, 'e, 't) scheduledWorkResult list"
  directFailures :: "(string \<times> 'e) list"
  internalFailure :: bool

text \<open>\<open>ctx.Err()\<close> and \<open>context.Cause(ctx)\<close> of the derived context, which the scheduler cancels only while it is alive.\<close>

definition ctxCause :: "('v, 'e, 't) schedulerWorld \<Rightarrow> ('v, 'e, 't) loopState \<Rightarrow> 'e endCause option" where
  "ctxCause world st =
     (if internalFailure st then Some FailFast else map_option Caller (External world (clock st)))"

definition dependencyMap :: "ExecutionPlan \<Rightarrow> (string \<times> string list) list" where
  "dependencyMap plan = foldl (\<lambda>m d. AList.update (dependentID d) (Requires d) m) [] (Dependencies plan)"

definition schedulerOrder :: "ExecutionPlan \<Rightarrow> PlanCommandBinding list" where
  "schedulerOrder plan = slices_SortFunc compareSchedulerPriority (Commands plan)"

definition initialState :: "('v, 'e, 't) schedulerWorld \<Rightarrow> ExecutionPlan \<Rightarrow> ('v, 'e, 't) loopState" where
  "initialState world plan =
     \<lparr>phase = LoopHead, clock = 1, queued = Now world 0,
      pending = foldl (\<lambda>m c. AList.update (WorkUnitID c) c m) [] (schedulerOrder plan), completed = {},
      resources = \<lparr>availableCPU = CPUUnits (Resources plan), availableMemory = MemoryBytes (Resources plan),
        running = 0, exclusive = {}\<rparr>,
      inFlight = [], results = [], directFailures = [], internalFailure = False\<rparr>"

definition unitReady :: "ExecutionPlan \<Rightarrow> ('v, 'e, 't) loopState \<Rightarrow> PlanCommandBinding \<Rightarrow> bool" where
  "unitReady plan st command \<longleftrightarrow>
     map_of (pending st) (WorkUnitID command) \<noteq> None \<and>
     dependenciesComplete (requires (dependencyMap plan) (WorkUnitID command)) (completed st) \<and>
     canAdmit (resources st) plan command"

definition launch :: "('v, 'e, 't) schedulerWorld \<Rightarrow> PlanCommandBinding \<Rightarrow> ('v, 'e, 't) loopState \<Rightarrow> ('v, 'e, 't) loopState" where
  "launch world command st = st\<lparr>
     pending := AList.delete (WorkUnitID command) (pending st),
     resources := reserve (resources st) command,
     inFlight := inFlight st @ [(command, Now world (clock st))]\<rparr>"

definition removeAt :: "nat \<Rightarrow> 'a list \<Rightarrow> 'a list" where
  "removeAt i xs = take i xs @ drop (Suc i) xs"

text \<open>Receiving the completion of the running unit at position \<open>i\<close>.\<close>

definition receive :: "('v, 'e, 't) schedulerWorld \<Rightarrow> nat \<Rightarrow> ('v, 'e, 't) loopState \<Rightarrow> ('v, 'e, 't) loopState" where
  "receive world i st =
     (let (command, startedAt) = inFlight st ! i;
          (v, err, finishedAt) = Execute world (clock st) command;
          workUnit = WorkUnitID command;
          st1 = st\<lparr>inFlight := removeAt i (inFlight st),
            resources := release (resources st) command,
            results := results st @ [\<lparr>resultUnit = workUnit, QueuedAt = queued st, StartedAt = startedAt,
              FinishedAt = finishedAt, Value = v, Err = err\<rparr>]\<rparr>
      in case err of
          None \<Rightarrow> st1\<lparr>completed := insert workUnit (completed st)\<rparr>
        | Some e \<Rightarrow>
            let st2 = (if internalFailure st \<and> isCancellation world e then st1
                       else st1\<lparr>directFailures := AList.update workUnit e (directFailures st)\<rparr>)
            in if \<not> internalFailure st \<and> ctxCause world st = None then st2\<lparr>internalFailure := True\<rparr> else st2)"

text \<open>The value the loop ends with: the sorted results, and the first error that applies.\<close>

definition conclude :: "('v, 'e, 't) schedulerWorld \<Rightarrow> ExecutionPlan \<Rightarrow> ('v, 'e, 't) loopState
    \<Rightarrow> ('v, 'e, 't) scheduledWorkResult list \<times> 'e schedulerError option" where
  "conclude world plan st =
     (slices_SortFunc (\<lambda>l r. comparePlanWorkUnitIDs (resultUnit l) (resultUnit r)) (results st),
      case sort (map fst (directFailures st)) of
        workUnit # _ \<Rightarrow> map_option (UnitFailed workUnit) (map_of (directFailures st) workUnit)
      | [] \<Rightarrow>
          (case ctxCause world st of
             Some cause \<Rightarrow> Some (ContextEnded cause)
           | None \<Rightarrow> if card (completed st) \<noteq> length (Commands plan)
               then Some (CompletedOf (card (completed st)) (length (Commands plan))) else None))"

definition schedulerStep ::
  "('v, 'e, 't) schedulerWorld \<Rightarrow> ExecutionPlan \<Rightarrow> ('v, 'e, 't) loopState \<Rightarrow> ('v, 'e, 't) loopState" where
  "schedulerStep world plan st =
     (let go = (\<lambda>p st. st\<lparr>phase := p, clock := clock st + 1\<rparr>) in
      case phase st of
        LoopHead \<Rightarrow>
          if pending st \<noteq> [] \<or> running (resources st) \<noteq> 0
          then if \<not> internalFailure st \<and> ctxCause world st = None
            then go (Admitting (schedulerOrder plan) False) st else go (Waiting False) st
          else go Finishing st
      | Admitting [] launched \<Rightarrow> go (Waiting launched) st
      | Admitting (command # commands) launched \<Rightarrow>
          if unitReady plan st command then go (Admitting commands True) (launch world command st)
          else go (Admitting commands launched) st
      | Waiting launched \<Rightarrow>
          if running (resources st) = 0
          then if internalFailure st then go Finishing st
            else (case ctxCause world st of
                Some cause \<Rightarrow> go (Returned ([], Some (ContextEnded cause))) st
              | None \<Rightarrow> if pending st \<noteq> [] \<and> \<not> launched
                  then go (Returned ([], Some CannotAdmit)) st else go LoopHead st)
          else if inFlight st = [] then st
          else go LoopHead (receive world (Choose world (clock st) mod length (inFlight st)) st)
      | Finishing \<Rightarrow> go (Returned (conclude world plan st)) st
      | Returned r \<Rightarrow> st)"

definition active :: "('v, 'e, 't) loopState \<Rightarrow> bool" where
  "active st = (case phase st of Returned r \<Rightarrow> False | _ \<Rightarrow> True)"

definition schedulePlan ::
  "('v, 'e, 't) schedulerWorld \<Rightarrow> planDigests \<Rightarrow> ExecutionPlan
    \<Rightarrow> (('v, 'e, 't) scheduledWorkResult list \<times> 'e schedulerError option) option" where
  "schedulePlan world digests plan =
     (case Validate digests plan of
        Some e \<Rightarrow> Some ([], Some (InvalidPlan e))
      | None \<Rightarrow>
          (case while_option active (schedulerStep world plan) (initialState world plan) of
             Some st \<Rightarrow> (case phase st of Returned r \<Rightarrow> Some r | _ \<Rightarrow> None)
           | None \<Rightarrow> None))"

text \<open>The states a run passes through.\<close>

inductive reached :: "('v, 'e, 't) schedulerWorld \<Rightarrow> ExecutionPlan \<Rightarrow> ('v, 'e, 't) loopState \<Rightarrow> bool" for world plan where
  start: "reached world plan (initialState world plan)"
| step: "reached world plan st \<Longrightarrow> active st \<Longrightarrow> reached world plan (schedulerStep world plan st)"

section \<open>Invariants of the loop\<close>

text \<open>
  An invariant that does not look at the phase is kept by the whole loop when admission and
  completion keep it; the clock only grows.
\<close>

locale scheduler_invariant =
  fixes world :: "('v, 'e, 't) schedulerWorld" and plan :: ExecutionPlan
    and I :: "('v, 'e, 't) loopState \<Rightarrow> bool"
  assumes initial: "schedulable plan \<Longrightarrow> I (initialState world plan)"
    and launched: "schedulable plan \<Longrightarrow> I st \<Longrightarrow> command \<in> set (Commands plan) \<Longrightarrow> unitReady plan st command
      \<Longrightarrow> I (launch world command st)"
    and received: "schedulable plan \<Longrightarrow> I st \<Longrightarrow> i < length (inFlight st) \<Longrightarrow> I (receive world i st)"
    and frame: "I st \<Longrightarrow> clock st \<le> n \<Longrightarrow> I (st\<lparr>phase := p, clock := n\<rparr>)"
begin

definition admitted_known :: "('v, 'e, 't) loopState \<Rightarrow> bool" where
  "admitted_known st \<longleftrightarrow> (\<forall>commands launched. phase st = Admitting commands launched \<longrightarrow> set commands \<subseteq> set (Commands plan))"

lemma step_keeps:
  assumes plan: "schedulable plan" and st: "I st" "admitted_known st"
  shows "I (schedulerStep world plan st) \<and> admitted_known (schedulerStep world plan st)"
proof (cases "phase st")
  case LoopHead
  then show ?thesis
    using frame [OF st(1), of "clock st + 1"] by (simp add: schedulerStep_def admitted_known_def schedulerOrder_def)
next
  case (Admitting commands l)
  note ph = this
  show ?thesis
  proof (cases commands)
    case Nil
    then show ?thesis
      using ph frame [OF st(1), of "clock st + 1"] by (simp add: schedulerStep_def admitted_known_def)
  next
    case (Cons c cs)
    have known: "set (c # cs) \<subseteq> set (Commands plan)" using st(2) ph Cons by (simp add: admitted_known_def)
    show ?thesis
    proof (cases "unitReady plan st c")
      case True
      have "I (launch world c st)" using launched [OF plan st(1) _ True] known by simp
      then show ?thesis
        using ph Cons True known frame [of "launch world c st" "clock st + 1"]
        by (simp add: schedulerStep_def admitted_known_def launch_def)
    next
      case False
      then show ?thesis
        using ph Cons known frame [OF st(1), of "clock st + 1"] by (simp add: schedulerStep_def admitted_known_def)
    qed
  qed
next
  case (Waiting l)
  show ?thesis
  proof (cases "running (resources st) \<noteq> 0 \<and> inFlight st \<noteq> []")
    case True
    let ?i = "Choose world (clock st) mod length (inFlight st)"
    have "?i < length (inFlight st)" using True by simp
    then have "I (receive world ?i st)" using received [OF plan st(1)] by blast
    moreover have "clock (receive world ?i st) = clock st"
      by (simp add: receive_def Let_def split: prod.split option.split)
    ultimately show ?thesis
      using True Waiting frame [of "receive world ?i st" "clock st + 1"] by (simp add: schedulerStep_def admitted_known_def)
  next
    case False
    then show ?thesis
      using Waiting st frame [OF st(1), of "clock st + 1"]
      by (auto simp: schedulerStep_def admitted_known_def split: option.split)
  qed
next
  case Finishing
  then show ?thesis
    using frame [OF st(1), of "clock st + 1"] by (simp add: schedulerStep_def admitted_known_def)
next
  case (Returned r)
  then show ?thesis using st by (simp add: schedulerStep_def admitted_known_def)
qed

lemma kept: "schedulable plan \<Longrightarrow> reached world plan st \<Longrightarrow> I st"
proof -
  assume plan: "schedulable plan" and "reached world plan st"
  from this(2) have "I st \<and> admitted_known st"
  proof (induction rule: reached.induct)
    case start
    then show ?case using initial [OF plan] by (simp add: admitted_known_def initialState_def)
  next
    case (step st)
    then show ?case using step_keeps [OF plan] by blast
  qed
  then show "I st" by simp
qed

end

section \<open>Resources\<close>

definition cpuOf :: "PlanCommandBinding \<times> 't \<Rightarrow> int" where
  "cpuOf unit = reservedCPU (ReservedResources (fst unit))"

definition memoryOf :: "PlanCommandBinding \<times> 't \<Rightarrow> int" where
  "memoryOf unit = reservedMemory (ReservedResources (fst unit))"

definition exclusiveUnits :: "(PlanCommandBinding \<times> 't) list \<Rightarrow> bool" where
  "exclusiveUnits = sorted_wrt (\<lambda>a b. groupsOf (fst a) \<inter> groupsOf (fst b) = {})"

definition accounted :: "ExecutionPlan \<Rightarrow> ('v, 'e, 't) loopState \<Rightarrow> bool" where
  "accounted plan st \<longleftrightarrow>
     (let state = resources st; units = inFlight st in
      running state = int (length units) \<and> running state \<le> MaximumWorkers (Resources plan) \<and>
      availableCPU state = CPUUnits (Resources plan) - sum_list (map cpuOf units) \<and> 0 \<le> availableCPU state \<and>
      availableMemory state = MemoryBytes (Resources plan) - sum_list (map memoryOf units) \<and> 0 \<le> availableMemory state \<and>
      exclusive state = (\<Union>u\<in>set units. groupsOf (fst u)) \<and> exclusiveUnits units \<and>
      fst ` set units \<subseteq> set (Commands plan))"

lemma removeAt_split:
  assumes "i < length xs"
  obtains as bs where "xs = as @ xs ! i # bs" "removeAt i xs = as @ bs"
  using assms id_take_nth_drop [OF assms] by (auto simp: removeAt_def)

lemma receive_resources:
  "resources (receive world i st) = release (resources st) (fst (inFlight st ! i))"
  "inFlight (receive world i st) = removeAt i (inFlight st)"
  "pending (receive world i st) = pending st"
  "phase (receive world i st) = phase st"
  "clock (receive world i st) = clock st"
  by (simp_all add: receive_def Let_def split: prod.split option.split)

lemma launch_fields [simp]:
  "resources (launch world c st) = reserve (resources st) c"
  "inFlight (launch world c st) = inFlight st @ [(c, Now world (clock st))]"
  "pending (launch world c st) = AList.delete (WorkUnitID c) (pending st)"
  "completed (launch world c st) = completed st"
  "results (launch world c st) = results st"
  "directFailures (launch world c st) = directFailures st"
  "internalFailure (launch world c st) = internalFailure st"
  "clock (launch world c st) = clock st"
  by (simp_all add: launch_def)

lemma accounted_initial: "schedulable plan \<Longrightarrow> accounted plan (initialState world plan)"
  by (simp add: accounted_def initialState_def exclusiveUnits_def schedulable_def)

lemma accounted_launch:
  assumes "accounted plan st" "c \<in> set (Commands plan)" "unitReady plan st c"
  shows "accounted plan (launch world c st)"
proof -
  have "canAdmit (resources st) plan c" using assms(3) by (simp add: unitReady_def)
  then have "running (resources st) < MaximumWorkers (Resources plan)"
    "reservedCPU (ReservedResources c) \<le> availableCPU (resources st)"
    "reservedMemory (ReservedResources c) \<le> availableMemory (resources st)"
    "groupsOf c \<inter> exclusive (resources st) = {}"
    by (auto simp: canAdmit_def list_all_iff groupsOf_def split: if_splits)
  then show ?thesis
    using assms(1,2)
    by (auto simp: accounted_def Let_def reserve_def exclusiveUnits_def sorted_wrt_append cpuOf_def memoryOf_def)
qed

lemma accounted_receive:
  assumes plan: "schedulable plan" and st: "accounted plan st" and i: "i < length (inFlight st)"
  shows "accounted plan (receive world i st)"
proof -
  obtain as bs where e: "inFlight st = as @ inFlight st ! i # bs" and r: "removeAt i (inFlight st) = as @ bs"
    using removeAt_split [OF i] .
  let ?u = "inFlight st ! i"
  have "exclusiveUnits (as @ ?u # bs)" using st e by (simp add: accounted_def Let_def)
  then have x: "exclusiveUnits (as @ bs)" "groupsOf (fst ?u) \<inter> (\<Union>u\<in>set (as @ bs). groupsOf (fst u)) = {}"
    by (auto simp: exclusiveUnits_def sorted_wrt_append)
  have known: "fst ` set (as @ ?u # bs) \<subseteq> set (Commands plan)" using st e by (simp add: accounted_def Let_def)
  then have fits: "0 < cpuOf ?u" "0 < memoryOf ?u"
    using plan by (auto simp: schedulable_def fitsBudget_def cpuOf_def memoryOf_def)
  have ex: "exclusive (resources st) = (\<Union>u\<in>set (as @ ?u # bs). groupsOf (fst u))"
    using st e by (simp add: accounted_def Let_def)
  have groups: "exclusive (resources st) - groupsOf (fst ?u) = (\<Union>u\<in>set (as @ bs). groupsOf (fst u))"
    unfolding ex using x(2) by auto
  have sums: "running (resources st) = int (length (as @ ?u # bs))" "running (resources st) \<le> MaximumWorkers (Resources plan)"
    "availableCPU (resources st) = CPUUnits (Resources plan) - sum_list (map cpuOf (as @ ?u # bs))"
    "availableMemory (resources st) = MemoryBytes (Resources plan) - sum_list (map memoryOf (as @ ?u # bs))"
    "0 \<le> availableCPU (resources st)" "0 \<le> availableMemory (resources st)"
    using st e by (simp_all add: accounted_def Let_def)
  show ?thesis
    using sums known fits groups x(1)
    by (simp add: accounted_def Let_def receive_resources r release_def cpuOf_def memoryOf_def)
qed

lemma accounted_frame [simp]: "accounted plan (st\<lparr>phase := p, clock := n\<rparr>) = accounted plan st"
  by (simp add: accounted_def)

interpretation reserved: scheduler_invariant world plan "accounted plan"
  by unfold_locales (simp_all add: accounted_initial accounted_launch accounted_receive)

section \<open>Every unit is somewhere, once\<close>

definition unitOf :: "PlanCommandBinding \<times> 't \<Rightarrow> string" where
  "unitOf unit = WorkUnitID (fst unit)"

definition placed :: "ExecutionPlan \<Rightarrow> ('v, 'e, 't) loopState \<Rightarrow> bool" where
  "placed plan st \<longleftrightarrow>
     mset (map fst (pending st)) + mset (map unitOf (inFlight st)) + mset (map resultUnit (results st)) = mset (unitIDs plan)"

lemma distinct_units: "schedulable plan \<Longrightarrow> distinct (unitIDs plan)"
  by (simp add: schedulable_def)

lemma mset_order: "mset (map WorkUnitID (schedulerOrder plan)) = mset (unitIDs plan)"
  by (simp add: schedulerOrder_def unitIDs_def)

lemma distinct_order: "schedulable plan \<Longrightarrow> distinct (map WorkUnitID (schedulerOrder plan))"
  using distinct_units mset_order mset_eq_imp_distinct_iff by metis

lemma initial_pending:
  "schedulable plan \<Longrightarrow> pending (initialState world plan) = map (\<lambda>c. (WorkUnitID c, c)) (schedulerOrder plan)"
  using foldl_update_new [of "[]" WorkUnitID "schedulerOrder plan" "\<lambda>c. c"] distinct_order
  by (simp add: initialState_def)

lemma dependencyMap_bindings: "schedulable plan \<Longrightarrow> dependencyMap plan = dependencyBindings plan"
  using foldl_update_new [of "[]" dependentID "Dependencies plan" Requires]
  by (simp add: dependencyMap_def dependencyBindings_def schedulable_def o_def)

lemma placed_distinct: "schedulable plan \<Longrightarrow> placed plan st \<Longrightarrow> distinct (map fst (pending st))"
  unfolding placed_def
  by (metis distinct_append distinct_units mset_append mset_eq_imp_distinct_iff append_assoc)

lemma delete_mset:
  "distinct (map fst al) \<Longrightarrow> k \<in> fst ` set al \<Longrightarrow> mset (map fst al) = add_mset k (mset (map fst (AList.delete k al)))"
proof (induction al)
  case Nil
  then show ?case by simp
next
  case (Cons a al)
  show ?case
  proof (cases "fst a = k")
    case True
    then have "\<forall>b\<in>set al. k \<noteq> fst b" using Cons.prems(1) True by (auto simp: image_iff)
    then have "AList.delete k (a # al) = al" using True by (cases a) (simp add: AList.delete_eq filter_id_conv case_prod_unfold)
    then show ?thesis using True by simp
  next
    case False
    then have "AList.delete k (a # al) = a # AList.delete k al" by (cases a) (simp add: AList.delete_eq)
    then show ?thesis using Cons False by simp
  qed
qed

lemma placed_initial: "schedulable plan \<Longrightarrow> placed plan (initialState world plan)"
  unfolding placed_def initial_pending using mset_order [of plan] by (simp add: initialState_def o_def)

lemma placed_launch:
  assumes "schedulable plan" "placed plan st" "unitReady plan st c"
  shows "placed plan (launch world c st)"
proof -
  have "WorkUnitID c \<in> fst ` set (pending st)"
    using assms(3) by (auto simp: unitReady_def dest: map_of_SomeD intro: rev_image_eqI)
  from delete_mset [OF placed_distinct [OF assms(1,2)] this] show ?thesis
    using assms(2) by (simp add: placed_def unitOf_def)
qed

definition completionOf :: "('v, 'e, 't) schedulerWorld \<Rightarrow> nat \<Rightarrow> ('v, 'e, 't) loopState \<Rightarrow> ('v, 'e, 't) scheduledWorkResult" where
  "completionOf world i st =
     (let (v, err, finishedAt) = Execute world (clock st) (fst (inFlight st ! i))
      in \<lparr>resultUnit = unitOf (inFlight st ! i), QueuedAt = queued st, StartedAt = snd (inFlight st ! i),
          FinishedAt = finishedAt, Value = v, Err = err\<rparr>)"

lemma receive_results:
  "results (receive world i st) = results st @ [completionOf world i st]"
  "completed (receive world i st) =
    (if Err (completionOf world i st) = None then insert (unitOf (inFlight st ! i)) (completed st) else completed st)"
  "resultUnit (completionOf world i st) = unitOf (inFlight st ! i)"
  by (simp_all add: receive_def completionOf_def Let_def unitOf_def split: prod.split option.split)

lemma placed_receive: "placed plan st \<Longrightarrow> i < length (inFlight st) \<Longrightarrow> placed plan (receive world i st)"
proof -
  assume p: "placed plan st" and i: "i < length (inFlight st)"
  obtain as bs where e: "inFlight st = as @ inFlight st ! i # bs" and r: "removeAt i (inFlight st) = as @ bs"
    using removeAt_split [OF i] .
  have "mset (map unitOf (inFlight st)) = add_mset (unitOf (inFlight st ! i)) (mset (map unitOf (as @ bs)))"
    by (subst e) simp
  then show ?thesis using p by (simp add: placed_def receive_resources r receive_results)
qed

lemma placed_frame [simp]: "placed plan (st\<lparr>phase := p, clock := n\<rparr>) = placed plan st"
  by (simp add: placed_def)

interpretation placement: scheduler_invariant world plan "placed plan"
  by unfold_locales (simp_all add: placed_initial placed_launch placed_receive)

section \<open>Order of the units and their failures\<close>

definition succeeded :: "('v, 'e, 't) loopState \<Rightarrow> string set" where
  "succeeded st = resultUnit ` {r \<in> set (results st). Err r = None}"

definition begun :: "('v, 'e, 't) loopState \<Rightarrow> string set" where
  "begun st = unitOf ` set (inFlight st) \<union> resultUnit ` set (results st)"

definition ordered :: "ExecutionPlan \<Rightarrow> ('v, 'e, 't) loopState \<Rightarrow> bool" where
  "ordered plan st \<longleftrightarrow>
     completed st = succeeded st \<and> (\<forall>u\<in>begun st. set (requires (dependencyMap plan) u) \<subseteq> completed st)"

lemma begun_receive: "i < length (inFlight st) \<Longrightarrow> begun (receive world i st) = begun st"
proof -
  assume i: "i < length (inFlight st)"
  obtain as bs where e: "inFlight st = as @ inFlight st ! i # bs" and r: "removeAt i (inFlight st) = as @ bs"
    using removeAt_split [OF i] .
  have "unitOf ` set (inFlight st) = insert (unitOf (inFlight st ! i)) (unitOf ` set (as @ bs))" by (subst e) auto
  then show ?thesis by (auto simp: begun_def receive_resources r receive_results)
qed

lemma ordered_initial: "ordered plan (initialState world plan)"
  by (simp add: ordered_def initialState_def succeeded_def begun_def)

lemma ordered_launch: "ordered plan st \<Longrightarrow> unitReady plan st c \<Longrightarrow> ordered plan (launch world c st)"
proof -
  assume o: "ordered plan st" and r: "unitReady plan st c"
  have "begun (launch world c st) = insert (WorkUnitID c) (begun st)" by (auto simp: begun_def unitOf_def)
  moreover have "set (requires (dependencyMap plan) (WorkUnitID c)) \<subseteq> completed st"
    using r by (auto simp: unitReady_def dependenciesComplete_def list_all_iff)
  moreover have "succeeded (launch world c st) = succeeded st" by (simp add: succeeded_def)
  ultimately show ?thesis using o unfolding ordered_def by (metis insert_iff launch_fields(4))
qed

lemma ordered_receive: "ordered plan st \<Longrightarrow> i < length (inFlight st) \<Longrightarrow> ordered plan (receive world i st)"
proof -
  assume o: "ordered plan st" and i: "i < length (inFlight st)"
  have "succeeded (receive world i st) =
      (if Err (completionOf world i st) = None then insert (unitOf (inFlight st ! i)) (succeeded st) else succeeded st)"
    by (auto simp: succeeded_def receive_results Collect_disj_eq conj_disj_distribR image_Un Collect_conv_if)
  then have "completed (receive world i st) = succeeded (receive world i st)" "completed st \<subseteq> completed (receive world i st)"
    using o by (auto simp: ordered_def receive_results)
  then show ?thesis using o begun_receive [OF i] unfolding ordered_def by blast
qed

lemma ordered_frame [simp]: "ordered plan (st\<lparr>phase := p, clock := n\<rparr>) = ordered plan st"
  by (simp add: ordered_def succeeded_def begun_def)

interpretation order: scheduler_invariant world plan "ordered plan"
  by unfold_locales (simp_all add: ordered_initial ordered_launch ordered_receive)

definition failures_kept :: "('v, 'e, 't) schedulerWorld \<Rightarrow> ('v, 'e, 't) loopState \<Rightarrow> bool" where
  "failures_kept world st \<longleftrightarrow>
     (\<forall>(u, e)\<in>set (directFailures st). \<exists>r\<in>set (results st). resultUnit r = u \<and> Err r = Some e) \<and>
     (internalFailure st \<longrightarrow> directFailures st \<noteq> []) \<and>
     (\<forall>r\<in>set (results st). \<forall>e. Err r = Some e \<longrightarrow> \<not> isCancellation world e \<longrightarrow> resultUnit r \<in> fst ` set (directFailures st)) \<and>
     ((\<exists>r\<in>set (results st). Err r \<noteq> None) \<longrightarrow>
        directFailures st \<noteq> [] \<and> (internalFailure st \<or> (\<exists>t\<le>clock st. External world t \<noteq> None)))"

lemma update_member: "(u, e) \<in> set (AList.update k v al) \<Longrightarrow> (u, e) = (k, v) \<or> (u, e) \<in> set al"
  by (induction al) (auto split: if_splits)

lemma update_nonempty [simp]: "AList.update k v al \<noteq> []"
  by (cases al) auto

lemma update_keys: "fst ` set (AList.update k v al) = insert k (fst ` set al)"
  by (simp add: dom_update)

lemma failures_receive: "failures_kept world st \<Longrightarrow> failures_kept world (receive world i st)"
  by (auto simp: failures_kept_def receive_def Let_def ctxCause_def update_keys dest!: update_member
      split: prod.splits option.splits if_splits)

lemma failures_frame: "failures_kept world st \<Longrightarrow> clock st \<le> n \<Longrightarrow> failures_kept world (st\<lparr>phase := p, clock := n\<rparr>)"
  unfolding failures_kept_def by (simp, meson order_trans)

interpretation failures: scheduler_invariant world plan "failures_kept world"
  by unfold_locales (simp_all add: failures_frame failures_receive, simp_all add: failures_kept_def initialState_def)

section \<open>The scheduler is never stuck\<close>

text \<open>A context that has ended stays ended, as the documentation of \<open>context.Context\<close> states.\<close>

definition ends_once :: "('v, 'e, 't) schedulerWorld \<Rightarrow> bool" where
  "ends_once world \<longleftrightarrow> (\<forall>s t. s \<le> t \<longrightarrow> External world s \<noteq> None \<longrightarrow> External world t \<noteq> None)"

definition ended :: "('v, 'e, 't) schedulerWorld \<Rightarrow> ('v, 'e, 't) loopState \<Rightarrow> bool" where
  "ended world st \<longleftrightarrow> internalFailure st \<or> (\<exists>t\<le>clock st. External world t \<noteq> None)"

definition has_work :: "('v, 'e, 't) loopState \<Rightarrow> bool" where
  "has_work st \<longleftrightarrow> pending st \<noteq> [] \<or> inFlight st \<noteq> []"

text \<open>What the phase says: units not launched in a pass were not ready, and a pass has something to do.\<close>

definition phase_facts :: "('v, 'e, 't) schedulerWorld \<Rightarrow> ExecutionPlan \<Rightarrow> ('v, 'e, 't) loopState \<Rightarrow> bool" where
  "phase_facts world plan st \<longleftrightarrow> (case phase st of
       LoopHead \<Rightarrow> True
     | Admitting commands launched \<Rightarrow> has_work st \<and> \<not> internalFailure st \<and>
         (if launched then inFlight st \<noteq> []
          else \<forall>c\<in>set (Commands plan). c \<in> set commands \<or> \<not> unitReady plan st c)
     | Waiting launched \<Rightarrow> has_work st \<and>
         (if launched then inFlight st \<noteq> []
          else ended world st \<or> (\<forall>c\<in>set (Commands plan). \<not> unitReady plan st c))
     | Finishing \<Rightarrow> inFlight st = [] \<and> (pending st = [] \<or> internalFailure st)
     | Returned r \<Rightarrow>
         (\<exists>cause. r = ([], Some (ContextEnded cause)) \<and> (\<exists>t. External world t \<noteq> None)) \<or>
         (\<exists>st'. reached world plan st' \<and> phase st' = Finishing \<and> r = conclude world plan st'))"

lemma frame_simps [simp]:
  "unitReady plan (st\<lparr>phase := p, clock := n\<rparr>) = unitReady plan st"
  "has_work (st\<lparr>phase := p, clock := n\<rparr>) = has_work st"
  by (auto simp: unitReady_def has_work_def)

lemma ended_later: "ended world st \<Longrightarrow> clock st \<le> n \<Longrightarrow> ended world (st\<lparr>phase := p, clock := n\<rparr>)"
  unfolding ended_def by (simp, meson order_trans)

lemma alive: "ends_once world \<Longrightarrow> ctxCause world st = None \<Longrightarrow> \<not> ended world st"
  unfolding ends_once_def ended_def ctxCause_def by (metis map_option_is_None option.distinct(1))

lemma not_alive: "ctxCause world st \<noteq> None \<Longrightarrow> ended world st"
  by (auto simp: ended_def ctxCause_def split: if_splits)

lemma requires_binding: "w \<in> set (requires dependencies v) \<Longrightarrow> \<exists>ids. (v, ids) \<in> set dependencies \<and> w \<in> set ids"
  by (cases "map_of dependencies v") (auto simp: requires_def dest: map_of_SomeD)

lemma finite_requirement: "finite (requirement dependencies)"
proof (rule finite_subset)
  show "requirement dependencies \<subseteq> fst ` set dependencies \<times> (\<Union>ids\<in>snd ` set dependencies. set ids)"
    by (force simp: requirement_def dest: requires_binding)
qed simp

lemma some_unit_ready:
  assumes plan: "schedulable plan" and st: "reached world plan st"
    and idle: "pending st \<noteq> []" "inFlight st = []" "\<not> ended world st"
  shows "\<exists>c\<in>set (Commands plan). unitReady plan st c"
proof -
  note deps = dependencyMap_bindings [OF plan]
  have "wf ((requirement (dependencyMap plan))\<inverse>)"
    using plan finite_requirement by (intro finite_acyclic_wf_converse) (simp_all add: schedulable_def deps)
  moreover obtain p where "p \<in> fst ` set (pending st)" using idle(1) by (cases "pending st") auto
  ultimately obtain u where u: "u \<in> fst ` set (pending st)"
    and least: "\<And>v. v \<in> set (requires (dependencyMap plan) u) \<Longrightarrow> v \<notin> fst ` set (pending st)"
    by (elim wfE_min) (auto simp: requirement_def)
  have placed: "set (unitIDs plan) = fst ` set (pending st) \<union> resultUnit ` set (results st)"
    using arg_cong [OF placement.kept [OF plan st, unfolded placed_def], of set_mset] idle(2) by simp
  have none: "\<forall>r\<in>set (results st). Err r = None"
    using failures.kept [OF plan st] idle(3) by (auto simp: failures_kept_def ended_def)
  then have completed: "completed st = resultUnit ` set (results st)"
    using order.kept [OF plan st] by (auto simp: ordered_def succeeded_def)
  have "set (requires (dependencyMap plan) u) \<subseteq> set (unitIDs plan)"
  proof
    fix w assume "w \<in> set (requires (dependencyMap plan) u)"
    then obtain ids where "(u, ids) \<in> set (dependencyBindings plan)" "w \<in> set ids"
      unfolding deps using requires_binding by metis
    moreover have "\<forall>(v, ids)\<in>set (dependencyBindings plan). set ids \<subseteq> set (unitIDs plan)"
      using plan unfolding schedulable_def by blast
    ultimately show "w \<in> set (unitIDs plan)" by blast
  qed
  then have complete: "set (requires (dependencyMap plan) u) \<subseteq> completed st"
    unfolding completed placed using least by blast
  have "u \<in> set (unitIDs plan)" unfolding placed by (rule UnI1 [OF u])
  then obtain c where c: "c \<in> set (Commands plan)" "WorkUnitID c = u" unfolding unitIDs_def set_map by blast
  have free: "running (resources st) = 0" "availableCPU (resources st) = CPUUnits (Resources plan)"
    "availableMemory (resources st) = MemoryBytes (Resources plan)" "exclusive (resources st) = {}"
    using reserved.kept [OF plan st] idle(2) by (simp_all add: accounted_def Let_def)
  have "0 < MaximumWorkers (Resources plan)" "fitsBudget (Resources plan) c"
    using plan c(1) unfolding schedulable_def by blast+
  then have "canAdmit (resources st) plan c" by (simp add: canAdmit_def free fitsBudget_def list_all_iff)
  then have "unitReady plan st c"
    using c(2) u complete by (auto simp: unitReady_def dependenciesComplete_def list_all_iff map_of_eq_None_iff)
  with c(1) show ?thesis by blast
qed

lemma set_order [simp]: "set (schedulerOrder plan) = set (Commands plan)"
  by (simp add: schedulerOrder_def)

lemma phase_facts_step:
  assumes plan: "schedulable plan" and world: "ends_once world" and st: "reached world plan st"
    and facts: "phase_facts world plan st"
  shows "phase_facts world plan (schedulerStep world plan st)"
proof (cases "phase st")
  case LoopHead
  have "running (resources st) = int (length (inFlight st))" using reserved.kept [OF plan st] by (simp add: accounted_def Let_def)
  then show ?thesis
    using LoopHead ended_later [of world st "clock st + 1"] not_alive [of world st]
    by (auto simp: schedulerStep_def phase_facts_def has_work_def ended_def)
next
  case (Admitting commands launched)
  then show ?thesis
    using facts by (cases commands) (auto simp: schedulerStep_def phase_facts_def has_work_def split: if_splits)
next
  case (Waiting launched)
  have r: "running (resources st) = int (length (inFlight st))"
    using reserved.kept [OF plan st] by (simp add: accounted_def Let_def)
  have w: "has_work st" "launched \<Longrightarrow> inFlight st \<noteq> []"
    "\<not> launched \<Longrightarrow> ended world st \<or> (\<forall>c\<in>set (Commands plan). \<not> unitReady plan st c)"
    using facts Waiting by (auto simp: phase_facts_def)
  show ?thesis
  proof (cases "inFlight st = [] \<and> \<not> internalFailure st")
    case True
    then have p: "pending st \<noteq> []" "\<not> launched" using w(1,2) by (auto simp: has_work_def)
    show ?thesis
    proof (cases "ctxCause world st")
      case None
      then have "\<not> ended world st" by (rule alive [OF world])
      then show ?thesis using some_unit_ready [OF plan st p(1)] True w(3) [OF p(2)] by blast
    next
      case (Some cause)
      then have "\<exists>t. External world t \<noteq> None" using True by (auto simp: ctxCause_def)
      then show ?thesis using Waiting True Some r by (simp add: schedulerStep_def phase_facts_def)
    qed
  next
    case False
    then show ?thesis using Waiting r by (auto simp: schedulerStep_def phase_facts_def)
  qed
next
  case Finishing
  then show ?thesis using st by (auto simp: schedulerStep_def phase_facts_def)
next
  case (Returned r)
  then show ?thesis using facts by (simp add: schedulerStep_def)
qed

lemma phase_facts_reached:
  assumes "schedulable plan" "ends_once world" "reached world plan st"
  shows "phase_facts world plan st"
  using assms(3)
proof (induction rule: reached.induct)
  case start
  then show ?case by (simp add: phase_facts_def initialState_def)
next
  case (step st)
  then show ?case using phase_facts_step [OF assms(1,2)] by blast
qed

section \<open>The loop ends\<close>

definition rank :: "ExecutionPlan \<Rightarrow> ('v, 'e, 't) schedulerPhase \<Rightarrow> nat" where
  "rank plan p = (case p of
       LoopHead \<Rightarrow> length (Commands plan) + 5
     | Admitting commands launched \<Rightarrow> length commands + 4
     | Waiting launched \<Rightarrow> 3
     | Finishing \<Rightarrow> 1
     | Returned r \<Rightarrow> 0)"

definition weight :: "ExecutionPlan \<Rightarrow> ('v, 'e, 't) loopState \<Rightarrow> nat" where
  "weight plan st =
     (2 * length (pending st) + length (inFlight st)) * (length (Commands plan) + 6) + rank plan (phase st)"

lemma delete_shorter: "k \<in> fst ` set al \<Longrightarrow> Suc (length (AList.delete k al)) \<le> length al"
proof (induction al)
  case Nil
  then show ?case by simp
next
  case (Cons a al)
  have "length (AList.delete k al) \<le> length al" by (simp add: AList.delete_eq)
  with Cons show ?case by (cases a) (auto simp: AList.delete_eq)
qed

lemma step_lighter:
  assumes plan: "schedulable plan" and world: "ends_once world" and st: "reached world plan st" and a: "active st"
  shows "weight plan (schedulerStep world plan st) < weight plan st"
proof (cases "phase st")
  case LoopHead
  then show ?thesis by (simp add: schedulerStep_def weight_def rank_def schedulerOrder_def)
next
  case (Admitting commands launched)
  note ph = this
  show ?thesis
  proof (cases commands)
    case Nil
    then show ?thesis using ph by (simp add: schedulerStep_def weight_def rank_def)
  next
    case (Cons c cs)
    show ?thesis
    proof (cases "unitReady plan st c")
      case True
      then have "WorkUnitID c \<in> fst ` set (pending st)" by (auto simp: unitReady_def map_of_eq_None_iff)
      then have "2 * length (AList.delete (WorkUnitID c) (pending st)) + Suc (length (inFlight st)) \<le>
          2 * length (pending st) + length (inFlight st)"
        using delete_shorter [of "WorkUnitID c" "pending st"] by simp
      from mult_le_mono1 [OF this, of "length (Commands plan) + 6"] show ?thesis
        using ph Cons True by (simp add: schedulerStep_def weight_def rank_def)
    next
      case False
      then show ?thesis using ph Cons by (simp add: schedulerStep_def weight_def rank_def)
    qed
  qed
next
  case (Waiting launched)
  have r: "running (resources st) = int (length (inFlight st))"
    using reserved.kept [OF plan st] by (simp add: accounted_def Let_def)
  have facts: "phase_facts world plan st" by (rule phase_facts_reached [OF plan world st])
  show ?thesis
  proof (cases "inFlight st = []")
    case False
    let ?i = "Choose world (clock st) mod length (inFlight st)"
    have "?i < length (inFlight st)" using False by simp
    then have shorter: "length (inFlight st) = Suc (length (removeAt ?i (inFlight st)))" unfolding removeAt_def by simp
    define st' where "st' = receive world ?i st"
    have "schedulerStep world plan st = st'\<lparr>phase := LoopHead, clock := clock st' + 1\<rparr>"
      using Waiting False r by (simp add: schedulerStep_def st'_def)
    moreover have "length (inFlight st) = Suc (length (inFlight st'))" "pending st' = pending st"
      using shorter by (simp_all add: st'_def receive_resources)
    ultimately show ?thesis using Waiting by (simp add: weight_def rank_def)
  next
    case True
    then have "pending st \<noteq> [] \<and> \<not> launched" using facts Waiting by (auto simp: phase_facts_def has_work_def split: if_splits)
    then show ?thesis
      using Waiting True r by (simp add: schedulerStep_def weight_def rank_def split: option.split)
  qed
next
  case Finishing
  then show ?thesis by (simp add: schedulerStep_def weight_def rank_def)
next
  case (Returned r)
  then show ?thesis using a by (simp add: active_def)
qed

lemma schedulePlan_runs:
  assumes valid: "Validate digests plan = None" and world: "ends_once world"
  obtains st r where "reached world plan st" "phase st = Returned r" "schedulePlan world digests plan = Some r"
proof -
  note plan = accepted_schedulable [OF valid]
  have "\<exists>t. while_option active (schedulerStep world plan) (initialState world plan) = Some t"
    by (rule measure_while_option_Some [where P = "reached world plan" and f = "weight plan"])
      (use step_lighter [OF plan world] in \<open>auto intro: reached.intros\<close>)
  then obtain st where st: "while_option active (schedulerStep world plan) (initialState world plan) = Some st" by blast
  have "reached world plan st"
    by (rule while_option_rule [OF _ st]) (auto intro: reached.intros)
  moreover have "\<not> active st" by (rule while_option_stop [OF st])
  then obtain r where "phase st = Returned r" by (auto simp: active_def split: schedulerPhase.splits)
  ultimately show ?thesis using that valid st by (simp add: schedulePlan_def)
qed

section \<open>What a run returns\<close>

text \<open>Every result comes from an execution of its unit.\<close>

definition executed :: "('v, 'e, 't) schedulerWorld \<Rightarrow> ExecutionPlan \<Rightarrow> ('v, 'e, 't) scheduledWorkResult \<Rightarrow> bool" where
  "executed world plan r \<longleftrightarrow>
     (\<exists>c\<in>set (Commands plan). \<exists>t. resultUnit r = WorkUnitID c \<and> Execute world t c = (Value r, Err r, FinishedAt r))"

definition all_executed :: "('v, 'e, 't) schedulerWorld \<Rightarrow> ExecutionPlan \<Rightarrow> ('v, 'e, 't) loopState \<Rightarrow> bool" where
  "all_executed world plan st \<longleftrightarrow> accounted plan st \<and> (\<forall>r\<in>set (results st). executed world plan r)"

lemma completion_executed:
  assumes "accounted plan st" "i < length (inFlight st)"
  shows "executed world plan (completionOf world i st)"
proof -
  have "fst (inFlight st ! i) \<in> set (Commands plan)" using assms by (auto simp: accounted_def Let_def)
  then show ?thesis by (auto simp: executed_def completionOf_def unitOf_def Let_def split: prod.split)
qed

lemma executed_initial: "schedulable plan \<Longrightarrow> all_executed world plan (initialState world plan)"
  using accounted_initial by (simp add: all_executed_def initialState_def)

lemma executed_receive:
  "schedulable plan \<Longrightarrow> all_executed world plan st \<Longrightarrow> i < length (inFlight st) \<Longrightarrow> all_executed world plan (receive world i st)"
  using accounted_receive completion_executed by (auto simp: all_executed_def receive_results)

interpretation executions: scheduler_invariant world plan "all_executed world plan"
  by unfold_locales (simp_all add: executed_initial executed_receive, simp_all add: all_executed_def accounted_launch)

lemma sort_head: "sort xs = x # ys \<Longrightarrow> x \<in> set xs \<and> (\<forall>y\<in>set xs. x \<le> y)"
  by (metis list.set_intros(1) set_ConsD set_sort sorted_sort sorted_wrt.simps(2) order_refl)

lemma results_sorted:
  "sorted (map resultUnit (slices_SortFunc (\<lambda>l r. comparePlanWorkUnitIDs (resultUnit l) (resultUnit r)) rs))"
proof -
  have "go_compare (\<lambda>l r. comparePlanWorkUnitIDs (resultUnit l) (resultUnit r))"
    by (rule go_compare_on [OF unit_order.go_compare_axioms])
  from go_compare.SortFunc_sorted [OF this, of rs] show ?thesis
    by (auto simp: sorted_map comparePlanWorkUnitIDs_def not_less split: if_splits elim!: sorted_wrt_mono_rel [rotated])
qed

definition complete_results :: "('v, 'e, 't) schedulerWorld \<Rightarrow> ExecutionPlan \<Rightarrow> ('v, 'e, 't) scheduledWorkResult list \<Rightarrow> bool" where
  "complete_results world plan rs \<longleftrightarrow>
     map resultUnit rs = sort (unitIDs plan) \<and> (\<forall>r\<in>set rs. executed world plan r \<and> Err r = None)"

definition first_failure :: "('v, 'e, 't) schedulerWorld \<Rightarrow> ExecutionPlan \<Rightarrow> ('v, 'e, 't) scheduledWorkResult list \<Rightarrow> string \<Rightarrow> 'e \<Rightarrow> bool" where
  "first_failure world plan rs u e \<longleftrightarrow>
     (\<exists>r\<in>set rs. resultUnit r = u \<and> Err r = Some e \<and> executed world plan r) \<and>
     (\<forall>r\<in>set rs. \<forall>e'. Err r = Some e' \<longrightarrow> \<not> isCancellation world e' \<longrightarrow> u \<le> resultUnit r)"

lemma conclude_ok:
  assumes plan: "schedulable plan" and world: "ends_once world" and st: "reached world plan st"
    and fin: "phase st = Finishing" and r: "conclude world plan st = (rs, err)"
  shows "case err of
      None \<Rightarrow> complete_results world plan rs
    | Some (UnitFailed u e) \<Rightarrow> first_failure world plan rs u e
    | Some (ContextEnded cause) \<Rightarrow> (\<exists>t. External world t \<noteq> None)
    | Some _ \<Rightarrow> False"
proof -
  have f: "failures_kept world st" "all_executed world plan st" "placed plan st" "ordered plan st"
    using failures.kept executions.kept placement.kept order.kept plan st by blast+
  have idle: "inFlight st = []" "pending st = [] \<or> internalFailure st"
    using phase_facts_reached [OF plan world st] fin by (simp_all add: phase_facts_def)
  have rs: "rs = slices_SortFunc (\<lambda>l r. comparePlanWorkUnitIDs (resultUnit l) (resultUnit r)) (results st)"
    using r by (simp add: conclude_def)
  then have set: "set rs = set (results st)" by simp
  show ?thesis
  proof (cases "sort (map fst (directFailures st))")
    case (Cons u us)
    then have u: "u \<in> fst ` set (directFailures st)" "\<forall>y\<in>fst ` set (directFailures st). u \<le> y"
      using sort_head [OF Cons] by simp_all
    then obtain e where e: "map_of (directFailures st) u = Some e" by (metis map_of_eq_None_iff not_None_eq)
    then have "(u, e) \<in> set (directFailures st)" by (rule map_of_SomeD)
    then obtain res where res: "res \<in> set rs" "resultUnit res = u" "Err res = Some e"
      using f(1) set unfolding failures_kept_def by blast
    have "executed world plan res" using f(2) res(1) set by (simp add: all_executed_def)
    moreover have "u \<le> resultUnit r'" if "r' \<in> set rs" "Err r' = Some e'" "\<not> isCancellation world e'" for r' e'
      using f(1) that set u(2) unfolding failures_kept_def by blast
    ultimately have "first_failure world plan rs u e" unfolding first_failure_def using res by blast
    moreover have "err = Some (UnitFailed u e)" using r Cons e by (simp add: conclude_def)
    ultimately show ?thesis by simp
  next
    case Nil
    then have none: "directFailures st = []" by (metis length_0_conv length_sort map_is_Nil_conv)
    then have ok: "\<forall>r\<in>set (results st). Err r = None" "\<not> internalFailure st" using f(1) by (auto simp: failures_kept_def)
    show ?thesis
    proof (cases "ctxCause world st")
      case (Some cause)
      then have "\<exists>t. External world t \<noteq> None" using ok(2) by (auto simp: ctxCause_def)
      moreover have "err = Some (ContextEnded cause)" using r Some Nil by (simp add: conclude_def)
      ultimately show ?thesis by simp
    next
      case None
      have units: "mset (map resultUnit (results st)) = mset (unitIDs plan)"
        using f(3) idle ok(2) by (simp add: placed_def)
      have "completed st = resultUnit ` set (results st)" using f(4) ok(1) by (auto simp: ordered_def succeeded_def)
      also have "\<dots> = set (unitIDs plan)" using arg_cong [OF units, of set_mset] by simp
      finally have "card (completed st) = length (Commands plan)"
        using distinct_card [OF distinct_units [OF plan]] by (simp add: unitIDs_def)
      then have err: "err = None" using r None Nil by (simp add: conclude_def)
      have "mset (map resultUnit rs) = mset (unitIDs plan)" using units by (simp add: rs)
      then have "map resultUnit rs = sort (unitIDs plan)"
        using results_sorted [of "results st"] by (metis properties_for_sort rs)
      then have "complete_results world plan rs"
        using ok(1) f(2) by (simp add: complete_results_def set all_executed_def)
      with err show ?thesis by simp
    qed
  qed
qed

section \<open>The guarantees of the scheduler\<close>

text \<open>
  C11. At every moment of a run of an accepted plan the running units fit the budget together,
  their number is within the worker limit, and no two of them share an exclusivity group.
\<close>

theorem scheduler_within_budget:
  assumes "Validate digests plan = None" and "reached world plan st"
  shows "sum_list (map cpuOf (inFlight st)) \<le> CPUUnits (Resources plan) \<and>
    sum_list (map memoryOf (inFlight st)) \<le> MemoryBytes (Resources plan) \<and>
    int (length (inFlight st)) \<le> MaximumWorkers (Resources plan) \<and> exclusiveUnits (inFlight st)"
  using reserved.kept [OF accepted_schedulable [OF assms(1)] assms(2)] by (auto simp: accounted_def Let_def)

text \<open>
  C12. Each unit is started at most once, and only after all the units it requires have completed
  without an error.
\<close>

theorem scheduler_respects_dependencies:
  assumes "Validate digests plan = None" and "reached world plan st"
  shows "distinct (map unitOf (inFlight st) @ map resultUnit (results st)) \<and>
    (\<forall>u\<in>begun st. \<forall>d\<in>set (requires (dependencyMap plan) u). \<exists>r\<in>set (results st). resultUnit r = d \<and> Err r = None)"
proof -
  note plan = accepted_schedulable [OF assms(1)]
  have "distinct (map unitOf (inFlight st) @ map resultUnit (results st))"
    using placement.kept [OF plan assms(2)] distinct_units [OF plan] unfolding placed_def
    by (metis distinct_append mset_append mset_eq_imp_distinct_iff append_assoc)
  then show ?thesis using order.kept [OF plan assms(2)] by (auto simp: ordered_def succeeded_def) blast
qed

text \<open>
  C10. The scheduler returns on every accepted plan, whatever the units do. Without an error the
  results are those of all units, in the order of their identifiers, each executed without an
  error; otherwise the error is that of the first failed unit, or the caller's context has
  ended. It never reports that no unit can be admitted or that units are missing.
\<close>

theorem schedulePlan_outcome:
  assumes "Validate digests plan = None" and "ends_once world"
  shows "\<exists>rs err. schedulePlan world digests plan = Some (rs, err) \<and>
    (case err of
       None \<Rightarrow> complete_results world plan rs
     | Some (UnitFailed u e) \<Rightarrow> first_failure world plan rs u e
     | Some (ContextEnded cause) \<Rightarrow> (\<exists>t. External world t \<noteq> None)
     | Some _ \<Rightarrow> False)"
proof -
  note plan = accepted_schedulable [OF assms(1)]
  obtain st r where st: "reached world plan st" "phase st = Returned r" "schedulePlan world digests plan = Some r"
    using schedulePlan_runs [OF assms] .
  obtain rs err where r: "r = (rs, err)" by force
  have "(\<exists>cause. r = ([], Some (ContextEnded cause)) \<and> (\<exists>t. External world t \<noteq> None)) \<or>
      (\<exists>st'. reached world plan st' \<and> phase st' = Finishing \<and> r = conclude world plan st')"
    using phase_facts_reached [OF plan assms(2) st(1)] st(2) by (simp add: phase_facts_def)
  then show ?thesis
  proof
    assume "\<exists>cause. r = ([], Some (ContextEnded cause)) \<and> (\<exists>t. External world t \<noteq> None)"
    then obtain cause where c: "r = ([], Some (ContextEnded cause))" and e: "\<exists>t. External world t \<noteq> None" by blast
    show ?thesis
      by (intro exI [of _ "[]"] exI [of _ "Some (ContextEnded cause)"] conjI) (use st(3) c e in simp_all)
  next
    assume "\<exists>st'. reached world plan st' \<and> phase st' = Finishing \<and> r = conclude world plan st'"
    then obtain st' where st': "reached world plan st'" "phase st' = Finishing" "conclude world plan st' = (rs, err)"
      using r by metis
    from conclude_ok [OF plan assms(2) st'] st(3) r show ?thesis by blast
  qed
qed

text \<open>
  C15. After the first failure nothing more is started: the units in flight only drain, and the
  failure is not forgotten.
\<close>

theorem scheduler_fails_fast:
  assumes "Validate digests plan = None" and "ends_once world" and "reached world plan st" and "internalFailure st"
  shows "set (inFlight (schedulerStep world plan st)) \<subseteq> set (inFlight st) \<and>
    internalFailure (schedulerStep world plan st)"
proof (cases "phase st")
  case (Admitting commands launched)
  then show ?thesis
    using phase_facts_reached [OF accepted_schedulable [OF assms(1)] assms(2,3)] assms(4) by (simp add: phase_facts_def)
next
  case (Waiting launched)
  have "set (removeAt i xs) \<subseteq> set xs" for i and xs :: "(PlanCommandBinding \<times> 'c) list"
    unfolding removeAt_def using set_take_subset set_drop_subset by fastforce
  moreover have "internalFailure (receive world i st)" for i
    using assms(4) by (simp add: receive_def Let_def split: prod.split option.split)
  ultimately show ?thesis using Waiting assms(4) by (simp add: schedulerStep_def receive_resources)
qed (use assms(4) in \<open>simp_all add: schedulerStep_def\<close>)

text \<open>A world whose unit \<open>a\<close> fails when \<open>fails\<close> is set, and whose context never ends.\<close>

definition sampleWorld :: "bool \<Rightarrow> (nat, string, nat) schedulerWorld" where
  "sampleWorld fails = \<lparr>External = \<lambda>_. None, Choose = \<lambda>_. 0,
     Execute = \<lambda>t c. (7, if fails \<and> WorkUnitID c = ''a'' then Some ''exit 1'' else None, t),
     isCancellation = \<lambda>_. False, Now = \<lambda>t. t\<rparr>"

lemma sample_never_ends: "ends_once (sampleWorld fails)"
  by (simp add: ends_once_def sampleWorld_def)

lemma sample_valid: "Validate sampleDigests samplePlan = None"
  by code_simp

text \<open>
  Unit \<open>b\<close> has the higher priority but waits for \<open>a\<close>, so the first pass starts \<open>a\<close> only, in its third step;
  the fifth step receives its completion.
\<close>

definition sampleState :: "bool \<Rightarrow> unit list \<Rightarrow> (nat, string, nat) loopState" where
  "sampleState fails steps =
     foldl (\<lambda>st _. schedulerStep (sampleWorld fails) samplePlan st) (initialState (sampleWorld fails) samplePlan) steps"

lemma sample_step:
  "reached (sampleWorld fails) samplePlan (sampleState fails steps) \<Longrightarrow> active (sampleState fails steps)
    \<Longrightarrow> reached (sampleWorld fails) samplePlan (sampleState fails (steps @ [()]))"
  using reached.step by (simp add: sampleState_def)

lemma sample_active:
  "active (sampleState True [])" "active (sampleState True [()])" "active (sampleState True [(), ()])"
  "active (sampleState True [(), (), ()])" "active (sampleState True [(), (), (), ()])"
  by code_simp+

lemma sample_reached:
  "reached (sampleWorld True) samplePlan (sampleState True [(), (), ()])"
  "reached (sampleWorld True) samplePlan (sampleState True [(), (), (), (), ()])"
proof -
  have "reached (sampleWorld True) samplePlan (sampleState True [])" by (simp add: sampleState_def reached.start)
  from sample_step [OF this sample_active(1)] have "reached (sampleWorld True) samplePlan (sampleState True [()])" by simp
  from sample_step [OF this sample_active(2)] have "reached (sampleWorld True) samplePlan (sampleState True [(), ()])" by simp
  from sample_step [OF this sample_active(3)]
  show three: "reached (sampleWorld True) samplePlan (sampleState True [(), (), ()])" by simp
  from sample_step [OF three sample_active(4)] have "reached (sampleWorld True) samplePlan (sampleState True [(), (), (), ()])"
    by simp
  from sample_step [OF this sample_active(5)]
  show "reached (sampleWorld True) samplePlan (sampleState True [(), (), (), (), ()])" by simp
qed

theorem scheduler_within_budget_witness:
  "sum_list (map cpuOf (inFlight (sampleState True [(), (), ()]))) \<le> 4 \<and>
   map unitOf (inFlight (sampleState True [(), (), ()])) = [''a'']"
proof -
  have "map unitOf (inFlight (sampleState True [(), (), ()])) = [''a'']" by code_simp
  moreover have "CPUUnits (Resources samplePlan) = 4" by (simp add: samplePlan_def)
  ultimately show ?thesis using scheduler_within_budget [OF sample_valid sample_reached(1)] by simp
qed

theorem scheduler_respects_dependencies_witness:
  "distinct (map unitOf (inFlight (sampleState True [(), (), ()])) @ map resultUnit (results (sampleState True [(), (), ()])))"
  using scheduler_respects_dependencies [OF sample_valid sample_reached(1)] by blast

theorem schedulePlan_outcome_witness:
  "(\<exists>rs. schedulePlan (sampleWorld False) sampleDigests samplePlan = Some (rs, None) \<and> map resultUnit rs = [''a'', ''b'']) \<and>
   (\<exists>rs. schedulePlan (sampleWorld True) sampleDigests samplePlan = Some (rs, Some (UnitFailed ''a'' ''exit 1'')) \<and>
     first_failure (sampleWorld True) samplePlan rs ''a'' ''exit 1'')"
proof -
  have "map_option (\<lambda>(rs, e). (map resultUnit rs, e)) (schedulePlan (sampleWorld False) sampleDigests samplePlan) =
      Some ([''a'', ''b''], None)" by code_simp
  moreover have "map_option (\<lambda>(rs, e). (map resultUnit rs, e)) (schedulePlan (sampleWorld True) sampleDigests samplePlan) =
      Some ([''a''], Some (UnitFailed ''a'' ''exit 1''))" by code_simp
  ultimately show ?thesis
    using schedulePlan_outcome [OF sample_valid sample_never_ends, of True] by auto
qed

theorem scheduler_fails_fast_witness:
  "internalFailure (schedulerStep (sampleWorld True) samplePlan (sampleState True [(), (), (), (), ()]))"
proof -
  have "internalFailure (sampleState True [(), (), (), (), ()])" by code_simp
  from scheduler_fails_fast [OF sample_valid sample_never_ends sample_reached(2) this] show ?thesis by simp
qed

end
