(* ===== verification/Summary_Facts.thy ===== *)
theory Summary_Facts
  imports Edge_Functions Go_Library
begin

text \<open>
  Procedure summaries: the effect facts of \<open>goplint/protocol_summary_fact.go\<close>, which are
  published for other packages and checked before they are trusted, and what
  \<open>goplint/cfa_summary.go\<close> reads off a summary at a call.

  \<open>go/types\<close> is a parameter: a signature is the list of the names of its types, and three
  predicates say which types have a Validate method, are the error type, and are assignable.
\<close>

section \<open>Effect facts\<close>

definition protocolSummaryEffectPure :: string where [go_const]: "protocolSummaryEffectPure = ''pure''"
definition protocolSummaryEffectPreserve :: string where [go_const]: "protocolSummaryEffectPreserve = ''preserve''"
definition protocolSummaryEffectValidate :: string where [go_const]: "protocolSummaryEffectValidate = ''conditional-validation''"
definition protocolSummaryEffectMutate :: string where [go_const]: "protocolSummaryEffectMutate = ''mutation''"
definition protocolSummaryEffectReplace :: string where [go_const]: "protocolSummaryEffectReplace = ''replacement''"
definition protocolSummaryEffectEscape :: string where [go_const]: "protocolSummaryEffectEscape = ''escape''"
definition protocolSummaryEffectConsume :: string where [go_const]: "protocolSummaryEffectConsume = ''consume''"
definition protocolSummaryEffectTerminal :: string where [go_const]: "protocolSummaryEffectTerminal = ''terminal''"
definition protocolSummaryTargetReceiver :: string where [go_const]: "protocolSummaryTargetReceiver = ''receiver''"
definition protocolSummaryTargetParameter :: string where [go_const]: "protocolSummaryTargetParameter = ''parameter''"
definition protocolSummaryTargetResult :: string where [go_const]: "protocolSummaryTargetResult = ''result''"
definition protocolSummaryConditionResultNil :: string where [go_const]: "protocolSummaryConditionResultNil = ''result-nil''"
definition protocolSummaryConditionSuccessfulReturn :: string where [go_const]: "protocolSummaryConditionSuccessfulReturn = ''successful-return''"


record ProtocolSummaryEffectFact =
  SummaryKind :: string
  TargetKind :: string
  TargetSlot :: int
  SourceKind :: string
  SourceSlot :: int
  ConditionResultSlot :: int
  Condition :: string


definition newProtocolSummaryEffect :: "string \<Rightarrow> int \<Rightarrow> int \<Rightarrow> ProtocolSummaryEffectFact" where
  "newProtocolSummaryEffect targetKind targetSlot conditionResultSlot =
     \<lparr>SummaryKind = protocolSummaryEffectValidate, TargetKind = targetKind, TargetSlot = targetSlot,
      SourceKind = [], SourceSlot = - 1, ConditionResultSlot = conditionResultSlot,
      Condition = protocolSummaryConditionResultNil\<rparr>"

definition newProtocolSuccessfulReturnSummaryEffect :: "string \<Rightarrow> int \<Rightarrow> ProtocolSummaryEffectFact" where
  "newProtocolSuccessfulReturnSummaryEffect targetKind targetSlot =
     \<lparr>SummaryKind = protocolSummaryEffectValidate, TargetKind = targetKind, TargetSlot = targetSlot,
      SourceKind = [], SourceSlot = - 1, ConditionResultSlot = - 1,
      Condition = protocolSummaryConditionSuccessfulReturn\<rparr>"

definition newProtocolTargetSummaryEffect :: "string \<Rightarrow> string \<Rightarrow> int \<Rightarrow> ProtocolSummaryEffectFact" where
  "newProtocolTargetSummaryEffect kind targetKind targetSlot =
     \<lparr>SummaryKind = kind, TargetKind = targetKind, TargetSlot = targetSlot, SourceKind = [], SourceSlot = - 1,
      ConditionResultSlot = - 1, Condition = []\<rparr>"

definition newProtocolCallSummaryEffect :: "string \<Rightarrow> ProtocolSummaryEffectFact" where
  "newProtocolCallSummaryEffect kind =
     \<lparr>SummaryKind = kind, TargetKind = [], TargetSlot = - 1, SourceKind = [], SourceSlot = - 1,
      ConditionResultSlot = - 1, Condition = []\<rparr>"

definition appendUniqueProtocolSummaryEffect ::
  "ProtocolSummaryEffectFact list \<Rightarrow> ProtocolSummaryEffectFact \<Rightarrow> ProtocolSummaryEffectFact list" where
  "appendUniqueProtocolSummaryEffect effects effect = (if effect \<in> set effects then effects else effects @ [effect])"

section \<open>Validation of facts\<close>

definition validProtocolSummaryTarget :: "string \<Rightarrow> int \<Rightarrow> bool" where
  "validProtocolSummaryTarget kind slot \<longleftrightarrow>
     (kind = protocolSummaryTargetReceiver \<or> kind = protocolSummaryTargetParameter \<or> kind = protocolSummaryTargetResult) \<and>
     slot \<ge> 0"

definition validProtocolSummaryEffect :: "ProtocolSummaryEffectFact \<Rightarrow> bool" where
  "validProtocolSummaryEffect effect =
     (let kind = SummaryKind effect in
      if kind = protocolSummaryEffectPure \<or> kind = protocolSummaryEffectTerminal then
        TargetKind effect = [] \<and> TargetSlot effect = - 1 \<and> SourceKind effect = [] \<and> SourceSlot effect = - 1 \<and>
        ConditionResultSlot effect = - 1 \<and> Condition effect = []
      else if kind = protocolSummaryEffectPreserve \<or> kind = protocolSummaryEffectMutate \<or>
          kind = protocolSummaryEffectEscape \<or> kind = protocolSummaryEffectConsume then
        validProtocolSummaryTarget (TargetKind effect) (TargetSlot effect) \<and>
        SourceKind effect = [] \<and> SourceSlot effect = - 1 \<and> ConditionResultSlot effect = - 1 \<and> Condition effect = []
      else if kind = protocolSummaryEffectReplace then
        validProtocolSummaryTarget (TargetKind effect) (TargetSlot effect) \<and>
        validProtocolSummaryTarget (SourceKind effect) (SourceSlot effect) \<and>
        ConditionResultSlot effect = - 1 \<and> Condition effect = []
      else if kind = protocolSummaryEffectValidate then
        validProtocolSummaryTarget (TargetKind effect) (TargetSlot effect) \<and>
        SourceKind effect = [] \<and> SourceSlot effect = - 1 \<and>
        (ConditionResultSlot effect \<ge> 0 \<and> Condition effect = protocolSummaryConditionResultNil \<or>
         ConditionResultSlot effect = - 1 \<and> Condition effect = protocolSummaryConditionSuccessfulReturn)
      else False)"









section \<open>Summaries at a call\<close>

record calleeTargetSummary =
  Effects :: "ProtocolSummaryEffectFact list"
  Complete :: bool
  SummaryReason :: pathOutcomeReason

datatype calleeTargetSlot = calleeTargetSlotReceiver | calleeTargetSlotArg int

definition cacheKey :: "calleeTargetSlot \<Rightarrow> string" where
  "cacheKey slot = (case slot of calleeTargetSlotArg argIndex \<Rightarrow> ''arg:'' @ show_int argIndex | calleeTargetSlotReceiver \<Rightarrow> ''receiver'')"


definition hasEffect :: "calleeTargetSummary \<Rightarrow> string \<Rightarrow> bool" where
  "hasEffect summary kind = list_ex (\<lambda>effect. SummaryKind effect = kind) (Effects summary)"

definition hasSuccessfulReturnValidation :: "calleeTargetSummary \<Rightarrow> bool" where
  "hasSuccessfulReturnValidation summary =
     list_ex (\<lambda>effect. SummaryKind effect = protocolSummaryEffectValidate \<and>
       Condition effect = protocolSummaryConditionSuccessfulReturn) (Effects summary)"

definition continueWith :: "protocolAbstractState \<Rightarrow> ProtocolSummaryEffectFact \<Rightarrow> protocolAbstractState option" where
  "continueWith state effect =
     (let kind = SummaryKind effect in
      if kind = protocolSummaryEffectPure \<or> kind = protocolSummaryEffectPreserve then Some state
      else if kind = protocolSummaryEffectValidate then
        (if Condition effect = protocolSummaryConditionSuccessfulReturn
         then Some (state_apply state (conditionalEffect protocolEffectValidate) protocolErrorResultNil 0)
         else if Condition effect = protocolSummaryConditionResultNil
         then Some (state_apply state (conditionalEffect protocolEffectValidate) protocolErrorResultUnknown 0)
         else None)
      else if kind = protocolSummaryEffectMutate then
        Some (state\<lparr>Validation := protocolValidationRequired,
          PossibleEffects := PossibleEffects state OR protocolPossibleEffectMutate\<rparr>)
      else if kind = protocolSummaryEffectReplace then
        Some (state\<lparr>Validation := protocolValidationRequired,
          PossibleEffects := PossibleEffects state OR protocolPossibleEffectReplace\<rparr>)
      else if kind = protocolSummaryEffectEscape then
        (let s = state_apply state (conditionalEffect protocolEffectEscape) (ErrorResult state) 0
         in Some (s\<lparr>PossibleEffects := PossibleEffects s OR protocolPossibleEffectEscape\<rparr>))
      else if kind = protocolSummaryEffectConsume then
        (let s = state_apply state (conditionalEffect protocolEffectConsume) (ErrorResult state) 0
         in Some (s\<lparr>PossibleEffects := PossibleEffects s OR protocolPossibleEffectConsume\<rparr>))
      else if kind = protocolSummaryEffectTerminal then
        Some (state\<lparr>PossibleEffects := PossibleEffects state OR protocolPossibleEffectTerminate\<rparr>)
      else None)"

fun continueEffects :: "protocolAbstractState \<Rightarrow> ProtocolSummaryEffectFact list \<Rightarrow> protocolAbstractState option" where
  "continueEffects state [] = Some state"
| "continueEffects state (effect # effects) = (case continueWith state effect of
       None \<Rightarrow> None
     | Some state' \<Rightarrow> continueEffects state' effects)"

definition protocolContinuationStateFrom :: "calleeTargetSummary \<Rightarrow> bool \<Rightarrow> protocolAbstractState option" where
  "protocolContinuationStateFrom summary validated =
     (if \<not> Complete summary \<or> Effects summary = [] then None
      else continueEffects
        (if validated then newProtocolRequiredState\<lparr>Validation := protocolValidationProven\<rparr> else newProtocolRequiredState)
        (Effects summary))"


fun scanConditional :: "bool \<Rightarrow> bool \<Rightarrow> ProtocolSummaryEffectFact list \<Rightarrow> bool" where
  "scanConditional validated hazard [] = (validated \<and> \<not> hazard)"
| "scanConditional validated hazard (effect # effects) =
     (let kind = SummaryKind effect in
      if kind = protocolSummaryEffectPure \<or> kind = protocolSummaryEffectPreserve then scanConditional validated hazard effects
      else if kind = protocolSummaryEffectValidate then
        (if Condition effect \<noteq> protocolSummaryConditionResultNil \<and> Condition effect \<noteq> protocolSummaryConditionSuccessfulReturn
         then False else scanConditional True hazard effects)
      else if kind = protocolSummaryEffectMutate \<or> kind = protocolSummaryEffectReplace then scanConditional False hazard effects
      else if kind = protocolSummaryEffectEscape then scanConditional validated True effects
      else if kind = protocolSummaryEffectConsume then scanConditional validated (hazard \<or> \<not> validated) effects
      else False)"

definition conditionallyValidatesWithoutHazard :: "calleeTargetSummary \<Rightarrow> bool" where
  "conditionallyValidatesWithoutHazard summary =
     (if \<not> Complete summary \<or> Effects summary = [] then False else scanConditional False False (Effects summary))"


section \<open>What the continuation state says\<close>

text \<open>
  The effects of a summary in order, as a reference: whether the target is validated after
  them, and whether one of a kind happens while it is not. \<open>counts\<close> says which validations count.
\<close>

definition validatedAfter :: "(string \<Rightarrow> bool) \<Rightarrow> bool \<Rightarrow> ProtocolSummaryEffectFact \<Rightarrow> bool" where
  "validatedAfter counts v effect =
     (if SummaryKind effect = protocolSummaryEffectValidate then v \<or> counts (Condition effect)
      else if SummaryKind effect = protocolSummaryEffectMutate \<or> SummaryKind effect = protocolSummaryEffectReplace then False
      else v)"

fun happensUnvalidated :: "(string \<Rightarrow> bool) \<Rightarrow> string \<Rightarrow> bool \<Rightarrow> ProtocolSummaryEffectFact list \<Rightarrow> bool" where
  "happensUnvalidated counts kind v [] = False"
| "happensUnvalidated counts kind v (effect # effects) =
     (SummaryKind effect = kind \<and> \<not> v \<or> happensUnvalidated counts kind (validatedAfter counts v effect) effects)"

definition knownEffect :: "ProtocolSummaryEffectFact \<Rightarrow> bool" where
  "knownEffect effect \<longleftrightarrow>
     SummaryKind effect \<in> {protocolSummaryEffectPure, protocolSummaryEffectPreserve, protocolSummaryEffectMutate,
       protocolSummaryEffectReplace, protocolSummaryEffectEscape, protocolSummaryEffectConsume, protocolSummaryEffectTerminal} \<or>
     SummaryKind effect = protocolSummaryEffectValidate \<and>
       Condition effect \<in> {protocolSummaryConditionResultNil, protocolSummaryConditionSuccessfulReturn}"

lemmas summary_kinds =
  protocolSummaryEffectPure_def protocolSummaryEffectPreserve_def protocolSummaryEffectValidate_def
  protocolSummaryEffectMutate_def protocolSummaryEffectReplace_def protocolSummaryEffectEscape_def
  protocolSummaryEffectConsume_def protocolSummaryEffectTerminal_def
  protocolSummaryConditionResultNil_def protocolSummaryConditionSuccessfulReturn_def
  protocolSummaryTargetReceiver_def protocolSummaryTargetParameter_def protocolSummaryTargetResult_def

definition successful :: "string \<Rightarrow> bool" where
  "successful condition \<longleftrightarrow> condition = protocolSummaryConditionSuccessfulReturn"

definition continuation_matches :: "protocolAbstractState \<Rightarrow> bool \<Rightarrow> bool \<Rightarrow> bool \<Rightarrow> bool" where
  "continuation_matches state v escaped consumed \<longleftrightarrow>
     state_valid state \<and> Uncertainty state = 0 \<and> (validationProven state \<longleftrightarrow> v) \<and>
     (escapedBeforeValidation state \<longleftrightarrow> escaped) \<and> (consumedBeforeValidation state \<longleftrightarrow> consumed)"

lemma hazard_or:
  "(h OR protocolHazardEscaped) AND protocolHazardEscaped \<noteq> 0"
  "(h OR protocolHazardConsumed) AND protocolHazardConsumed \<noteq> 0"
  "(h OR protocolHazardEscaped) AND protocolHazardConsumed = h AND protocolHazardConsumed"
  "(h OR protocolHazardConsumed) AND protocolHazardEscaped = h AND protocolHazardEscaped"
  by (simp_all add: go_const bit.conj_disj_distrib2)

lemma known_continues: "continueWith state effect = None \<longleftrightarrow> \<not> knownEffect effect"
  by (auto simp: continueWith_def knownEffect_def summary_kinds Let_def)

lemma matches_validation:
  assumes "continuation_matches s v escaped consumed"
  shows "continuation_matches (state_apply s (conditionalEffect protocolEffectValidate) protocolErrorResultNil 0) True escaped consumed"
    "continuation_matches (state_apply s (conditionalEffect protocolEffectValidate) protocolErrorResultUnknown 0) v escaped consumed"
  using assms state_valid_apply [of s 0]
  by (simp_all add: continuation_matches_def)
    (simp_all add: state_apply_def conditionalEffect_def validationProven_def escapedBeforeValidation_def
      consumedBeforeValidation_def go_const)

lemma matches_possible:
  assumes "continuation_matches s v escaped consumed" and "p AND NOT protocolUnknownCallEffects = 0"
  shows "continuation_matches (s\<lparr>PossibleEffects := PossibleEffects s OR p\<rparr>) v escaped consumed"
    "continuation_matches (s\<lparr>Validation := protocolValidationRequired, PossibleEffects := PossibleEffects s OR p\<rparr>) False escaped consumed"
  using assms
  by (simp_all add: continuation_matches_def state_valid_def mask_or validationProven_def escapedBeforeValidation_def
      consumedBeforeValidation_def)
    (simp add: go_const)

lemma matches_hazard:
  assumes "continuation_matches s v escaped consumed"
  shows "continuation_matches (state_apply s (conditionalEffect protocolEffectEscape) r 0) v (escaped \<or> \<not> v) consumed"
    "continuation_matches (state_apply s (conditionalEffect protocolEffectConsume) r 0) v escaped (consumed \<or> \<not> v)"
proof -
  have s: "state_valid s" "Uncertainty s = 0" "validationProven s \<longleftrightarrow> v" "escapedBeforeValidation s \<longleftrightarrow> escaped"
    "consumedBeforeValidation s \<longleftrightarrow> consumed" using assms by (simp_all add: continuation_matches_def)
  have kinds: "protocolEffectEscape \<noteq> protocolEffectValidate" "protocolEffectConsume \<noteq> protocolEffectValidate"
    "protocolEffectConsume \<noteq> protocolEffectEscape" by (simp_all add: go_const)
  have apply_hazard:
    "state_apply s (conditionalEffect protocolEffectEscape) r 0 = (if v then s else s\<lparr>Hazards := Hazards s OR protocolHazardEscaped\<rparr>)"
    "state_apply s (conditionalEffect protocolEffectConsume) r 0 = (if v then s else s\<lparr>Hazards := Hazards s OR protocolHazardConsumed\<rparr>)"
    using valid_not_proven [OF s(1)] s(3) kinds
    by (auto simp: state_apply_def conditionalEffect_def validationRequired_def)
  have valid: "state_valid (state_apply s (conditionalEffect protocolEffectEscape) r 0)"
    "state_valid (state_apply s (conditionalEffect protocolEffectConsume) r 0)"
    using state_valid_apply [OF s(1), of 0] by simp_all
  have frame: "validationProven (s\<lparr>Hazards := h\<rparr>) = validationProven s" "Uncertainty (s\<lparr>Hazards := h\<rparr>) = Uncertainty s"
    "escapedBeforeValidation (s\<lparr>Hazards := h\<rparr>) = (h AND protocolHazardEscaped \<noteq> 0)"
    "consumedBeforeValidation (s\<lparr>Hazards := h\<rparr>) = (h AND protocolHazardConsumed \<noteq> 0)" for h
    by (simp_all add: validationProven_def escapedBeforeValidation_def consumedBeforeValidation_def)
  show "continuation_matches (state_apply s (conditionalEffect protocolEffectEscape) r 0) v (escaped \<or> \<not> v) consumed"
    using valid(1) s s(5) [unfolded consumedBeforeValidation_def] assms hazard_or(1,3) [of "Hazards s"] unfolding apply_hazard
    by (cases v) (simp_all only: continuation_matches_def frame if_True if_False simp_thms)
  show "continuation_matches (state_apply s (conditionalEffect protocolEffectConsume) r 0) v escaped (consumed \<or> \<not> v)"
    using valid(2) s s(4) [unfolded escapedBeforeValidation_def] assms hazard_or(2,4) [of "Hazards s"] unfolding apply_hazard
    by (cases v) (simp_all only: continuation_matches_def frame if_True if_False simp_thms)
qed

lemma possible_masks:
  "protocolPossibleEffectMutate AND NOT protocolUnknownCallEffects = 0"
  "protocolPossibleEffectReplace AND NOT protocolUnknownCallEffects = 0"
  "protocolPossibleEffectEscape AND NOT protocolUnknownCallEffects = 0"
  "protocolPossibleEffectConsume AND NOT protocolUnknownCallEffects = 0"
  "protocolPossibleEffectTerminate AND NOT protocolUnknownCallEffects = 0"
  by (simp_all add: valid_word_defs go_const)

lemma continue_step:
  assumes "continueWith state effect = Some state'" and "continuation_matches state v escaped consumed"
  shows "continuation_matches state' (validatedAfter successful v effect)
    (escaped \<or> SummaryKind effect = protocolSummaryEffectEscape \<and> \<not> v)
    (consumed \<or> SummaryKind effect = protocolSummaryEffectConsume \<and> \<not> v)"
proof -
  have "knownEffect effect" using assms(1) known_continues [of state effect] by simp
  then consider
      "SummaryKind effect = protocolSummaryEffectPure \<or> SummaryKind effect = protocolSummaryEffectPreserve"
    | "SummaryKind effect = protocolSummaryEffectValidate" "Condition effect = protocolSummaryConditionSuccessfulReturn"
    | "SummaryKind effect = protocolSummaryEffectValidate" "Condition effect = protocolSummaryConditionResultNil"
    | "SummaryKind effect = protocolSummaryEffectMutate"
    | "SummaryKind effect = protocolSummaryEffectReplace"
    | "SummaryKind effect = protocolSummaryEffectEscape"
    | "SummaryKind effect = protocolSummaryEffectConsume"
    | "SummaryKind effect = protocolSummaryEffectTerminal"
    by (auto simp: knownEffect_def)
  then show ?thesis
    using assms(1) matches_validation [OF assms(2)] matches_possible [OF assms(2)] possible_masks
      matches_possible(1) [OF matches_hazard(1) [OF assms(2)]] matches_possible(1) [OF matches_hazard(2) [OF assms(2)]] assms(2)
    by cases (auto simp: continueWith_def validatedAfter_def successful_def Let_def summary_kinds)
qed

lemma continue_effects:
  "continueEffects state effects = Some state' \<Longrightarrow> continuation_matches state v escaped consumed \<Longrightarrow>
    continuation_matches state' (foldl (validatedAfter successful) v effects)
      (escaped \<or> happensUnvalidated successful protocolSummaryEffectEscape v effects)
      (consumed \<or> happensUnvalidated successful protocolSummaryEffectConsume v effects)"
proof (induction effects arbitrary: state v escaped consumed)
  case Nil
  then show ?case by simp
next
  case (Cons effect effects)
  then obtain s where s: "continueWith state effect = Some s" "continueEffects s effects = Some state'"
    by (auto split: option.splits)
  from Cons.IH [OF s(2) continue_step [OF s(1) Cons.prems(2)]] show ?case by (simp add: disj_assoc)
qed

lemma continue_known: "continueEffects state effects \<noteq> None \<longleftrightarrow> list_all knownEffect effects"
proof (induction effects arbitrary: state)
  case Nil
  then show ?case by simp
next
  case (Cons effect effects)
  then show ?case using known_continues [of state effect] by (cases "continueWith state effect") auto
qed

text \<open>
  The state after a call: it exists exactly for complete summaries of known effects, it is a
  valid state without uncertainty, and it is proven, escaped or consumed exactly when the effects
  of the summary, taken in order, leave the target validated, let it escape, or consume it,
  while it is not validated; a validation that depends on a nil result does not count.
\<close>

theorem continuation_state_exact:
  "(protocolContinuationStateFrom summary validated \<noteq> None \<longleftrightarrow>
      Complete summary \<and> Effects summary \<noteq> [] \<and> list_all knownEffect (Effects summary)) \<and>
   (case protocolContinuationStateFrom summary validated of
      None \<Rightarrow> True
    | Some state \<Rightarrow> state_valid state \<and> Uncertainty state = 0 \<and>
        (validationProven state \<longleftrightarrow> foldl (validatedAfter successful) validated (Effects summary)) \<and>
        (escapedBeforeValidation state \<longleftrightarrow> happensUnvalidated successful protocolSummaryEffectEscape validated (Effects summary)) \<and>
        (consumedBeforeValidation state \<longleftrightarrow> happensUnvalidated successful protocolSummaryEffectConsume validated (Effects summary)))"
proof -
  let ?start = "if validated then newProtocolRequiredState\<lparr>Validation := protocolValidationProven\<rparr> else newProtocolRequiredState"
  have "continuation_matches ?start validated False False"
    by (simp add: continuation_matches_def newProtocolRequiredState_def state_valid_def validationProven_def
        escapedBeforeValidation_def consumedBeforeValidation_def go_const)
  from continue_effects [OF _ this, of "Effects summary"] show ?thesis
    using continue_known [of ?start "Effects summary"]
    by (auto simp: protocolContinuationStateFrom_def continuation_matches_def split: option.split)
qed

lemma scanConditional_exact:
  "scanConditional v hazard effects \<longleftrightarrow>
     list_all (\<lambda>e. knownEffect e \<and> SummaryKind e \<noteq> protocolSummaryEffectTerminal) effects \<and>
     foldl (validatedAfter (\<lambda>_. True)) v effects \<and> \<not> hazard \<and>
     \<not> list_ex (\<lambda>e. SummaryKind e = protocolSummaryEffectEscape) effects \<and>
     \<not> happensUnvalidated (\<lambda>_. True) protocolSummaryEffectConsume v effects"
proof (induction v hazard effects rule: scanConditional.induct)
  case (1 v hazard)
  then show ?case by auto
next
  case (2 v hazard effect effects)
  consider
      "SummaryKind effect = protocolSummaryEffectPure \<or> SummaryKind effect = protocolSummaryEffectPreserve"
    | "SummaryKind effect = protocolSummaryEffectValidate"
    | "SummaryKind effect = protocolSummaryEffectMutate \<or> SummaryKind effect = protocolSummaryEffectReplace"
    | "SummaryKind effect = protocolSummaryEffectEscape"
    | "SummaryKind effect = protocolSummaryEffectConsume"
    | "SummaryKind effect \<notin> {protocolSummaryEffectPure, protocolSummaryEffectPreserve, protocolSummaryEffectValidate,
        protocolSummaryEffectMutate, protocolSummaryEffectReplace, protocolSummaryEffectEscape, protocolSummaryEffectConsume}"
    by blast
  then show ?case
    by cases (use 2 in \<open>auto simp: Let_def summary_kinds knownEffect_def validatedAfter_def\<close>)
qed

text \<open>
  The test whether a call validates without a hazard holds exactly for complete summaries
  whose effects, taken in order, are known and not terminal, leave the target validated when the
  conditions of their validations hold, never let it escape, and never consume it while it is not
  validated.
\<close>

theorem conditional_validation_exact:
  "conditionallyValidatesWithoutHazard summary \<longleftrightarrow>
     Complete summary \<and> Effects summary \<noteq> [] \<and>
     list_all (\<lambda>e. knownEffect e \<and> SummaryKind e \<noteq> protocolSummaryEffectTerminal) (Effects summary) \<and>
     foldl (validatedAfter (\<lambda>_. True)) False (Effects summary) \<and>
     \<not> hasEffect summary protocolSummaryEffectEscape \<and>
     \<not> happensUnvalidated (\<lambda>_. True) protocolSummaryEffectConsume False (Effects summary)"
  by (auto simp: conditionallyValidatesWithoutHazard_def scanConditional_exact hasEffect_def)

section \<open>Facts from other packages\<close>


lemma constructed_effects_valid:
  "validProtocolSummaryTarget kind slot \<Longrightarrow> 0 \<le> resultSlot \<Longrightarrow> validProtocolSummaryEffect (newProtocolSummaryEffect kind slot resultSlot)"
  "validProtocolSummaryTarget kind slot \<Longrightarrow> validProtocolSummaryEffect (newProtocolSuccessfulReturnSummaryEffect kind slot)"
  "validProtocolSummaryTarget kind slot \<Longrightarrow> effect \<in> {protocolSummaryEffectPreserve, protocolSummaryEffectMutate,
      protocolSummaryEffectEscape, protocolSummaryEffectConsume} \<Longrightarrow>
    validProtocolSummaryEffect (newProtocolTargetSummaryEffect effect kind slot)"
  "effect \<in> {protocolSummaryEffectPure, protocolSummaryEffectTerminal} \<Longrightarrow>
    validProtocolSummaryEffect (newProtocolCallSummaryEffect effect)"
  by (auto simp: validProtocolSummaryEffect_def newProtocolSummaryEffect_def newProtocolSuccessfulReturnSummaryEffect_def
      newProtocolTargetSummaryEffect_def newProtocolCallSummaryEffect_def Let_def summary_kinds)






end
