(* ===== verification/Recursive_Summary.thy ===== *)
theory Recursive_Summary
  imports Summary_Facts Go_Library "HOL-Library.AList" "HOL-Library.While_Combinator"
begin

text \<open>
  Summaries of recursive procedures (\<open>goplint/protocol_recursive_validation.go\<close>): the transfers
  of the procedures of a recursive group are the fixed point of a finite system of equations.

  What the analyzer reads off SSA is a parameter: for each procedure and target slot, the
  classification of every result of every return, with the local effects that may come before
  and after the call the result comes from. The model starts where these are collected.
\<close>

section \<open>Transfers and their builder\<close>

















section \<open>Procedures of a recursive group\<close>















section \<open>Loops until nothing changes\<close>



















section \<open>What a procedure does to its target\<close>















section \<open>The loops end\<close>













section \<open>Transfers cover runs\<close>



























section \<open>The published effects cover every run\<close>



















end
