(* ===== verification/Sharding.thy ===== *)
theory Sharding
  imports Go_Library "HOL-Library.Signed_Division"
begin

text \<open>
  Balanced work of the race/repeat gate (\<open>internal/racerepeat\<close>): the live census and the reviewed
  timing manifest (\<open>model.go\<close>), the allocation of tests to shards (\<open>shards.go\<close>) and of work
  units to groups (\<open>groups.go\<close>). Weights are Go's \<open>int64\<close>, with their wrap-around.

  The results: the allocation is a balanced partition that leaves no shard empty, and the groups
  partition the work units.
\<close>

section \<open>Census and timing\<close>

definition TimingFormatVersion :: int where [go_const]: "TimingFormatVersion = 1"
definition ScheduledOracleEnvironment :: string where
  [go_const]: "ScheduledOracleEnvironment = ''GOPLINT_PROTOCOL_ORACLE_PROFILE=scheduled''"
definition KindTest :: string where [go_const]: "KindTest = ''test''"
definition KindFuzz :: string where [go_const]: "KindFuzz = ''fuzz''"
definition KindExample :: string where [go_const]: "KindExample = ''example''"

record TimingEntry =
  entryID :: string
  entryKind :: string
  DurationWeight :: int
  SampleCount :: int
  NestedCaseCount :: int
  MaximumNestedCase :: int

text \<open>A time is its distance from Go's zero time.\<close>

record TimingManifest =
  timingVersion :: int
  timingPackage :: string
  timingToolchain :: string
  GeneratedAt :: int
  DefaultWeight :: int
  ReviewedInternalShardIDs :: "string list"
  timingEnvironment :: "string list"
  timingEntries :: "TimingEntry list"

record CensusEntry =
  memberID :: string
  memberKind :: string

record ResolvedTiming =
  resolvedEntries :: "TimingEntry list"
  DefaultedMemberIDs :: "string list"
  resolvedDigest :: string

definition kindForName :: "string \<Rightarrow> go_error + string" where
  "kindForName name =
     (if strings_HasPrefix name ''Test'' then Inr KindTest
      else if strings_HasPrefix name ''Fuzz'' then Inr KindFuzz
      else if strings_HasPrefix name ''Example'' then Inr KindExample
      else Inl (Errorf ''race/repeat member %q is not a Test, Fuzz, or Example'' [name]))"

definition validateCensusEntry :: "CensusEntry \<Rightarrow> go_error option" where
  "validateCensusEntry entry =
     (if memberID entry = [] \<or> strings_ContainsAny (memberID entry) [char_of (0::nat), char_of (13::nat), char_of (10::nat)]
      then Some (Errorf ''race/repeat census member has an unsafe empty or control-character identity'' [])
      else case kindForName (memberID entry) of
          Inl e \<Rightarrow> Some e
        | Inr wantKind \<Rightarrow> error_when (memberKind entry \<noteq> wantKind)
            ''race/repeat census member %q kind = %q, want %q'' [memberID entry, memberKind entry, wantKind])"

fun checkCensus :: "string option \<Rightarrow> CensusEntry list \<Rightarrow> go_error option" where
  "checkCensus previous [] = None"
| "checkCensus previous (entry # entries) = first_error
     [validateCensusEntry entry,
      error_when (previous = Some (memberID entry)) ''race/repeat census contains duplicate member %q'' [memberID entry],
      checkCensus (Some (memberID entry)) entries]"

definition canonicalCensus :: "CensusEntry list \<Rightarrow> go_error + CensusEntry list" where
  "canonicalCensus census =
     (let result = slices_SortFunc (\<lambda>left right. cmp_Compare (memberID left) (memberID right)) census
      in case checkCensus None result of Some e \<Rightarrow> Inl e | None \<Rightarrow> Inr result)"

definition validateTimingEntry :: "string set \<Rightarrow> TimingEntry \<Rightarrow> go_error option" where
  "validateTimingEntry seen entry = first_error
     [validateCensusEntry \<lparr>memberID = entryID entry, memberKind = entryKind entry\<rparr>,
      error_when (entryID entry \<in> seen) ''race/repeat timing manifest contains duplicate member %q'' [entryID entry],
      error_when (DurationWeight entry \<le> 0 \<or> SampleCount entry \<le> 0 \<or> NestedCaseCount entry < 0 \<or> MaximumNestedCase entry < 0)
        ''race/repeat timing entry %q has invalid measurements'' [entryID entry],
      error_when (MaximumNestedCase entry > DurationWeight entry)
        ''race/repeat timing entry %q has a nested case weight %d above its top-level scheduling weight %d''
        [entryID entry, show_int (MaximumNestedCase entry), show_int (DurationWeight entry)]]"

fun validateTimingEntries :: "string set \<Rightarrow> TimingEntry list \<Rightarrow> go_error option" where
  "validateTimingEntries seen [] = None"
| "validateTimingEntries seen (entry # entries) = first_error
     [validateTimingEntry seen entry, validateTimingEntries (insert (entryID entry) seen) entries]"

definition validateTiming :: "TimingManifest \<Rightarrow> go_error option" where
  "validateTiming manifest = first_error
     [error_when (timingVersion manifest \<noteq> TimingFormatVersion)
        ''race/repeat timing format_version = %d, want %d'' [show_int (timingVersion manifest), show_int TimingFormatVersion],
      error_when (strings_TrimSpace (timingPackage manifest) = [] \<or> strings_TrimSpace (timingToolchain manifest) = [] \<or>
          GeneratedAt manifest = 0)
        ''race/repeat timing manifest has incomplete package, toolchain, or generation metadata'' [],
      error_when (DefaultWeight manifest \<le> 0 \<or> timingEntries manifest = [])
        ''race/repeat timing manifest has no positive default weight or entries'' [],
      error_when (\<not> slices_IsSorted (ReviewedInternalShardIDs manifest) \<or> \<not> slices_IsSorted (timingEnvironment manifest) \<or>
          \<not> slices_IsSorted (map entryID (timingEntries manifest)))
        ''race/repeat timing manifest is not canonical'' [],
      error_when (timingEnvironment manifest \<noteq> [ScheduledOracleEnvironment])
        ''race/repeat timing manifest does not bind the reviewed complete-census environment'' [],
      error_when (ReviewedInternalShardIDs manifest \<noteq> [])
        ''race/repeat internal case sharding is not implemented; nested families must be fully represented by their top-level weight'' [],
      validateTimingEntries {} (timingEntries manifest)]"

text \<open>The entries of the manifest by their identity, with the largest weight seen.\<close>

fun collectTiming ::
  "(string \<times> CensusEntry) list \<Rightarrow> (string \<times> TimingEntry) list \<Rightarrow> int \<Rightarrow> TimingEntry list
    \<Rightarrow> go_error + (string \<times> TimingEntry) list \<times> int" where
  "collectTiming live byID maximumWeight [] = Inr (byID, maximumWeight)"
| "collectTiming live byID maximumWeight (entry # entries) = (case map_of live (entryID entry) of
       None \<Rightarrow> Inl (Errorf ''race/repeat timing manifest contains unknown member %q'' [entryID entry])
     | Some censusEntry \<Rightarrow>
         if memberKind censusEntry \<noteq> entryKind entry then
           Inl (Errorf ''race/repeat timing member %q kind = %q, want %q'' [entryID entry, entryKind entry, memberKind censusEntry])
         else collectTiming live (AList.update (entryID entry) entry byID) (max maximumWeight (DurationWeight entry)) entries)"

definition timingFor :: "(string \<times> TimingEntry) list \<Rightarrow> int \<Rightarrow> CensusEntry \<Rightarrow> TimingEntry" where
  "timingFor byID maximumWeight entry = (case map_of byID (memberID entry) of
       Some timing \<Rightarrow> timing
     | None \<Rightarrow> \<lparr>entryID = memberID entry, entryKind = memberKind entry, DurationWeight = maximumWeight, SampleCount = 1,
         NestedCaseCount = 0, MaximumNestedCase = 0\<rparr>)"

text \<open>\<open>digestCensus\<close>, SHA-256 of the JSON encoding of the census, is a parameter.\<close>

definition Resolve :: "(CensusEntry list \<Rightarrow> string) \<Rightarrow> TimingManifest \<Rightarrow> CensusEntry list \<Rightarrow> go_error + ResolvedTiming" where
  "Resolve digestCensus manifest census =
     (case validateTiming manifest of
        Some e \<Rightarrow> Inl e
      | None \<Rightarrow>
          (case canonicalCensus census of
             Inl e \<Rightarrow> Inl e
           | Inr canonical \<Rightarrow>
               (let live = foldl (\<lambda>m entry. AList.update (memberID entry) entry m) [] canonical in
                case collectTiming live [] (DefaultWeight manifest) (timingEntries manifest) of
                  Inl e \<Rightarrow> Inl e
                | Inr (byID, maximumWeight) \<Rightarrow> Inr
                    \<lparr>resolvedEntries = map (timingFor byID maximumWeight) canonical,
                     DefaultedMemberIDs = map memberID (filter (\<lambda>entry. map_of byID (memberID entry) = None) canonical),
                     resolvedDigest = digestCensus canonical\<rparr>)))"

section \<open>Shards\<close>

record Shard =
  ID :: string
  MemberIDs :: "string list"
  ShardWeight :: int
  ShardTimeout :: int

text \<open>\<open>%02d\<close>\<close>

definition show_two :: "nat \<Rightarrow> string" where
  "show_two n = (if n < 10 then ''0'' @ show_nat n else show_nat n)"

text \<open>
  Both allocations put each entry into the lightest bin so far, the first among equals. The
  search is that of the code; a bin is a shard, or the total and the members of a group.
\<close>

definition lightest :: "int list \<Rightarrow> nat" where
  "lightest totals = foldl (\<lambda>selected index. if totals ! index < totals ! selected then index else selected) 0 [1..<length totals]"

definition assign :: "('b \<Rightarrow> int) \<Rightarrow> ('b \<Rightarrow> 'e \<Rightarrow> 'b) \<Rightarrow> 'b list \<Rightarrow> 'e \<Rightarrow> 'b list" where
  "assign weigh put bins entry = (let selected = lightest (map weigh bins) in bins[selected := put (bins ! selected) entry])"

definition compareTiming :: "TimingEntry \<Rightarrow> TimingEntry \<Rightarrow> int" where
  "compareTiming left right =
     (if DurationWeight left \<noteq> DurationWeight right then (if DurationWeight left > DurationWeight right then - 1 else 1)
      else cmp_Compare (entryID left) (entryID right))"

definition putShard :: "Shard \<Rightarrow> TimingEntry \<Rightarrow> Shard" where
  "putShard shard entry =
     shard\<lparr>MemberIDs := MemberIDs shard @ [entryID entry], ShardWeight := int64 (ShardWeight shard + DurationWeight entry)\<rparr>"

definition derivedTimeoutSeconds :: "int \<Rightarrow> string \<Rightarrow> int" where
  "derivedTimeoutSeconds weightNanoseconds mode =
     (let seconds = weightNanoseconds sdiv 1000000000;
          multiplier = (if mode = ''race'' then 6 else 3);
          result = int64 (int64 (seconds * multiplier) + 60)
      in max 120 (min result (30 * 60)))"

definition emptyShard :: "string \<Rightarrow> nat \<Rightarrow> Shard" where
  "emptyShard mode index = \<lparr>ID = mode @ ''-'' @ show_two (index + 1), MemberIDs = [], ShardWeight = 0, ShardTimeout = 0\<rparr>"

definition finishShard :: "string \<Rightarrow> Shard \<Rightarrow> Shard" where
  "finishShard mode shard =
     shard\<lparr>MemberIDs := slices_SortFunc cmp_Compare (MemberIDs shard), ShardTimeout := derivedTimeoutSeconds (ShardWeight shard) mode\<rparr>"

definition AllocateLPT :: "TimingEntry list \<Rightarrow> int \<Rightarrow> string \<Rightarrow> go_error + Shard list" where
  "AllocateLPT entries shardCount mode =
     (if shardCount \<le> 0 \<or> shardCount > int (length entries)
      then Inl (Errorf ''race/repeat shard count must be positive and no larger than the census'' [])
      else
        (let ordered = slices_SortFunc compareTiming entries;
             shards = map (emptyShard mode) [0..<nat shardCount]
         in Inr (map (finishShard mode) (foldl (assign ShardWeight putShard) shards ordered))))"

fun checkDominance :: "int \<Rightarrow> string set \<Rightarrow> TimingEntry list \<Rightarrow> go_error option" where
  "checkDominance target reviewed [] = None"
| "checkDominance target reviewed (entry # entries) = first_error
     [error_when (NestedCaseCount entry \<ge> 2 \<and> DurationWeight entry > int64 (2 * target) \<and> entryID entry \<notin> reviewed)
        ''race/repeat top-level family %q dominates the shard target and requires reviewed internal case sharding'' [entryID entry],
      checkDominance target reviewed entries]"

definition ValidateNestedFamilies :: "TimingManifest \<Rightarrow> ResolvedTiming \<Rightarrow> int \<Rightarrow> go_error option" where
  "ValidateNestedFamilies manifest resolved shardCount =
     (if shardCount \<le> 0 then Some (Errorf ''race/repeat nested-family shard count is invalid'' [])
      else
        (let total = foldl (\<lambda>total entry. int64 (total + DurationWeight entry)) 0 (resolvedEntries resolved);
             target = total sdiv shardCount
         in checkDominance target (set (ReviewedInternalShardIDs manifest)) (resolvedEntries resolved)))"

section \<open>Work groups\<close>

record WorkUnit =
  unitID :: string
  unitMode :: string
  unitIteration :: int
  unitMembers :: "string list"
  unitWeight :: int
  unitTimeout :: int
  unitBinary :: string

definition raceEffectiveWeightMultiplier :: int where [go_const]: "raceEffectiveWeightMultiplier = 4"

definition effectiveGroupWeight :: "WorkUnit \<Rightarrow> int" where
  "effectiveGroupWeight u =
     max (if unitMode u = ''race'' then int64 (unitWeight u * raceEffectiveWeightMultiplier) else unitWeight u) 1"

definition compareUnits :: "WorkUnit \<Rightarrow> WorkUnit \<Rightarrow> int" where
  "compareUnits left right =
     (if effectiveGroupWeight left \<noteq> effectiveGroupWeight right
      then (if effectiveGroupWeight left > effectiveGroupWeight right then - 1 else 1)
      else cmp_Compare (unitID left) (unitID right))"

definition putUnit :: "int \<times> WorkUnit list \<Rightarrow> WorkUnit \<Rightarrow> int \<times> WorkUnit list" where
  "putUnit bin u = (int64 (fst bin + effectiveGroupWeight u), snd bin @ [u])"

definition SelectWorkGroup :: "WorkUnit list \<Rightarrow> int \<Rightarrow> int \<Rightarrow> go_error + WorkUnit list" where
  "SelectWorkGroup us index n =
     (if n < 1 \<or> index < 1 \<or> index > n then Inl (Errorf ''race/repeat work group selection requires 1 <= index <= count'' [])
      else if us = [] then Inl (Errorf ''race/repeat work group selection requires at least one work unit'' [])
      else if n > int (length us) then
        Inl (Errorf ''race/repeat work group count %d exceeds the %d planned work units'' [show_int n, show_nat (length us)])
      else
        (let ordered = slices_SortFunc compareUnits us;
             groups = foldl (assign fst putUnit) (replicate (nat n) (0, [])) ordered;
             result = slices_SortFunc (\<lambda>left right. cmp_Compare (unitID left) (unitID right)) (snd (groups ! nat (index - 1)))
         in if result = [] then Inl (Errorf ''race/repeat work group %d of %d is empty'' [show_int index, show_int n])
            else Inr result))"

section \<open>The greedy allocation\<close>

lemma elem_le_sum_list_nonneg: "i < length xs \<Longrightarrow> \<forall>x\<in>set xs. 0 \<le> x \<Longrightarrow> xs ! i \<le> sum_list xs" for xs :: "int list"
proof (induction xs arbitrary: i)
  case (Cons x xs)
  then show ?case by (cases i) (auto simp: sum_list_nonneg intro: add_increasing)
qed simp

text \<open>
  What an allocation needs to know of its bins: putting an entry adds its weight and its tag.
\<close>

lemma lightest_minimal:
  assumes "totals \<noteq> []"
  shows "lightest totals < length totals" and "\<forall>x\<in>set totals. totals ! lightest totals \<le> x"
proof -
  have f: "foldl (\<lambda>selected index. if totals ! index < totals ! selected then index else selected) 0 [1..<n] < n \<and>
      (\<forall>i<n. totals ! foldl (\<lambda>selected index. if totals ! index < totals ! selected then index else selected) 0 [1..<n] \<le> totals ! i)"
    if "0 < n" for n
    using that
  proof (induction n rule: nat_induct_non_zero)
    case 1
    then show ?case by simp
  next
    case (Suc n)
    let ?s = "foldl (\<lambda>selected index. if totals ! index < totals ! selected then index else selected) 0 [1..<n]"
    have s: "?s < n" "\<forall>i<n. totals ! ?s \<le> totals ! i" using Suc.IH by auto
    show ?case
    proof (cases "totals ! n < totals ! ?s")
      case True
      then have "\<forall>i<Suc n. totals ! n \<le> totals ! i" using s(2) by (auto simp: less_Suc_eq intro: order.trans less_imp_le)
      then show ?thesis using True Suc.hyps by simp
    next
      case False
      then have "\<forall>i<Suc n. totals ! ?s \<le> totals ! i" using s(2) by (auto simp: less_Suc_eq)
      then show ?thesis using False s(1) Suc.hyps by simp
    qed
  qed
  from f [of "length totals"] assms
  show "lightest totals < length totals" and "\<forall>x\<in>set totals. totals ! lightest totals \<le> x"
    by (auto simp: lightest_def in_set_conv_nth)
qed

locale greedy =
  fixes weigh :: "'b \<Rightarrow> int" and put :: "'b \<Rightarrow> 'e \<Rightarrow> 'b" and members :: "'b \<Rightarrow> 'm list"
    and weight :: "'e \<Rightarrow> int" and tag :: "'e \<Rightarrow> 'm"
  assumes weigh_put: "weigh (put b e) = int64 (weigh b + weight e)"
    and members_put: "members (put b e) = members b @ [tag e]"
begin

text \<open>
  The bins hold exactly the entries put into them, each entry in one bin, at their weight, and
  no bin is heavier than another by more than \<open>w\<close>.
\<close>

definition holds :: "'b \<Rightarrow> 'e list \<Rightarrow> bool" where
  "holds b part \<longleftrightarrow> weigh b = sum_list (map weight part) \<and> members b = map tag part"

definition balanced :: "int \<Rightarrow> 'e list \<Rightarrow> 'b list \<Rightarrow> bool" where
  "balanced w es bins \<longleftrightarrow>
     (\<exists>parts. list_all2 holds bins parts \<and> mset (concat parts) = mset es) \<and>
     (\<forall>b\<in>set bins. 0 \<le> weigh b \<and> (weigh b = 0 \<longleftrightarrow> members b = [])) \<and>
     (\<forall>b\<in>set bins. \<forall>c\<in>set bins. weigh b \<le> weigh c + w)"

lemma holds_total: "list_all2 holds bins parts \<Longrightarrow>
    sum_list (map weigh bins) = sum_list (map weight (concat parts)) \<and> concat (map members bins) = map tag (concat parts)"
  by (induction rule: list_all2_induct) (auto simp: holds_def)

lemma balanced_total:
  assumes "balanced w es bins"
  shows "sum_list (map weigh bins) = sum_list (map weight es)" "mset (concat (map members bins)) = mset (map tag es)"
proof -
  obtain parts where p: "list_all2 holds bins parts" "mset (concat parts) = mset es" using assms by (auto simp: balanced_def)
  have "sum_mset (image_mset weight (mset (concat parts))) = sum_mset (image_mset weight (mset es))" using p(2) by simp
  then show "sum_list (map weigh bins) = sum_list (map weight es)"
    using holds_total [OF p(1)] by (simp flip: mset_map sum_mset_sum_list)
  show "mset (concat (map members bins)) = mset (map tag es)"
    using holds_total [OF p(1)] p(2) by (simp del: mset_concat)
qed

lemma assign_length [simp]: "length (assign weigh put bins e) = length bins"
  by (simp add: assign_def Let_def)

lemma fold_length [simp]: "length (foldl (assign weigh put) bins es) = length bins"
  by (induction es arbitrary: bins) simp_all

lemma part_update: "i < length parts \<Longrightarrow> mset (concat (parts[i := parts ! i @ [e]])) = add_mset e (mset (concat parts))"
  by (induction parts arbitrary: i) (auto split: nat.split)

lemma assign_balanced:
  assumes "balanced w es bins" and "bins \<noteq> []" and "0 < weight e" and "weight e \<le> w"
    and "sum_list (map weight es) + weight e < 2 ^ 63"
  shows "balanced w (es @ [e]) (assign weigh put bins e)"
proof -
  define i where "i = lightest (map weigh bins)"
  have i: "i < length bins" and least: "\<forall>b\<in>set bins. weigh (bins ! i) \<le> weigh b"
    using lightest_minimal [of "map weigh bins"] assms(2) by (auto simp: i_def)
  let ?b = "put (bins ! i) e"
  have bin: "bins ! i \<in> set bins" using i by simp
  have nonneg: "\<forall>b\<in>set bins. 0 \<le> weigh b" using assms(1) by (simp add: balanced_def)
  have "weigh (bins ! i) \<le> sum_list (map weigh bins)"
    using elem_le_sum_list_nonneg [of i "map weigh bins"] nonneg i by simp
  then have small: "weigh (bins ! i) + weight e < 2 ^ 63" using balanced_total(1) [OF assms(1)] assms(5) by simp
  have w: "weigh ?b = weigh (bins ! i) + weight e"
    unfolding weigh_put by (rule int64_exact) (use small nonneg bin assms(3) in auto)
  have a: "assign weigh put bins e = bins[i := ?b]" by (simp add: assign_def i_def Let_def)
  have s: "set (bins[i := ?b]) \<subseteq> insert ?b (set bins)" by (rule set_update_subset_insert)
  obtain parts where p: "list_all2 holds bins parts" "mset (concat parts) = mset es" using assms(1) by (auto simp: balanced_def)
  have len: "i < length parts" using p(1) i by (simp add: list_all2_lengthD)
  have "holds ?b (parts ! i @ [e])"
    using list_all2_nthD [OF p(1) i] w by (simp add: holds_def members_put)
  then have "list_all2 holds (bins[i := ?b]) (parts[i := parts ! i @ [e]])" by (rule list_all2_update_cong [OF p(1)])
  then have "\<exists>parts. list_all2 holds (bins[i := ?b]) parts \<and> mset (concat parts) = mset (es @ [e])"
    using part_update [OF len, of e] p(2) by (metis add_mset_add_single mset.simps(1,2) mset_append)
  moreover have "\<forall>b\<in>set (bins[i := ?b]). 0 \<le> weigh b \<and> (weigh b = 0 \<longleftrightarrow> members b = [])"
  proof
    fix b
    assume "b \<in> set (bins[i := ?b])"
    then have "b = ?b \<or> b \<in> set bins" using s by auto
    then show "0 \<le> weigh b \<and> (weigh b = 0 \<longleftrightarrow> members b = [])"
      using assms(1,3) w nonneg bin by (auto simp: balanced_def members_put)
  qed
  moreover have "weigh b \<le> weigh c + w" if "b \<in> set (bins[i := ?b])" "c \<in> set (bins[i := ?b])" for b c
  proof -
    have "b = ?b \<or> b \<in> set bins" "c = ?b \<or> c \<in> set bins" using that s by auto
    moreover have "\<forall>b\<in>set bins. \<forall>c\<in>set bins. weigh b \<le> weigh c + w" using assms(1) by (simp add: balanced_def)
    ultimately show ?thesis using w least bin assms(3,4) by fastforce
  qed
  ultimately show ?thesis unfolding a balanced_def by blast
qed

lemma allocate_balanced:
  assumes "balanced w [] bins" and "bins \<noteq> []" and "\<forall>e\<in>set es. 0 < weight e \<and> weight e \<le> w"
    and "sum_list (map weight es) < 2 ^ 63"
  shows "balanced w es (foldl (assign weigh put) bins es)"
  using assms(3,4)
proof (induction es rule: rev_induct)
  case Nil
  then show ?case using assms(1) by simp
next
  case (snoc e es)
  then have "sum_list (map weight es) < 2 ^ 63" by auto
  then have b: "balanced w es (foldl (assign weigh put) bins es)" using snoc by simp
  have "foldl (assign weigh put) bins es \<noteq> []" using assms(2) fold_length [of bins es] by force
  then show ?case using assign_balanced [OF b] snoc.prems by simp
qed

text \<open>An empty bin is lighter than any other, so each entry fills one while there is one.\<close>

lemma allocate_fills:
  assumes "balanced w [] bins" and "bins \<noteq> []" and "\<forall>e\<in>set es. 0 < weight e \<and> weight e \<le> w"
    and "sum_list (map weight es) < 2 ^ 63"
  shows "length (filter (\<lambda>b. members b = []) (foldl (assign weigh put) bins es)) \<le> length bins - length es"
  using assms(3,4)
proof (induction es rule: rev_induct)
  case Nil
  then show ?case by simp
next
  case (snoc e es)
  let ?bins = "foldl (assign weigh put) bins es" and ?i = "lightest (map weigh (foldl (assign weigh put) bins es))"
  have l: "sum_list (map weight es) < 2 ^ 63" using snoc.prems by auto
  have ne: "?bins \<noteq> []" using assms(2) fold_length [of bins es] by force
  have b: "\<forall>b\<in>set ?bins. 0 \<le> weigh b \<and> (weigh b = 0 \<longleftrightarrow> members b = [])"
    using allocate_balanced [OF assms(1,2) _ l] snoc.prems by (simp add: balanced_def)
  have i: "?i < length ?bins" and least: "\<forall>b\<in>set ?bins. weigh (?bins ! ?i) \<le> weigh b"
    using lightest_minimal [of "map weigh ?bins"] ne by auto
  have a: "foldl (assign weigh put) bins (es @ [e]) = ?bins[?i := put (?bins ! ?i) e]" by (simp add: assign_def Let_def)
  have split: "?bins = take ?i ?bins @ ?bins ! ?i # drop (Suc ?i) ?bins" using i by (rule id_take_nth_drop)
  have u: "filter (\<lambda>b. members b = []) (?bins[?i := put (?bins ! ?i) e]) =
      filter (\<lambda>b. members b = []) (take ?i ?bins @ drop (Suc ?i) ?bins)"
    using i by (simp add: upd_conv_take_nth_drop members_put)
  have f: "length (filter (\<lambda>b. members b = []) ?bins) =
      (if members (?bins ! ?i) = [] then 1 else 0) + length (filter (\<lambda>b. members b = []) (take ?i ?bins @ drop (Suc ?i) ?bins))"
    by (subst split) simp
  show ?case
  proof (cases "members (?bins ! ?i) = []")
    case True
    then show ?thesis using snoc.IH snoc.prems l unfolding a u f by simp
  next
    case False
    then have "0 < weigh (?bins ! ?i)" using b i by (metis nth_mem order_le_less)
    then have "\<forall>b\<in>set ?bins. members b \<noteq> []" using least b by fastforce
    then have "filter (\<lambda>b. members b = []) (?bins[?i := put (?bins ! ?i) e]) = []"
      unfolding u by (auto simp: filter_empty_conv dest: in_set_takeD in_set_dropD)
    then show ?thesis unfolding a by simp
  qed
qed

end

interpretation shards: greedy ShardWeight putShard MemberIDs DurationWeight entryID
  by unfold_locales (simp_all add: putShard_def)

interpretation groups: greedy fst putUnit snd effectiveGroupWeight "\<lambda>u. u"
  by unfold_locales (simp_all add: putUnit_def)

section \<open>Shards partition the census and are balanced\<close>

lemma heaviest: "\<forall>e\<in>set es. weight e \<le> (Max (insert 0 (weight ` set es)) :: int)"
  by simp

lemma timeout_bounds: "120 \<le> derivedTimeoutSeconds w mode" "derivedTimeoutSeconds w mode \<le> 1800"
  by (simp_all add: derivedTimeoutSeconds_def Let_def)

text \<open>The allocation before the members are sorted, and what it guarantees.\<close>

definition allocated :: "TimingEntry list \<Rightarrow> int \<Rightarrow> string \<Rightarrow> Shard list" where
  "allocated entries shardCount mode =
     foldl (assign ShardWeight putShard) (map (emptyShard mode) [0..<nat shardCount]) (slices_SortFunc compareTiming entries)"

lemma allocated_ok:
  assumes "0 < shardCount" "shardCount \<le> int (length entries)"
    and "\<forall>e\<in>set entries. 0 < DurationWeight e" "sum_list (map DurationWeight entries) < 2 ^ 63"
  shows "shards.balanced (Max (insert 0 (DurationWeight ` set entries))) entries (allocated entries shardCount mode)"
    and "\<forall>s\<in>set (allocated entries shardCount mode). MemberIDs s \<noteq> []"
    and "length (allocated entries shardCount mode) = nat shardCount"
proof -
  let ?es = "slices_SortFunc compareTiming entries" and ?bins = "map (emptyShard mode) [0..<nat shardCount]"
    and ?w = "Max (insert 0 (DurationWeight ` set entries))"
  have "list_all2 shards.holds ?bins (replicate (length ?bins) [])"
    by (auto simp: list_all2_conv_all_nth shards.holds_def emptyShard_def)
  then have start: "shards.balanced ?w [] ?bins"
    by (auto simp: shards.balanced_def emptyShard_def intro!: exI [of _ "replicate (nat shardCount) []"])
  have ne: "?bins \<noteq> []" using assms(1) by simp
  have ms: "mset (map DurationWeight ?es) = mset (map DurationWeight entries)" by simp
  have sum: "sum_list (map DurationWeight ?es) < 2 ^ 63"
    using assms(4) ms by (metis sum_mset_sum_list)
  have w: "\<forall>e\<in>set ?es. 0 < DurationWeight e \<and> DurationWeight e \<le> ?w" using assms(3) heaviest by auto
  show "shards.balanced ?w entries (allocated entries shardCount mode)"
    using shards.allocate_balanced [OF start ne w sum] by (simp add: shards.balanced_def allocated_def)
  have "length (filter (\<lambda>s. MemberIDs s = []) (allocated entries shardCount mode)) = 0"
    using shards.allocate_fills [OF start ne w sum] assms(2) by (simp add: allocated_def)
  then show "\<forall>s\<in>set (allocated entries shardCount mode). MemberIDs s \<noteq> []" by (simp add: filter_empty_conv)
  show "length (allocated entries shardCount mode) = nat shardCount" by (simp add: allocated_def)
qed

lemma AllocateLPT_allocated:
  "0 < shardCount \<Longrightarrow> shardCount \<le> int (length entries) \<Longrightarrow>
    AllocateLPT entries shardCount mode = Inr (map (finishShard mode) (allocated entries shardCount mode))"
  by (simp add: AllocateLPT_def allocated_def Let_def)

lemma finished_fields [simp]:
  "mset (MemberIDs (finishShard mode s)) = mset (MemberIDs s)" "ShardWeight (finishShard mode s) = ShardWeight s"
  "ShardTimeout (finishShard mode s) = derivedTimeoutSeconds (ShardWeight s) mode" "ID (finishShard mode s) = ID s"
  by (simp_all add: finishShard_def)

lemma sorted_strings: "sorted (slices_SortFunc cmp_Compare (xs :: 'a::linorder list))"
proof -
  have "cmp_Compare x y \<le> 0 \<longleftrightarrow> x \<le> y" for x y :: 'a by (auto simp: cmp_Compare_def)
  then show ?thesis using cmp.SortFunc_sorted [of xs] by simp
qed

text \<open>The members of a shard, with the timing entries they stand for.\<close>

definition shardHolds :: "Shard \<Rightarrow> TimingEntry list \<Rightarrow> bool" where
  "shardHolds shard part \<longleftrightarrow>
     mset (MemberIDs shard) = mset (map entryID part) \<and> ShardWeight shard = sum_list (map DurationWeight part)"

lemma allocate_lpt:
  assumes "0 < shardCount" "shardCount \<le> int (length entries)"
    and "\<forall>e\<in>set entries. 0 < DurationWeight e" "sum_list (map DurationWeight entries) < 2 ^ 63"
  shows "\<exists>shards parts. AllocateLPT entries shardCount mode = Inr shards \<and> length shards = nat shardCount \<and>
     list_all2 shardHolds shards parts \<and> mset (concat parts) = mset entries \<and>
     (\<forall>s\<in>set shards. MemberIDs s \<noteq> [] \<and> sorted (MemberIDs s) \<and> 0 < ShardWeight s \<and>
        120 \<le> ShardTimeout s \<and> ShardTimeout s \<le> 1800 \<and>
        (\<forall>t\<in>set shards. ShardWeight s \<le> ShardWeight t + Max (insert 0 (DurationWeight ` set entries))))"
proof -
  let ?a = "allocated entries shardCount mode"
  note ok = allocated_ok [OF assms, of mode]
  obtain parts where p: "list_all2 shards.holds ?a parts" "mset (concat parts) = mset entries"
    using ok(1) by (auto simp: shards.balanced_def)
  have "list_all2 shardHolds (map (finishShard mode) ?a) parts"
    unfolding list.rel_map
    by (rule list_all2_mono [OF p(1)]) (simp add: shardHolds_def shards.holds_def)
  moreover have "MemberIDs (finishShard mode s) \<noteq> []" if "s \<in> set ?a" for s
    using ok(2) that finished_fields(1) [of mode s] by (metis mset_zero_iff)
  moreover have "0 < ShardWeight s" if "s \<in> set ?a" for s
    using ok(1,2) that unfolding shards.balanced_def by (metis order_le_less)
  moreover have "sorted (MemberIDs (finishShard mode s))" for s
    by (simp add: finishShard_def sorted_strings)
  ultimately show ?thesis
    using ok(1,3) p(2) AllocateLPT_allocated [OF assms(1,2)] timeout_bounds
    by (intro exI [of _ "map (finishShard mode) ?a"] exI [of _ parts]) (auto simp: shards.balanced_def)
qed

text \<open>
  C33. When the shard count is positive and at most the number of entries and the weights are
  positive and their sum fits 64 bits, the allocation succeeds. It makes as many shards as asked,
  puts every entry into exactly one of them, records the exact weight of each, leaves none empty,
  lists their members in order, gives each a timeout between two and thirty minutes, and no shard
  is heavier than another by more than the heaviest entry.
\<close>

theorem lpt_allocation_balanced:
  assumes "0 < shardCount" "shardCount \<le> int (length entries)"
    and "\<forall>e\<in>set entries. 0 < DurationWeight e" "sum_list (map DurationWeight entries) < 2 ^ 63"
  shows "\<exists>shards parts. AllocateLPT entries shardCount mode = Inr shards \<and> length shards = nat shardCount \<and>
     list_all2 shardHolds shards parts \<and> mset (concat parts) = mset entries \<and>
     (\<forall>s\<in>set shards. MemberIDs s \<noteq> [] \<and> sorted (MemberIDs s) \<and> 0 < ShardWeight s \<and>
        120 \<le> ShardTimeout s \<and> ShardTimeout s \<le> 1800 \<and>
        (\<forall>t\<in>set shards. ShardWeight s \<le> ShardWeight t + Max (insert 0 (DurationWeight ` set entries))))"
  by (rule allocate_lpt [OF assms])

definition timingOf :: "string \<Rightarrow> int \<Rightarrow> TimingEntry" where
  "timingOf name w = \<lparr>entryID = name, entryKind = KindTest, DurationWeight = w, SampleCount = 1, NestedCaseCount = 0, MaximumNestedCase = 0\<rparr>"

definition sampleTiming :: "TimingEntry list" where
  "sampleTiming = [timingOf ''TestA'' 50, timingOf ''TestB'' 90, timingOf ''TestC'' 60]"

theorem lpt_allocation_balanced_witness:
  "\<exists>shards. AllocateLPT sampleTiming 2 ''race'' = Inr shards \<and> length shards = 2 \<and>
     map MemberIDs shards = [[''TestB''], [''TestA'', ''TestC'']] \<and> ShardWeight (shards ! 1) \<le> ShardWeight (shards ! 0) + 90"
proof -
  have e: "0 < (2::int)" "2 \<le> int (length sampleTiming)" "\<forall>e\<in>set sampleTiming. 0 < DurationWeight e"
    "sum_list (map DurationWeight sampleTiming) < 2 ^ 63" "Max (insert 0 (DurationWeight ` set sampleTiming)) = 90"
    by (simp_all add: sampleTiming_def timingOf_def)
  obtain shards where s: "AllocateLPT sampleTiming 2 ''race'' = Inr shards" "length shards = 2"
    "\<forall>s\<in>set shards. \<forall>t\<in>set shards. ShardWeight s \<le> ShardWeight t + 90"
    using lpt_allocation_balanced [OF e(1-4), of "''race''"] e(5) by auto
  have "map_sum (\<lambda>_. ()) (map MemberIDs) (AllocateLPT sampleTiming 2 ''race'') = Inr [[''TestB''], [''TestA'', ''TestC'']]"
    by code_simp
  moreover have "shards ! 0 \<in> set shards" "shards ! 1 \<in> set shards" using s(2) by simp_all
  ultimately show ?thesis using s by simp
qed

section \<open>Groups partition the work units\<close>

definition grouped :: "WorkUnit list \<Rightarrow> int \<Rightarrow> (int \<times> WorkUnit list) list" where
  "grouped us n = foldl (assign fst putUnit) (replicate (nat n) (0, [])) (slices_SortFunc compareUnits us)"

definition sortUnits :: "WorkUnit list \<Rightarrow> WorkUnit list" where
  "sortUnits = slices_SortFunc (\<lambda>left right. cmp_Compare (unitID left) (unitID right))"

lemma grouped_ok:
  assumes "1 \<le> n" "n \<le> int (length us)" "sum_list (map effectiveGroupWeight us) < 2 ^ 63"
  shows "groups.balanced (Max (insert 0 (effectiveGroupWeight ` set us))) us (grouped us n)"
    and "\<forall>g\<in>set (grouped us n). snd g \<noteq> []" and "length (grouped us n) = nat n"
proof -
  let ?us = "slices_SortFunc compareUnits us" and ?bins = "replicate (nat n) (0::int, [] :: WorkUnit list)"
    and ?w = "Max (insert 0 (effectiveGroupWeight ` set us))"
  have "list_all2 groups.holds ?bins (replicate (length ?bins) [])"
    by (auto simp: list_all2_conv_all_nth groups.holds_def)
  then have start: "groups.balanced ?w [] ?bins"
    by (auto simp: groups.balanced_def intro!: exI [of _ "replicate (nat n) []"])
  have ne: "?bins \<noteq> []" using assms(1) by simp
  have "mset (map effectiveGroupWeight ?us) = mset (map effectiveGroupWeight us)" by simp
  then have sum: "sum_list (map effectiveGroupWeight ?us) < 2 ^ 63" using assms(3) by (metis sum_mset_sum_list)
  have w: "\<forall>u\<in>set ?us. 0 < effectiveGroupWeight u \<and> effectiveGroupWeight u \<le> ?w"
    using heaviest [of us effectiveGroupWeight] by (auto simp: effectiveGroupWeight_def)
  show "groups.balanced ?w us (grouped us n)"
    using groups.allocate_balanced [OF start ne w sum] by (simp add: groups.balanced_def grouped_def)
  have "length (filter (\<lambda>g. snd g = []) (grouped us n)) = 0"
    using groups.allocate_fills [OF start ne w sum] assms(2) by (simp add: grouped_def)
  then show "\<forall>g\<in>set (grouped us n). snd g \<noteq> []" by (simp add: filter_empty_conv)
  show "length (grouped us n) = nat n" by (simp add: grouped_def)
qed

lemma sortUnits_sorted: "sorted (map unitID (sortUnits us))"
proof -
  have c: "cmp_Compare x y \<le> 0 \<longleftrightarrow> x \<le> y" for x y :: string by (auto simp: cmp_Compare_def)
  have "go_compare (\<lambda>left right. cmp_Compare (unitID left) (unitID right))"
    by (rule go_compare_on) (rule cmp.go_compare_axioms)
  from go_compare.SortFunc_sorted [OF this, of us] show ?thesis
    by (simp add: sortUnits_def c sorted_map)
qed

lemma select_groups:
  assumes "1 \<le> n" "n \<le> int (length us)" "sum_list (map effectiveGroupWeight us) < 2 ^ 63"
  shows "\<exists>groups. length groups = nat n \<and> mset (concat groups) = mset us \<and>
     (\<forall>index. 1 \<le> index \<and> index \<le> n \<longrightarrow> SelectWorkGroup us index n = Inr (groups ! nat (index - 1))) \<and>
     (\<forall>g\<in>set groups. g \<noteq> [] \<and> sorted (map unitID g) \<and>
        (\<forall>h\<in>set groups. sum_list (map effectiveGroupWeight g) \<le>
           sum_list (map effectiveGroupWeight h) + Max (insert 0 (effectiveGroupWeight ` set us))))"
proof -
  let ?g = "grouped us n"
  note ok = grouped_ok [OF assms]
  have sorting: "mset (sortUnits g) = mset g" for g by (simp add: sortUnits_def)
  have same: "sum_list (map effectiveGroupWeight (sortUnits g)) = sum_list (map effectiveGroupWeight g)" for g
    by (metis mset_map sorting sum_mset_sum_list)
  obtain parts where p: "list_all2 groups.holds ?g parts" "mset (concat parts) = mset us"
    using ok(1) by (auto simp: groups.balanced_def)
  have "mset (concat (map (\<lambda>g. sortUnits (snd g)) xs)) = mset (concat (map snd xs))" for xs :: "(int \<times> WorkUnit list) list"
    by (induction xs) (simp_all add: sorting)
  then have "mset (concat (map (\<lambda>g. sortUnits (snd g)) ?g)) = mset us"
    using groups.balanced_total(2) [OF ok(1)] by simp
  moreover have weights: "fst g = sum_list (map effectiveGroupWeight (snd g))" if "g \<in> set ?g" for g
    using p(1) that by (fastforce simp: list_all2_conv_all_nth in_set_conv_nth groups.holds_def)
  moreover have "sortUnits (snd g) \<noteq> []" if "g \<in> set ?g" for g using ok(2) that by (metis mset_zero_iff sorting)
  moreover have "SelectWorkGroup us index n = Inr (map (\<lambda>g. sortUnits (snd g)) ?g ! nat (index - 1))"
    if i: "1 \<le> index" "index \<le> n" for index
  proof -
    have "nat (index - 1) < length ?g" using i ok(3) by linarith
    moreover have "us \<noteq> []" using assms(1,2) by auto
    ultimately show ?thesis
      using i assms(1,2) \<open>\<And>g. g \<in> set ?g \<Longrightarrow> sortUnits (snd g) \<noteq> []\<close>
      by (simp add: SelectWorkGroup_def grouped_def [symmetric] sortUnits_def [symmetric] Let_def)
  qed
  ultimately show ?thesis
    using ok(1,3) sortUnits_sorted
    by (intro exI [of _ "map (\<lambda>g. sortUnits (snd g)) ?g"]) (auto simp: same groups.balanced_def weights [symmetric])
qed

text \<open>
  For a group count between one and the number of work units, every index selects a group:
  the groups together are the work units, each in exactly one group, no group is empty, each is
  sorted by identity, and no group is heavier than another by more than the heaviest unit. The
  effective weights must sum to less than two to the 63.
\<close>

theorem work_groups_partition:
  assumes "1 \<le> n" "n \<le> int (length us)" "sum_list (map effectiveGroupWeight us) < 2 ^ 63"
  shows "\<exists>groups. length groups = nat n \<and> mset (concat groups) = mset us \<and>
     (\<forall>index. 1 \<le> index \<and> index \<le> n \<longrightarrow> SelectWorkGroup us index n = Inr (groups ! nat (index - 1))) \<and>
     (\<forall>g\<in>set groups. g \<noteq> [] \<and> sorted (map unitID g) \<and>
        (\<forall>h\<in>set groups. sum_list (map effectiveGroupWeight g) \<le>
           sum_list (map effectiveGroupWeight h) + Max (insert 0 (effectiveGroupWeight ` set us))))"
  by (rule select_groups [OF assms])

definition unitOf :: "string \<Rightarrow> string \<Rightarrow> int \<Rightarrow> WorkUnit" where
  "unitOf name mode w = \<lparr>unitID = name, unitMode = mode, unitIteration = 1, unitMembers = [], unitWeight = w, unitTimeout = 120, unitBinary = []\<rparr>"

definition sampleUnits :: "WorkUnit list" where
  "sampleUnits = [unitOf ''normal-01-01'' ''normal'' 100, unitOf ''normal-01-02'' ''normal'' 0, unitOf ''race-01-01'' ''race'' 40]"

theorem work_groups_partition_witness:
  "\<exists>groups. length groups = 2 \<and> mset (concat groups) = mset sampleUnits \<and>
     SelectWorkGroup sampleUnits 1 2 = Inr (groups ! 0) \<and> SelectWorkGroup sampleUnits 2 2 = Inr (groups ! 1)"
proof -
  have "1 \<le> (2::int)" "2 \<le> int (length sampleUnits)" "sum_list (map effectiveGroupWeight sampleUnits) < 2 ^ 63"
    by (simp, simp add: sampleUnits_def)
      (simp add: sampleUnits_def unitOf_def effectiveGroupWeight_def go_const int64_exact)
  from work_groups_partition [OF this] obtain groups where g: "length groups = 2" "mset (concat groups) = mset sampleUnits"
    "\<forall>index. 1 \<le> index \<and> index \<le> 2 \<longrightarrow> SelectWorkGroup sampleUnits index 2 = Inr (groups ! nat (index - 1))"
    by auto
  then show ?thesis using spec [OF g(3), of 1] spec [OF g(3), of 2] by auto
qed

end
