(* ===== verification/Race_Plan.thy ===== *)
theory Race_Plan
  imports Sharding Execution_Plan
begin

text \<open>
  The plan of the race/repeat gate (\<open>internal/racerepeat/plan.go\<close>) and the results bound to it
  (\<open>result.go\<close>): building the work units of every mode and iteration, normalizing and validating
  a plan, validating a result. SHA-256 over JSON is a parameter.

  The results: an accepted plan runs every test of the census exactly once in every mode and
  iteration, and the plan built from valid inputs is accepted.
\<close>

section \<open>The data of a plan\<close>

definition PlanFormatVersion :: int where [go_const]: "PlanFormatVersion = 1"

record TimingArtifact =
  timingName :: string
  timingDigest :: string

record BinaryBinding =
  binaryMode :: string
  FileName :: string
  binaryDigest :: string

record RacePlan =
  planVersion :: int
  planIdentity :: string
  planWorkspace :: string
  planToolchain :: string
  planPackage :: string
  planTiming :: TimingArtifact
  planCensusDigest :: string
  planCensus :: "CensusEntry list"
  planEnvironment :: "string list"
  planBinaries :: "BinaryBinding list"
  RepeatCount :: int
  ShardCount :: int
  WorkUnits :: "WorkUnit list"
  DefaultedIDs :: "string list"

record raceDigests =
  digestOfCensusEntries :: "CensusEntry list \<Rightarrow> string"
  digestOfRacePlan :: "RacePlan \<Rightarrow> string"

section \<open>Building the work units\<close>

definition workUnitOf :: "string \<Rightarrow> string \<Rightarrow> nat \<Rightarrow> nat \<Rightarrow> Shard \<Rightarrow> WorkUnit" where
  "workUnitOf digest mode iteration shardIndex shard =
     \<lparr>unitID = mode @ ''-'' @ show_two iteration @ ''-'' @ show_two (shardIndex + 1), unitMode = mode,
      unitIteration = int iteration, unitMembers = MemberIDs shard, unitWeight = ShardWeight shard,
      unitTimeout = ShardTimeout shard, unitBinary = digest\<rparr>"

definition unitsOfIteration :: "string \<Rightarrow> string \<Rightarrow> Shard list \<Rightarrow> nat \<Rightarrow> WorkUnit list" where
  "unitsOfIteration digest mode shards iteration =
     map (\<lambda>(shardIndex, shard). workUnitOf digest mode iteration shardIndex shard) (enumerate 0 shards)"

fun buildModes ::
  "(string \<times> BinaryBinding) list \<Rightarrow> TimingEntry list \<Rightarrow> int \<Rightarrow> int \<Rightarrow> string list \<Rightarrow> go_error + WorkUnit list" where
  "buildModes binaryByMode entries shardCount repeatCount [] = Inr []"
| "buildModes binaryByMode entries shardCount repeatCount (mode # modes) =
     (case map_of binaryByMode mode of
        None \<Rightarrow> Inl (Errorf ''race/repeat plan has no %s binary'' [mode])
      | Some binary \<Rightarrow>
          (case AllocateLPT entries shardCount mode of
             Inl e \<Rightarrow> Inl e
           | Inr shards \<Rightarrow>
               (let iterations = (if mode = ''race'' then 1 else repeatCount);
                    us = concat (map (unitsOfIteration (binaryDigest binary) mode shards) [1..<Suc (nat iterations)])
                in case buildModes binaryByMode entries shardCount repeatCount modes of
                     Inl e \<Rightarrow> Inl e
                   | Inr rest \<Rightarrow> Inr (us @ rest))))"

definition binariesByMode :: "BinaryBinding list \<Rightarrow> (string \<times> BinaryBinding) list" where
  "binariesByMode binaries = foldl (\<lambda>m binary. AList.update (binaryMode binary) binary m) [] binaries"

definition buildWorkUnits :: "ResolvedTiming \<Rightarrow> BinaryBinding list \<Rightarrow> int \<Rightarrow> int \<Rightarrow> go_error + WorkUnit list" where
  "buildWorkUnits resolved binaries shardCount repeatCount =
     buildModes (binariesByMode binaries) (resolvedEntries resolved) shardCount repeatCount [''normal'', ''race'']"

section \<open>Validating a plan\<close>

definition validateBinary :: "BinaryBinding \<Rightarrow> go_error option" where
  "validateBinary binary = first_error
     [error_when (FileName binary = [] \<or> strings_ContainsAny (FileName binary)
          [CHR ''/'', char_of (92::nat), char_of (0::nat), char_of (13::nat), char_of (10::nat)])
        ''race/repeat %s binary file name is unsafe'' [binaryMode binary],
      wrap_error ''validate race/repeat %s binary digest: %w'' [binaryMode binary]
        (ValidateDigest (''race/repeat '' @ binaryMode binary @ '' binary'') (binaryDigest binary))]"

definition validateBinaries :: "BinaryBinding list \<Rightarrow> go_error + (string \<times> BinaryBinding) list" where
  "validateBinaries binaries =
     (if map binaryMode binaries \<noteq> [''normal'', ''race''] then
        Inl (Errorf ''race/repeat plan requires canonical normal and race binaries'' [])
      else case first_error (map validateBinary binaries) of
          Some e \<Rightarrow> Inl e
        | None \<Rightarrow> Inr (binariesByMode binaries))"

definition expectedIterations :: "RacePlan \<Rightarrow> string \<Rightarrow> int" where
  "expectedIterations plan mode = (if mode = ''normal'' then RepeatCount plan else if mode = ''race'' then 1 else 0)"

definition coverageKey :: "string \<Rightarrow> int \<Rightarrow> string" where
  "coverageKey mode iteration = mode @ '':'' @ show_int iteration"

record unitScan =
  previousUnit :: string
  seenUnits :: "string set"
  coverage :: "(string \<times> string set) list"
  shardCounts :: "(string \<times> int) list"

definition coveredAt :: "unitScan \<Rightarrow> string \<Rightarrow> string set" where
  "coveredAt scan key = (case map_of (coverage scan) key of None \<Rightarrow> {} | Some members \<Rightarrow> members)"

definition shardsAt :: "unitScan \<Rightarrow> string \<Rightarrow> int" where
  "shardsAt scan key = (case map_of (shardCounts scan) key of None \<Rightarrow> 0 | Some n \<Rightarrow> n)"

fun coverMembers :: "CensusEntry list \<Rightarrow> WorkUnit \<Rightarrow> string set \<Rightarrow> string list \<Rightarrow> go_error + string set" where
  "coverMembers census u covered [] = Inr covered"
| "coverMembers census u covered (m # ms) =
     (if \<not> list_ex (\<lambda>entry. memberID entry = m) census \<or> m \<in> covered
      then Inl (Errorf ''race/repeat work unit %q has an unknown or overlapping member %q'' [unitID u, m])
      else coverMembers census u (insert m covered) ms)"

definition validateUnitFields :: "RacePlan \<Rightarrow> (string \<times> BinaryBinding) list \<Rightarrow> unitScan \<Rightarrow> WorkUnit \<Rightarrow> go_error option" where
  "validateUnitFields plan binaries scan u = first_error
     [error_when (unitID u = [] \<or> unitID u < previousUnit scan \<or> unitID u \<in> seenUnits scan)
        ''race/repeat work-unit identities are empty, duplicate, or non-canonical'' [],
      error_when (case map_of binaries (unitMode u) of None \<Rightarrow> True | Some binary \<Rightarrow> unitBinary u \<noteq> binaryDigest binary)
        ''race/repeat work unit %q has an invalid binary binding'' [unitID u],
      error_when (unitIteration u \<le> 0 \<or> unitIteration u > expectedIterations plan (unitMode u) \<or>
          unitWeight u \<le> 0 \<or> unitTimeout u \<le> 0 \<or> unitMembers u = [] \<or> \<not> slices_IsSorted (unitMembers u))
        ''race/repeat work unit %q has invalid bounds or members'' [unitID u]]"

fun scanUnits :: "RacePlan \<Rightarrow> (string \<times> BinaryBinding) list \<Rightarrow> unitScan \<Rightarrow> WorkUnit list \<Rightarrow> go_error + unitScan" where
  "scanUnits plan binaries scan [] = Inr scan"
| "scanUnits plan binaries scan (u # us) =
     (case validateUnitFields plan binaries scan u of
        Some e \<Rightarrow> Inl e
      | None \<Rightarrow>
          (let key = coverageKey (unitMode u) (unitIteration u) in
           case coverMembers (planCensus plan) u (coveredAt scan key) (unitMembers u) of
             Inl e \<Rightarrow> Inl e
           | Inr covered \<Rightarrow> scanUnits plan binaries
               \<lparr>previousUnit = unitID u, seenUnits = insert (unitID u) (seenUnits scan),
                coverage = AList.update key covered (coverage scan),
                shardCounts = AList.update key (shardsAt scan key + 1) (shardCounts scan)\<rparr> us))"

text \<open>The code ranges over a map of the two modes; the order decides only which error is returned.\<close>

definition checkIteration :: "RacePlan \<Rightarrow> unitScan \<Rightarrow> string \<times> int \<Rightarrow> go_error option" where
  "checkIteration plan scan = (\<lambda>(mode, iteration). first_error
     [error_when (card (coveredAt scan (coverageKey mode iteration)) \<noteq> length (planCensus plan))
        ''race/repeat plan incompletely covers %s iteration %d'' [mode, show_int iteration],
      error_when (shardsAt scan (coverageKey mode iteration) \<noteq> ShardCount plan)
        ''race/repeat plan has %d %s iteration %d shards, want %d''
        [show_int (shardsAt scan (coverageKey mode iteration)), mode, show_int iteration, show_int (ShardCount plan)]])"

definition expectedRuns :: "RacePlan \<Rightarrow> (string \<times> int) list" where
  "expectedRuns plan = concat (map (\<lambda>mode. map (\<lambda>iteration. (mode, iteration)) [1..expectedIterations plan mode]) [''normal'', ''race''])"

definition validateWorkUnits :: "RacePlan \<Rightarrow> (string \<times> BinaryBinding) list \<Rightarrow> go_error option" where
  "validateWorkUnits plan binaries =
     (case scanUnits plan binaries \<lparr>previousUnit = [], seenUnits = {}, coverage = [], shardCounts = []\<rparr> (WorkUnits plan) of
        Inl e \<Rightarrow> Some e
      | Inr scan \<Rightarrow> first_error (map (checkIteration plan scan) (expectedRuns plan)))"

fun validateDefaulted :: "CensusEntry list \<Rightarrow> string option \<Rightarrow> string list \<Rightarrow> go_error option" where
  "validateDefaulted census previous [] = None"
| "validateDefaulted census previous (m # ms) = first_error
     [error_when (previous = Some m) ''race/repeat defaulted member identity %q is duplicated'' [m],
      error_when (\<not> list_ex (\<lambda>entry. memberID entry = m) census)
        ''race/repeat defaulted member identity %q is outside the census'' [m],
      validateDefaulted census (Some m) ms]"

definition calculateID :: "raceDigests \<Rightarrow> RacePlan \<Rightarrow> string" where
  "calculateID digests plan = digestOfRacePlan digests (plan\<lparr>planIdentity := []\<rparr>)"

definition validateRacePlan :: "raceDigests \<Rightarrow> RacePlan \<Rightarrow> go_error option" where
  "validateRacePlan digests plan =
     (case first_error
        [error_when (planVersion plan \<noteq> PlanFormatVersion \<or> planIdentity plan = [])
           ''race/repeat plan has an invalid version or empty identity'' [],
         wrap_error ''validate race/repeat plan id: %w'' [] (ValidateDigest ''race/repeat plan id'' (planIdentity plan)),
         wrap_error ''validate race/repeat workspace: %w'' [] (ValidateDigest ''race/repeat workspace'' (planWorkspace plan)),
         error_when (planToolchain plan = [] \<or> planPackage plan = [] \<or> RepeatCount plan \<le> 0 \<or> ShardCount plan \<le> 0)
           ''race/repeat plan has incomplete toolchain, package, or execution bounds'' [],
         error_when (planEnvironment plan \<noteq> [ScheduledOracleEnvironment])
           ''race/repeat plan has an invalid complete-census environment'' [],
         error_when (timingName (planTiming plan) = []) ''race/repeat plan timing name is empty'' [],
         wrap_error ''validate race/repeat timing digest: %w'' []
           (ValidateDigest ''race/repeat timing'' (timingDigest (planTiming plan))),
         error_when (\<not> slices_IsSorted (DefaultedIDs plan)) ''race/repeat defaulted member identities are non-canonical'' [],
         validateDefaulted (planCensus plan) None (DefaultedIDs plan)] of
       Some e \<Rightarrow> Some e
     | None \<Rightarrow>
         if canonicalCensus (planCensus plan) \<noteq> Inr (planCensus plan)
         then Some (Errorf ''race/repeat plan census is invalid or non-canonical'' [])
         else if digestOfCensusEntries digests (planCensus plan) \<noteq> planCensusDigest plan
         then Some (Errorf ''race/repeat plan census digest does not match its members'' [])
         else
           (case validateBinaries (planBinaries plan) of
              Inl e \<Rightarrow> Some e
            | Inr binaryByMode \<Rightarrow> first_error
                [validateWorkUnits plan binaryByMode,
                 error_when (calculateID digests plan \<noteq> planIdentity plan)
                   ''race/repeat plan id does not match its canonical content'' []]))"

definition sortMembers :: "WorkUnit \<Rightarrow> WorkUnit" where
  "sortMembers u = u\<lparr>unitMembers := slices_SortFunc cmp_Compare (unitMembers u)\<rparr>"

definition normalizePlan :: "raceDigests \<Rightarrow> RacePlan \<Rightarrow> go_error + RacePlan" where
  "normalizePlan digests plan =
     (let plan = plan\<lparr>planCensus := slices_SortFunc (\<lambda>left right. cmp_Compare (memberID left) (memberID right)) (planCensus plan),
            planBinaries := slices_SortFunc (\<lambda>left right. cmp_Compare (binaryMode left) (binaryMode right)) (planBinaries plan),
            WorkUnits := sortUnits (map sortMembers (WorkUnits plan)),
            DefaultedIDs := slices_SortFunc cmp_Compare (DefaultedIDs plan),
            planIdentity := []\<rparr>;
          plan = plan\<lparr>planIdentity := calculateID digests plan\<rparr>
      in case validateRacePlan digests plan of Some e \<Rightarrow> Inl e | None \<Rightarrow> Inr plan)"

definition NewPlan ::
  "raceDigests \<Rightarrow> string \<Rightarrow> string \<Rightarrow> TimingArtifact \<Rightarrow> TimingManifest \<Rightarrow> CensusEntry list \<Rightarrow> BinaryBinding list \<Rightarrow> int \<Rightarrow> int
    \<Rightarrow> go_error + RacePlan" where
  "NewPlan digests workspace packagePath timing manifest census binaries shardCount repeatCount =
     (if shardCount \<le> 0 \<or> repeatCount \<le> 0 then Inl (Errorf ''race/repeat plan requires positive shard and repeat counts'' [])
      else if timingPackage manifest \<noteq> packagePath then
        Inl (Errorf ''race/repeat timing package = %q, want %q'' [timingPackage manifest, packagePath])
      else case Resolve (digestOfCensusEntries digests) manifest census of
          Inl e \<Rightarrow> Inl e
        | Inr resolved \<Rightarrow>
            (case ValidateNestedFamilies manifest resolved shardCount of
               Some e \<Rightarrow> Inl e
             | None \<Rightarrow>
                 (case canonicalCensus census of
                    Inl e \<Rightarrow> Inl e
                  | Inr canonical \<Rightarrow>
                      (case buildWorkUnits resolved binaries shardCount repeatCount of
                         Inl e \<Rightarrow> Inl e
                       | Inr us \<Rightarrow>
                           (case normalizePlan digests
                                \<lparr>planVersion = PlanFormatVersion, planIdentity = [], planWorkspace = workspace,
                                 planToolchain = timingToolchain manifest, planPackage = packagePath, planTiming = timing,
                                 planCensusDigest = resolvedDigest resolved, planCensus = canonical,
                                 planEnvironment = timingEnvironment manifest, planBinaries = binaries,
                                 RepeatCount = repeatCount, ShardCount = shardCount, WorkUnits = us,
                                 DefaultedIDs = DefaultedMemberIDs resolved\<rparr> of
                              Inl e \<Rightarrow> Inl e
                            | Inr normalized \<Rightarrow>
                                (case validateRacePlan digests normalized of
                                   Some e \<Rightarrow> Inl e
                                 | None \<Rightarrow> Inr normalized))))))"

section \<open>Results\<close>





section \<open>Accepted plans cover the census\<close>

definition modes :: "string set" where
  "modes = {''normal'', ''race''}"

lemma coverageKey_inj:
  "mode \<in> modes \<Longrightarrow> mode' \<in> modes \<Longrightarrow> coverageKey mode i = coverageKey mode' j \<longleftrightarrow> mode = mode' \<and> i = j"
  by (auto simp: modes_def coverageKey_def)

definition unitsOfRun :: "string \<Rightarrow> int \<Rightarrow> WorkUnit list \<Rightarrow> WorkUnit list" where
  "unitsOfRun mode iteration us = filter (\<lambda>u. unitMode u = mode \<and> unitIteration u = iteration) us"

definition runMembers :: "string \<Rightarrow> int \<Rightarrow> WorkUnit list \<Rightarrow> string list" where
  "runMembers mode iteration us = concat (map unitMembers (unitsOfRun mode iteration us))"

lemma runMembers_snoc:
  "runMembers mode i (us @ [u]) = runMembers mode i us @ (if unitMode u = mode \<and> unitIteration u = i then unitMembers u else [])"
  by (simp add: runMembers_def unitsOfRun_def)

definition unitsScanned :: "RacePlan \<Rightarrow> WorkUnit list \<Rightarrow> unitScan \<Rightarrow> bool" where
  "unitsScanned plan us scan \<longleftrightarrow>
     (\<forall>mode\<in>modes. \<forall>i. coveredAt scan (coverageKey mode i) = set (runMembers mode i us) \<and> distinct (runMembers mode i us) \<and>
        set (runMembers mode i us) \<subseteq> memberID ` set (planCensus plan) \<and>
        shardsAt scan (coverageKey mode i) = int (length (unitsOfRun mode i us)))"

lemma coverMembers_Inr:
  "coverMembers census u covered ms = Inr covered' \<longleftrightarrow>
     distinct ms \<and> set ms \<subseteq> memberID ` set census \<and> covered \<inter> set ms = {} \<and> covered' = covered \<union> set ms"
  by (induction census u covered ms rule: coverMembers.induct) (auto simp: list_ex_iff)

lemma coverMembers_ok:
  "distinct ms \<Longrightarrow> set ms \<subseteq> memberID ` set census \<Longrightarrow> covered \<inter> set ms = {} \<Longrightarrow>
    coverMembers census u covered ms = Inr (covered \<union> set ms)"
  by (simp add: coverMembers_Inr)

lemma scanned_unit:
  assumes "unitsScanned plan us scan" and "unitMode u \<in> modes"
    and "coverMembers (planCensus plan) u (coveredAt scan (coverageKey (unitMode u) (unitIteration u))) (unitMembers u) = Inr covered"
  shows "unitsScanned plan (us @ [u])
    \<lparr>previousUnit = p, seenUnits = s,
     coverage = AList.update (coverageKey (unitMode u) (unitIteration u)) covered (coverage scan),
     shardCounts = AList.update (coverageKey (unitMode u) (unitIteration u))
       (shardsAt scan (coverageKey (unitMode u) (unitIteration u)) + 1) (shardCounts scan)\<rparr>"
  unfolding unitsScanned_def
proof (intro ballI allI)
  fix mode i
  assume mode: "mode \<in> modes"
  let ?k = "coverageKey (unitMode u) (unitIteration u)"
  have c: "distinct (unitMembers u)" "set (unitMembers u) \<subseteq> memberID ` set (planCensus plan)"
    "coveredAt scan ?k \<inter> set (unitMembers u) = {}" "covered = coveredAt scan ?k \<union> set (unitMembers u)"
    using assms(3) by (simp_all add: coverMembers_Inr)
  have k: "coverageKey mode i = ?k \<longleftrightarrow> mode = unitMode u \<and> i = unitIteration u"
    using coverageKey_inj [OF mode assms(2)] .
  have s: "coveredAt scan (coverageKey mode i) = set (runMembers mode i us)" "distinct (runMembers mode i us)"
    "set (runMembers mode i us) \<subseteq> memberID ` set (planCensus plan)"
    "shardsAt scan (coverageKey mode i) = int (length (unitsOfRun mode i us))"
    using assms(1) mode unfolding unitsScanned_def by blast+
  let ?scan = "\<lparr>previousUnit = p, seenUnits = s, coverage = AList.update ?k covered (coverage scan),
     shardCounts = AList.update ?k (shardsAt scan ?k + 1) (shardCounts scan)\<rparr>"
  have a: "coveredAt ?scan key = (if key = ?k then covered else coveredAt scan key)"
    "shardsAt ?scan key = (if key = ?k then shardsAt scan ?k + 1 else shardsAt scan key)" for key
    by (simp_all add: coveredAt_def shardsAt_def update_conv')
  show "coveredAt ?scan (coverageKey mode i) = set (runMembers mode i (us @ [u])) \<and> distinct (runMembers mode i (us @ [u])) \<and>
      set (runMembers mode i (us @ [u])) \<subseteq> memberID ` set (planCensus plan) \<and>
      shardsAt ?scan (coverageKey mode i) = int (length (unitsOfRun mode i (us @ [u])))"
  proof (cases "mode = unitMode u \<and> i = unitIteration u")
    case True
    then show ?thesis unfolding a k using s c by (auto simp: runMembers_snoc unitsOfRun_def)
  next
    case False
    then have "runMembers mode i (us @ [u]) = runMembers mode i us" "unitsOfRun mode i (us @ [u]) = unitsOfRun mode i us"
      "coveredAt ?scan (coverageKey mode i) = coveredAt scan (coverageKey mode i)"
      "shardsAt ?scan (coverageKey mode i) = shardsAt scan (coverageKey mode i)"
      unfolding a k by (auto simp: runMembers_snoc unitsOfRun_def)
    then show ?thesis using s by (simp only: simp_thms)
  qed
qed

lemma scanUnits_scanned:
  "scanUnits plan binaries scan us = Inr scan' \<Longrightarrow> fst ` set binaries = modes \<Longrightarrow> unitsScanned plan prefix scan \<Longrightarrow>
    unitsScanned plan (prefix @ us) scan' \<and>
    (\<forall>u\<in>set us. unitMode u \<in> modes \<and> 1 \<le> unitIteration u \<and> unitIteration u \<le> expectedIterations plan (unitMode u))"
proof (induction us arbitrary: scan prefix)
  case Nil
  then show ?case by simp
next
  case (Cons u us)
  let ?key = "coverageKey (unitMode u) (unitIteration u)"
  obtain covered where f: "validateUnitFields plan binaries scan u = None"
    and c: "coverMembers (planCensus plan) u (coveredAt scan ?key) (unitMembers u) = Inr covered"
    and r: "scanUnits plan binaries
        \<lparr>previousUnit = unitID u, seenUnits = insert (unitID u) (seenUnits scan),
         coverage = AList.update ?key covered (coverage scan),
         shardCounts = AList.update ?key (shardsAt scan ?key + 1) (shardCounts scan)\<rparr> us = Inr scan'"
    using Cons.prems(1) by (auto simp: Let_def split: option.splits sum.splits)
  have "unitMode u \<in> fst ` set binaries"
    using f by (auto simp: validateUnitFields_def split: option.splits dest!: map_of_SomeD intro: rev_image_eqI)
  then have u: "unitMode u \<in> modes" "1 \<le> unitIteration u" "unitIteration u \<le> expectedIterations plan (unitMode u)"
    using f Cons.prems(2) by (auto simp: validateUnitFields_def)
  show ?case using Cons.IH [OF r Cons.prems(2) scanned_unit [OF Cons.prems(3) u(1) c]] u by simp
qed

lemma nothing_scanned: "unitsScanned plan [] \<lparr>previousUnit = [], seenUnits = {}, coverage = [], shardCounts = []\<rparr>"
  by (simp add: unitsScanned_def coveredAt_def shardsAt_def runMembers_def unitsOfRun_def)

lemma binariesByMode_modes: "map binaryMode binaries = [''normal'', ''race''] \<Longrightarrow>
    binariesByMode binaries = map (\<lambda>b. (binaryMode b, b)) binaries"
  unfolding binariesByMode_def using foldl_update_new [of "[]" binaryMode binaries "\<lambda>b. b"] by simp

lemma validateBinaries_modes:
  assumes "validateBinaries binaries = Inr byMode"
  shows "fst ` set byMode = modes" "map binaryMode binaries = [''normal'', ''race'']"
    "byMode = map (\<lambda>b. (binaryMode b, b)) binaries"
proof -
  show m: "map binaryMode binaries = [''normal'', ''race'']"
    using assms by (auto simp: validateBinaries_def split: if_splits option.splits)
  then show b: "byMode = map (\<lambda>b. (binaryMode b, b)) binaries"
    using assms binariesByMode_modes [OF m] by (auto simp: validateBinaries_def split: if_splits option.splits)
  have "fst ` set byMode = set (map binaryMode binaries)" unfolding b by force
  then show "fst ` set byMode = modes" unfolding m by (simp add: modes_def)
qed

text \<open>What it means that a plan runs the census in one mode and iteration.\<close>

definition coversRun :: "RacePlan \<Rightarrow> string \<Rightarrow> int \<Rightarrow> bool" where
  "coversRun plan mode i \<longleftrightarrow>
     mset (runMembers mode i (WorkUnits plan)) = mset (map memberID (planCensus plan)) \<and>
     distinct (map memberID (planCensus plan)) \<and> int (length (unitsOfRun mode i (WorkUnits plan))) = ShardCount plan"

lemma expectedRuns_set:
  "(mode, i) \<in> set (expectedRuns plan) \<longleftrightarrow> mode \<in> modes \<and> 1 \<le> i \<and> i \<le> expectedIterations plan mode"
  by (auto simp: expectedRuns_def modes_def)

lemma accepted_units_cover:
  assumes "validateWorkUnits plan byMode = None" and "fst ` set byMode = modes"
  shows "\<forall>mode\<in>modes. \<forall>i. 1 \<le> i \<and> i \<le> expectedIterations plan mode \<longrightarrow> coversRun plan mode i"
    and "\<forall>u\<in>set (WorkUnits plan). unitMode u \<in> modes \<and> 1 \<le> unitIteration u \<and> unitIteration u \<le> expectedIterations plan (unitMode u)"
proof -
  obtain scan where r: "scanUnits plan byMode \<lparr>previousUnit = [], seenUnits = {}, coverage = [], shardCounts = []\<rparr> (WorkUnits plan) = Inr scan"
    and checks: "\<forall>run\<in>set (expectedRuns plan). checkIteration plan scan run = None"
    using assms(1) by (auto simp: validateWorkUnits_def split: sum.splits)
  have s: "unitsScanned plan (WorkUnits plan) scan"
    and u: "\<forall>u\<in>set (WorkUnits plan). unitMode u \<in> modes \<and> 1 \<le> unitIteration u \<and> unitIteration u \<le> expectedIterations plan (unitMode u)"
    using scanUnits_scanned [OF r assms(2) nothing_scanned] by auto
  show "\<forall>u\<in>set (WorkUnits plan). unitMode u \<in> modes \<and> 1 \<le> unitIteration u \<and> unitIteration u \<le> expectedIterations plan (unitMode u)"
    by (rule u)
  show "\<forall>mode\<in>modes. \<forall>i. 1 \<le> i \<and> i \<le> expectedIterations plan mode \<longrightarrow> coversRun plan mode i"
  proof (intro ballI allI impI)
    fix mode i
    assume m: "mode \<in> modes" and i: "1 \<le> i \<and> i \<le> expectedIterations plan mode"
    let ?ms = "runMembers mode i (WorkUnits plan)"
    have d: "coveredAt scan (coverageKey mode i) = set ?ms" "distinct ?ms" "set ?ms \<subseteq> memberID ` set (planCensus plan)"
      "shardsAt scan (coverageKey mode i) = int (length (unitsOfRun mode i (WorkUnits plan)))"
      using s m unfolding unitsScanned_def by blast+
    have "checkIteration plan scan (mode, i) = None" using checks m i by (simp add: expectedRuns_set)
    then have c: "card (set ?ms) = length (map memberID (planCensus plan))"
      "int (length (unitsOfRun mode i (WorkUnits plan))) = ShardCount plan"
      using d(1,4) by (simp_all add: checkIteration_def)
    have "mset ?ms = mset (map memberID (planCensus plan))"
      by (rule covering_permutes) (use d(2,3) c(1) in auto)
    then show "coversRun plan mode i" using d(2) c(2) mset_eq_imp_distinct_iff unfolding coversRun_def by blast
  qed
qed

lemma accepted_plan_covers:
  assumes "validateRacePlan digests plan = None"
  shows "(\<forall>mode\<in>modes. \<forall>i. 1 \<le> i \<and> i \<le> expectedIterations plan mode \<longrightarrow> coversRun plan mode i) \<and>
    (\<forall>u\<in>set (WorkUnits plan). unitMode u \<in> modes \<and> 1 \<le> unitIteration u \<and> unitIteration u \<le> expectedIterations plan (unitMode u))"
proof -
  obtain byMode where "validateBinaries (planBinaries plan) = Inr byMode" "validateWorkUnits plan byMode = None"
    using assms by (auto simp: validateRacePlan_def split: option.splits if_splits sum.splits)
  then show ?thesis using accepted_units_cover validateBinaries_modes(1) by blast
qed


section \<open>A plan built from valid inputs is accepted\<close>

text \<open>The scan accepts sorted, distinct, well-formed units whose runs stay within the census.\<close>

definition unitFieldsOk :: "RacePlan \<Rightarrow> (string \<times> BinaryBinding) list \<Rightarrow> WorkUnit \<Rightarrow> bool" where
  "unitFieldsOk plan binaries u \<longleftrightarrow> unitID u \<noteq> [] \<and>
     (\<exists>binary. map_of binaries (unitMode u) = Some binary \<and> unitBinary u = binaryDigest binary) \<and> unitMode u \<in> modes \<and>
     1 \<le> unitIteration u \<and> unitIteration u \<le> expectedIterations plan (unitMode u) \<and>
     0 < unitWeight u \<and> 0 < unitTimeout u \<and> unitMembers u \<noteq> [] \<and> sorted (unitMembers u)"

lemma scanUnits_succeeds:
  assumes "\<forall>u\<in>set us. unitFieldsOk plan binaries u" and "sorted (map unitID (prefix @ us))" and "distinct (map unitID (prefix @ us))"
    and "\<forall>mode\<in>modes. \<forall>i. distinct (runMembers mode i (prefix @ us)) \<and>
      set (runMembers mode i (prefix @ us)) \<subseteq> memberID ` set (planCensus plan)"
    and "unitsScanned plan prefix scan" and "seenUnits scan = unitID ` set prefix"
    and "previousUnit scan = (if prefix = [] then [] else unitID (last prefix))"
  shows "\<exists>scan'. scanUnits plan binaries scan us = Inr scan' \<and> unitsScanned plan (prefix @ us) scan'"
  using assms
proof (induction us arbitrary: prefix scan)
  case Nil
  then show ?case by simp
next
  case (Cons u us)
  let ?key = "coverageKey (unitMode u) (unitIteration u)"
  have u: "unitFieldsOk plan binaries u" "unitMode u \<in> modes" using Cons.prems(1) by (auto simp: unitFieldsOk_def)
  have "previousUnit scan \<le> unitID u"
    using Cons.prems(2,7) by (auto simp: sorted_append)
  moreover have "unitID u \<notin> seenUnits scan" using Cons.prems(3,6) by auto
  ultimately have f: "validateUnitFields plan binaries scan u = None"
    using u(1) by (auto simp: validateUnitFields_def unitFieldsOk_def not_less not_le)
  have "prefix @ u # us = (prefix @ [u]) @ us" by simp
  then have run: "runMembers (unitMode u) (unitIteration u) (prefix @ u # us) =
      runMembers (unitMode u) (unitIteration u) prefix @ unitMembers u @ runMembers (unitMode u) (unitIteration u) us"
    by (simp add: runMembers_def unitsOfRun_def)
  have "coveredAt scan ?key = set (runMembers (unitMode u) (unitIteration u) prefix)"
    using Cons.prems(5) u(2) unfolding unitsScanned_def by blast
  then have "coveredAt scan ?key \<inter> set (unitMembers u) = {}" "distinct (unitMembers u)"
    "set (unitMembers u) \<subseteq> memberID ` set (planCensus plan)"
    using Cons.prems(4) u(2) unfolding run [symmetric] by (metis distinct_append inf_sup_distrib1 run set_append sup_bot.neutr_eq_iff, metis distinct_append run,
        metis le_sup_iff run set_append)
  then have c: "coverMembers (planCensus plan) u (coveredAt scan ?key) (unitMembers u) = Inr (coveredAt scan ?key \<union> set (unitMembers u))"
    by (simp add: coverMembers_Inr)
  let ?scan = "\<lparr>previousUnit = unitID u, seenUnits = insert (unitID u) (seenUnits scan),
         coverage = AList.update ?key (coveredAt scan ?key \<union> set (unitMembers u)) (coverage scan),
         shardCounts = AList.update ?key (shardsAt scan ?key + 1) (shardCounts scan)\<rparr>"
  have "\<exists>scan'. scanUnits plan binaries ?scan us = Inr scan' \<and> unitsScanned plan ((prefix @ [u]) @ us) scan'"
    by (rule Cons.IH) (use Cons.prems scanned_unit [OF Cons.prems(5) u(2) c] in auto)
  then show ?case using f c by (simp add: Let_def)
qed

lemma built_units_accepted:
  assumes "\<forall>u\<in>set (WorkUnits plan). unitFieldsOk plan binaries u" and "sorted (map unitID (WorkUnits plan))"
    and "distinct (map unitID (WorkUnits plan))"
    and "\<forall>mode\<in>modes. \<forall>i. 1 \<le> i \<and> i \<le> expectedIterations plan mode \<longrightarrow> coversRun plan mode i"
  shows "validateWorkUnits plan binaries = None"
proof -
  have run: "distinct (runMembers mode i (WorkUnits plan)) \<and> set (runMembers mode i (WorkUnits plan)) \<subseteq> memberID ` set (planCensus plan)"
    if "mode \<in> modes" for mode i
  proof (cases "1 \<le> i \<and> i \<le> expectedIterations plan mode")
    case True
    then have "mset (runMembers mode i (WorkUnits plan)) = mset (map memberID (planCensus plan))" "distinct (map memberID (planCensus plan))"
      using assms(4) that unfolding coversRun_def by blast+
    then show ?thesis by (metis mset_eq_imp_distinct_iff mset_eq_setD order_refl set_map)
  next
    case False
    then have "unitsOfRun mode i (WorkUnits plan) = []"
      using assms(1) by (auto simp: unitsOfRun_def filter_empty_conv unitFieldsOk_def)
    then show ?thesis by (simp add: runMembers_def)
  qed
  obtain scan where s: "scanUnits plan binaries \<lparr>previousUnit = [], seenUnits = {}, coverage = [], shardCounts = []\<rparr> (WorkUnits plan) = Inr scan"
    "unitsScanned plan (WorkUnits plan) scan"
    using scanUnits_succeeds [of "WorkUnits plan" plan binaries "[]" "\<lparr>previousUnit = [], seenUnits = {}, coverage = [], shardCounts = []\<rparr>"]
      assms(1-3) run nothing_scanned by auto
  have "checkIteration plan scan (mode, i) = None" if "mode \<in> modes" "1 \<le> i \<and> i \<le> expectedIterations plan mode" for mode i
  proof -
    have c: "mset (runMembers mode i (WorkUnits plan)) = mset (map memberID (planCensus plan))" "distinct (map memberID (planCensus plan))"
      "int (length (unitsOfRun mode i (WorkUnits plan))) = ShardCount plan"
      using assms(4) that unfolding coversRun_def by blast+
    have "coveredAt scan (coverageKey mode i) = set (runMembers mode i (WorkUnits plan))"
      "shardsAt scan (coverageKey mode i) = int (length (unitsOfRun mode i (WorkUnits plan)))"
      using s(2) that(1) unfolding unitsScanned_def by blast+
    then show ?thesis
      using c by (simp add: checkIteration_def) (metis c(1,2) distinct_card length_map mset_eq_setD set_map)
  qed
  then show ?thesis using s(1) by (auto simp: validateWorkUnits_def expectedRuns_set)
qed

section \<open>From the census to the units\<close>

lemma checkCensus_distinct:
  "checkCensus previous es = None \<Longrightarrow> sorted (map memberID es) \<Longrightarrow> (\<forall>p. previous = Some p \<longrightarrow> (\<forall>e\<in>set es. p \<le> memberID e)) \<Longrightarrow>
    distinct (map memberID es) \<and> (\<forall>p. previous = Some p \<longrightarrow> p \<notin> memberID ` set es)"
proof (induction previous es rule: checkCensus.induct)
  case (2 previous e es)
  then have "distinct (map memberID es)" "memberID e \<notin> memberID ` set es" "previous \<noteq> Some (memberID e)" by auto
  moreover have "memberID e \<le> memberID x" if "x \<in> set es" for x using 2(3) that by simp
  ultimately show ?case using "2.prems"(3) by (force simp: order.order_iff_strict)
qed simp

lemma canonicalCensus_Inr:
  assumes "canonicalCensus census = Inr canonical"
  shows "mset canonical = mset census" "sorted (map memberID canonical)" "distinct (map memberID canonical)"
    "canonicalCensus canonical = Inr canonical"
proof -
  have c: "canonical = slices_SortFunc (\<lambda>left right. cmp_Compare (memberID left) (memberID right)) census"
    "checkCensus None canonical = None"
    using assms by (auto simp: canonicalCensus_def Let_def split: option.splits)
  show "mset canonical = mset census" by (simp add: c(1))
  show s: "sorted (map memberID canonical)" unfolding c(1) by (rule SortFunc_key_sorted)
  show "distinct (map memberID canonical)" using checkCensus_distinct [OF c(2) s] by simp
  show "canonicalCensus canonical = Inr canonical" using c(2) by (simp add: canonicalCensus_def SortFunc_key_id [OF s])
qed

definition timed :: "(string \<times> TimingEntry) list \<Rightarrow> bool" where
  "timed byID \<longleftrightarrow> (\<forall>k t. map_of byID k = Some t \<longrightarrow> entryID t = k \<and> 0 < DurationWeight t)"

lemma timed_update: "timed byID \<Longrightarrow> 0 < DurationWeight t \<Longrightarrow> timed (AList.update (entryID t) t byID)"
  unfolding timed_def update_conv' by (auto split: if_splits)

lemma collectTiming_ok:
  "collectTiming live byID w entries = Inr (byID', w') \<Longrightarrow> \<forall>e\<in>set entries. 0 < DurationWeight e \<Longrightarrow> timed byID \<Longrightarrow> 0 < w \<Longrightarrow>
    timed byID' \<and> 0 < w'"
proof (induction live byID w entries rule: collectTiming.induct)
  case (2 live byID w entry entries)
  obtain censusEntry where c: "map_of live (entryID entry) = Some censusEntry" "\<not> memberKind censusEntry \<noteq> entryKind entry"
    and r: "collectTiming live (AList.update (entryID entry) entry byID) (max w (DurationWeight entry)) entries = Inr (byID', w')"
    using "2.prems"(1) by (auto split: option.splits if_splits)
  show ?case using "2.IH" [OF c r] "2.prems"(2-4) timed_update by simp
qed simp

lemma validTiming_weights: "validateTimingEntries seen entries = None \<Longrightarrow> \<forall>e\<in>set entries. 0 < DurationWeight e"
  by (induction seen entries rule: validateTimingEntries.induct) (auto simp: validateTimingEntry_def)

lemma Resolve_Inr:
  assumes "Resolve digest manifest census = Inr resolved"
  shows "\<exists>canonical. canonicalCensus census = Inr canonical \<and> map entryID (resolvedEntries resolved) = map memberID canonical \<and>
      resolvedDigest resolved = digest canonical \<and> sorted (DefaultedMemberIDs resolved) \<and> distinct (DefaultedMemberIDs resolved) \<and>
      set (DefaultedMemberIDs resolved) \<subseteq> memberID ` set canonical"
    and "\<forall>e\<in>set (resolvedEntries resolved). 0 < DurationWeight e" and "validateTiming manifest = None"
proof -
  show v: "validateTiming manifest = None" using assms by (auto simp: Resolve_def split: option.splits)
  then obtain canonical byID w where c: "canonicalCensus census = Inr canonical"
    and t: "collectTiming (foldl (\<lambda>m entry. AList.update (memberID entry) entry m) [] canonical) [] (DefaultWeight manifest)
      (timingEntries manifest) = Inr (byID, w)"
    and r: "resolved = \<lparr>resolvedEntries = map (timingFor byID w) canonical,
        DefaultedMemberIDs = map memberID (filter (\<lambda>entry. map_of byID (memberID entry) = None) canonical),
        resolvedDigest = digest canonical\<rparr>"
    using assms by (auto simp: Resolve_def Let_def split: option.splits sum.splits)
  have "timed byID" "0 < w" using collectTiming_ok [OF t] v validTiming_weights by (auto simp: validateTiming_def timed_def)
  then have b: "entryID (timingFor byID w e) = memberID e" "0 < DurationWeight (timingFor byID w e)" for e
    by (auto simp: timingFor_def timed_def split: option.split)
  then show "\<forall>e\<in>set (resolvedEntries resolved). 0 < DurationWeight e"
    by (auto simp: r)
  have "map entryID (resolvedEntries resolved) = map memberID canonical" using b(1) by (simp add: r)
  moreover have "sorted (DefaultedMemberIDs resolved)" "distinct (DefaultedMemberIDs resolved)"
    using canonicalCensus_Inr(2,3) [OF c] by (simp_all add: r sorted_map sorted_wrt_filter distinct_map_filter)
  ultimately show "\<exists>canonical. canonicalCensus census = Inr canonical \<and> map entryID (resolvedEntries resolved) = map memberID canonical \<and>
      resolvedDigest resolved = digest canonical \<and> sorted (DefaultedMemberIDs resolved) \<and> distinct (DefaultedMemberIDs resolved) \<and>
      set (DefaultedMemberIDs resolved) \<subseteq> memberID ` set canonical"
    using c by (intro exI [of _ canonical]) (auto simp: r)
qed

lemma read_nat_zero: "read_nat (CHR ''0'' # s) = read_nat s"
  by (simp add: read_nat_def)

lemma show_two_inj [simp]: "show_two m = show_two n \<longleftrightarrow> m = n"
proof -
  have "read_nat (show_two n) = n" for n by (simp add: show_two_def read_nat_zero)
  then show ?thesis by metis
qed

lemma show_two_free: "CHR ''-'' \<notin> set (show_two n)"
  by (simp add: show_two_def)

definition unitName :: "string \<times> nat \<times> nat \<Rightarrow> string" where
  "unitName = (\<lambda>(mode, iteration, shardIndex). mode @ ''-'' @ show_two iteration @ ''-'' @ show_two (shardIndex + 1))"

lemma unitName_split: "mode \<in> modes \<Longrightarrow> split_on CHR ''-'' (unitName (mode, a, b)) = [mode, show_two a, show_two (b + 1)]"
proof -
  assume "mode \<in> modes"
  then have "CHR ''-'' \<notin> set mode" by (auto simp: modes_def)
  then show ?thesis
    using split_on_sep [of "CHR ''-''" mode "show_two a @ ''-'' @ show_two (b + 1)"]
      split_on_sep [of "CHR ''-''" "show_two a" "show_two (b + 1)"]
    by (simp add: unitName_def split_on_free show_two_free)
qed

lemma unitName_inj: "inj_on unitName (modes \<times> UNIV)"
proof (rule inj_onI)
  fix x y
  assume xy: "x \<in> modes \<times> UNIV" "y \<in> modes \<times> UNIV" "unitName x = unitName y"
  obtain m a b m' a' b' where "x = (m, a, b)" "y = (m', a', b')" by (metis prod_cases3)
  then have "m \<in> modes" "m' \<in> modes" "unitName (m, a, b) = unitName (m', a', b')" using xy by blast+
  then have "[m, show_two a, show_two (b + 1)] = [m', show_two a', show_two (b' + 1)]"
    using unitName_split by metis
  then show "x = y" using \<open>x = (m, a, b)\<close> \<open>y = (m', a', b')\<close> by simp
qed

lemma iteration_units:
  "map unitID (unitsOfIteration d mode shards a) = map unitName (map (\<lambda>b. (mode, a, b)) [0..<length shards])"
  "map unitMembers (unitsOfIteration d mode shards a) = map MemberIDs shards"
  "length (unitsOfIteration d mode shards a) = length shards"
proof -
  have e: "map f (enumerate 0 shards) = map (\<lambda>b. f (b, shards ! b)) [0..<length shards]" for f :: "nat \<times> Shard \<Rightarrow> 'x"
    by (rule nth_equalityI) (simp_all add: nth_enumerate_eq)
  show "map unitID (unitsOfIteration d mode shards a) = map unitName (map (\<lambda>b. (mode, a, b)) [0..<length shards])"
    by (simp add: unitsOfIteration_def e o_def workUnitOf_def unitName_def)
  have "map MemberIDs (map (\<lambda>b. shards ! b) [0..<length shards]) = map MemberIDs shards" by (simp only: map_nth)
  then show "map unitMembers (unitsOfIteration d mode shards a) = map MemberIDs shards"
    by (simp add: unitsOfIteration_def e o_def workUnitOf_def)
  show "length (unitsOfIteration d mode shards a) = length shards" by (simp add: unitsOfIteration_def)
qed

lemma iteration_unit:
  assumes "u \<in> set (unitsOfIteration d mode shards a)"
  shows "unitMode u = mode" "unitIteration u = int a" "unitBinary u = d" "unitID u \<noteq> []"
    "\<exists>s\<in>set shards. unitMembers u = MemberIDs s \<and> unitWeight u = ShardWeight s \<and> unitTimeout u = ShardTimeout s"
  using assms by (auto simp: unitsOfIteration_def workUnitOf_def enumerate_eq_zip dest: set_zip_rightD)

definition unitsOfMode :: "string \<Rightarrow> string \<Rightarrow> Shard list \<Rightarrow> int \<Rightarrow> WorkUnit list" where
  "unitsOfMode d mode shards n = concat (map (unitsOfIteration d mode shards) [1..<Suc (nat n)])"

lemma unitsOfMode_run:
  "unitsOfRun mode i (unitsOfMode d mode' shards n) =
     (if mode = mode' \<and> 1 \<le> i \<and> i \<le> n then unitsOfIteration d mode shards (nat i) else [])"
proof -
  have it: "unitsOfRun mode i (unitsOfIteration d mode' shards a) =
      (if mode = mode' \<and> i = int a then unitsOfIteration d mode shards a else [])" for a
    using iteration_unit(1,2) [of _ d mode' shards a] by (auto simp: unitsOfRun_def filter_empty_conv intro!: filter_True)
  have "unitsOfRun mode i (concat (map (unitsOfIteration d mode' shards) [1..<Suc k])) =
      (if mode = mode' \<and> 1 \<le> i \<and> i \<le> int k then unitsOfIteration d mode shards (nat i) else [])" for k
  proof (induction k)
    case 0
    then show ?case by (auto simp: unitsOfRun_def)
  next
    case (Suc k)
    have "unitsOfRun mode i (concat (map (unitsOfIteration d mode' shards) [1..<Suc (Suc k)])) =
        unitsOfRun mode i (concat (map (unitsOfIteration d mode' shards) [1..<Suc k])) @
        unitsOfRun mode i (unitsOfIteration d mode' shards (Suc k))"
      by (simp add: unitsOfRun_def)
    moreover have "i \<le> int (Suc k) \<longleftrightarrow> i \<le> int k \<or> i = int (Suc k)" by auto
    moreover have "nat (1 + int k) = Suc k" by simp
    ultimately show ?case unfolding Suc.IH it by (cases "i = int (Suc k)") auto
  qed
  from this [of "nat n"] show ?thesis by (auto simp: unitsOfMode_def)
qed

lemma unitsOfMode_names:
  "map unitID (unitsOfMode d mode shards n) = map unitName (map (Pair mode) (List.product [1..<Suc (nat n)] [0..<length shards]))"
proof -
  have "map unitID (concat (map (unitsOfIteration d mode shards) as)) = map unitName (map (Pair mode) (List.product as [0..<length shards]))" for as
    by (induction as) (simp_all add: iteration_units(1) o_def)
  then show ?thesis by (simp add: unitsOfMode_def)
qed

lemma unitsOfMode_unit:
  assumes "u \<in> set (unitsOfMode d mode shards n)"
  shows "unitMode u = mode" "1 \<le> unitIteration u" "unitIteration u \<le> n" "unitBinary u = d" "unitID u \<noteq> []"
    "\<exists>s\<in>set shards. unitMembers u = MemberIDs s \<and> unitWeight u = ShardWeight s \<and> unitTimeout u = ShardTimeout s"
proof -
  obtain a where a: "1 \<le> a" "a \<le> nat n" "u \<in> set (unitsOfIteration d mode shards a)"
    using assms by (auto simp: unitsOfMode_def)
  note u = iteration_unit [OF a(3)]
  show "unitMode u = mode" "1 \<le> unitIteration u" "unitIteration u \<le> n" "unitBinary u = d" "unitID u \<noteq> []"
    "\<exists>s\<in>set shards. unitMembers u = MemberIDs s \<and> unitWeight u = ShardWeight s \<and> unitTimeout u = ShardTimeout s"
    using u a(1,2) by (auto split: if_splits)
qed

lemma shardHolds_members:
  "list_all2 shardHolds shards parts \<Longrightarrow> mset (concat (map MemberIDs shards)) = mset (map entryID (concat parts))"
  by (induction rule: list_all2_induct) (auto simp: shardHolds_def)

lemma shards_members:
  assumes "list_all2 shardHolds shards parts" and "mset (concat parts) = mset entries"
  shows "mset (concat (map MemberIDs shards)) = mset (map entryID entries)"
  unfolding shardHolds_members [OF assms(1)] mset_map assms(2) by simp

lemma mset_concat_cong: "mset xs = mset ys \<Longrightarrow> mset (concat (map f xs)) = mset (concat (map f ys))"
proof -
  have "mset (concat (map f zs)) = sum_mset (image_mset (\<lambda>z. mset (f z)) (mset zs))" for zs by (induction zs) simp_all
  then show "mset xs = mset ys \<Longrightarrow> ?thesis" by simp
qed

text \<open>The work units built from valid inputs: those of the normal mode, then those of the race mode.\<close>

definition shardsOk :: "TimingEntry list \<Rightarrow> int \<Rightarrow> Shard list \<Rightarrow> bool" where
  "shardsOk entries shardCount shards \<longleftrightarrow> length shards = nat shardCount \<and>
     mset (concat (map MemberIDs shards)) = mset (map entryID entries) \<and>
     (\<forall>s\<in>set shards. MemberIDs s \<noteq> [] \<and> sorted (MemberIDs s) \<and> 0 < ShardWeight s \<and> 0 < ShardTimeout s)"

lemma allocated_shards:
  assumes "\<forall>e\<in>set entries. 0 < DurationWeight e" "0 < shardCount" "shardCount \<le> int (length entries)"
    and "sum_list (map DurationWeight entries) < 2 ^ 63"
  shows "\<exists>shards. AllocateLPT entries shardCount mode = Inr shards \<and> shardsOk entries shardCount shards"
proof -
  obtain shards parts where s: "AllocateLPT entries shardCount mode = Inr shards" "length shards = nat shardCount"
    "list_all2 shardHolds shards parts" "mset (concat parts) = mset entries"
    "\<forall>s\<in>set shards. MemberIDs s \<noteq> [] \<and> sorted (MemberIDs s) \<and> 0 < ShardWeight s \<and> 120 \<le> ShardTimeout s"
    using allocate_lpt [OF assms(2,3,1,4), of mode] by blast
  have "shardsOk entries shardCount shards"
    using s(2,5) shards_members [OF s(3,4)] unfolding shardsOk_def by fastforce
  then show ?thesis using s(1) by blast
qed

definition builtFrom :: "TimingEntry list \<Rightarrow> BinaryBinding list \<Rightarrow> int \<Rightarrow> int \<Rightarrow> WorkUnit list \<Rightarrow> bool" where
  "builtFrom entries binaries shardCount repeatCount us \<longleftrightarrow>
     (\<exists>bn br normal race. map_of (map (\<lambda>b. (binaryMode b, b)) binaries) ''normal'' = Some bn \<and>
        map_of (map (\<lambda>b. (binaryMode b, b)) binaries) ''race'' = Some br \<and>
        us = unitsOfMode (binaryDigest bn) ''normal'' normal repeatCount @ unitsOfMode (binaryDigest br) ''race'' race 1 \<and>
        shardsOk entries shardCount normal \<and> shardsOk entries shardCount race)"

lemma buildWorkUnits_built:
  assumes "\<forall>e\<in>set (resolvedEntries resolved). 0 < DurationWeight e" "0 < shardCount" "shardCount \<le> int (length (resolvedEntries resolved))"
    and "sum_list (map DurationWeight (resolvedEntries resolved)) < 2 ^ 63" and "map binaryMode binaries = [''normal'', ''race'']"
  shows "\<exists>us. buildWorkUnits resolved binaries shardCount repeatCount = Inr us \<and>
    builtFrom (resolvedEntries resolved) binaries shardCount repeatCount us"
proof -
  let ?es = "resolvedEntries resolved"
  obtain bn br where b: "binaries = [bn, br]" "binaryMode bn = ''normal''" "binaryMode br = ''race''"
    using assms(5) by (auto simp: map_eq_Cons_conv)
  obtain normal where n: "AllocateLPT ?es shardCount ''normal'' = Inr normal" "shardsOk ?es shardCount normal"
    using allocated_shards [OF assms(1-4)] by blast
  obtain race where r: "AllocateLPT ?es shardCount ''race'' = Inr race" "shardsOk ?es shardCount race"
    using allocated_shards [OF assms(1-4)] by blast
  have m: "map_of (binariesByMode binaries) ''normal'' = Some bn" "map_of (binariesByMode binaries) ''race'' = Some br"
    using b by (simp_all add: binariesByMode_def)
  have "buildWorkUnits resolved binaries shardCount repeatCount =
      Inr (unitsOfMode (binaryDigest bn) ''normal'' normal repeatCount @ unitsOfMode (binaryDigest br) ''race'' race 1)"
    using m n(1) r(1) by (simp add: buildWorkUnits_def unitsOfMode_def Let_def)
  moreover have "map_of (map (\<lambda>b. (binaryMode b, b)) binaries) ''normal'' = Some bn"
    "map_of (map (\<lambda>b. (binaryMode b, b)) binaries) ''race'' = Some br"
    using b by simp_all
  ultimately show ?thesis using n(2) r(2) unfolding builtFrom_def by blast
qed

lemma built_run:
  assumes "builtFrom entries binaries shardCount repeatCount us" and "mset us' = mset us" and "mode \<in> modes"
    and "1 \<le> i \<and> i \<le> (if mode = ''normal'' then repeatCount else 1)" and "0 < shardCount"
  shows "mset (runMembers mode i us') = mset (map entryID entries)" "int (length (unitsOfRun mode i us')) = shardCount"
proof -
  obtain shards d where s: "length shards = nat shardCount" "mset (concat (map MemberIDs shards)) = mset (map entryID entries)"
    "unitsOfRun mode i us = unitsOfIteration d mode shards (nat i)"
  proof -
    obtain bn br :: BinaryBinding and normal race :: "Shard list" where u: "us = unitsOfMode (binaryDigest bn) ''normal'' normal repeatCount @ unitsOfMode (binaryDigest br) ''race'' race 1"
      and n: "shardsOk entries shardCount normal" "shardsOk entries shardCount race"
      using assms(1) unfolding builtFrom_def by blast
    have split: "unitsOfRun mode i us = unitsOfRun mode i (unitsOfMode (binaryDigest bn) ''normal'' normal repeatCount) @
        unitsOfRun mode i (unitsOfMode (binaryDigest br) ''race'' race 1)"
      unfolding u by (simp add: unitsOfRun_def)
    show thesis
    proof (cases "mode = ''normal''")
      case True
      then show thesis using that [of normal "binaryDigest bn"] n assms(4) split by (simp add: unitsOfMode_run shardsOk_def)
    next
      case False
      then have "mode = ''race''" using assms(3) by (simp add: modes_def)
      then show thesis using that [of race "binaryDigest br"] n assms(4) split by (simp add: unitsOfMode_run shardsOk_def)
    qed
  qed
  have m: "mset (unitsOfRun mode i us') = mset (unitsOfRun mode i us)"
    unfolding unitsOfRun_def mset_filter assms(2) by simp
  show "mset (runMembers mode i us') = mset (map entryID entries)"
    unfolding runMembers_def mset_concat_cong [OF m] s(3) iteration_units(2) by (rule s(2))
  have "length (unitsOfRun mode i us') = length (unitsOfRun mode i us)" using m mset_eq_length by blast
  then show "int (length (unitsOfRun mode i us')) = shardCount" using assms(5) s(1,3) iteration_units(3) by simp
qed

lemma built_units:
  assumes "builtFrom entries binaries shardCount repeatCount us" and "0 < repeatCount" and "u \<in> set us"
    and "\<forall>mode. expectedIterations plan mode = (if mode = ''normal'' then repeatCount else if mode = ''race'' then 1 else 0)"
  shows "unitFieldsOk plan (map (\<lambda>b. (binaryMode b, b)) binaries) u"
proof -
  obtain bn br normal race where m: "map_of (map (\<lambda>b. (binaryMode b, b)) binaries) ''normal'' = Some bn"
      "map_of (map (\<lambda>b. (binaryMode b, b)) binaries) ''race'' = Some br"
    and us: "us = unitsOfMode (binaryDigest bn) ''normal'' normal repeatCount @ unitsOfMode (binaryDigest br) ''race'' race 1"
    and s: "shardsOk entries shardCount normal" "shardsOk entries shardCount race"
    using assms(1) unfolding builtFrom_def by blast
  from us assms(3) consider "u \<in> set (unitsOfMode (binaryDigest bn) ''normal'' normal repeatCount)"
    | "u \<in> set (unitsOfMode (binaryDigest br) ''race'' race 1)" by auto
  then show ?thesis
  proof cases
    case 1
    note u = unitsOfMode_unit [OF 1]
    show ?thesis using u(1-5) u(6) s(1) m(1) assms(4) unfolding unitFieldsOk_def shardsOk_def modes_def by auto
  next
    case 2
    note u = unitsOfMode_unit [OF 2]
    show ?thesis using u(1-5) u(6) s(2) m(2) assms(4) unfolding unitFieldsOk_def shardsOk_def modes_def by auto
  qed
qed

lemma built_distinct:
  assumes "builtFrom entries binaries shardCount repeatCount us"
  shows "distinct (map unitID us)"
proof -
  obtain bn br :: BinaryBinding and normal race :: "Shard list" where u: "us = unitsOfMode (binaryDigest bn) ''normal'' normal repeatCount @ unitsOfMode (binaryDigest br) ''race'' race 1"
    using assms unfolding builtFrom_def by blast
  let ?p = "\<lambda>mode shards n. map (Pair mode) (List.product [1..<Suc (nat n)] [0..<length (shards :: Shard list)])"
  let ?names = "?p ''normal'' normal repeatCount @ ?p ''race'' race 1"
  have d: "distinct (?p mode shards n)" for mode :: string and shards n
    by (simp add: distinct_map inj_on_def distinct_product)
  have "set (?p ''normal'' normal repeatCount) \<inter> set (?p ''race'' race 1) = {}" by auto
  then have "distinct ?names" using d by (simp only: distinct_append simp_thms)
  moreover have "inj_on unitName (set ?names)"
    by (rule inj_on_subset [OF unitName_inj]) (auto simp: modes_def simp del: upt_Suc)
  ultimately have "distinct (map unitName ?names)" by (simp only: distinct_map simp_thms)
  moreover have "map unitID us = map unitName ?names" unfolding u map_append unitsOfMode_names by simp
  ultimately show ?thesis by simp
qed

lemma validateDefaulted_ok:
  "sorted ids \<Longrightarrow> distinct ids \<Longrightarrow> set ids \<subseteq> memberID ` set census \<Longrightarrow> (\<forall>p. previous = Some p \<longrightarrow> p \<notin> set ids) \<Longrightarrow>
    validateDefaulted census previous ids = None"
  by (induction census previous ids rule: validateDefaulted.induct) (auto simp: list_ex_iff)

text \<open>The inputs of a plan the gate can build from.\<close>

definition buildable ::
  "raceDigests \<Rightarrow> string \<Rightarrow> TimingArtifact \<Rightarrow> TimingManifest \<Rightarrow> CensusEntry list \<Rightarrow> BinaryBinding list \<Rightarrow> int \<Rightarrow> int \<Rightarrow> ResolvedTiming \<Rightarrow> bool" where
  "buildable digests workspace timing manifest census binaries shardCount repeatCount resolved \<longleftrightarrow>
     0 < shardCount \<and> 0 < repeatCount \<and>
     Resolve (digestOfCensusEntries digests) manifest census = Inr resolved \<and>
     ValidateNestedFamilies manifest resolved shardCount = None \<and>
     shardCount \<le> int (length (resolvedEntries resolved)) \<and>
     sum_list (map DurationWeight (resolvedEntries resolved)) < 2 ^ 63 \<and>
     (\<exists>byMode. validateBinaries binaries = Inr byMode) \<and>
     digestPattern workspace \<and> timingName timing \<noteq> [] \<and> digestPattern (timingDigest timing) \<and>
     (\<forall>plan. digestPattern (digestOfRacePlan digests plan))"

lemma pattern_nonempty: "digestPattern d \<Longrightarrow> d \<noteq> []"
  by (auto simp: digestPattern_def)

lemma built_plan_accepted:
  assumes "buildable digests workspace timing manifest census binaries shardCount repeatCount resolved"
  shows "\<exists>plan. NewPlan digests workspace (timingPackage manifest) timing manifest census binaries shardCount repeatCount = Inr plan \<and>
    validateRacePlan digests plan = None \<and> mset (planCensus plan) = mset census \<and>
    RepeatCount plan = repeatCount \<and> ShardCount plan = shardCount"
proof -
  have b: "0 < shardCount" "0 < repeatCount" "Resolve (digestOfCensusEntries digests) manifest census = Inr resolved"
    "ValidateNestedFamilies manifest resolved shardCount = None" "shardCount \<le> int (length (resolvedEntries resolved))"
    "sum_list (map DurationWeight (resolvedEntries resolved)) < 2 ^ 63"
    "digestPattern workspace" "timingName timing \<noteq> []" "digestPattern (timingDigest timing)"
    "\<forall>plan. digestPattern (digestOfRacePlan digests plan)"
    using assms unfolding buildable_def by blast+
  obtain byMode where bins: "validateBinaries binaries = Inr byMode" using assms unfolding buildable_def by blast
  note bm = validateBinaries_modes [OF bins]
  obtain canonical where c: "canonicalCensus census = Inr canonical" "map entryID (resolvedEntries resolved) = map memberID canonical"
    "resolvedDigest resolved = digestOfCensusEntries digests canonical" "sorted (DefaultedMemberIDs resolved)"
    "distinct (DefaultedMemberIDs resolved)" "set (DefaultedMemberIDs resolved) \<subseteq> memberID ` set canonical"
    using Resolve_Inr(1) [OF b(3)] by blast
  note cc = canonicalCensus_Inr [OF c(1)]
  obtain us where us: "buildWorkUnits resolved binaries shardCount repeatCount = Inr us"
    "builtFrom (resolvedEntries resolved) binaries shardCount repeatCount us"
    using buildWorkUnits_built [OF Resolve_Inr(2) [OF b(3)] b(1,5,6) bm(2)] by blast
  let ?raw = "\<lparr>planVersion = PlanFormatVersion, planIdentity = [], planWorkspace = workspace,
     planToolchain = timingToolchain manifest, planPackage = timingPackage manifest, planTiming = timing,
     planCensusDigest = resolvedDigest resolved, planCensus = canonical,
     planEnvironment = timingEnvironment manifest, planBinaries = binaries,
     RepeatCount = repeatCount, ShardCount = shardCount, WorkUnits = us, DefaultedIDs = DefaultedMemberIDs resolved\<rparr>"
  define sorted_plan where "sorted_plan = ?raw\<lparr>WorkUnits := sortUnits us\<rparr>"
  define plan where "plan = sorted_plan\<lparr>planIdentity := calculateID digests sorted_plan\<rparr>"
  have iterations: "\<forall>mode. expectedIterations plan mode = (if mode = ''normal'' then repeatCount else if mode = ''race'' then 1 else 0)"
    by (simp add: plan_def sorted_plan_def expectedIterations_def)
  have fields: "\<forall>u\<in>set us. unitFieldsOk plan byMode u" using built_units [OF us(2) b(2) _ iterations] bm(3) by simp
  have same: "map sortMembers us = us"
    by (rule map_idI) (use fields in \<open>auto simp: unitFieldsOk_def sortMembers_def SortFunc_id cmp_le\<close>)
  have units: "WorkUnits plan = sortUnits us" "mset (sortUnits us) = mset us" by (simp_all add: plan_def sorted_plan_def sortUnits_def)
  have "validateWorkUnits plan byMode = None"
  proof (rule built_units_accepted)
    show "\<forall>u\<in>set (WorkUnits plan). unitFieldsOk plan byMode u" using fields units by (metis set_mset_mset)
    show "sorted (map unitID (WorkUnits plan))" unfolding units(1) by (rule sortUnits_sorted)
    show "distinct (map unitID (WorkUnits plan))"
      using built_distinct [OF us(2)] units by (metis mset_eq_imp_distinct_iff mset_map)
    show "\<forall>mode\<in>modes. \<forall>i. 1 \<le> i \<and> i \<le> expectedIterations plan mode \<longrightarrow> coversRun plan mode i"
    proof (intro ballI allI impI)
      fix mode i
      assume m: "mode \<in> modes" and i: "1 \<le> i \<and> i \<le> expectedIterations plan mode"
      then have "1 \<le> i \<and> i \<le> (if mode = ''normal'' then repeatCount else 1)" using iterations by (auto simp: modes_def)
      from built_run [OF us(2) units(2) m this b(1)] show "coversRun plan mode i"
        using c(2) cc(3) by (simp add: coversRun_def units(1)) (simp add: plan_def sorted_plan_def)
    qed
  qed
  moreover have "timingEnvironment manifest = [ScheduledOracleEnvironment]" "timingToolchain manifest \<noteq> []" "timingPackage manifest \<noteq> []"
    using Resolve_Inr(3) [OF b(3)] by (auto simp: validateTiming_def strings_TrimSpace_def)
  moreover have "calculateID digests plan = planIdentity plan" "digestPattern (planIdentity plan)" "planVersion plan = PlanFormatVersion"
    "planWorkspace plan = workspace" "planToolchain plan = timingToolchain manifest" "planPackage plan = timingPackage manifest"
    "RepeatCount plan = repeatCount" "ShardCount plan = shardCount" "planEnvironment plan = timingEnvironment manifest"
    "planTiming plan = timing" "DefaultedIDs plan = DefaultedMemberIDs resolved" "planCensus plan = canonical"
    "planCensusDigest plan = digestOfCensusEntries digests canonical" "planBinaries plan = binaries"
    using b(10) c(3) by (simp_all add: plan_def sorted_plan_def calculateID_def)
  moreover have "validateDefaulted canonical None (DefaultedMemberIDs resolved) = None" by (rule validateDefaulted_ok) (use c in auto)
  ultimately have valid: "validateRacePlan digests plan = None"
    using b(1,2,7-9) bins c(4) cc(4) pattern_nonempty [of "planIdentity plan"]
    by (simp add: validateRacePlan_def ValidateDigest_def error_when_def wrap_error_def)
  have "slices_SortFunc (\<lambda>left right. cmp_Compare (binaryMode left) (binaryMode right)) binaries = binaries"
    by (rule SortFunc_key_id) (simp add: bm(2))
  moreover have "slices_SortFunc cmp_Compare (DefaultedMemberIDs resolved) = DefaultedMemberIDs resolved"
    using SortFunc_id [of cmp_Compare "DefaultedMemberIDs resolved"] c(4) by (simp add: cmp_le)
  ultimately have "normalizePlan digests ?raw = Inr plan"
    using valid SortFunc_key_id [OF cc(2)] same
    by (simp add: normalizePlan_def Let_def plan_def sorted_plan_def calculateID_def)
  then have "NewPlan digests workspace (timingPackage manifest) timing manifest census binaries shardCount repeatCount = Inr plan"
    using b c(1) us(1) valid by (simp add: NewPlan_def)
  then show ?thesis using valid cc(1) by (auto simp: plan_def sorted_plan_def)
qed

text \<open>
  C32. The gate builds a plan from any valid inputs: when the counts are positive, the timing
  manifest resolves against the census, the nested families are balanced, there are no more
  shards than tests, the weights sum to less than two to the 63, and the binaries and digests are
  well formed, the construction succeeds, its own validation accepts the plan, and the plan runs
  exactly the given census in every mode and iteration.
\<close>

theorem race_plan_buildable:
  assumes "buildable digests workspace timing manifest census binaries shardCount repeatCount resolved"
  shows "\<exists>plan. NewPlan digests workspace (timingPackage manifest) timing manifest census binaries shardCount repeatCount = Inr plan \<and>
    validateRacePlan digests plan = None \<and> mset (planCensus plan) = mset census \<and> ShardCount plan = shardCount \<and>
    (\<forall>i. 1 \<le> i \<and> i \<le> repeatCount \<longrightarrow> coversRun plan ''normal'' i) \<and> coversRun plan ''race'' 1"
proof -
  obtain plan where p: "NewPlan digests workspace (timingPackage manifest) timing manifest census binaries shardCount repeatCount = Inr plan"
    "validateRacePlan digests plan = None" "mset (planCensus plan) = mset census" "RepeatCount plan = repeatCount" "ShardCount plan = shardCount"
    using built_plan_accepted [OF assms] by blast
  have "\<forall>mode\<in>modes. \<forall>i. 1 \<le> i \<and> i \<le> expectedIterations plan mode \<longrightarrow> coversRun plan mode i"
    using accepted_plan_covers [OF p(2)] by blast
  then have "\<forall>i. 1 \<le> i \<and> i \<le> repeatCount \<longrightarrow> coversRun plan ''normal'' i" "coversRun plan ''race'' 1"
    using p(4) by (auto simp: modes_def expectedIterations_def)
  with p show ?thesis by blast
qed

definition zeroHash :: string where
  "zeroHash = ''sha256:'' @ replicate 64 CHR ''0''"

definition raceSampleDigests :: raceDigests where
  "raceSampleDigests = \<lparr>digestOfCensusEntries = (\<lambda>_. ''census''), digestOfRacePlan = (\<lambda>_. zeroHash)\<rparr>"

definition sampleManifest :: TimingManifest where
  "sampleManifest = \<lparr>timingVersion = 1, timingPackage = ''goplint'', timingToolchain = ''go1.26'', GeneratedAt = 1,
     DefaultWeight = 70, ReviewedInternalShardIDs = [], timingEnvironment = [ScheduledOracleEnvironment],
     timingEntries = [timingOf ''TestA'' 50, timingOf ''TestB'' 90]\<rparr>"

definition raceCensus :: "CensusEntry list" where
  "raceCensus = [\<lparr>memberID = ''TestB'', memberKind = KindTest\<rparr>, \<lparr>memberID = ''TestC'', memberKind = KindTest\<rparr>,
     \<lparr>memberID = ''TestA'', memberKind = KindTest\<rparr>]"

definition sampleBinaries :: "BinaryBinding list" where
  "sampleBinaries = [\<lparr>binaryMode = ''normal'', FileName = ''analyzer.test'', binaryDigest = zeroHash\<rparr>,
     \<lparr>binaryMode = ''race'', FileName = ''analyzer.race.test'', binaryDigest = zeroHash\<rparr>]"

definition sampleTimingArtifact :: TimingArtifact where
  "sampleTimingArtifact = \<lparr>timingName = ''timing.json'', timingDigest = zeroHash\<rparr>"

definition sampleResolved :: ResolvedTiming where
  "sampleResolved = \<lparr>resolvedEntries = [timingOf ''TestA'' 50, timingOf ''TestB'' 90, timingOf ''TestC'' 90],
     DefaultedMemberIDs = [''TestC''], resolvedDigest = ''census''\<rparr>"

lemma sample_buildable: "buildable raceSampleDigests zeroHash sampleTimingArtifact sampleManifest raceCensus sampleBinaries 2 3 sampleResolved"
proof -
  have "Resolve (digestOfCensusEntries raceSampleDigests) sampleManifest raceCensus = Inr sampleResolved" by code_simp
  moreover have "ValidateNestedFamilies sampleManifest sampleResolved 2 = None" by code_simp
  moreover have "validateBinaries sampleBinaries = Inr (binariesByMode sampleBinaries)" by code_simp
  moreover have "sum_list (map DurationWeight (resolvedEntries sampleResolved)) < 2 ^ 63" by (simp add: sampleResolved_def timingOf_def)
  moreover have "digestPattern zeroHash" by code_simp
  ultimately show ?thesis
    by (simp add: buildable_def raceSampleDigests_def sampleTimingArtifact_def) (simp add: sampleResolved_def)
qed

theorem race_plan_buildable_witness:
  "\<exists>plan. NewPlan raceSampleDigests zeroHash ''goplint'' sampleTimingArtifact sampleManifest raceCensus sampleBinaries 2 3 = Inr plan \<and>
     validateRacePlan raceSampleDigests plan = None \<and> mset (planCensus plan) = mset raceCensus \<and>
     coversRun plan ''normal'' 3 \<and> coversRun plan ''race'' 1"
  using race_plan_buildable [OF sample_buildable] by (auto simp: sampleManifest_def)

section \<open>Results bound to a plan\<close>










end
