(* ===== verification/Oracle_Model.thy ===== *)
theory Oracle_Model imports Go_Library begin
text \<open>
  Programs of the protocol oracle (\<open>internal/protocoloracle/ir.go\<close>): nodes that operate on tracked
  identities, intra-procedural, call and return edges, the declared shape, the derived metrics
  and the validation of a program. Identities, procedures, nodes and call sites are Go's
  \<open>uint8\<close>, modelled as naturals where the code does no arithmetic on them; the counters of call
  and return edges, which it increments, are 8-bit words.
\<close>

section \<open>The data of a program\<close>

definition InitialFactNeedsValidation :: string where [go_const]: "InitialFactNeedsValidation = ''needs-validation''"
definition InitialFactValidated :: string where [go_const]: "InitialFactValidated = ''validated''"

record NodeRef =
  refProcedure :: nat
  refNode :: nat

definition ref_key :: "NodeRef \<Rightarrow> string" where
  "ref_key ref = ''p'' @ show_nat (refProcedure ref) @ '':n'' @ show_nat (refNode ref)"

definition OperationNoop :: string where [go_const]: "OperationNoop = ''noop''"
definition OperationValidate :: string where [go_const]: "OperationValidate = ''validate''"
definition OperationConsume :: string where [go_const]: "OperationConsume = ''consume''"
definition OperationMutate :: string where [go_const]: "OperationMutate = ''mutate''"
definition OperationReplace :: string where [go_const]: "OperationReplace = ''replace''"
definition OperationEscape :: string where [go_const]: "OperationEscape = ''escape''"
definition OperationUnresolved :: string where [go_const]: "OperationUnresolved = ''unresolved''"

definition ConditionalResultNone :: string where [go_const]: "ConditionalResultNone = ''none''"
definition ConditionalResultNil :: string where [go_const]: "ConditionalResultNil = ''nil''"
definition ConditionalResultNonNil :: string where [go_const]: "ConditionalResultNonNil = ''non-nil''"
definition ConditionalResultUnknown :: string where [go_const]: "ConditionalResultUnknown = ''unknown''"

definition AliasActionNone :: string where [go_const]: "AliasActionNone = ''none''"
definition AliasActionCopy :: string where [go_const]: "AliasActionCopy = ''copy''"
definition AliasActionKill :: string where [go_const]: "AliasActionKill = ''kill''"

definition UnknownEffectNone :: string where [go_const]: "UnknownEffectNone = ''none''"
definition UnknownEffectUnresolved :: string where [go_const]: "UnknownEffectUnresolved = ''unresolved''"
definition UnknownEffectConcurrentMutation :: string where [go_const]: "UnknownEffectConcurrentMutation = ''concurrent-mutation''"
definition UnknownEffectEscapedHeap :: string where [go_const]: "UnknownEffectEscapedHeap = ''escaped-heap-mutation''"

definition ConstraintNone :: string where [go_const]: "ConstraintNone = ''none''"
definition ConstraintSAT :: string where [go_const]: "ConstraintSAT = ''sat''"
definition ConstraintUNSAT :: string where [go_const]: "ConstraintUNSAT = ''unsat''"

definition TopologyLinear :: string where [go_const]: "TopologyLinear = ''linear''"
definition TopologyBranchJoin :: string where [go_const]: "TopologyBranchJoin = ''branch-join''"
definition TopologyCallReturn :: string where [go_const]: "TopologyCallReturn = ''call-return''"
definition TopologyRecursive :: string where [go_const]: "TopologyRecursive = ''recursive''"

record OracleNode =
  Ref :: NodeRef
  Operation :: string
  NodeIdentity :: nat
  NodeCondition :: string
  AliasAction :: string
  AliasSource :: nat
  UnknownEffect :: string
  NodeConstraint :: string
  Terminal :: bool

definition EdgeIntra :: string where [go_const]: "EdgeIntra = ''intra''"
definition EdgeCall :: string where [go_const]: "EdgeCall = ''call''"
definition EdgeReturn :: string where [go_const]: "EdgeReturn = ''return''"

record OracleEdge =
  From :: NodeRef
  To :: NodeRef
  EdgeKind :: string
  EdgeSite :: nat

record Shape =
  ShapeProcedures :: int
  ShapeNodes :: int
  ShapeIdentities :: int
  ShapeCallSites :: int
  ShapeCallDepth :: int
  ShapeTopology :: string
  ShapeBranchJoin :: bool
  ShapeRecursive :: bool

record ProgramMetrics =
  MetricProcedures :: int
  MetricNodes :: int
  MetricIdentities :: int
  MetricValidatedFacts :: int
  MetricCallSites :: int
  MetricCallDepth :: int
  MetricBranchJoin :: bool
  MetricRecursive :: bool

record OracleProgram =
  CaseID :: string
  ProgramShape :: Shape
  Entry :: NodeRef
  Nodes :: "OracleNode list"
  Edges :: "OracleEdge list"
  Identities :: "nat list"
  InitialFacts :: "string list"

section \<open>Metrics\<close>

definition tally :: "('k \<times> int) list \<Rightarrow> 'k \<Rightarrow> ('k \<times> int) list" where
  "tally m k = AList.update k ((case map_of m k of None \<Rightarrow> 0 | Some n \<Rightarrow> n) + 1) m"

definition callees :: "(nat \<times> nat list) list \<Rightarrow> nat \<Rightarrow> nat list" where
  "callees graph procedure = (case map_of graph procedure of None \<Rightarrow> [] | Some cs \<Rightarrow> cs)"

text \<open>
  The search below a procedure. The code tests a callee for being active before it visits it;
  here the visit of an active procedure adds nothing. The set of active procedures gets each
  procedure on its visit and loses it at the end, so it is passed down.
\<close>

lemma no_callees: "procedure \<notin> fst ` set graph \<Longrightarrow> callees graph procedure = []"
  unfolding callees_def map_of_eq_None_iff [symmetric] by simp

function callDepthFrom :: "(nat \<times> nat list) list \<Rightarrow> nat set \<Rightarrow> nat \<Rightarrow> nat" where
  "callDepthFrom graph active procedure =
     (if procedure \<in> active then 0
      else foldl max 0 (map (\<lambda>callee. 1 + callDepthFrom graph (insert procedure active) callee) (callees graph procedure)))"
  by pat_completeness auto

termination callDepthFrom
proof (relation "measures
    [\<lambda>(graph, active, _). card (fst ` set graph - active), \<lambda>(graph, active, procedure). if procedure \<in> fst ` set graph - active then 1 else 0]", goal_cases)
  case 1
  show ?case by simp
next
  case (2 graph active procedure callee)
  then have "procedure \<in> fst ` set graph" using no_callees [of procedure graph] by (metis empty_iff list.set(1))
  then have "fst ` set graph - insert procedure active \<subset> fst ` set graph - active" using 2(1) by auto
  then show ?case by (simp add: psubset_card_mono)
qed

declare callDepthFrom.simps [simp del]

definition callGraphDepth :: "(nat \<times> nat list) list \<Rightarrow> nat" where
  "callGraphDepth graph = foldl max 0 (map (\<lambda>procedure. callDepthFrom graph {} procedure) (map fst graph))"

record metricScan =
  scanSites :: "nat set"
  scanGraph :: "(nat \<times> nat list) list"
  scanIncoming :: "(string \<times> int) list"
  scanBranchJoin :: bool
  scanRecursive :: bool

definition scanEdge :: "metricScan \<Rightarrow> OracleEdge \<Rightarrow> metricScan" where
  "scanEdge scan edge =
     (if EdgeKind edge = EdgeIntra then
        (let incoming = tally (scanIncoming scan) (ref_key (To edge))
         in scan\<lparr>scanIncoming := incoming,
              scanBranchJoin := scanBranchJoin scan \<or> the (map_of incoming (ref_key (To edge))) > 1\<rparr>)
      else if EdgeKind edge = EdgeCall then
        (let caller = refProcedure (From edge); callee = refProcedure (To edge); known = callees (scanGraph scan) caller
         in scan\<lparr>scanSites := insert (EdgeSite edge) (scanSites scan),
              scanGraph := AList.update caller (if callee \<in> set known then known else known @ [callee]) (scanGraph scan),
              scanRecursive := scanRecursive scan \<or> caller = callee\<rparr>)
      else scan)"

text \<open>Some procedure has the least number of nodes; zero when there is no procedure.\<close>

definition leastCount :: "int list \<Rightarrow> int" where
  "leastCount counts = foldl (\<lambda>least n. if least = 0 \<or> n < least then n else least) 0 counts"

definition Metrics :: "OracleProgram \<Rightarrow> ProgramMetrics" where
  "Metrics program =
     (let procedures = foldl (\<lambda>m node. tally m (refProcedure (Ref node))) [] (Nodes program);
          scan = foldl scanEdge \<lparr>scanSites = {}, scanGraph = [], scanIncoming = [], scanBranchJoin = False, scanRecursive = False\<rparr>
            (Edges program)
      in \<lparr>MetricProcedures = int (length procedures), MetricNodes = leastCount (map snd procedures),
          MetricIdentities = int (length (Identities program)),
          MetricValidatedFacts = int (length (filter (\<lambda>f. f = InitialFactValidated) (InitialFacts program))),
          MetricCallSites = int (card (scanSites scan)), MetricCallDepth = int (callGraphDepth (scanGraph scan)),
          MetricBranchJoin = scanBranchJoin scan, MetricRecursive = scanRecursive scan\<rparr>)"

section \<open>Validation\<close>

definition validateNodeEnums :: "OracleNode \<Rightarrow> go_error option" where
  "validateNodeEnums node = first_error
     [error_when (Operation node \<notin> {OperationNoop, OperationValidate, OperationConsume, OperationMutate, OperationReplace,
          OperationEscape, OperationUnresolved}) ''unsupported operation %q'' [Operation node],
      error_when (NodeCondition node \<notin> {[], ConditionalResultNone, ConditionalResultNil, ConditionalResultNonNil, ConditionalResultUnknown})
        ''unsupported conditional result %q'' [NodeCondition node],
      error_when (AliasAction node \<notin> {[], AliasActionNone, AliasActionCopy, AliasActionKill})
        ''unsupported alias action %q'' [AliasAction node],
      error_when (UnknownEffect node \<notin> {[], UnknownEffectNone, UnknownEffectUnresolved, UnknownEffectConcurrentMutation,
          UnknownEffectEscapedHeap}) ''unsupported unknown effect %q'' [UnknownEffect node],
      error_when (NodeConstraint node \<notin> {[], ConstraintNone, ConstraintSAT, ConstraintUNSAT})
        ''unsupported constraint %q'' [NodeConstraint node]]"

fun validateIdentities :: "nat \<Rightarrow> nat list \<Rightarrow> string list \<Rightarrow> go_error option" where
  "validateIdentities index (identity # identities) (f # facts) = first_error
     [error_when (identity \<noteq> index mod 256) ''identity %d is %d, want a contiguous admitted identity'' [show_nat index, show_nat identity],
      error_when (f \<noteq> InitialFactNeedsValidation \<and> f \<noteq> InitialFactValidated)
        ''identity %d has unsupported initial fact %q'' [show_nat identity, f],
      validateIdentities (Suc index) identities facts]"
| "validateIdentities index _ _ = None"

fun validateNodes ::
  "OracleProgram \<Rightarrow> string set \<Rightarrow> (nat \<times> int) list \<Rightarrow> OracleNode list \<Rightarrow> go_error + string set \<times> (nat \<times> int) list" where
  "validateNodes program seen byProcedure [] = Inr (seen, byProcedure)"
| "validateNodes program seen byProcedure (node # nodes) =
     (let key = ref_key (Ref node) in
      case first_error
        [error_when (key \<in> seen) ''duplicate node %s'' [key],
         error_when (int (refProcedure (Ref node)) \<ge> ShapeProcedures (ProgramShape program))
           ''node %s references procedure outside the admitted set'' [key],
         error_when (int (refNode (Ref node)) \<ge> ShapeNodes (ProgramShape program))
           ''node %s references node index outside the admitted set'' [key],
         error_when (NodeIdentity node \<ge> length (Identities program) \<or> AliasSource node \<ge> length (Identities program))
           ''node %s references identity outside the admitted set'' [key],
         wrap_error ''node %s: %w'' [key] (validateNodeEnums node)] of
        Some e \<Rightarrow> Inl e
      | None \<Rightarrow> validateNodes program (insert key seen) (tally byProcedure (refProcedure (Ref node))) nodes)"

fun validateProcedures :: "(nat \<times> int) list \<Rightarrow> int \<Rightarrow> int list \<Rightarrow> go_error option" where
  "validateProcedures byProcedure want [] = None"
| "validateProcedures byProcedure want (procedure # procedures) =
     (let n = (case map_of byProcedure (nat procedure mod 256) of None \<Rightarrow> 0 | Some n \<Rightarrow> n) in first_error
        [error_when (n \<noteq> want) ''procedure %d contains %d nodes, want %d'' [show_int procedure, show_int n, show_int want],
         validateProcedures byProcedure want procedures])"

definition bump :: "(nat \<times> 8 word) list \<Rightarrow> nat \<Rightarrow> (nat \<times> 8 word) list" where
  "bump m k = AList.update k ((case map_of m k of None \<Rightarrow> 0 | Some n \<Rightarrow> n) + 1) m"

fun validateEdges ::
  "string set \<Rightarrow> (nat \<times> 8 word) list \<Rightarrow> (nat \<times> 8 word) list \<Rightarrow> OracleEdge list
    \<Rightarrow> go_error + (nat \<times> 8 word) list \<times> (nat \<times> 8 word) list" where
  "validateEdges nodes callSites returns [] = Inr (callSites, returns)"
| "validateEdges nodes callSites returns (edge # edges) =
     (case first_error
        [error_when (ref_key (From edge) \<notin> nodes \<or> ref_key (To edge) \<notin> nodes)
           ''edge %s -> %s has missing endpoint'' [ref_key (From edge), ref_key (To edge)],
         error_when (EdgeKind edge \<notin> {EdgeIntra, EdgeCall, EdgeReturn})
           ''edge %s -> %s has unsupported kind %q'' [ref_key (From edge), ref_key (To edge), EdgeKind edge],
         error_when ((EdgeKind edge = EdgeCall \<or> EdgeKind edge = EdgeReturn) \<and> EdgeSite edge = 0)
           ''%s edge requires call site'' [EdgeKind edge]] of
        Some e \<Rightarrow> Inl e
      | None \<Rightarrow> validateEdges nodes (if EdgeKind edge = EdgeCall then bump callSites (EdgeSite edge) else callSites)
          (if EdgeKind edge = EdgeReturn then bump returns (EdgeSite edge) else returns) edges)"

definition countAt :: "(nat \<times> 8 word) list \<Rightarrow> nat \<Rightarrow> 8 word" where
  "countAt m k = (case map_of m k of None \<Rightarrow> 0 | Some n \<Rightarrow> n)"

definition checkCallSite :: "(nat \<times> 8 word) list \<Rightarrow> nat \<times> 8 word \<Rightarrow> go_error option" where
  "checkCallSite returns = (\<lambda>(callSite, n). error_when (n \<noteq> 1 \<or> countAt returns callSite \<noteq> 1)
     ''call site %d has %d calls and %d returns, want one matched pair''
     [show_nat callSite, show_nat (unat n), show_nat (unat (countAt returns callSite))])"

definition checkReturnSite :: "(nat \<times> 8 word) list \<Rightarrow> nat \<times> 8 word \<Rightarrow> go_error option" where
  "checkReturnSite callSites = (\<lambda>(callSite, _). error_when (countAt callSites callSite = 0)
     ''return edge for call site %d has no matching call'' [show_nat callSite])"

definition shapeMatches :: "Shape \<Rightarrow> ProgramMetrics \<Rightarrow> bool" where
  "shapeMatches shape metrics \<longleftrightarrow>
     MetricProcedures metrics = ShapeProcedures shape \<and> MetricNodes metrics = ShapeNodes shape \<and>
     MetricIdentities metrics = ShapeIdentities shape \<and> MetricCallSites metrics = ShapeCallSites shape \<and>
     MetricCallDepth metrics = ShapeCallDepth shape \<and> MetricBranchJoin metrics = ShapeBranchJoin shape \<and>
     MetricRecursive metrics = ShapeRecursive shape"

text \<open>The code ranges over the maps of counters in any order, which decides only the error returned.\<close>

definition ValidateProgram :: "OracleProgram \<Rightarrow> go_error option" where
  "ValidateProgram program =
     (let shape = ProgramShape program in
      case first_error
        [error_when (CaseID program = [] \<or> Nodes program = [] \<or> Identities program = [])
           ''program requires a case ID, nodes, and identities'' [],
         error_when (ShapeProcedures shape < 1 \<or> ShapeNodes shape < 1 \<or> ShapeIdentities shape < 1 \<or>
             ShapeCallSites shape < 0 \<or> ShapeCallDepth shape < 0)
           ''program shape contains an invalid bound'' [],
         error_when (ShapeTopology shape \<notin> {TopologyLinear, TopologyBranchJoin, TopologyCallReturn, TopologyRecursive})
           ''program shape has unsupported topology %q'' [ShapeTopology shape],
         error_when (int (length (Identities program)) \<noteq> ShapeIdentities shape) ''program admits %d identities, want %d''
           [show_nat (length (Identities program)), show_int (ShapeIdentities shape)],
         error_when (length (InitialFacts program) \<noteq> length (Identities program))
           ''program admits %d initial facts, want one for each of %d identities''
           [show_nat (length (InitialFacts program)), show_nat (length (Identities program))],
         validateIdentities 0 (Identities program) (InitialFacts program)] of
        Some e \<Rightarrow> Some e
      | None \<Rightarrow>
          (case validateNodes program {} [] (Nodes program) of
             Inl e \<Rightarrow> Some e
           | Inr (nodes, byProcedure) \<Rightarrow>
               (case first_error
                  [validateProcedures byProcedure (ShapeNodes shape) [0..ShapeProcedures shape - 1],
                   error_when (ref_key (Entry program) \<notin> nodes) ''entry %s is missing'' [ref_key (Entry program)]] of
                  Some e \<Rightarrow> Some e
                | None \<Rightarrow>
                    (case validateEdges nodes [] [] (Edges program) of
                       Inl e \<Rightarrow> Some e
                     | Inr (callSites, returns) \<Rightarrow> first_error
                         [first_error (map (checkCallSite returns) callSites),
                          first_error (map (checkReturnSite callSites) returns),
                          error_when (\<not> shapeMatches shape (Metrics program))
                            ''declared shape %+v does not match derived graph metrics %+v'' []]))))"

definition InitialFactFor :: "OracleProgram \<Rightarrow> nat \<Rightarrow> string" where
  "InitialFactFor program identity = (if identity \<ge> length (InitialFacts program) then [] else InitialFacts program ! identity)"
end
