(* ===== verification/Oracle_Interpreter.thy ===== *)
theory Oracle_Interpreter imports Oracle_Model begin
text \<open>
  The reference interpreter of the protocol oracle (\<open>internal/protocoloracle/reference.go\<close>): a
  worklist over path edges with procedure summaries and call dependencies, under a budget of work
  units, on concrete states of the tracked identities.
\<close>

section \<open>States and their keys\<close>

definition maxReferenceIdentities :: nat where [go_const]: "maxReferenceIdentities = 8"

text \<open>The arrays have \<open>maxReferenceIdentities\<close> entries.\<close>

record referenceState =
  validated :: "bool list"
  violated :: bool
  uncertainty :: "8 word"
  aliases :: "nat list"

definition show_go_bool :: "bool \<Rightarrow> string" where
  "show_go_bool b = (if b then ''true'' else ''false'')"

definition show_array :: "('a \<Rightarrow> string) \<Rightarrow> 'a list \<Rightarrow> string" where
  "show_array show xs = ''['' @ strings_Join (map show xs) '' '' @ '']''"

definition reference_key :: "referenceState \<Rightarrow> string" where
  "reference_key s = ''validated='' @ show_array show_go_bool (validated s) @ ''|violated='' @ show_go_bool (violated s) @
     ''|uncertainty='' @ show_nat (unat (uncertainty s)) @ ''|aliases='' @ show_array show_nat (aliases s)"

record referenceEntryFact =
  entryNode :: NodeRef
  entryState :: referenceState

definition entry_key :: "referenceEntryFact \<Rightarrow> string" where
  "entry_key f = ref_key (entryNode f) @ ''|'' @ reference_key (entryState f)"

record referencePathEdge =
  pathEntry :: referenceEntryFact
  pathNode :: NodeRef
  pathState :: referenceState
  pathWitness :: "string list"

definition path_key :: "referencePathEdge \<Rightarrow> string" where
  "path_key p = entry_key (pathEntry p) @ ''|node='' @ ref_key (pathNode p) @ ''|'' @ reference_key (pathState p)"

record referenceDependency =
  calleeEntry :: referenceEntryFact
  calleeExit :: NodeRef
  callerEntry :: referenceEntryFact
  callSite :: nat
  returnNode :: NodeRef
  callerState :: referenceState
  callerWitness :: "string list"

definition referenceDependency_key :: "referenceDependency \<Rightarrow> string" where
  "referenceDependency_key d = entry_key (calleeEntry d) @ ''|exit='' @ ref_key (calleeExit d) @ ''|caller='' @ entry_key (callerEntry d) @
     ''|site='' @ show_nat (callSite d) @ ''|return='' @ ref_key (returnNode d) @ ''|state='' @ reference_key (callerState d)"

record referenceSummary =
  summaryEntry :: referenceEntryFact
  summaryExit :: NodeRef
  summaryState :: referenceState
  summaryWitness :: "string list"

definition referenceSummary_key :: "referenceSummary \<Rightarrow> string" where
  "referenceSummary_key s = entry_key (summaryEntry s) @ ''|exit='' @ ref_key (summaryExit s) @ ''|'' @ reference_key (summaryState s)"

section \<open>The effect of a node\<close>

datatype Outcome = OutcomeNone | OutcomeViolation | OutcomeInconclusive

definition applyAlias :: "referenceState \<Rightarrow> OracleNode \<Rightarrow> referenceState" where
  "applyAlias s node =
     (if AliasAction node = AliasActionCopy then s\<lparr>aliases := (aliases s)[NodeIdentity node := aliases s ! AliasSource node]\<rparr>
      else if AliasAction node = AliasActionKill then
        s\<lparr>aliases := (aliases s)[NodeIdentity node := NodeIdentity node], validated := (validated s)[NodeIdentity node := False]\<rparr>
      else s)"

definition applyOperation :: "referenceState \<Rightarrow> OracleNode \<Rightarrow> referenceState" where
  "applyOperation s node =
     (let object = aliases s ! NodeIdentity node in
      if Operation node = OperationConsume then (if \<not> validated s ! object then s\<lparr>violated := True\<rparr> else s)
      else if Operation node = OperationEscape then s\<lparr>uncertainty := uncertainty s OR push_bit 3 1\<rparr>
      else if Operation node = OperationValidate then
        (if NodeCondition node = ConditionalResultNil then s\<lparr>validated := (validated s)[object := True]\<rparr>
         else if NodeCondition node = ConditionalResultUnknown then
           (if \<not> validated s ! object then s\<lparr>uncertainty := uncertainty s OR push_bit 0 1\<rparr> else s)
         else s)
      else if Operation node = OperationMutate \<or> Operation node = OperationReplace then s\<lparr>validated := (validated s)[object := False]\<rparr>
      else if Operation node = OperationUnresolved then s\<lparr>uncertainty := uncertainty s OR push_bit 1 1\<rparr>
      else s)"

definition applyUnknown :: "referenceState \<Rightarrow> OracleNode \<Rightarrow> referenceState" where
  "applyUnknown s node =
     (if UnknownEffect node = UnknownEffectUnresolved then s\<lparr>uncertainty := uncertainty s OR push_bit 1 1\<rparr>
      else if UnknownEffect node = UnknownEffectConcurrentMutation then s\<lparr>uncertainty := uncertainty s OR push_bit 2 1\<rparr>
      else if UnknownEffect node = UnknownEffectEscapedHeap then s\<lparr>uncertainty := uncertainty s OR push_bit 3 1\<rparr>
      else s)"

definition applyReferenceNode :: "referenceState \<Rightarrow> OracleNode \<Rightarrow> nat \<Rightarrow> referenceState" where
  "applyReferenceNode s node tracked =
     (if NodeIdentity node \<ge> length (aliases s) \<or> AliasSource node \<ge> length (aliases s)
      then s\<lparr>uncertainty := uncertainty s OR push_bit 5 1\<rparr>
      else
        (let s = applyAlias s node in
         if aliases s ! NodeIdentity node \<noteq> aliases s ! tracked then s
         else applyUnknown (applyOperation s node) node))"

definition referenceTerminalOutcome :: "referenceState \<Rightarrow> nat \<Rightarrow> Outcome" where
  "referenceTerminalOutcome s tracked =
     (if violated s \<or> \<not> validated s ! (aliases s ! tracked) then OutcomeViolation
      else if uncertainty s \<noteq> 0 then OutcomeInconclusive
      else OutcomeNone)"

definition referenceUncertaintyNames :: "8 word \<Rightarrow> string list" where
  "referenceUncertaintyNames bits = map snd (filter (\<lambda>(b, name). bits AND b \<noteq> 0)
     [(push_bit 0 1, ''conditional-result''), (push_bit 1 1, ''unresolved''), (push_bit 2 1, ''concurrent-mutation''),
      (push_bit 3 1, ''escaped-heap-mutation''), (push_bit 4 1, ''state-budget''), (push_bit 5 1, ''identity-bound'')])"

definition joinOutcome :: "Outcome \<Rightarrow> Outcome \<Rightarrow> Outcome" where
  "joinOutcome left right =
     (if left = OutcomeViolation \<or> right = OutcomeViolation then OutcomeViolation
      else if left = OutcomeInconclusive \<or> right = OutcomeInconclusive then OutcomeInconclusive
      else OutcomeNone)"

section \<open>Edges\<close>

definition referenceEdgeKey :: "OracleEdge \<Rightarrow> string" where
  "referenceEdgeKey edge = ref_key (From edge) @ ''|'' @ EdgeKind edge @ ''|'' @ show_nat (EdgeSite edge) @ ''|'' @ ref_key (To edge)"

definition sortEdges :: "OracleEdge list \<Rightarrow> OracleEdge list" where
  "sortEdges = slices_SortFunc (\<lambda>left right. cmp_Compare (referenceEdgeKey left) (referenceEdgeKey right))"

definition referenceReturnEdgesFrom :: "OracleEdge list \<Rightarrow> OracleEdge list" where
  "referenceReturnEdgesFrom edges = filter (\<lambda>edge. EdgeKind edge = EdgeReturn) edges"

definition referenceReturnEdgesForCall :: "OracleEdge list \<Rightarrow> nat \<Rightarrow> nat \<Rightarrow> OracleEdge list" where
  "referenceReturnEdgesForCall edges site calleeProcedure =
     sortEdges (filter (\<lambda>edge. EdgeKind edge = EdgeReturn \<and> EdgeSite edge = site \<and> refProcedure (From edge) = calleeProcedure) edges)"

text \<open>The maps of nodes and of outgoing edges; a missing node is Go's zero value.\<close>

definition zeroOracleNode :: OracleNode where
  "zeroOracleNode = \<lparr>Ref = \<lparr>refProcedure = 0, refNode = 0\<rparr>, Operation = [], NodeIdentity = 0, NodeCondition = [], AliasAction = [],
     AliasSource = 0, UnknownEffect = [], NodeConstraint = [], Terminal = False\<rparr>"

definition nodeAt :: "OracleProgram \<Rightarrow> NodeRef \<Rightarrow> OracleNode" where
  "nodeAt program ref = (case map_of (foldl (\<lambda>m node. AList.update (ref_key (Ref node)) node m) [] (Nodes program)) (ref_key ref) of
       None \<Rightarrow> zeroOracleNode
     | Some node \<Rightarrow> node)"

definition outgoingFrom :: "OracleProgram \<Rightarrow> NodeRef \<Rightarrow> OracleEdge list" where
  "outgoingFrom program ref = filter (\<lambda>edge. ref_key (From edge) = ref_key ref) (sortEdges (Edges program))"

section \<open>The worklist\<close>

record oracleRun =
  pathEdges :: "(string \<times> referencePathEdge) list"
  queue :: "string list"
  dependencies :: "(string \<times> referenceDependency) list"
  dependenciesByEntry :: "(string \<times> string list) list"
  summaries :: "(string \<times> referenceSummary) list"
  summariesByEntry :: "(string \<times> string list) list"
  runOutcome :: Outcome
  runUncertainty :: "8 word"
  runWitness :: "string list"
  refinedWitnesses :: "string list"
  summaryReuses :: nat
  workUnits :: int
  budgetExceeded :: bool

definition keysAt :: "(string \<times> string list) list \<Rightarrow> string \<Rightarrow> string list" where
  "keysAt m k = (case map_of m k of None \<Rightarrow> [] | Some ks \<Rightarrow> ks)"

definition reserveWork :: "int \<Rightarrow> oracleRun \<Rightarrow> bool \<times> oracleRun" where
  "reserveWork maxStates st =
     (let st = st\<lparr>workUnits := workUnits st + 1\<rparr>
      in if workUnits st \<le> maxStates then (True, st) else (False, st\<lparr>budgetExceeded := True\<rparr>))"

definition enqueuePath :: "int \<Rightarrow> referencePathEdge \<Rightarrow> oracleRun \<Rightarrow> bool \<times> oracleRun" where
  "enqueuePath maxStates edge st =
     (if map_of (pathEdges st) (path_key edge) \<noteq> None then (True, st)
      else case reserveWork maxStates st of
          (False, st) \<Rightarrow> (False, st)
        | (True, st) \<Rightarrow> (True, st\<lparr>pathEdges := AList.update (path_key edge) edge (pathEdges st), queue := queue st @ [path_key edge]\<rparr>))"

definition applyReferenceSummary :: "int \<Rightarrow> referenceDependency \<Rightarrow> referenceSummary \<Rightarrow> oracleRun \<Rightarrow> bool \<times> oracleRun" where
  "applyReferenceSummary maxStates d s st =
     (if calleeExit d \<noteq> summaryExit s then (True, st)
      else enqueuePath maxStates
        \<lparr>pathEntry = callerEntry d, pathNode = returnNode d,
         pathState = (summaryState s)\<lparr>uncertainty := uncertainty (summaryState s) OR uncertainty (callerState d)\<rparr>,
         pathWitness = callerWitness d @ summaryWitness s\<rparr>
        (st\<lparr>summaryReuses := summaryReuses st + 1\<rparr>))"

text \<open>A loop that returns false as soon as a step does.\<close>

fun whileTrue :: "('x \<Rightarrow> oracleRun \<Rightarrow> bool \<times> oracleRun) \<Rightarrow> 'x list \<Rightarrow> oracleRun \<Rightarrow> bool \<times> oracleRun" where
  "whileTrue step [] st = (True, st)"
| "whileTrue step (x # xs) st = (case step x st of (False, st) \<Rightarrow> (False, st) | (True, st) \<Rightarrow> whileTrue step xs st)"

definition registerReferenceDependency :: "int \<Rightarrow> referenceDependency \<Rightarrow> oracleRun \<Rightarrow> bool \<times> oracleRun" where
  "registerReferenceDependency maxStates d st =
     (if map_of (dependencies st) (referenceDependency_key d) \<noteq> None then (True, st)
      else case reserveWork maxStates st of
          (False, st) \<Rightarrow> (False, st)
        | (True, st) \<Rightarrow>
            (let entryKey = entry_key (calleeEntry d);
                 st = st\<lparr>dependencies := AList.update (referenceDependency_key d) d (dependencies st),
                   dependenciesByEntry := AList.update entryKey
                     (slices_SortFunc cmp_Compare (keysAt (dependenciesByEntry st) entryKey @ [referenceDependency_key d])) (dependenciesByEntry st)\<rparr>
             in whileTrue (\<lambda>summaryKey st. applyReferenceSummary maxStates d (the (map_of (summaries st) summaryKey)) st)
                  (keysAt (summariesByEntry st) entryKey) st))"

definition publishReferenceSummary :: "int \<Rightarrow> referenceSummary \<Rightarrow> oracleRun \<Rightarrow> bool \<times> oracleRun" where
  "publishReferenceSummary maxStates s st =
     (if map_of (summaries st) (referenceSummary_key s) \<noteq> None then (True, st)
      else case reserveWork maxStates st of
          (False, st) \<Rightarrow> (False, st)
        | (True, st) \<Rightarrow>
            (let entryKey = entry_key (summaryEntry s);
                 st = st\<lparr>summaries := AList.update (referenceSummary_key s) s (summaries st),
                   summariesByEntry := AList.update entryKey
                     (slices_SortFunc cmp_Compare (keysAt (summariesByEntry st) entryKey @ [referenceSummary_key s])) (summariesByEntry st)\<rparr>
             in whileTrue (\<lambda>dependencyKey st. applyReferenceSummary maxStates (the (map_of (dependencies st) dependencyKey)) s st)
                  (keysAt (dependenciesByEntry st) entryKey) st))"

text \<open>
  One outgoing edge of a processed path edge, whose state is the one after the node. The break of
  the code on an exceeded budget leaves the switch, so the loop over the edges goes on.
\<close>

definition followOracleEdge :: "OracleProgram \<Rightarrow> int \<Rightarrow> referencePathEdge \<Rightarrow> oracleRun \<Rightarrow> OracleEdge \<Rightarrow> oracleRun" where
  "followOracleEdge program maxStates path st edge =
     (let nextWitness = pathWitness path @ [referenceEdgeKey edge] in
      if EdgeKind edge = EdgeReturn then st
      else if EdgeKind edge = EdgeCall then
        (let entry = \<lparr>entryNode = To edge, entryState = pathState path\<rparr>;
             st = snd (whileTrue (\<lambda>returnEdge. registerReferenceDependency maxStates
                    \<lparr>calleeEntry = entry, calleeExit = From returnEdge, callerEntry = pathEntry path, callSite = EdgeSite edge,
                     returnNode = To returnEdge, callerState = pathState path, callerWitness = nextWitness\<rparr>)
                  (referenceReturnEdgesForCall (sortEdges (Edges program)) (EdgeSite edge) (refProcedure (To edge))) st)
         in if budgetExceeded st then st
            else snd (enqueuePath maxStates \<lparr>pathEntry = entry, pathNode = To edge, pathState = pathState path, pathWitness = nextWitness\<rparr> st))
      else snd (enqueuePath maxStates
        \<lparr>pathEntry = pathEntry path, pathNode = To edge, pathState = pathState path, pathWitness = nextWitness\<rparr> st))"

definition recordTerminal :: "nat \<Rightarrow> referencePathEdge \<Rightarrow> oracleRun \<Rightarrow> oracleRun" where
  "recordTerminal identity path st =
     (let joined = joinOutcome (runOutcome st) (referenceTerminalOutcome (pathState path) identity)
      in st\<lparr>runWitness := (if joined \<noteq> runOutcome st \<or> runWitness st = [] then pathWitness path else runWitness st),
           runOutcome := joined, runUncertainty := runUncertainty st OR uncertainty (pathState path)\<rparr>)"

definition processPath :: "OracleProgram \<Rightarrow> nat \<Rightarrow> int \<Rightarrow> referencePathEdge \<Rightarrow> oracleRun \<Rightarrow> oracleRun" where
  "processPath program identity maxStates path st =
     (let node = nodeAt program (pathNode path) in
      if NodeConstraint node = ConstraintUNSAT then
        st\<lparr>refinedWitnesses := refinedWitnesses st @ [strings_Join (pathWitness path) '' -> '']\<rparr>
      else
        (let path = path\<lparr>pathState := applyReferenceNode (pathState path) node identity\<rparr> in
         if Terminal node then recordTerminal identity path st
         else if referenceReturnEdgesFrom (outgoingFrom program (pathNode path)) \<noteq> [] then
           snd (publishReferenceSummary maxStates
             \<lparr>summaryEntry = pathEntry path, summaryExit = pathNode path, summaryState = pathState path, summaryWitness = pathWitness path\<rparr> st)
         else foldl (followOracleEdge program maxStates path) st (outgoingFrom program (pathNode path))))"

definition oracleStep :: "OracleProgram \<Rightarrow> nat \<Rightarrow> int \<Rightarrow> oracleRun \<Rightarrow> oracleRun" where
  "oracleStep program identity maxStates st =
     processPath program identity maxStates (the (map_of (pathEdges st) (hd (queue st)))) (st\<lparr>queue := tl (queue st)\<rparr>)"

text \<open>Work left: every new entry of the queue is paid with a work unit.\<close>

definition oracleWork :: "int \<Rightarrow> oracleRun \<Rightarrow> nat" where
  "oracleWork maxStates st = 2 * nat (maxStates - workUnits st) + length (queue st)"

lemma reserve_work:
  "reserveWork maxStates st = (ok, st') \<Longrightarrow> queue st' = queue st \<and> 2 * nat (maxStates - workUnits st') + (if ok then 2 else 0) \<le> 2 * nat (maxStates - workUnits st)"
  by (auto simp: reserveWork_def Let_def split: if_splits)

lemma enqueue_work: "oracleWork maxStates (snd (enqueuePath maxStates edge st)) \<le> oracleWork maxStates st"
  using reserve_work [of maxStates st] by (fastforce simp: enqueuePath_def oracleWork_def split: prod.splits bool.splits)

lemma applySummary_work: "oracleWork maxStates (snd (applyReferenceSummary maxStates d s st)) \<le> oracleWork maxStates st"
  using enqueue_work [of maxStates _ "st\<lparr>summaryReuses := summaryReuses st + 1\<rparr>"]
  by (fastforce simp: applyReferenceSummary_def oracleWork_def)

lemma whileTrue_work:
  assumes "\<And>x st. oracleWork maxStates (snd (step x st)) \<le> oracleWork maxStates st"
  shows "oracleWork maxStates (snd (whileTrue step xs st)) \<le> oracleWork maxStates st"
proof (induction xs arbitrary: st)
  case (Cons x xs)
  obtain ok st1 where s: "step x st = (ok, st1)" by force
  then have "oracleWork maxStates st1 \<le> oracleWork maxStates st" using assms [of x st] by simp
  then show ?case using s Cons [of st1] by (cases ok) auto
qed simp

lemma registerDependency_work: "oracleWork maxStates (snd (registerReferenceDependency maxStates d st)) \<le> oracleWork maxStates st"
proof -
  obtain ok st1 where r: "reserveWork maxStates st = (ok, st1)" by force
  then have "oracleWork maxStates (st1\<lparr>dependencies := x, dependenciesByEntry := y\<rparr>) \<le> oracleWork maxStates st" for x y
    using reserve_work [OF r] by (auto simp: oracleWork_def split: if_splits)
  moreover have "oracleWork maxStates st1 \<le> oracleWork maxStates st" using reserve_work [OF r] by (auto simp: oracleWork_def split: if_splits)
  ultimately show ?thesis
    using r by (auto simp: registerReferenceDependency_def Let_def split: bool.splits intro: order.trans [OF whileTrue_work [OF applySummary_work]])
qed

lemma publishSummary_work: "oracleWork maxStates (snd (publishReferenceSummary maxStates s st)) \<le> oracleWork maxStates st"
proof -
  obtain ok st1 where r: "reserveWork maxStates st = (ok, st1)" by force
  then have "oracleWork maxStates (st1\<lparr>summaries := x, summariesByEntry := y\<rparr>) \<le> oracleWork maxStates st" for x y
    using reserve_work [OF r] by (auto simp: oracleWork_def split: if_splits)
  moreover have "oracleWork maxStates st1 \<le> oracleWork maxStates st" using reserve_work [OF r] by (auto simp: oracleWork_def split: if_splits)
  ultimately show ?thesis
    using r by (auto simp: publishReferenceSummary_def Let_def split: bool.splits intro: order.trans [OF whileTrue_work [OF applySummary_work]])
qed

lemma followEdge_work: "oracleWork maxStates (followOracleEdge program maxStates path st edge) \<le> oracleWork maxStates st"
  by (auto simp: followOracleEdge_def Let_def intro: enqueue_work whileTrue_work [OF registerDependency_work]
      order.trans [OF enqueue_work whileTrue_work [OF registerDependency_work]])

lemma followEdges_work: "oracleWork maxStates (foldl (followOracleEdge program maxStates path) st edges) \<le> oracleWork maxStates st"
  by (induction edges arbitrary: st) (auto intro: order.trans followEdge_work)

lemma processPath_work: "oracleWork maxStates (processPath program identity maxStates path st) \<le> oracleWork maxStates st"
proof -
  have "oracleWork maxStates (recordTerminal identity path st) = oracleWork maxStates st" for path st
    by (simp add: recordTerminal_def oracleWork_def Let_def)
  moreover have "oracleWork maxStates (st\<lparr>refinedWitnesses := w\<rparr>) = oracleWork maxStates st" for w
    by (simp add: oracleWork_def)
  ultimately show ?thesis by (auto simp: processPath_def Let_def publishSummary_work followEdges_work)
qed

lemma oracleStep_work: "queue st \<noteq> [] \<Longrightarrow> oracleWork maxStates (oracleStep program identity maxStates st) < oracleWork maxStates st"
proof -
  assume "queue st \<noteq> []"
  then have "oracleWork maxStates (st\<lparr>queue := tl (queue st)\<rparr>) < oracleWork maxStates st" by (simp add: oracleWork_def)
  then show ?thesis
    using processPath_work [of maxStates program identity _ "st\<lparr>queue := tl (queue st)\<rparr>"] unfolding oracleStep_def by (rule le_less_trans [rotated])
qed

function oracleLoop :: "OracleProgram \<Rightarrow> nat \<Rightarrow> int \<Rightarrow> oracleRun \<Rightarrow> oracleRun" where
  "oracleLoop program identity maxStates st =
     (if queue st = [] \<or> budgetExceeded st then st
      else oracleLoop program identity maxStates (oracleStep program identity maxStates st))"
  by pat_completeness auto

termination oracleLoop
  by (relation "measure (\<lambda>(program, identity, maxStates, st). oracleWork maxStates st)") (auto intro: oracleStep_work)

declare oracleLoop.simps [simp del]

section \<open>Interpreting a program\<close>

record IdentityResult =
  ResultOutcome :: Outcome
  ResultUncertainty :: "string list"
  ResultWitness :: "string list"
  RefinedWitnesses :: "string list"
  Summaries :: nat
  SummaryReuses :: nat

definition initialReferenceState :: "OracleProgram \<Rightarrow> referenceState" where
  "initialReferenceState program =
     \<lparr>validated = map (\<lambda>i. i < length (Identities program) \<and> InitialFactFor program i = InitialFactValidated) [0..<maxReferenceIdentities],
      violated = False, uncertainty = 0,
      aliases = map (\<lambda>i. if i < length (Identities program) then i else 0) [0..<maxReferenceIdentities]\<rparr>"

definition emptyRun :: oracleRun where
  "emptyRun = \<lparr>pathEdges = [], queue = [], dependencies = [], dependenciesByEntry = [], summaries = [], summariesByEntry = [],
     runOutcome = OutcomeNone, runUncertainty = 0, runWitness = [], refinedWitnesses = [], summaryReuses = 0, workUnits = 0,
     budgetExceeded = False\<rparr>"

definition rootEdge :: "OracleProgram \<Rightarrow> referencePathEdge" where
  "rootEdge program = \<lparr>pathEntry = \<lparr>entryNode = Entry program, entryState = initialReferenceState program\<rparr>, pathNode = Entry program,
     pathState = initialReferenceState program, pathWitness = []\<rparr>"

definition interpretIdentity :: "OracleProgram \<Rightarrow> nat \<Rightarrow> int \<Rightarrow> IdentityResult" where
  "interpretIdentity program identity maxStates =
     (if ValidateProgram program \<noteq> None \<or> maxStates \<le> 0 \<or> length (Identities program) > maxReferenceIdentities
      then \<lparr>ResultOutcome = OutcomeInconclusive, ResultUncertainty = [''invalid-program''], ResultWitness = [], RefinedWitnesses = [],
        Summaries = 0, SummaryReuses = 0\<rparr>
      else
        (let st = oracleLoop program identity maxStates (snd (enqueuePath maxStates (rootEdge program) emptyRun))
         in \<lparr>ResultOutcome = (if budgetExceeded st then joinOutcome (runOutcome st) OutcomeInconclusive else runOutcome st),
             ResultUncertainty = referenceUncertaintyNames
               (if budgetExceeded st then runUncertainty st OR push_bit 4 1 else runUncertainty st),
             ResultWitness = runWitness st, RefinedWitnesses = slices_SortFunc cmp_Compare (refinedWitnesses st),
             Summaries = length (summaries st), SummaryReuses = summaryReuses st\<rparr>))"

definition Interpret :: "OracleProgram \<Rightarrow> int \<Rightarrow> (nat \<times> IdentityResult) list" where
  "Interpret program maxStates =
     foldl (\<lambda>m identity. AList.update identity (interpretIdentity program identity maxStates) m) [] (Identities program)"
end
