(* ===== verification/Oracle_Keys.thy ===== *)
theory Oracle_Keys imports Oracle_Interpreter begin
text \<open>
  The string keys under which the interpreter keeps path edges, dependencies and summaries name
  exactly one of each, up to the witness, which is not part of the key.
\<close>

section \<open>Taking a key apart\<close>

lemma show_bool_inj [simp]: "show_go_bool a = show_go_bool b \<longleftrightarrow> a = b"
  by (simp add: show_go_bool_def)

lemma show_bool_nonempty [simp]: "show_go_bool b \<noteq> []"
  by (simp add: show_go_bool_def)

lemma show_bool_free [simp]: "CHR '' '' \<notin> set (show_go_bool b)" "CHR ''|'' \<notin> set (show_go_bool b)"
  by (simp_all add: show_go_bool_def)

lemma split_on_Join:
  assumes "xs \<noteq> []" and "\<And>x. x \<in> set xs \<Longrightarrow> c \<notin> set x"
  shows "split_on c (strings_Join xs [c]) = xs"
  using assms by (induction xs "[c]" rule: strings_Join.induct) (simp_all add: split_on_free split_on_sep)

lemma set_Join: "set (strings_Join xs sep) \<subseteq> (\<Union>x\<in>set xs. set x) \<union> set sep"
  by (induction xs sep rule: strings_Join.induct) auto

lemma Join_free: "c \<notin> set sep \<Longrightarrow> (\<And>x. x \<in> set xs \<Longrightarrow> c \<notin> set x) \<Longrightarrow> c \<notin> set (strings_Join xs sep)"
  using set_Join [of xs sep] by fastforce

lemma show_array_inj:
  assumes "show_array show xs = show_array show ys" and "xs \<noteq> []" "ys \<noteq> []"
    and free: "\<And>x. CHR '' '' \<notin> set (show x)" and inj: "\<And>x y. show x = show y \<Longrightarrow> x = y"
  shows "xs = ys"
proof -
  have "strings_Join (map show xs) '' '' = strings_Join (map show ys) '' ''" using assms(1) by (simp add: show_array_def)
  moreover have "split_on CHR '' '' (strings_Join (map show zs) '' '') = map show zs" if "zs \<noteq> []" for zs
    using that free by (intro split_on_Join) auto
  ultimately have "map show xs = map show ys" using assms(2,3) by metis
  then show ?thesis using inj by (metis inj_onI map_inj_on)
qed

lemma show_array_free: "(\<And>x. CHR ''|'' \<notin> set (show x)) \<Longrightarrow> CHR ''|'' \<notin> set (show_array show xs)"
  unfolding show_array_def using Join_free [of "CHR ''|''" "'' ''" "map show xs"] by auto

lemma ref_key_free [simp]: "CHR ''|'' \<notin> set (ref_key r)"
  by (simp add: ref_key_def)

lemma ref_key_parts: "split_on CHR '':'' (ref_key r) = [''p'' @ show_nat (refProcedure r), ''n'' @ show_nat (refNode r)]"
proof -
  have "ref_key r = (''p'' @ show_nat (refProcedure r)) @ CHR '':'' # (''n'' @ show_nat (refNode r))" by (simp add: ref_key_def)
  then show ?thesis by (simp only: split_on_sep) (simp add: split_on_free)
qed

lemma ref_key_inj [simp]: "ref_key r = ref_key r' \<longleftrightarrow> r = r'"
proof
  assume "ref_key r = ref_key r'"
  then show "r = r'" using ref_key_parts [of r] ref_key_parts [of r'] by simp
qed simp

text \<open>The fields between the bars.\<close>

definition fields :: "string \<Rightarrow> string list" where
  "fields = split_on CHR ''|''"

lemma fields_bar: "fields (xs @ CHR ''|'' # ys) = fields xs @ fields ys"
  by (simp add: fields_def split_on_sep)

lemma fields_free: "CHR ''|'' \<notin> set xs \<Longrightarrow> fields xs = [xs]"
  by (simp add: fields_def split_on_free)

lemma fields_reference_key:
  "fields (reference_key s) =
     [''validated='' @ show_array show_go_bool (validated s), ''violated='' @ show_go_bool (violated s),
      ''uncertainty='' @ show_nat (unat (uncertainty s)), ''aliases='' @ show_array show_nat (aliases s)]"
proof -
  have "reference_key s = (''validated='' @ show_array show_go_bool (validated s)) @ CHR ''|'' # (''violated='' @ show_go_bool (violated s)) @
      CHR ''|'' # (''uncertainty='' @ show_nat (unat (uncertainty s))) @ CHR ''|'' # (''aliases='' @ show_array show_nat (aliases s))"
    by (simp add: reference_key_def)
  then show ?thesis by (simp only: fields_bar) (simp add: fields_free show_array_free)
qed

text \<open>A state of the interpreter: its arrays have their length and an alias is an index.\<close>

definition state_wf :: "referenceState \<Rightarrow> bool" where
  "state_wf s \<longleftrightarrow> length (validated s) = maxReferenceIdentities \<and> length (aliases s) = maxReferenceIdentities \<and>
     (\<forall>a\<in>set (aliases s). a < maxReferenceIdentities)"

lemma state_wfD: "state_wf s \<Longrightarrow> validated s \<noteq> [] \<and> aliases s \<noteq> []"
  by (auto simp: state_wf_def go_const)

lemma fields_inj:
  assumes "fields (reference_key s) = fields (reference_key t)" and "state_wf s" "state_wf t"
  shows "s = t"
proof -
  have "show_array show_go_bool (validated s) = show_array show_go_bool (validated t)"
    and "show_array show_nat (aliases s) = show_array show_nat (aliases t)"
    and "violated s = violated t \<and> uncertainty s = uncertainty t"
    using assms(1) by (simp_all add: fields_reference_key word_unat_eq_iff)
  then show ?thesis
    using show_array_inj [of show_go_bool "validated s" "validated t"] show_array_inj [of show_nat "aliases s" "aliases t"]
      assms(2,3) [THEN state_wfD] by simp
qed

lemma length_fields: "length (fields (reference_key s)) = 4"
  by (simp add: fields_reference_key)

lemma fields_entry_key: "fields (entry_key f) = ref_key (entryNode f) # fields (reference_key (entryState f))"
  by (simp add: entry_key_def fields_bar fields_free)

lemma fields_path_key:
  "fields (path_key p) = fields (entry_key (pathEntry p)) @ (''node='' @ ref_key (pathNode p)) # fields (reference_key (pathState p))"
proof -
  have "path_key p = entry_key (pathEntry p) @ CHR ''|'' # (''node='' @ ref_key (pathNode p)) @ CHR ''|'' # reference_key (pathState p)"
    by (simp add: path_key_def)
  then show ?thesis by (simp only: fields_bar) (simp add: fields_free)
qed

lemma fields_summary_key:
  "fields (referenceSummary_key s) = fields (entry_key (summaryEntry s)) @ (''exit='' @ ref_key (summaryExit s)) # fields (reference_key (summaryState s))"
proof -
  have "referenceSummary_key s = entry_key (summaryEntry s) @ CHR ''|'' # (''exit='' @ ref_key (summaryExit s)) @ CHR ''|'' # reference_key (summaryState s)"
    by (simp add: referenceSummary_key_def)
  then show ?thesis by (simp only: fields_bar) (simp add: fields_free)
qed

text \<open>The first field of the callers' entry and state comes with a label.\<close>

lemma fields_prefixed: "CHR ''|'' \<notin> set p \<Longrightarrow> fields (p @ xs) = (p @ hd (fields xs)) # tl (fields xs)"
proof -
  assume p: "CHR ''|'' \<notin> set p"
  have "fields (p @ xs) = prep p (fields xs)" using p unfolding fields_def by (rule split_on_free_append)
  moreover have "prep p ys = (p @ hd ys) # tl ys" if "ys \<noteq> []" for ys using that by (cases ys) auto
  moreover have "fields xs \<noteq> []" by (simp add: fields_def)
  ultimately show ?thesis by simp
qed

lemma fields_dependency_key:
  "fields (referenceDependency_key d) = fields (entry_key (calleeEntry d)) @ [''exit='' @ ref_key (calleeExit d)] @
     fields (''caller='' @ entry_key (callerEntry d)) @ [''site='' @ show_nat (callSite d)] @ [''return='' @ ref_key (returnNode d)] @
     fields (''state='' @ reference_key (callerState d))"
proof -
  have "referenceDependency_key d = entry_key (calleeEntry d) @ CHR ''|'' # (''exit='' @ ref_key (calleeExit d)) @ CHR ''|'' #
      (''caller='' @ entry_key (callerEntry d)) @ CHR ''|'' # (''site='' @ show_nat (callSite d)) @ CHR ''|'' #
      (''return='' @ ref_key (returnNode d)) @ CHR ''|'' # (''state='' @ reference_key (callerState d))"
    by (simp add: referenceDependency_key_def)
  then show ?thesis by (simp only: fields_bar) (simp add: fields_free fields_prefixed)
qed

section \<open>Keys are faithful\<close>

abbreviation entry_wf :: "referenceEntryFact \<Rightarrow> bool" where
  "entry_wf f \<equiv> state_wf (entryState f)"

lemma entry_key_inj: "entry_key f = entry_key g \<Longrightarrow> entry_wf f \<Longrightarrow> entry_wf g \<Longrightarrow> f = g"
  using fields_entry_key [of f] fields_entry_key [of g] fields_inj by simp

lemma entry_fields_inj: "fields (entry_key f) = fields (entry_key g) \<Longrightarrow> entry_wf f \<Longrightarrow> entry_wf g \<Longrightarrow> f = g"
  by (simp add: fields_entry_key fields_inj)

lemma length_entry_fields [simp]: "length (fields (entry_key f)) = 5"
  by (simp add: fields_entry_key length_fields)

lemma path_key_inj:
  assumes "path_key p = path_key q" and "entry_wf (pathEntry p)" "entry_wf (pathEntry q)" "state_wf (pathState p)" "state_wf (pathState q)"
  shows "pathEntry p = pathEntry q \<and> pathNode p = pathNode q \<and> pathState p = pathState q"
proof -
  have "fields (path_key p) = fields (path_key q)" using assms(1) by simp
  then show ?thesis using assms(2-) by (auto simp: fields_path_key dest: entry_fields_inj fields_inj)
qed

lemma reference_summary_key_inj:
  assumes "referenceSummary_key s = referenceSummary_key t" and "entry_wf (summaryEntry s)" "entry_wf (summaryEntry t)" "state_wf (summaryState s)" "state_wf (summaryState t)"
  shows "summaryEntry s = summaryEntry t \<and> summaryExit s = summaryExit t \<and> summaryState s = summaryState t"
proof -
  have "fields (referenceSummary_key s) = fields (referenceSummary_key t)" using assms(1) by simp
  then show ?thesis using assms(2-) by (auto simp: fields_summary_key dest: entry_fields_inj fields_inj)
qed

lemma labelled_fields_eq:
  assumes "fields (p @ xs) = fields (p @ ys)" and "CHR ''|'' \<notin> set p"
  shows "fields xs = fields ys"
proof -
  have "fields xs \<noteq> []" "fields ys \<noteq> []" by (simp_all add: fields_def)
  then show ?thesis using assms by (simp add: fields_prefixed list.expand)
qed

lemma six_fields:
  "as @ [b] @ cs @ [d] @ [e] @ fs = as' @ [b'] @ cs' @ [d'] @ [e'] @ fs' \<Longrightarrow> length as = length as' \<Longrightarrow> length cs = length cs'
    \<Longrightarrow> as = as' \<and> b = b' \<and> cs = cs' \<and> d = d' \<and> e = e' \<and> fs = fs'"
  by simp

lemma reference_dependency_key_inj:
  assumes "referenceDependency_key d = referenceDependency_key d'" and "entry_wf (calleeEntry d)" "entry_wf (calleeEntry d')"
    and "entry_wf (callerEntry d)" "entry_wf (callerEntry d')" "state_wf (callerState d)" "state_wf (callerState d')"
  shows "d' = d\<lparr>callerWitness := callerWitness d'\<rparr>"
proof -
  have l: "length (fields (''caller='' @ entry_key f)) = 5" for f
  proof -
    have "CHR ''|'' \<notin> set ''caller=''" by simp
    then show ?thesis using length_entry_fields [of f] fields_prefixed [of "''caller=''" "entry_key f"] by simp
  qed
  have "fields (referenceDependency_key d) = fields (referenceDependency_key d')" using assms(1) by simp
  note six_fields [OF this [unfolded fields_dependency_key]]
  moreover have "''exit='' @ x = ''exit='' @ y \<longleftrightarrow> x = y" "''site='' @ x = ''site='' @ y \<longleftrightarrow> x = y" "''return='' @ x = ''return='' @ y \<longleftrightarrow> x = y" for x y :: string
    by simp_all
  ultimately have "fields (entry_key (calleeEntry d)) = fields (entry_key (calleeEntry d'))" "calleeExit d = calleeExit d'"
      "fields (''caller='' @ entry_key (callerEntry d)) = fields (''caller='' @ entry_key (callerEntry d'))"
      "callSite d = callSite d'" "returnNode d = returnNode d'"
      "fields (''state='' @ reference_key (callerState d)) = fields (''state='' @ reference_key (callerState d'))"
    using l by (metis length_entry_fields ref_key_inj show_nat_inj)+
  moreover note labelled_fields_eq [OF this(3)] labelled_fields_eq [OF this(6)]
  ultimately have "calleeEntry d = calleeEntry d'" "callerEntry d = callerEntry d'" "callerState d = callerState d'"
    using assms(2-) entry_fields_inj fields_inj by simp_all
  then show ?thesis using \<open>calleeExit d = _\<close> \<open>callSite d = _\<close> \<open>returnNode d = _\<close> by simp
qed
end
