(* ===== verification/Oracle_Semantics.thy ===== *)
theory Oracle_Semantics imports Oracle_Keys begin
text \<open>
  What an oracle program means, independently of the interpreter's tables: executions with a call
  stack whose returns match their calls, the balanced executions inside a procedure, and what a
  validated program guarantees about its graph.
\<close>

section \<open>Executions\<close>

text \<open>
  A node whose constraint is unsatisfiable cannot be executed. A terminal node ends the execution,
  and a node that edges of return leave is an exit, which only returns.
\<close>

definition runs_at :: "OracleProgram \<Rightarrow> nat \<Rightarrow> bool \<Rightarrow> NodeRef \<Rightarrow> referenceState \<Rightarrow> referenceState \<Rightarrow> bool" where
  "runs_at program tracked terminal n s s' \<longleftrightarrow>
     (\<exists>node\<in>set (Nodes program). Ref node = n \<and> NodeConstraint node \<noteq> ConstraintUNSAT \<and> Terminal node = terminal \<and>
        s' = applyReferenceNode s node tracked)"

abbreviation passes :: "OracleProgram \<Rightarrow> nat \<Rightarrow> NodeRef \<Rightarrow> referenceState \<Rightarrow> referenceState \<Rightarrow> bool" where
  "passes program tracked \<equiv> runs_at program tracked False"

definition exit_node :: "OracleProgram \<Rightarrow> NodeRef \<Rightarrow> bool" where
  "exit_node program n \<longleftrightarrow> (\<exists>e\<in>set (Edges program). From e = n \<and> EdgeKind e = EdgeReturn)"

definition edge_from :: "OracleProgram \<Rightarrow> string \<Rightarrow> NodeRef \<Rightarrow> OracleEdge \<Rightarrow> bool" where
  "edge_from program kind n e \<longleftrightarrow> e \<in> set (Edges program) \<and> From e = n \<and> EdgeKind e = kind"

text \<open>A frame of the stack is the call site and the procedure called.\<close>

inductive executes :: "OracleProgram \<Rightarrow> nat \<Rightarrow> NodeRef \<Rightarrow> referenceState \<Rightarrow> (nat \<times> nat) list \<Rightarrow> bool"
  for program tracked where
  enters: "executes program tracked (Entry program) (initialReferenceState program) []"
| flows: "executes program tracked n s stack \<Longrightarrow> passes program tracked n s s' \<Longrightarrow> \<not> exit_node program n
    \<Longrightarrow> edge_from program EdgeIntra n e \<Longrightarrow> executes program tracked (To e) s' stack"
| calls: "executes program tracked n s stack \<Longrightarrow> passes program tracked n s s' \<Longrightarrow> \<not> exit_node program n
    \<Longrightarrow> edge_from program EdgeCall n e \<Longrightarrow> executes program tracked (To e) s' ((EdgeSite e, refProcedure (To e)) # stack)"
| returns: "executes program tracked n s ((site, procedure) # stack) \<Longrightarrow> passes program tracked n s s'
    \<Longrightarrow> edge_from program EdgeReturn n e \<Longrightarrow> EdgeSite e = site \<Longrightarrow> refProcedure n = procedure
    \<Longrightarrow> executes program tracked (To e) s' stack"

definition finishes :: "OracleProgram \<Rightarrow> nat \<Rightarrow> referenceState \<Rightarrow> bool" where
  "finishes program tracked s' \<longleftrightarrow> (\<exists>n s stack. executes program tracked n s stack \<and> runs_at program tracked True n s s')"

section \<open>Executions inside a procedure\<close>

abbreviation root_entry :: "OracleProgram \<Rightarrow> referenceEntryFact" where
  "root_entry program \<equiv> \<lparr>entryNode = Entry program, entryState = initialReferenceState program\<rparr>"

definition matches :: "OracleProgram \<Rightarrow> OracleEdge \<Rightarrow> OracleEdge \<Rightarrow> bool" where
  "matches program e r \<longleftrightarrow> edge_from program EdgeReturn (From r) r \<and> EdgeSite r = EdgeSite e \<and> refProcedure (From r) = refProcedure (To e)"

inductive reaches_from :: "OracleProgram \<Rightarrow> nat \<Rightarrow> referenceEntryFact \<Rightarrow> NodeRef \<Rightarrow> referenceState \<Rightarrow> bool"
  for program tracked where
  root: "reaches_from program tracked (root_entry program) (Entry program) (initialReferenceState program)"
| flow: "reaches_from program tracked f n s \<Longrightarrow> passes program tracked n s s' \<Longrightarrow> \<not> exit_node program n
    \<Longrightarrow> edge_from program EdgeIntra n e \<Longrightarrow> reaches_from program tracked f (To e) s'"
| call: "reaches_from program tracked f n s \<Longrightarrow> passes program tracked n s s' \<Longrightarrow> \<not> exit_node program n
    \<Longrightarrow> edge_from program EdgeCall n e \<Longrightarrow> reaches_from program tracked \<lparr>entryNode = To e, entryState = s'\<rparr> (To e) s'"
| ret: "reaches_from program tracked f n s \<Longrightarrow> passes program tracked n s s' \<Longrightarrow> \<not> exit_node program n
    \<Longrightarrow> edge_from program EdgeCall n e \<Longrightarrow> matches program e r
    \<Longrightarrow> reaches_from program tracked \<lparr>entryNode = To e, entryState = s'\<rparr> (From r) t \<Longrightarrow> passes program tracked (From r) t t'
    \<Longrightarrow> reaches_from program tracked f (To r) t'"

lemma reaches_executes:
  "reaches_from program tracked f n s \<Longrightarrow> executes program tracked (entryNode f) (entryState f) stack \<Longrightarrow> executes program tracked n s stack"
proof (induction arbitrary: stack rule: reaches_from.induct)
  case (ret f n s s' e r t t')
  have "executes program tracked (To e) s' ((EdgeSite e, refProcedure (To e)) # stack)"
    using executes.calls ret.IH(1) ret.prems ret.hyps(2,3,4) by blast
  then have "executes program tracked (From r) t ((EdgeSite e, refProcedure (To e)) # stack)"
    using ret.IH(2) [of "(EdgeSite e, refProcedure (To e)) # stack"] by simp
  then show ?case using executes.returns ret.hyps(5,7) unfolding matches_def by blast
qed (auto intro: executes.flows)

lemma entry_executes: "reaches_from program tracked f n s \<Longrightarrow> \<exists>stack. executes program tracked (entryNode f) (entryState f) stack"
proof (induction rule: reaches_from.induct)
  case root
  show ?case using executes.enters [of program tracked] by auto
next
  case (call f n s s' e)
  then obtain stack where "executes program tracked n s stack" using reaches_executes by blast
  with call.hyps show ?case using executes.calls by fastforce
qed auto

inductive called :: "OracleProgram \<Rightarrow> nat \<Rightarrow> referenceEntryFact \<Rightarrow> (nat \<times> nat) list \<Rightarrow> bool"
  for program tracked where
  bottom: "called program tracked (root_entry program) []"
| frame: "called program tracked f stack \<Longrightarrow> reaches_from program tracked f n s \<Longrightarrow> passes program tracked n s s' \<Longrightarrow> \<not> exit_node program n
    \<Longrightarrow> edge_from program EdgeCall n e
    \<Longrightarrow> called program tracked \<lparr>entryNode = To e, entryState = s'\<rparr> ((EdgeSite e, refProcedure (To e)) # stack)"

inductive_cases called_frame: "called program tracked f ((site, procedure) # stack)"

lemma executes_reaches: "executes program tracked n s stack \<Longrightarrow> \<exists>f. reaches_from program tracked f n s \<and> called program tracked f stack"
proof (induction rule: executes.induct)
  case enters
  show ?case using reaches_from.root called.bottom by blast
next
  case (flows n s stack s' e)
  then show ?case using reaches_from.flow by blast
next
  case (calls n s stack s' e)
  then obtain f where f: "reaches_from program tracked f n s" "called program tracked f stack" by blast
  have "reaches_from program tracked \<lparr>entryNode = To e, entryState = s'\<rparr> (To e) s'" using reaches_from.call [OF f(1)] calls.hyps(2-4) by blast
  moreover have "called program tracked \<lparr>entryNode = To e, entryState = s'\<rparr> ((EdgeSite e, refProcedure (To e)) # stack)"
    using called.frame [OF f(2,1)] calls.hyps(2-4) by blast
  ultimately show ?case by blast
next
  case (returns n s site procedure stack s' e)
  then obtain f where f: "reaches_from program tracked f n s" and c: "called program tracked f ((site, procedure) # stack)" by blast
  from c obtain g m u u' d where g: "called program tracked g stack" "reaches_from program tracked g m u" "passes program tracked m u u'"
      "\<not> exit_node program m" "edge_from program EdgeCall m d" "f = \<lparr>entryNode = To d, entryState = u'\<rparr>"
      "site = EdgeSite d" "procedure = refProcedure (To d)"
    by (rule called_frame) auto
  have e: "From e = n" using returns.hyps(3) by (simp add: edge_from_def)
  have "matches program d e" using returns.hyps(3-5) g(7,8) e by (simp add: matches_def)
  then have "reaches_from program tracked g (To e) s'"
    using reaches_from.ret [OF g(2-5)] f g(6) returns.hyps(2) e by blast
  then show ?case using g(1) by blast
qed

lemma finishes_iff:
  "finishes program tracked s' \<longleftrightarrow> (\<exists>f n s. reaches_from program tracked f n s \<and> runs_at program tracked True n s s')"
  unfolding finishes_def using executes_reaches entry_executes reaches_executes by metis

section \<open>Invariants of the states reached\<close>

lemma apply_wf: "state_wf s \<Longrightarrow> state_wf (applyReferenceNode s node tracked)"
proof -
  assume s: "state_wf s"
  show ?thesis
  proof (cases "NodeIdentity node \<ge> length (aliases s) \<or> AliasSource node \<ge> length (aliases s)")
    case True
    then show ?thesis using s by (simp add: applyReferenceNode_def state_wf_def)
  next
    case False
    have "set ((aliases s)[NodeIdentity node := aliases s ! AliasSource node]) \<subseteq> set (aliases s)"
      using False set_update_subset_insert [of "aliases s" "NodeIdentity node" "aliases s ! AliasSource node"]
        nth_mem [of "AliasSource node" "aliases s"] by auto
    moreover have "set ((aliases s)[NodeIdentity node := NodeIdentity node]) \<subseteq> insert (NodeIdentity node) (set (aliases s))"
      by (rule set_update_subset_insert)
    ultimately have "state_wf (applyAlias s node)"
      using s False unfolding applyAlias_def state_wf_def by (simp add: subset_iff) (metis not_le)
    moreover have "state_wf (applyOperation s node)" if "state_wf s" for s
      using that by (simp add: applyOperation_def state_wf_def Let_def)
    moreover have "state_wf (applyUnknown s node)" if "state_wf s" for s
      using that by (simp add: applyUnknown_def state_wf_def)
    ultimately show ?thesis using False by (simp add: applyReferenceNode_def Let_def)
  qed
qed

text \<open>Uncertainty only grows: a bit set in a state stays set.\<close>

definition bits_within :: "8 word \<Rightarrow> 8 word \<Rightarrow> bool" where
  "bits_within u v \<longleftrightarrow> u OR v = v"

lemma bits_within_refl [simp]: "bits_within u u"
  by (simp add: bits_within_def)

lemma bits_within_trans: "bits_within u v \<Longrightarrow> bits_within v w \<Longrightarrow> bits_within u w"
  unfolding bits_within_def by (metis or.assoc)

lemma bits_within_or [simp]: "bits_within u (u OR v)"
  by (simp add: bits_within_def or.assoc [symmetric])

lemma apply_uncertainty: "bits_within (uncertainty s) (uncertainty (applyReferenceNode s node tracked))"
proof -
  have "uncertainty (applyAlias s node) = uncertainty s" by (simp add: applyAlias_def)
  moreover have "bits_within (uncertainty s) (uncertainty (applyOperation s node))" for s by (simp add: applyOperation_def Let_def)
  moreover have "bits_within (uncertainty s) (uncertainty (applyUnknown s node))" for s by (simp add: applyUnknown_def)
  ultimately show ?thesis by (auto simp: applyReferenceNode_def Let_def) (metis bits_within_trans)
qed

lemma runs_at_wf: "runs_at program tracked b n s s' \<Longrightarrow> state_wf s \<Longrightarrow> state_wf s'"
  unfolding runs_at_def using apply_wf by blast

lemma runs_at_uncertainty: "runs_at program tracked b n s s' \<Longrightarrow> bits_within (uncertainty s) (uncertainty s')"
  unfolding runs_at_def using apply_uncertainty by blast

lemma initial_wf: "state_wf (initialReferenceState program)"
  by (auto simp: initialReferenceState_def state_wf_def go_const)

lemma reaches_wf: "reaches_from program tracked f n s \<Longrightarrow> entry_wf f \<and> state_wf s"
  by (induction rule: reaches_from.induct) (auto simp: initial_wf dest: runs_at_wf)

lemma reaches_uncertainty: "reaches_from program tracked f n s \<Longrightarrow> bits_within (uncertainty (entryState f)) (uncertainty s)"
proof (induction rule: reaches_from.induct)
  case (ret f n s s' e r t t')
  then show ?case using bits_within_trans runs_at_uncertainty by (metis referenceEntryFact.select_convs(2))
qed (auto intro: bits_within_trans runs_at_uncertainty)
section \<open>What validation guarantees\<close>

lemma validateNodes_spec:
  "validateNodes program seen byProcedure nodes = Inr (keys, counts) \<Longrightarrow>
     keys = seen \<union> ref_key ` Ref ` set nodes \<and> distinct (map Ref nodes) \<and> (\<forall>node\<in>set nodes. ref_key (Ref node) \<notin> seen) \<and>
     (\<forall>node\<in>set nodes. NodeIdentity node < length (Identities program) \<and> AliasSource node < length (Identities program))"
proof (induction nodes arbitrary: seen byProcedure)
  case (Cons node nodes)
  let ?key = "ref_key (Ref node)"
  from Cons.prems have hd: "?key \<notin> seen" "NodeIdentity node < length (Identities program) \<and> AliasSource node < length (Identities program)"
    and tl: "validateNodes program (insert ?key seen) (tally byProcedure (refProcedure (Ref node))) nodes = Inr (keys, counts)"
    by (auto simp: Let_def split: option.splits)
  have "Ref node \<notin> Ref ` set nodes" using Cons.IH [OF tl] by auto
  then show ?case using Cons.IH [OF tl] hd by auto
qed simp

lemma validateEdges_spec:
  "validateEdges keys callSites returns edges = Inr counts \<Longrightarrow>
     \<forall>e\<in>set edges. ref_key (From e) \<in> keys \<and> ref_key (To e) \<in> keys \<and> EdgeKind e \<in> {EdgeIntra, EdgeCall, EdgeReturn} \<and>
       (EdgeKind e \<noteq> EdgeIntra \<longrightarrow> EdgeSite e \<noteq> 0)"
proof (induction edges arbitrary: callSites returns)
  case (Cons e edges)
  from Cons.prems have "ref_key (From e) \<in> keys \<and> ref_key (To e) \<in> keys" "EdgeKind e \<in> {EdgeIntra, EdgeCall, EdgeReturn}"
      "EdgeKind e = EdgeCall \<or> EdgeKind e = EdgeReturn \<Longrightarrow> EdgeSite e \<noteq> 0"
    and tl: "\<exists>cs rs. validateEdges keys cs rs edges = Inr counts"
    by (auto split: option.splits)
  then show ?case using Cons.IH by auto
qed simp

lemma valid_program:
  assumes "ValidateProgram program = None"
  shows "distinct (map Ref (Nodes program))" and "Entry program \<in> Ref ` set (Nodes program)"
    and "\<And>e. e \<in> set (Edges program) \<Longrightarrow> From e \<in> Ref ` set (Nodes program) \<and> To e \<in> Ref ` set (Nodes program) \<and>
      EdgeKind e \<in> {EdgeIntra, EdgeCall, EdgeReturn}"
    and "\<And>node. node \<in> set (Nodes program) \<Longrightarrow> NodeIdentity node < length (Identities program) \<and> AliasSource node < length (Identities program)"
proof -
  obtain keys counts where n: "validateNodes program {} [] (Nodes program) = Inr (keys, counts)"
    and rest: "ref_key (Entry program) \<in> keys" "\<exists>ns. validateEdges keys [] [] (Edges program) = Inr ns"
    using assms unfolding ValidateProgram_def by (auto simp: Let_def split: option.splits sum.splits)
  have keys: "keys = ref_key ` Ref ` set (Nodes program)" using validateNodes_spec [OF n] by simp
  then have member: "ref_key r \<in> keys \<longleftrightarrow> r \<in> Ref ` set (Nodes program)" for r by auto
  show "distinct (map Ref (Nodes program))" using validateNodes_spec [OF n] by simp
  show "Entry program \<in> Ref ` set (Nodes program)" using rest(1) member by blast
  show "From e \<in> Ref ` set (Nodes program) \<and> To e \<in> Ref ` set (Nodes program) \<and> EdgeKind e \<in> {EdgeIntra, EdgeCall, EdgeReturn}"
    if "e \<in> set (Edges program)" for e
    using rest(2) validateEdges_spec that member by fast
  show "NodeIdentity node < length (Identities program) \<and> AliasSource node < length (Identities program)"
    if "node \<in> set (Nodes program)" for node
    using validateNodes_spec [OF n] that by simp
qed

text \<open>The maps of nodes and edges then hold each node under its key.\<close>

lemma nodeAt_eq:
  assumes "distinct (map Ref (Nodes program))" and "node \<in> set (Nodes program)"
  shows "nodeAt program (Ref node) = node"
proof -
  have "distinct (map fst [] @ map (\<lambda>node. ref_key (Ref node)) (Nodes program))"
    using assms(1) by (simp add: distinct_map inj_on_def)
  note foldl_update_new [OF this, of "\<lambda>node. node"]
  moreover have "map_of (map (\<lambda>node. (ref_key (Ref node), node)) (Nodes program)) (ref_key (Ref node)) = Some node"
    using assms by (intro map_of_is_SomeI) (auto simp: comp_def distinct_map inj_on_def)
  ultimately show ?thesis by (simp add: nodeAt_def)
qed

lemma runs_at_nodeAt:
  assumes "distinct (map Ref (Nodes program))" and "n \<in> Ref ` set (Nodes program)"
  shows "runs_at program tracked terminal n s s' \<longleftrightarrow> NodeConstraint (nodeAt program n) \<noteq> ConstraintUNSAT \<and>
    Terminal (nodeAt program n) = terminal \<and> s' = applyReferenceNode s (nodeAt program n) tracked"
  using assms nodeAt_eq [of program] unfolding runs_at_def by (metis image_iff)

lemma outgoingFrom_set: "set (outgoingFrom program n) = {e \<in> set (Edges program). From e = n}"
  by (auto simp: outgoingFrom_def sortEdges_def)

lemma returns_from_empty: "referenceReturnEdgesFrom (outgoingFrom program n) = [] \<longleftrightarrow> \<not> exit_node program n"
  unfolding referenceReturnEdgesFrom_def filter_empty_conv exit_node_def using outgoingFrom_set by fastforce

lemma returns_for_call:
  "set (referenceReturnEdgesForCall (sortEdges (Edges program)) (EdgeSite e) (refProcedure (To e))) = {r. matches program e r}"
  by (auto simp: referenceReturnEdgesForCall_def sortEdges_def matches_def edge_from_def)

end
