(* ===== verification/Oracle_Exact.thy ===== *)
theory Oracle_Exact imports Oracle_Semantics begin
text \<open>
  The interpreter of the protocol oracle is exact: what its tables hold is reached by an execution,
  and when the budget is not exceeded everything an execution reaches_from is in them. A budget that is
  large enough exists for every program.
\<close>

section \<open>Sound tables\<close>

definition path_ok :: "OracleProgram \<Rightarrow> nat \<Rightarrow> referencePathEdge \<Rightarrow> bool" where
  "path_ok program tracked p \<longleftrightarrow> reaches_from program tracked (pathEntry p) (pathNode p) (pathState p)"

definition dependency_ok :: "OracleProgram \<Rightarrow> nat \<Rightarrow> referenceDependency \<Rightarrow> bool" where
  "dependency_ok program tracked d \<longleftrightarrow>
     (\<exists>n s e r. reaches_from program tracked (callerEntry d) n s \<and> passes program tracked n s (callerState d) \<and> \<not> exit_node program n \<and>
        edge_from program EdgeCall n e \<and> matches program e r \<and> calleeEntry d = \<lparr>entryNode = To e, entryState = callerState d\<rparr> \<and>
        callSite d = EdgeSite e \<and> calleeExit d = From r \<and> returnNode d = To r)"

definition summary_ok :: "OracleProgram \<Rightarrow> nat \<Rightarrow> referenceSummary \<Rightarrow> bool" where
  "summary_ok program tracked s \<longleftrightarrow>
     (\<exists>t. reaches_from program tracked (summaryEntry s) (summaryExit s) t \<and> passes program tracked (summaryExit s) t (summaryState s))"

definition oracle_tables_ok :: "OracleProgram \<Rightarrow> nat \<Rightarrow> oracleRun \<Rightarrow> bool" where
  "oracle_tables_ok program tracked st \<longleftrightarrow>
     (\<forall>k p. map_of (pathEdges st) k = Some p \<longrightarrow> k = path_key p \<and> path_ok program tracked p) \<and>
     (\<forall>k d. map_of (dependencies st) k = Some d \<longrightarrow> k = referenceDependency_key d \<and> dependency_ok program tracked d) \<and>
     (\<forall>k s. map_of (summaries st) k = Some s \<longrightarrow> k = referenceSummary_key s \<and> summary_ok program tracked s) \<and>
     set (queue st) \<subseteq> dom (map_of (pathEdges st)) \<and>
     (\<forall>ek. set (keysAt (dependenciesByEntry st) ek) = {k. \<exists>d. map_of (dependencies st) k = Some d \<and> entry_key (calleeEntry d) = ek}) \<and>
     (\<forall>ek. set (keysAt (summariesByEntry st) ek) = {k. \<exists>s. map_of (summaries st) k = Some s \<and> entry_key (summaryEntry s) = ek})"

lemma reference_dependency_wf: "dependency_ok program tracked d \<Longrightarrow> entry_wf (calleeEntry d) \<and> entry_wf (callerEntry d) \<and> state_wf (callerState d)"
  unfolding dependency_ok_def using reaches_wf runs_at_wf by (metis referenceEntryFact.select_convs(2))

lemma reference_summary_wf: "summary_ok program tracked s \<Longrightarrow> entry_wf (summaryEntry s) \<and> state_wf (summaryState s)"
  unfolding summary_ok_def using reaches_wf runs_at_wf by blast

lemma path_wf: "path_ok program tracked p \<Longrightarrow> entry_wf (pathEntry p) \<and> state_wf (pathState p)"
  unfolding path_ok_def using reaches_wf by blast

text \<open>
  Work is work_counted by the entries of the tables, whose keys come from finitely many, so only a
  budget below their number is exceeded.
\<close>

definition path_keys :: "OracleProgram \<Rightarrow> nat \<Rightarrow> string set" where
  "path_keys program tracked = path_key ` {p. path_ok program tracked p}"

definition dependency_keys :: "OracleProgram \<Rightarrow> nat \<Rightarrow> string set" where
  "dependency_keys program tracked = referenceDependency_key ` {d. dependency_ok program tracked d}"

definition summary_keys :: "OracleProgram \<Rightarrow> nat \<Rightarrow> string set" where
  "summary_keys program tracked = referenceSummary_key ` {s. summary_ok program tracked s}"

definition work_bound :: "OracleProgram \<Rightarrow> nat \<Rightarrow> nat" where
  "work_bound program tracked = card (path_keys program tracked) + card (dependency_keys program tracked) + card (summary_keys program tracked)"

definition table_size :: "oracleRun \<Rightarrow> nat" where
  "table_size st = length (pathEdges st) + length (dependencies st) + length (summaries st)"

definition work_counted :: "OracleProgram \<Rightarrow> nat \<Rightarrow> int \<Rightarrow> oracleRun \<Rightarrow> bool" where
  "work_counted program tracked maxStates st \<longleftrightarrow>
     distinct (map fst (pathEdges st)) \<and> distinct (map fst (dependencies st)) \<and> distinct (map fst (summaries st)) \<and>
     (\<not> budgetExceeded st \<longrightarrow> workUnits st = int (table_size st)) \<and>
     (budgetExceeded st \<longrightarrow> maxStates < int (work_bound program tracked))"

definition tables_sound :: "OracleProgram \<Rightarrow> nat \<Rightarrow> int \<Rightarrow> oracleRun \<Rightarrow> bool" where
  "tables_sound program tracked maxStates st \<longleftrightarrow> oracle_tables_ok program tracked st \<and> work_counted program tracked maxStates st"

lemma states_finite: "finite {s. state_wf s}"
proof -
  have "finite {xs. set xs \<subseteq> (UNIV :: bool set) \<and> length xs = maxReferenceIdentities}"
    and "finite {xs. set xs \<subseteq> {..<maxReferenceIdentities} \<and> length xs = maxReferenceIdentities}"
    by (rule finite_lists_length_eq, simp)+
  then have "finite ({xs. set xs \<subseteq> (UNIV :: bool set) \<and> length xs = maxReferenceIdentities} \<times> (UNIV :: bool set) \<times> (UNIV :: 8 word set) \<times>
      {xs. set xs \<subseteq> {..<maxReferenceIdentities} \<and> length xs = maxReferenceIdentities})" (is "finite ?A")
    by simp
  moreover have "{s. state_wf s} \<subseteq> (\<lambda>(v, b, u, a). \<lparr>validated = v, violated = b, uncertainty = u, aliases = a\<rparr>) ` ?A"
  proof
    fix s :: referenceState assume "s \<in> {s. state_wf s}"
    then have "(validated s, violated s, uncertainty s, aliases s) \<in> ?A" by (auto simp: state_wf_def)
    moreover have "s = (\<lambda>(v, b, u, a). \<lparr>validated = v, violated = b, uncertainty = u, aliases = a\<rparr>) (validated s, violated s, uncertainty s, aliases s)"
      by simp
    ultimately show "s \<in> (\<lambda>(v, b, u, a). \<lparr>validated = v, violated = b, uncertainty = u, aliases = a\<rparr>) ` ?A" by (rule rev_image_eqI)
  qed
  ultimately show ?thesis using finite_surj by blast
qed

definition reached_refs :: "OracleProgram \<Rightarrow> NodeRef set" where
  "reached_refs program = insert (Entry program) (To ` set (Edges program) \<union> From ` set (Edges program))"

definition reached_entries :: "OracleProgram \<Rightarrow> referenceEntryFact set" where
  "reached_entries program = (\<lambda>(n, s). \<lparr>entryNode = n, entryState = s\<rparr>) ` (reached_refs program \<times> {s. state_wf s})"

lemma reached_finite: "finite (reached_refs program)" "finite (reached_entries program)"
  using states_finite by (simp_all add: reached_refs_def reached_entries_def)

lemma reaches_refs: "reaches_from program tracked f n s \<Longrightarrow> n \<in> reached_refs program \<and> entryNode f \<in> reached_refs program"
  by (induction rule: reaches_from.induct) (auto simp: reached_refs_def edge_from_def matches_def)

lemma reached_entry: "entryNode f \<in> reached_refs program \<Longrightarrow> entry_wf f \<Longrightarrow> f \<in> reached_entries program"
  unfolding reached_entries_def by (rule rev_image_eqI [of "(entryNode f, entryState f)"]) auto

lemma reaches_entry: "reaches_from program tracked f n s \<Longrightarrow> f \<in> reached_entries program"
  using reaches_refs reaches_wf reached_entry by blast

lemma path_keys_finite: "finite (path_keys program tracked)"
proof (rule finite_subset)
  let ?key = "\<lambda>(f, n, s). path_key \<lparr>pathEntry = f, pathNode = n, pathState = s, pathWitness = []\<rparr>"
  show "finite (?key ` (reached_entries program \<times> reached_refs program \<times> {s. state_wf s}))"
    using reached_finite states_finite by simp
  show "path_keys program tracked \<subseteq> ?key ` (reached_entries program \<times> reached_refs program \<times> {s. state_wf s})"
    unfolding path_keys_def path_ok_def
  proof clarify
    fix p :: referencePathEdge assume p: "reaches_from program tracked (pathEntry p) (pathNode p) (pathState p)"
    then have "(pathEntry p, pathNode p, pathState p) \<in> reached_entries program \<times> reached_refs program \<times> {s. state_wf s}"
      using reaches_entry reaches_refs reaches_wf by blast
    then show "path_key p \<in> ?key ` (reached_entries program \<times> reached_refs program \<times> {s. state_wf s})"
      by (rule rev_image_eqI) (simp add: path_key_def)
  qed
qed

lemma summary_keys_finite: "finite (summary_keys program tracked)"
proof (rule finite_subset)
  let ?key = "\<lambda>(f, n, s). referenceSummary_key \<lparr>summaryEntry = f, summaryExit = n, summaryState = s, summaryWitness = []\<rparr>"
  show "finite (?key ` (reached_entries program \<times> reached_refs program \<times> {s. state_wf s}))"
    using reached_finite states_finite by simp
  show "summary_keys program tracked \<subseteq> ?key ` (reached_entries program \<times> reached_refs program \<times> {s. state_wf s})"
    unfolding summary_keys_def
  proof clarify
    fix s :: referenceSummary assume s: "summary_ok program tracked s"
    then have "(summaryEntry s, summaryExit s, summaryState s) \<in> reached_entries program \<times> reached_refs program \<times> {s. state_wf s}"
      using reaches_entry reaches_refs reference_summary_wf [OF s] unfolding summary_ok_def by blast
    then show "referenceSummary_key s \<in> ?key ` (reached_entries program \<times> reached_refs program \<times> {s. state_wf s})"
      by (rule rev_image_eqI) (simp add: referenceSummary_key_def)
  qed
qed

lemma dependency_keys_finite: "finite (dependency_keys program tracked)"
proof (rule finite_subset)
  let ?key = "\<lambda>(c, x, f, site, n, s). referenceDependency_key \<lparr>calleeEntry = c, calleeExit = x, callerEntry = f, callSite = site, returnNode = n,
      callerState = s, callerWitness = []\<rparr>"
  let ?A = "reached_entries program \<times> reached_refs program \<times> reached_entries program \<times> EdgeSite ` set (Edges program) \<times>
      reached_refs program \<times> {s. state_wf s}"
  show "finite (?key ` ?A)" using reached_finite states_finite by simp
  show "dependency_keys program tracked \<subseteq> ?key ` ?A"
    unfolding dependency_keys_def
  proof clarify
    fix d :: referenceDependency assume d: "dependency_ok program tracked d"
    then obtain n s e r where e: "reaches_from program tracked (callerEntry d) n s" "edge_from program EdgeCall n e" "matches program e r"
        "calleeEntry d = \<lparr>entryNode = To e, entryState = callerState d\<rparr>" "callSite d = EdgeSite e" "calleeExit d = From r" "returnNode d = To r"
      unfolding dependency_ok_def by blast
    have "calleeEntry d \<in> reached_entries program"
      using e(2,4) reference_dependency_wf [OF d] by (intro reached_entry) (auto simp: reached_refs_def edge_from_def)
    moreover have "calleeExit d \<in> reached_refs program" "callSite d \<in> EdgeSite ` set (Edges program)" "returnNode d \<in> reached_refs program"
      using e by (auto simp: reached_refs_def edge_from_def matches_def)
    ultimately have "(calleeEntry d, calleeExit d, callerEntry d, callSite d, returnNode d, callerState d) \<in> ?A"
      using reaches_entry [OF e(1)] reference_dependency_wf [OF d] by blast
    then show "referenceDependency_key d \<in> ?key ` ?A" by (rule rev_image_eqI) (simp add: referenceDependency_key_def)
  qed
qed

lemma keys_bounded:
  assumes "distinct (map fst t)" and "\<And>k v. map_of t k = Some v \<Longrightarrow> k \<in> K" and "finite K"
  shows "length t \<le> card K" and "k \<in> K \<Longrightarrow> map_of t k = None \<Longrightarrow> length t < card K"
proof -
  have sub: "fst ` set t \<subseteq> K" using assms(1,2) map_of_is_SomeI by fastforce
  have len: "length t = card (fst ` set t)" using distinct_card [OF assms(1)] by simp
  show "length t \<le> card K" using len sub assms(3) by (simp add: card_mono)
  show "length t < card K" if "k \<in> K" "map_of t k = None"
    using len sub assms(3) that by (metis map_of_eq_None_iff psubsetI psubset_card_mono)
qed

text \<open>What a summary returns to a caller is reached there, and the caller's uncertainty is in it already.\<close>

definition joined_path :: "referenceDependency \<Rightarrow> referenceSummary \<Rightarrow> referencePathEdge" where
  "joined_path d s = \<lparr>pathEntry = callerEntry d, pathNode = returnNode d,
     pathState = (summaryState s)\<lparr>uncertainty := uncertainty (summaryState s) OR uncertainty (callerState d)\<rparr>,
     pathWitness = callerWitness d @ summaryWitness s\<rparr>"

lemma joined_state:
  assumes "dependency_ok program tracked d" "summary_ok program tracked s" "calleeEntry d = summaryEntry s"
  shows "pathState (joined_path d s) = summaryState s"
proof -
  from assms have "bits_within (uncertainty (callerState d)) (uncertainty (summaryState s))"
    unfolding dependency_ok_def summary_ok_def
    using reaches_uncertainty runs_at_uncertainty bits_within_trans by (metis referenceEntryFact.select_convs(2))
  then show ?thesis by (simp add: joined_path_def bits_within_def or.commute)
qed

lemma joined_ok:
  assumes d: "dependency_ok program tracked d" and s: "summary_ok program tracked s" and eq: "calleeEntry d = summaryEntry s"
    and x: "calleeExit d = summaryExit s"
  shows "path_ok program tracked (joined_path d s)"
proof -
  obtain n c e r where call: "reaches_from program tracked (callerEntry d) n c" "passes program tracked n c (callerState d)" "\<not> exit_node program n"
      "edge_from program EdgeCall n e" "matches program e r"
    and f: "calleeEntry d = \<lparr>entryNode = To e, entryState = callerState d\<rparr>" "calleeExit d = From r" "returnNode d = To r"
    using d unfolding dependency_ok_def by blast
  obtain t where "reaches_from program tracked (summaryEntry s) (summaryExit s) t" "passes program tracked (summaryExit s) t (summaryState s)"
    using s unfolding summary_ok_def by blast
  then have "reaches_from program tracked (callerEntry d) (To r) (summaryState s)"
    using reaches_from.ret [OF call] f eq x by simp
  moreover have "pathEntry (joined_path d s) = callerEntry d" "pathNode (joined_path d s) = To r" using f by (simp_all add: joined_path_def)
  ultimately show ?thesis using joined_state [OF d s eq] unfolding path_ok_def by metis
qed

section \<open>What the operations keep\<close>

text \<open>The tables only grow, new path edges are queued, and an exceeded budget stays exceeded.\<close>

definition extends :: "oracleRun \<Rightarrow> oracleRun \<Rightarrow> bool" where
  "extends st st' \<longleftrightarrow>
     map_of (pathEdges st) \<subseteq>\<^sub>m map_of (pathEdges st') \<and> map_of (dependencies st) \<subseteq>\<^sub>m map_of (dependencies st') \<and>
     map_of (summaries st) \<subseteq>\<^sub>m map_of (summaries st') \<and> set (queue st) \<subseteq> set (queue st') \<and>
     dom (map_of (pathEdges st')) \<subseteq> dom (map_of (pathEdges st)) \<union> set (queue st') \<and>
     (budgetExceeded st \<longrightarrow> budgetExceeded st') \<and> runOutcome st' = runOutcome st \<and> runUncertainty st' = runUncertainty st"

lemma extends_refl [simp]: "extends st st"
  by (simp add: extends_def)

lemma extends_trans: "extends st st' \<Longrightarrow> extends st' st'' \<Longrightarrow> extends st st''"
  unfolding extends_def by (elim conjE, intro conjI) (blast intro: map_le_trans | simp)+

definition has_path :: "oracleRun \<Rightarrow> referenceEntryFact \<Rightarrow> NodeRef \<Rightarrow> referenceState \<Rightarrow> bool" where
  "has_path st f n s \<longleftrightarrow> map_of (pathEdges st) (path_key \<lparr>pathEntry = f, pathNode = n, pathState = s, pathWitness = []\<rparr>) \<noteq> None"

lemma path_key_witness [simp]:
  "path_key \<lparr>pathEntry = pathEntry p, pathNode = pathNode p, pathState = pathState p, pathWitness = w\<rparr> = path_key p"
  by (simp add: path_key_def)

lemma has_path_extends: "extends st st' \<Longrightarrow> has_path st f n s \<Longrightarrow> has_path st' f n s"
  unfolding extends_def has_path_def using map_le_implies_dom_le by blast

lemma reserve_extends: "reserveWork maxStates st = (ok, st') \<Longrightarrow> extends st st' \<and> (\<not> ok \<longrightarrow> budgetExceeded st')"
  by (auto simp: reserveWork_def Let_def extends_def split: if_splits)

lemma reserve_tables:
  "reserveWork maxStates st = (ok, st') \<Longrightarrow> pathEdges st' = pathEdges st \<and> queue st' = queue st \<and> dependencies st' = dependencies st \<and>
     summaries st' = summaries st \<and> dependenciesByEntry st' = dependenciesByEntry st \<and> summariesByEntry st' = summariesByEntry st \<and>
     runOutcome st' = runOutcome st \<and> runUncertainty st' = runUncertainty st"
  by (auto simp: reserveWork_def Let_def split: if_splits)

lemma reserve_ok: "reserveWork maxStates st = (ok, st') \<Longrightarrow> oracle_tables_ok program tracked st' = oracle_tables_ok program tracked st"
  unfolding oracle_tables_ok_def using reserve_tables [of maxStates st ok st'] by presburger

lemma table_size_bound:
  assumes "oracle_tables_ok program tracked st" "work_counted program tracked maxStates st"
    and new: "map_of (pathEdges st) k = None \<and> k \<in> path_keys program tracked \<or>
      map_of (dependencies st) k = None \<and> k \<in> dependency_keys program tracked \<or>
      map_of (summaries st) k = None \<and> k \<in> summary_keys program tracked"
  shows "table_size st < work_bound program tracked"
proof -
  have d: "distinct (map fst (pathEdges st))" "distinct (map fst (dependencies st))" "distinct (map fst (summaries st))"
    using assms(2) by (simp_all add: work_counted_def)
  have k: "map_of (pathEdges st) l = Some p \<Longrightarrow> l \<in> path_keys program tracked"
    "map_of (dependencies st) l = Some e \<Longrightarrow> l \<in> dependency_keys program tracked"
    "map_of (summaries st) l = Some s \<Longrightarrow> l \<in> summary_keys program tracked" for l p e s
    using assms(1) unfolding oracle_tables_ok_def path_keys_def dependency_keys_def summary_keys_def by blast+
  note b = keys_bounded [OF d(1) k(1) path_keys_finite] keys_bounded [OF d(2) k(2) dependency_keys_finite]
    keys_bounded [OF d(3) k(3) summary_keys_finite]
  from new show ?thesis unfolding table_size_def work_bound_def using b by (elim disjE) fastforce+
qed

text \<open>Reserving a work unit for a new entry.\<close>

lemma reserve_counted:
  assumes "tables_sound program tracked maxStates st" "reserveWork maxStates st = (b, st1)"
    and new: "map_of (pathEdges st) k = None \<and> k \<in> path_keys program tracked \<or>
      map_of (dependencies st) k = None \<and> k \<in> dependency_keys program tracked \<or>
      map_of (summaries st) k = None \<and> k \<in> summary_keys program tracked"
  shows "(budgetExceeded st1 \<longrightarrow> maxStates < int (work_bound program tracked)) \<and> (\<not> budgetExceeded st1 \<longrightarrow> workUnits st1 = int (table_size st) + 1)"
proof -
  have "work_counted program tracked maxStates st" "oracle_tables_ok program tracked st" using assms(1) by (simp_all add: tables_sound_def)
  then show ?thesis
    using table_size_bound [OF _ _ new] assms(2) by (auto simp: reserveWork_def Let_def work_counted_def split: if_splits)
qed

lemma reserve_fails:
  assumes "tables_sound program tracked maxStates st" "reserveWork maxStates st = (b, st1)"
    and new: "map_of (pathEdges st) k = None \<and> k \<in> path_keys program tracked \<or>
      map_of (dependencies st) k = None \<and> k \<in> dependency_keys program tracked \<or>
      map_of (summaries st) k = None \<and> k \<in> summary_keys program tracked"
    and "\<not> b"
  shows "tables_sound program tracked maxStates st1"
  using reserve_counted [OF assms(1-3)] reserve_ok [OF assms(2)] reserve_extends [OF assms(2)] reserve_tables [OF assms(2)] assms(1,4)
  by (simp add: tables_sound_def work_counted_def)

lemma length_update_new: "map_of al k = None \<Longrightarrow> length (AList.update k v al) = Suc (length al)"
  by (simp add: map_of_eq_None_iff update_new)

lemma enqueue_keeps:
  assumes "tables_sound program tracked maxStates st" and p: "path_ok program tracked p" and run: "enqueuePath maxStates p st = (ok, st')"
  shows "tables_sound program tracked maxStates st'" and "extends st st'" and "ok \<Longrightarrow> has_path st' (pathEntry p) (pathNode p) (pathState p)"
    and "\<not> ok \<Longrightarrow> budgetExceeded st'" and "dependencies st' = dependencies st" "summaries st' = summaries st"
proof -
  have "tables_sound program tracked maxStates st' \<and> extends st st' \<and> (ok \<longrightarrow> has_path st' (pathEntry p) (pathNode p) (pathState p)) \<and>
      (\<not> ok \<longrightarrow> budgetExceeded st') \<and> dependencies st' = dependencies st \<and> summaries st' = summaries st"
  proof (cases "map_of (pathEdges st) (path_key p) = None")
    case False
    then show ?thesis using run assms(1) by (auto simp: enqueuePath_def has_path_def)
  next
    case new: True
    obtain b st1 where r: "reserveWork maxStates st = (b, st1)" by force
    have key: "path_key p \<in> path_keys program tracked" using p by (simp add: path_keys_def)
    show ?thesis
    proof (cases b)
      case False
      then have "tables_sound program tracked maxStates st1" using reserve_fails [OF assms(1) r, of "path_key p"] new key by blast
      then show ?thesis using False run new r reserve_extends [OF r] reserve_tables [OF r] by (simp add: enqueuePath_def)
    next
      case True
      then have st': "ok" "st' = st1\<lparr>pathEdges := AList.update (path_key p) p (pathEdges st1), queue := queue st1 @ [path_key p]\<rparr>"
        using run new r by (simp_all add: enqueuePath_def)
      have "oracle_tables_ok program tracked st1" using reserve_ok [OF r] assms(1) by (simp add: tables_sound_def)
      then have "oracle_tables_ok program tracked st'" using p unfolding oracle_tables_ok_def st'(2) by (auto simp: update_conv')
      moreover have "work_counted program tracked maxStates st'"
        using assms(1) reserve_counted [OF assms(1) r, of "path_key p"] new key reserve_tables [OF r] unfolding tables_sound_def work_counted_def st'(2)
        by (simp add: table_size_def length_update_new distinct_update)
      ultimately have "tables_sound program tracked maxStates st'" by (simp add: tables_sound_def)
      moreover have "extends st1 st'"
        using new reserve_tables [OF r] unfolding st'(2) extends_def by (auto simp: update_conv' map_le_def dom_def split: if_splits)
      ultimately show ?thesis
        using st' reserve_extends [OF r] extends_trans reserve_tables [OF r] by (auto simp: has_path_def update_conv')
    qed
  qed
  then show "tables_sound program tracked maxStates st'" "extends st st'" "ok \<Longrightarrow> has_path st' (pathEntry p) (pathNode p) (pathState p)"
    "\<not> ok \<Longrightarrow> budgetExceeded st'" "dependencies st' = dependencies st" "summaries st' = summaries st" by simp_all
qed

text \<open>Loops that stop at the first failure.\<close>

lemma whileTrue_keeps:
  assumes step: "\<And>x st. x \<in> set xs \<Longrightarrow> I st \<Longrightarrow> I (snd (step x st)) \<and> extends st (snd (step x st)) \<and>
      (fst (step x st) \<longrightarrow> Q x (snd (step x st))) \<and> (\<not> fst (step x st) \<longrightarrow> budgetExceeded (snd (step x st)))"
    and mono: "\<And>x st st'. Q x st \<Longrightarrow> extends st st' \<Longrightarrow> Q x st'"
    and "I st" and run: "whileTrue step xs st = (ok, st')"
  shows "I st' \<and> extends st st' \<and> (ok \<longrightarrow> (\<forall>x\<in>set xs. Q x st')) \<and> (\<not> ok \<longrightarrow> budgetExceeded st')"
  using assms(3) step run
proof (induction xs arbitrary: st)
  case (Cons x xs)
  obtain b st1 where s: "step x st = (b, st1)" by force
  have st1: "I st1" "extends st st1" "b \<Longrightarrow> Q x st1" "\<not> b \<Longrightarrow> budgetExceeded st1" using Cons.prems(2) [of x st] Cons.prems(1) s by auto
  show ?case
  proof (cases b)
    case True
    then have "whileTrue step xs st1 = (ok, st')" using Cons.prems(3) s by simp
    then have "I st' \<and> extends st1 st' \<and> (ok \<longrightarrow> (\<forall>x\<in>set xs. Q x st')) \<and> (\<not> ok \<longrightarrow> budgetExceeded st')"
      using Cons.IH [OF st1(1)] Cons.prems(2) by simp
    then show ?thesis using st1 True mono extends_trans by auto
  next
    case False
    then show ?thesis using Cons.prems(3) s st1 by simp
  qed
qed simp
section \<open>Joining summaries and dependencies\<close>

text \<open>Every summary has been returned to every dependency on its entry and exit.\<close>

definition joined_tables :: "oracleRun \<Rightarrow> bool" where
  "joined_tables st \<longleftrightarrow>
     (\<forall>k d k' s. map_of (dependencies st) k = Some d \<and> map_of (summaries st) k' = Some s \<and>
        entry_key (calleeEntry d) = entry_key (summaryEntry s) \<and> calleeExit d = summaryExit s
        \<longrightarrow> has_path st (callerEntry d) (returnNode d) (summaryState s))"

lemma tables_sound_reuses [simp]: "tables_sound program tracked maxStates (st\<lparr>summaryReuses := n\<rparr>) = tables_sound program tracked maxStates st"
  by (simp add: tables_sound_def oracle_tables_ok_def work_counted_def table_size_def)

lemma extends_reuses: "extends (st\<lparr>summaryReuses := n\<rparr>) st' = extends st st'"
  by (simp add: extends_def)

lemma keysAt_update [simp]: "keysAt (AList.update k v m) k' = (if k' = k then v else keysAt m k')"
  by (simp add: keysAt_def update_conv')

text \<open>What a step that may exceed the budget keeps, and what it gives when it does not.\<close>

definition keeps :: "OracleProgram \<Rightarrow> nat \<Rightarrow> int \<Rightarrow> oracleRun \<Rightarrow> (oracleRun \<Rightarrow> bool) \<Rightarrow> bool \<times> oracleRun \<Rightarrow> bool" where
  "keeps program tracked maxStates st Q r \<longleftrightarrow> tables_sound program tracked maxStates (snd r) \<and> extends st (snd r) \<and> (fst r \<longrightarrow> Q (snd r)) \<and>
     (\<not> fst r \<longrightarrow> budgetExceeded (snd r))"

lemma keeps_trans: "extends st st1 \<Longrightarrow> keeps program tracked maxStates st1 Q r \<Longrightarrow> keeps program tracked maxStates st Q r"
  unfolding keeps_def using extends_trans by blast

lemma keeps_mono: "keeps program tracked maxStates st Q r \<Longrightarrow> (Q (snd r) \<Longrightarrow> Q' (snd r)) \<Longrightarrow> keeps program tracked maxStates st Q' r"
  unfolding keeps_def by blast

lemma enqueue_keeps':
  assumes "tables_sound program tracked maxStates st" "path_ok program tracked p"
  shows "keeps program tracked maxStates st (\<lambda>st'. has_path st' (pathEntry p) (pathNode p) (pathState p)) (enqueuePath maxStates p st)"
    and "dependencies (snd (enqueuePath maxStates p st)) = dependencies st" and "summaries (snd (enqueuePath maxStates p st)) = summaries st"
  unfolding keeps_def using enqueue_keeps [OF assms] prod.collapse by metis+

lemma applySummary_keeps:
  assumes st: "tables_sound program tracked maxStates st" and d: "map_of (dependencies st) kd = Some d" and s: "map_of (summaries st) ks = Some s"
    and eq: "entry_key (calleeEntry d) = entry_key (summaryEntry s)"
  shows "keeps program tracked maxStates st (\<lambda>st'. calleeExit d = summaryExit s \<longrightarrow> has_path st' (callerEntry d) (returnNode d) (summaryState s))
      (applyReferenceSummary maxStates d s st)"
    and "dependencies (snd (applyReferenceSummary maxStates d s st)) = dependencies st \<and> summaries (snd (applyReferenceSummary maxStates d s st)) = summaries st"
proof -
  have ok: "dependency_ok program tracked d" "summary_ok program tracked s" using st d s unfolding tables_sound_def oracle_tables_ok_def by blast+
  then have e: "calleeEntry d = summaryEntry s" using entry_key_inj [OF eq] reference_dependency_wf reference_summary_wf by blast
  let ?st = "st\<lparr>summaryReuses := summaryReuses st + 1\<rparr>"
  have run: "applyReferenceSummary maxStates d s st = (if calleeExit d \<noteq> summaryExit s then (True, st) else enqueuePath maxStates (joined_path d s) ?st)"
    by (simp add: applyReferenceSummary_def joined_path_def)
  have p: "path_ok program tracked (joined_path d s)" if "calleeExit d = summaryExit s" using joined_ok [OF ok e that] .
  have fields: "pathEntry (joined_path d s) = callerEntry d" "pathNode (joined_path d s) = returnNode d" by (simp_all add: joined_path_def)
  have st1: "tables_sound program tracked maxStates ?st" using st by simp
  show "keeps program tracked maxStates st (\<lambda>st'. calleeExit d = summaryExit s \<longrightarrow> has_path st' (callerEntry d) (returnNode d) (summaryState s))
      (applyReferenceSummary maxStates d s st)"
  proof (cases "calleeExit d = summaryExit s")
    case True
    then show ?thesis using enqueue_keeps'(1) [OF st1 p] fields joined_state [OF ok e] run by (simp add: keeps_def extends_reuses)
  next
    case False
    then show ?thesis using run st by (simp add: keeps_def)
  qed
  show "dependencies (snd (applyReferenceSummary maxStates d s st)) = dependencies st \<and> summaries (snd (applyReferenceSummary maxStates d s st)) = summaries st"
    using run enqueue_keeps'(2,3) [OF st1 p] by simp
qed

text \<open>The loop over the summaries of a new dependency, or over the dependencies of a new summary.\<close>

lemma join_loop:
  assumes sound: "tables_sound program tracked maxStates st"
    and pairs: "\<And>k. k \<in> set keys \<Longrightarrow> \<exists>kd ks. map_of (dependencies st) kd = Some (D (dependencies st) k) \<and>
      map_of (summaries st) ks = Some (S (summaries st) k) \<and>
      entry_key (calleeEntry (D (dependencies st) k)) = entry_key (summaryEntry (S (summaries st) k))"
    and run: "r = whileTrue (\<lambda>k st. applyReferenceSummary maxStates (D (dependencies st) k) (S (summaries st) k) st) keys st"
  shows "keeps program tracked maxStates st (\<lambda>st'. \<forall>k\<in>set keys. calleeExit (D (dependencies st) k) = summaryExit (S (summaries st) k) \<longrightarrow>
      has_path st' (callerEntry (D (dependencies st) k)) (returnNode (D (dependencies st) k)) (summaryState (S (summaries st) k))) r"
    and "dependencies (snd r) = dependencies st \<and> summaries (snd r) = summaries st"
proof -
  let ?I = "\<lambda>st'. tables_sound program tracked maxStates st' \<and> dependencies st' = dependencies st \<and> summaries st' = summaries st"
  let ?Q = "\<lambda>k st'. calleeExit (D (dependencies st) k) = summaryExit (S (summaries st) k) \<longrightarrow>
      has_path st' (callerEntry (D (dependencies st) k)) (returnNode (D (dependencies st) k)) (summaryState (S (summaries st) k))"
  let ?step = "\<lambda>k st. applyReferenceSummary maxStates (D (dependencies st) k) (S (summaries st) k) st"
  obtain ok st' where w: "whileTrue ?step keys st = (ok, st')" by force
  have "?I st' \<and> extends st st' \<and> (ok \<longrightarrow> (\<forall>k\<in>set keys. ?Q k st')) \<and> (\<not> ok \<longrightarrow> budgetExceeded st')"
  proof (rule whileTrue_keeps [where I = ?I and Q = ?Q, OF _ _ _ w])
    fix k st' assume "k \<in> set keys" and I: "?I st'"
    then obtain kd ks where "map_of (dependencies st') kd = Some (D (dependencies st') k)" "map_of (summaries st') ks = Some (S (summaries st') k)"
        "entry_key (calleeEntry (D (dependencies st') k)) = entry_key (summaryEntry (S (summaries st') k))"
      using pairs by force
    from applySummary_keeps [OF conjunct1 [OF I] this]
    show "?I (snd (?step k st')) \<and> extends st' (snd (?step k st')) \<and> (fst (?step k st') \<longrightarrow> ?Q k (snd (?step k st'))) \<and>
        (\<not> fst (?step k st') \<longrightarrow> budgetExceeded (snd (?step k st')))"
      using I unfolding keeps_def by auto
  next
    show "?Q k st''" if "?Q k st'" "extends st' st''" for k st' st'' using that has_path_extends by blast
  qed (use sound in simp)
  then show "keeps program tracked maxStates st (\<lambda>st'. \<forall>k\<in>set keys. ?Q k st') r" "dependencies (snd r) = dependencies st \<and> summaries (snd r) = summaries st"
    using run w by (simp_all add: keeps_def)
qed

lemma joined_tablesI:
  assumes "\<And>k d k' s. map_of (dependencies st) k = Some d \<Longrightarrow> map_of (summaries st) k' = Some s \<Longrightarrow>
      entry_key (calleeEntry d) = entry_key (summaryEntry s) \<Longrightarrow> calleeExit d = summaryExit s
      \<Longrightarrow> has_path st (callerEntry d) (returnNode d) (summaryState s)"
  shows "joined_tables st"
  using assms unfolding joined_tables_def by blast

lemma joined_tablesD:
  "joined_tables st \<Longrightarrow> map_of (dependencies st) k = Some d \<Longrightarrow> map_of (summaries st) k' = Some s \<Longrightarrow>
      entry_key (calleeEntry d) = entry_key (summaryEntry s) \<Longrightarrow> calleeExit d = summaryExit s
      \<Longrightarrow> has_path st (callerEntry d) (returnNode d) (summaryState s)"
  unfolding joined_tables_def by blast

lemma registerDependency_keeps:
  assumes st: "tables_sound program tracked maxStates st" and d: "dependency_ok program tracked d"
  shows "keeps program tracked maxStates st
    (\<lambda>st'. map_of (dependencies st') (referenceDependency_key d) \<noteq> None \<and> (joined_tables st \<longrightarrow> joined_tables st')) (registerReferenceDependency maxStates d st)"
proof (cases "map_of (dependencies st) (referenceDependency_key d) = None")
  case False
  then show ?thesis using st by (simp add: registerReferenceDependency_def keeps_def)
next
  case new: True
  obtain b st1 where r: "reserveWork maxStates st = (b, st1)" by force
  note r1 = reserve_extends [OF r] reserve_tables [OF r]
  have key: "referenceDependency_key d \<in> dependency_keys program tracked" using d by (simp add: dependency_keys_def)
  show ?thesis
  proof (cases b)
    case False
    then have "tables_sound program tracked maxStates st1" using reserve_fails [OF st r, of "referenceDependency_key d"] new key by blast
    then show ?thesis using False new r r1 by (simp add: registerReferenceDependency_def keeps_def)
  next
    case True
    let ?key = "referenceDependency_key d" and ?ek = "entry_key (calleeEntry d)"
    define st2 where "st2 = st1\<lparr>dependencies := AList.update ?key d (dependencies st1),
      dependenciesByEntry := AList.update ?ek (slices_SortFunc cmp_Compare (keysAt (dependenciesByEntry st1) ?ek @ [?key])) (dependenciesByEntry st1)\<rparr>"
    let ?keys = "keysAt (summariesByEntry st2) ?ek" and ?r = "registerReferenceDependency maxStates d st"
    have run: "?r = whileTrue (\<lambda>k st. applyReferenceSummary maxStates d (the (map_of (summaries st) k)) st) ?keys st2"
      using new r True by (simp add: registerReferenceDependency_def Let_def st2_def)
    have "oracle_tables_ok program tracked st1" using reserve_ok [OF r] st by (simp add: tables_sound_def)
    then have ok2: "oracle_tables_ok program tracked st2" using d new r1 unfolding oracle_tables_ok_def st2_def by (auto simp: update_conv')
    have count2: "work_counted program tracked maxStates st2"
      using st reserve_counted [OF st r, of "referenceDependency_key d"] new key r1 unfolding tables_sound_def work_counted_def st2_def
      by (simp add: table_size_def length_update_new distinct_update)
    have sound2: "tables_sound program tracked maxStates st2"
      using ok2 count2 by (simp add: tables_sound_def)
    have ext: "extends st st2" using new r1 by (auto simp: extends_def st2_def update_conv' map_le_def)
    have deps: "map_of (dependencies st2) = (map_of (dependencies st))(?key \<mapsto> d)" and sums: "summaries st2 = summaries st"
      using r1 by (simp_all add: st2_def update_conv')
    have keys: "set ?keys = {k. \<exists>s. map_of (summaries st2) k = Some s \<and> entry_key (summaryEntry s) = ?ek}"
      using ok2 unfolding oracle_tables_ok_def by blast
    have "\<exists>kd ks. map_of (dependencies st2) kd = Some d \<and> map_of (summaries st2) ks = Some (the (map_of (summaries st2) k)) \<and>
        entry_key (calleeEntry d) = entry_key (summaryEntry (the (map_of (summaries st2) k)))" if "k \<in> set ?keys" for k
      using that keys deps by fastforce
    note join_loop [where D = "\<lambda>_ _. d" and S = "\<lambda>sums k. the (map_of sums k)", OF sound2 this run]
    then have loop: "tables_sound program tracked maxStates (snd ?r)" "extends st2 (snd ?r)" "\<not> fst ?r \<Longrightarrow> budgetExceeded (snd ?r)"
        "dependencies (snd ?r) = dependencies st2" "summaries (snd ?r) = summaries st2"
      and Q: "\<And>k s. fst ?r \<Longrightarrow> map_of (summaries st2) k = Some s \<Longrightarrow> entry_key (summaryEntry s) = ?ek \<Longrightarrow> calleeExit d = summaryExit s
        \<Longrightarrow> has_path (snd ?r) (callerEntry d) (returnNode d) (summaryState s)"
      using keys unfolding keeps_def by force+
    have ext': "extends st (snd ?r)" using ext loop(2) extends_trans by blast
    have "joined_tables (snd ?r)" if "joined_tables st" "fst ?r"
    proof (rule joined_tablesI)
      fix k e k' s
      assume e: "map_of (dependencies (snd ?r)) k = Some e" and s: "map_of (summaries (snd ?r)) k' = Some s"
        and eq: "entry_key (calleeEntry e) = entry_key (summaryEntry s)" "calleeExit e = summaryExit s"
      show "has_path (snd ?r) (callerEntry e) (returnNode e) (summaryState s)"
      proof (cases "k = ?key")
        case True
        then have "e = d" using e loop(4) deps by simp
        then show ?thesis using Q [OF that(2)] s eq loop(5) by simp
      next
        case False
        then have "map_of (dependencies st) k = Some e" "map_of (summaries st) k' = Some s" using e s loop(4,5) deps sums by simp_all
        then show ?thesis using joined_tablesD [OF that(1) _ _ eq] ext' has_path_extends by blast
      qed
    qed
    then show ?thesis using loop ext' deps by (simp add: keeps_def)
  qed
qed

lemma publishSummary_keeps:
  assumes st: "tables_sound program tracked maxStates st" and s: "summary_ok program tracked s"
  shows "keeps program tracked maxStates st
    (\<lambda>st'. map_of (summaries st') (referenceSummary_key s) \<noteq> None \<and> (joined_tables st \<longrightarrow> joined_tables st')) (publishReferenceSummary maxStates s st)"
proof (cases "map_of (summaries st) (referenceSummary_key s) = None")
  case False
  then show ?thesis using st by (simp add: publishReferenceSummary_def keeps_def)
next
  case new: True
  obtain b st1 where r: "reserveWork maxStates st = (b, st1)" by force
  note r1 = reserve_extends [OF r] reserve_tables [OF r]
  have key: "referenceSummary_key s \<in> summary_keys program tracked" using s by (simp add: summary_keys_def)
  show ?thesis
  proof (cases b)
    case False
    then have "tables_sound program tracked maxStates st1" using reserve_fails [OF st r, of "referenceSummary_key s"] new key by blast
    then show ?thesis using False new r r1 by (simp add: publishReferenceSummary_def keeps_def)
  next
    case True
    let ?key = "referenceSummary_key s" and ?ek = "entry_key (summaryEntry s)"
    define st2 where "st2 = st1\<lparr>summaries := AList.update ?key s (summaries st1),
      summariesByEntry := AList.update ?ek (slices_SortFunc cmp_Compare (keysAt (summariesByEntry st1) ?ek @ [?key])) (summariesByEntry st1)\<rparr>"
    let ?keys = "keysAt (dependenciesByEntry st2) ?ek" and ?r = "publishReferenceSummary maxStates s st"
    have run: "?r = whileTrue (\<lambda>k st. applyReferenceSummary maxStates (the (map_of (dependencies st) k)) s st) ?keys st2"
      using new r True by (simp add: publishReferenceSummary_def Let_def st2_def)
    have "oracle_tables_ok program tracked st1" using reserve_ok [OF r] st by (simp add: tables_sound_def)
    then have ok2: "oracle_tables_ok program tracked st2" using s new r1 unfolding oracle_tables_ok_def st2_def by (auto simp: update_conv')
    have count2: "work_counted program tracked maxStates st2"
      using st reserve_counted [OF st r, of "referenceSummary_key s"] new key r1 unfolding tables_sound_def work_counted_def st2_def
      by (simp add: table_size_def length_update_new distinct_update)
    have sound2: "tables_sound program tracked maxStates st2"
      using ok2 count2 by (simp add: tables_sound_def)
    have ext: "extends st st2" using new r1 by (auto simp: extends_def st2_def update_conv' map_le_def)
    have sums: "map_of (summaries st2) = (map_of (summaries st))(?key \<mapsto> s)" and deps: "dependencies st2 = dependencies st"
      using r1 by (simp_all add: st2_def update_conv')
    have keys: "set ?keys = {k. \<exists>d. map_of (dependencies st2) k = Some d \<and> entry_key (calleeEntry d) = ?ek}"
      using ok2 unfolding oracle_tables_ok_def by blast
    have "\<exists>kd ks. map_of (dependencies st2) kd = Some (the (map_of (dependencies st2) k)) \<and> map_of (summaries st2) ks = Some s \<and>
        entry_key (calleeEntry (the (map_of (dependencies st2) k))) = entry_key (summaryEntry s)" if "k \<in> set ?keys" for k
      using that keys sums by fastforce
    note join_loop [where D = "\<lambda>deps k. the (map_of deps k)" and S = "\<lambda>_ _. s", OF sound2 this run]
    then have loop: "tables_sound program tracked maxStates (snd ?r)" "extends st2 (snd ?r)" "\<not> fst ?r \<Longrightarrow> budgetExceeded (snd ?r)"
        "dependencies (snd ?r) = dependencies st2" "summaries (snd ?r) = summaries st2"
      and Q: "\<And>k d. fst ?r \<Longrightarrow> map_of (dependencies st2) k = Some d \<Longrightarrow> entry_key (calleeEntry d) = ?ek \<Longrightarrow> calleeExit d = summaryExit s
        \<Longrightarrow> has_path (snd ?r) (callerEntry d) (returnNode d) (summaryState s)"
      using keys unfolding keeps_def by force+
    have ext': "extends st (snd ?r)" using ext loop(2) extends_trans by blast
    have "joined_tables (snd ?r)" if "joined_tables st" "fst ?r"
    proof (rule joined_tablesI)
      fix k d k' t
      assume d: "map_of (dependencies (snd ?r)) k = Some d" and t: "map_of (summaries (snd ?r)) k' = Some t"
        and eq: "entry_key (calleeEntry d) = entry_key (summaryEntry t)" "calleeExit d = summaryExit t"
      show "has_path (snd ?r) (callerEntry d) (returnNode d) (summaryState t)"
      proof (cases "k' = ?key")
        case True
        then have "t = s" using t loop(5) sums by simp
        then show ?thesis using Q [OF that(2)] d eq loop(4) by simp
      next
        case False
        then have "map_of (dependencies st) k = Some d" "map_of (summaries st) k' = Some t" using d t loop(4,5) deps sums by simp_all
        then show ?thesis using joined_tablesD [OF that(1) _ _ eq] ext' has_path_extends by blast
      qed
    qed
    then show ?thesis using loop ext' sums by (simp add: keeps_def)
  qed
qed
section \<open>Following the edges of a node\<close>

definition edge_followed :: "OracleProgram \<Rightarrow> oracleRun \<Rightarrow> referenceEntryFact \<Rightarrow> referenceState \<Rightarrow> OracleEdge \<Rightarrow> bool" where
  "edge_followed program st f s' e \<longleftrightarrow>
     (EdgeKind e = EdgeIntra \<longrightarrow> has_path st f (To e) s') \<and>
     (EdgeKind e = EdgeCall \<longrightarrow> has_path st \<lparr>entryNode = To e, entryState = s'\<rparr> (To e) s' \<and>
        (\<forall>r. matches program e r \<longrightarrow>
           map_of (dependencies st) (referenceDependency_key \<lparr>calleeEntry = \<lparr>entryNode = To e, entryState = s'\<rparr>, calleeExit = From r, callerEntry = f,
             callSite = EdgeSite e, returnNode = To r, callerState = s', callerWitness = []\<rparr>) \<noteq> None))"

lemma dependency_key_witness:
  "referenceDependency_key \<lparr>calleeEntry = c, calleeExit = x, callerEntry = f, callSite = site, returnNode = n, callerState = s, callerWitness = w\<rparr> =
   referenceDependency_key \<lparr>calleeEntry = c, calleeExit = x, callerEntry = f, callSite = site, returnNode = n, callerState = s, callerWitness = []\<rparr>"
  by (simp add: referenceDependency_key_def)

lemma map_grows: "m \<subseteq>\<^sub>m m' \<Longrightarrow> m k \<noteq> None \<Longrightarrow> m' k \<noteq> None"
  by (auto simp: map_le_def dom_def)

lemma tables_grow:
  assumes "extends st st'"
  shows "map_of (dependencies st) k \<noteq> None \<Longrightarrow> map_of (dependencies st') k \<noteq> None"
    and "map_of (summaries st) k \<noteq> None \<Longrightarrow> map_of (summaries st') k \<noteq> None"
  using map_grows [of "map_of (dependencies st)" "map_of (dependencies st')" k] map_grows [of "map_of (summaries st)" "map_of (summaries st')" k]
    assms unfolding extends_def by simp_all

lemma followed_extends: "extends st st' \<Longrightarrow> edge_followed program st f s' e \<Longrightarrow> edge_followed program st' f s' e"
proof -
  assume e: "extends st st'" and f: "edge_followed program st f s' e"
  show ?thesis using f has_path_extends [OF e] tables_grow(1) [OF e] unfolding edge_followed_def by blast
qed

lemma joined_enqueue:
  assumes "tables_sound program tracked maxStates st" "path_ok program tracked p" "joined_tables st"
  shows "joined_tables (snd (enqueuePath maxStates p st))"
proof (rule joined_tablesI)
  let ?st' = "snd (enqueuePath maxStates p st)"
  have e: "extends st ?st'" using enqueue_keeps'(1) [OF assms(1,2)] unfolding keeps_def by blast
  show "has_path ?st' (callerEntry d) (returnNode d) (summaryState s)"
    if "map_of (dependencies ?st') k = Some d" "map_of (summaries ?st') k' = Some s" "entry_key (calleeEntry d) = entry_key (summaryEntry s)"
      "calleeExit d = summaryExit s" for k d k' s
    using joined_tablesD [OF assms(3) _ _ that(3,4)] that(1,2) enqueue_keeps'(2,3) [OF assms(1,2)] has_path_extends [OF e] by simp
qed

text \<open>A step that keeps the tables sound and joined, and whose result holds unless the budget is exceeded.\<close>

definition advances :: "OracleProgram \<Rightarrow> nat \<Rightarrow> int \<Rightarrow> oracleRun \<Rightarrow> (oracleRun \<Rightarrow> bool) \<Rightarrow> oracleRun \<Rightarrow> bool" where
  "advances program tracked maxStates st Q st' \<longleftrightarrow> tables_sound program tracked maxStates st' \<and> extends st st' \<and>
     (\<not> budgetExceeded st' \<longrightarrow> Q st' \<and> (joined_tables st \<longrightarrow> joined_tables st'))"

lemma advances_trans:
  assumes "advances program tracked maxStates st Q st1" "advances program tracked maxStates st1 R st2"
    and "\<And>st st'. extends st st' \<Longrightarrow> Q st \<Longrightarrow> Q st'"
  shows "advances program tracked maxStates st (\<lambda>st'. Q st' \<and> R st') st2"
  using assms extends_trans unfolding advances_def by (metis extends_def)

lemma advances_mono: "advances program tracked maxStates st Q st' \<Longrightarrow> (Q st' \<Longrightarrow> R st') \<Longrightarrow> advances program tracked maxStates st R st'"
  unfolding advances_def by blast

lemma enqueue_advances:
  assumes "tables_sound program tracked maxStates st" "path_ok program tracked p"
  shows "advances program tracked maxStates st (\<lambda>st'. has_path st' (pathEntry p) (pathNode p) (pathState p)) (snd (enqueuePath maxStates p st))"
  using enqueue_keeps'(1) [OF assms] joined_enqueue [OF assms] unfolding keeps_def advances_def by blast

lemma keeps_advances:
  "keeps program tracked maxStates st (\<lambda>st'. Q st' \<and> (joined_tables st \<longrightarrow> joined_tables st')) r \<Longrightarrow> advances program tracked maxStates st Q (snd r)"
  unfolding keeps_def advances_def by blast

lemma register_returns:
  assumes st: "tables_sound program tracked maxStates st" and ok: "\<And>r. r \<in> set edges \<Longrightarrow> dependency_ok program tracked (d r)"
  shows "advances program tracked maxStates st (\<lambda>st'. \<forall>r\<in>set edges. map_of (dependencies st') (referenceDependency_key (d r)) \<noteq> None)
    (snd (whileTrue (\<lambda>r. registerReferenceDependency maxStates (d r)) edges st))"
proof -
  let ?I = "\<lambda>st'. tables_sound program tracked maxStates st' \<and> (joined_tables st \<longrightarrow> \<not> budgetExceeded st' \<longrightarrow> joined_tables st')"
  let ?Q = "\<lambda>r st'. map_of (dependencies st') (referenceDependency_key (d r)) \<noteq> None"
  let ?step = "\<lambda>r. registerReferenceDependency maxStates (d r)"
  obtain b st' where w: "whileTrue ?step edges st = (b, st')" by force
  have "?I st' \<and> extends st st' \<and> (b \<longrightarrow> (\<forall>r\<in>set edges. ?Q r st')) \<and> (\<not> b \<longrightarrow> budgetExceeded st')"
  proof (rule whileTrue_keeps [where I = ?I and Q = ?Q, OF _ _ _ w])
    fix r st1 assume "r \<in> set edges" and I: "?I st1"
    then have k: "keeps program tracked maxStates st1 (\<lambda>st'. ?Q r st' \<and> (joined_tables st1 \<longrightarrow> joined_tables st')) (?step r st1)"
      using registerDependency_keeps ok by blast
    have "budgetExceeded st1 \<longrightarrow> budgetExceeded (snd (?step r st1))" using k unfolding keeps_def extends_def by blast
    then show "?I (snd (?step r st1)) \<and> extends st1 (snd (?step r st1)) \<and> (fst (?step r st1) \<longrightarrow> ?Q r (snd (?step r st1))) \<and>
        (\<not> fst (?step r st1) \<longrightarrow> budgetExceeded (snd (?step r st1)))"
      using k I unfolding keeps_def by blast
  next
    show "?Q r st2" if "?Q r st1" "extends st1 st2" for r st1 st2
      using tables_grow(1) that by blast
  qed (use st in simp)
  then show ?thesis using w by (auto simp: advances_def)
qed

lemma followEdge_advances:
  assumes st: "tables_sound program tracked maxStates st" and p: "reaches_from program tracked (pathEntry p) n s" "passes program tracked n s (pathState p)"
      "\<not> exit_node program n"
    and e: "e \<in> set (Edges program)" "From e = n" "EdgeKind e = EdgeIntra \<or> EdgeKind e = EdgeCall"
  shows "advances program tracked maxStates st (\<lambda>st'. edge_followed program st' (pathEntry p) (pathState p) e) (followOracleEdge program maxStates p st e)"
proof -
  let ?w = "pathWitness p @ [referenceEdgeKey e]"
  note kinds = EdgeIntra_def EdgeCall_def EdgeReturn_def
  show ?thesis
  proof (cases "EdgeKind e = EdgeCall")
    case True
    then have edge: "edge_from program EdgeCall n e" using e by (simp add: edge_from_def)
    let ?f = "\<lparr>entryNode = To e, entryState = pathState p\<rparr>"
    define d where "d = (\<lambda>r :: OracleEdge. \<lparr>calleeEntry = ?f, calleeExit = From r, callerEntry = pathEntry p, callSite = EdgeSite e,
      returnNode = To r, callerState = pathState p, callerWitness = ?w\<rparr>)"
    let ?returns = "referenceReturnEdgesForCall (sortEdges (Edges program)) (EdgeSite e) (refProcedure (To e))"
    define st1 where "st1 = snd (whileTrue (\<lambda>r. registerReferenceDependency maxStates (d r)) ?returns st)"
    let ?callee = "\<lparr>pathEntry = ?f, pathNode = To e, pathState = pathState p, pathWitness = ?w\<rparr>"
    have run: "followOracleEdge program maxStates p st e = (if budgetExceeded st1 then st1 else snd (enqueuePath maxStates ?callee st1))"
      using True by (simp add: followOracleEdge_def Let_def kinds st1_def d_def)
    have "dependency_ok program tracked (d r)" if "r \<in> set ?returns" for r
      using that p edge returns_for_call unfolding dependency_ok_def d_def by fastforce
    then have 1: "advances program tracked maxStates st (\<lambda>st'. \<forall>r\<in>set ?returns. map_of (dependencies st') (referenceDependency_key (d r)) \<noteq> None) st1"
      unfolding st1_def by (rule register_returns [OF st])
    have sound1: "tables_sound program tracked maxStates st1" using 1 by (simp add: advances_def)
    have ok: "path_ok program tracked ?callee" using reaches_from.call [OF p edge] by (simp add: path_ok_def)
    show ?thesis
    proof (cases "budgetExceeded st1")
      case True
      then show ?thesis using 1 run by (simp add: advances_def)
    next
      case False
      have adv: "advances program tracked maxStates st (\<lambda>st'. (\<forall>r\<in>set ?returns. map_of (dependencies st') (referenceDependency_key (d r)) \<noteq> None) \<and>
          has_path st' ?f (To e) (pathState p)) (snd (enqueuePath maxStates ?callee st1))"
      proof (rule advances_trans [OF 1])
        show "advances program tracked maxStates st1 (\<lambda>st'. has_path st' ?f (To e) (pathState p)) (snd (enqueuePath maxStates ?callee st1))"
          using enqueue_advances [OF sound1 ok] by simp
        show "\<forall>r\<in>set ?returns. map_of (dependencies st'') (referenceDependency_key (d r)) \<noteq> None"
          if "extends st' st''" "\<forall>r\<in>set ?returns. map_of (dependencies st') (referenceDependency_key (d r)) \<noteq> None" for st' st''
          using that(2) tables_grow(1) [OF that(1)] by blast
      qed
      have "followOracleEdge program maxStates p st e = snd (enqueuePath maxStates ?callee st1)" using False run by simp
      then show ?thesis using \<open>EdgeKind e = EdgeCall\<close>
        by (simp only:, intro advances_mono [OF adv])
          (auto simp: edge_followed_def kinds returns_for_call d_def dependency_key_witness [of _ _ _ _ _ _ ?w])
    qed
  next
    case False
    let ?next = "\<lparr>pathEntry = pathEntry p, pathNode = To e, pathState = pathState p, pathWitness = ?w\<rparr>"
    have intra: "EdgeKind e = EdgeIntra" using e False by blast
    then have "path_ok program tracked ?next" using reaches_from.flow [OF p] e by (simp add: path_ok_def edge_from_def)
    from enqueue_advances [OF st this] show ?thesis
      using intra by (auto simp: followOracleEdge_def Let_def kinds edge_followed_def elim!: advances_mono)
  qed
qed

lemma followEdges_advance:
  assumes "tables_sound program tracked maxStates st" and p: "reaches_from program tracked (pathEntry p) n s" "passes program tracked n s (pathState p)"
      "\<not> exit_node program n"
    and e: "\<And>e. e \<in> set edges \<Longrightarrow> e \<in> set (Edges program) \<and> From e = n \<and> (EdgeKind e = EdgeIntra \<or> EdgeKind e = EdgeCall)"
  shows "advances program tracked maxStates st (\<lambda>st'. \<forall>e\<in>set edges. edge_followed program st' (pathEntry p) (pathState p) e)
    (foldl (followOracleEdge program maxStates p) st edges)"
  using assms(1) e
proof (induction edges arbitrary: st)
  case Nil
  then show ?case by (simp add: advances_def)
next
  case (Cons e edges)
  have 1: "advances program tracked maxStates st (\<lambda>st'. edge_followed program st' (pathEntry p) (pathState p) e) (followOracleEdge program maxStates p st e)"
    using followEdge_advances [OF Cons.prems(1) p] Cons.prems(2) [of e] by simp
  then have "tables_sound program tracked maxStates (followOracleEdge program maxStates p st e)" by (simp add: advances_def)
  then have "advances program tracked maxStates (followOracleEdge program maxStates p st e) (\<lambda>st'. \<forall>e\<in>set edges. edge_followed program st' (pathEntry p) (pathState p) e)
      (foldl (followOracleEdge program maxStates p) (followOracleEdge program maxStates p st e) edges)"
    using Cons.IH Cons.prems(2) by simp
  from advances_trans [OF 1 this] show ?case using followed_extends by simp
qed

section \<open>Processing a path edge\<close>

text \<open>The graph of a validated program.\<close>

definition graph_ok :: "OracleProgram \<Rightarrow> bool" where
  "graph_ok program \<longleftrightarrow> distinct (map Ref (Nodes program)) \<and> Entry program \<in> Ref ` set (Nodes program) \<and>
     (\<forall>e\<in>set (Edges program). To e \<in> Ref ` set (Nodes program) \<and> EdgeKind e \<in> {EdgeIntra, EdgeCall, EdgeReturn})"

lemma valid_graph: "ValidateProgram program = None \<Longrightarrow> graph_ok program"
  using valid_program [of program] unfolding graph_ok_def by blast

lemma reaches_node: "reaches_from program tracked f n s \<Longrightarrow> graph_ok program \<Longrightarrow> n \<in> Ref ` set (Nodes program)"
  by (induction rule: reaches_from.induct) (auto simp: graph_ok_def edge_from_def matches_def)

lemma joinOutcome_laws [simp]:
  "joinOutcome a a = a" "joinOutcome (joinOutcome a b) b = joinOutcome a b" "joinOutcome (joinOutcome a b) a = joinOutcome a b"
  "joinOutcome OutcomeNone a = a" "joinOutcome a OutcomeNone = a"
  by (cases a; cases b; simp add: joinOutcome_def)+

lemma joinOutcome_trans: "joinOutcome b a = b \<Longrightarrow> joinOutcome c b = c \<Longrightarrow> joinOutcome c a = c"
  by (cases a; cases b; cases c; simp add: joinOutcome_def)

definition path_handled :: "OracleProgram \<Rightarrow> nat \<Rightarrow> oracleRun \<Rightarrow> referencePathEdge \<Rightarrow> bool" where
  "path_handled program tracked st p \<longleftrightarrow>
     (\<forall>s'. passes program tracked (pathNode p) (pathState p) s' \<longrightarrow>
        (if exit_node program (pathNode p) then map_of (summaries st)
           (referenceSummary_key \<lparr>summaryEntry = pathEntry p, summaryExit = pathNode p, summaryState = s', summaryWitness = []\<rparr>) \<noteq> None
         else \<forall>e\<in>set (Edges program). From e = pathNode p \<longrightarrow> edge_followed program st (pathEntry p) s' e)) \<and>
     (\<forall>s'. runs_at program tracked True (pathNode p) (pathState p) s' \<longrightarrow>
        joinOutcome (runOutcome st) (referenceTerminalOutcome s' tracked) = runOutcome st)"

text \<open>The outcome so far is the one of some executions.\<close>

definition outcome_sound :: "OracleProgram \<Rightarrow> nat \<Rightarrow> oracleRun \<Rightarrow> bool" where
  "outcome_sound program tracked st \<longleftrightarrow>
     (runOutcome st \<noteq> OutcomeNone \<longrightarrow> (\<exists>s'. finishes program tracked s' \<and> referenceTerminalOutcome s' tracked = runOutcome st))"

lemma path_handled_grows:
  assumes "extends st st'" and "path_handled program tracked st p"
  shows "path_handled program tracked st' p"
proof -
  have "runOutcome st' = runOutcome st" using assms(1) by (simp add: extends_def)
  then show ?thesis using assms(2) followed_extends [OF assms(1)] tables_grow(2) [OF assms(1)] unfolding path_handled_def by auto
qed

lemma summary_key_witness:
  "referenceSummary_key \<lparr>summaryEntry = f, summaryExit = n, summaryState = s, summaryWitness = w\<rparr> =
   referenceSummary_key \<lparr>summaryEntry = f, summaryExit = n, summaryState = s, summaryWitness = []\<rparr>"
  by (simp add: referenceSummary_key_def)

definition run_inv :: "OracleProgram \<Rightarrow> nat \<Rightarrow> int \<Rightarrow> oracleRun \<Rightarrow> bool" where
  "run_inv program tracked maxStates st \<longleftrightarrow> tables_sound program tracked maxStates st \<and> outcome_sound program tracked st \<and>
     (\<not> budgetExceeded st \<longrightarrow> joined_tables st \<and> has_path st (root_entry program) (Entry program) (initialReferenceState program) \<and>
        (\<forall>k p. map_of (pathEdges st) k = Some p \<longrightarrow> k \<notin> set (queue st) \<longrightarrow> path_handled program tracked st p))"

text \<open>The cases of a step: an unsatisfiable node, a terminal node, an exit and any other node.\<close>

lemma oracleStep_advances:
  assumes graph: "graph_ok program" and sound: "tables_sound program tracked maxStates st" and p: "path_ok program tracked p"
    and live: "\<not> (NodeConstraint (nodeAt program (pathNode p)) \<noteq> ConstraintUNSAT \<and> Terminal (nodeAt program (pathNode p)))"
  shows "advances program tracked maxStates st (\<lambda>st'. path_handled program tracked st' p) (processPath program tracked maxStates p st)"
proof -
  let ?n = "pathNode p" and ?s' = "applyReferenceNode (pathState p) (nodeAt program (pathNode p)) tracked"
  have n: "?n \<in> Ref ` set (Nodes program)" using reaches_node p graph unfolding path_ok_def by blast
  have runs: "runs_at program tracked b ?n (pathState p) s' \<longleftrightarrow> NodeConstraint (nodeAt program ?n) \<noteq> ConstraintUNSAT \<and>
      Terminal (nodeAt program ?n) = b \<and> s' = ?s'" for b s'
    using runs_at_nodeAt n graph unfolding graph_ok_def by blast
  have reach: "reaches_from program tracked (pathEntry p) ?n (pathState p)" using p by (simp add: path_ok_def)
  consider (unsat) "NodeConstraint (nodeAt program ?n) = ConstraintUNSAT"
    | (exits) "NodeConstraint (nodeAt program ?n) \<noteq> ConstraintUNSAT" "\<not> Terminal (nodeAt program ?n)" "exit_node program ?n"
    | (other) "NodeConstraint (nodeAt program ?n) \<noteq> ConstraintUNSAT" "\<not> Terminal (nodeAt program ?n)" "\<not> exit_node program ?n"
    using live by blast
  then show ?thesis
  proof cases
    case unsat
    let ?st = "st\<lparr>refinedWitnesses := refinedWitnesses st @ [strings_Join (pathWitness p) '' -> '']\<rparr>"
    have "processPath program tracked maxStates p st = ?st" using unsat by (simp add: processPath_def Let_def)
    moreover have "tables_sound program tracked maxStates ?st" "joined_tables ?st = joined_tables st" "extends st ?st"
      using sound by (simp_all add: tables_sound_def oracle_tables_ok_def work_counted_def table_size_def joined_tables_def has_path_def extends_def)
    moreover have "path_handled program tracked ?st p" using unsat runs by (simp add: path_handled_def)
    ultimately show ?thesis by (simp add: advances_def)
  next
    case exits
    let ?s = "\<lparr>summaryEntry = pathEntry p, summaryExit = ?n, summaryState = ?s', summaryWitness = pathWitness p\<rparr>"
    have run: "processPath program tracked maxStates p st = snd (publishReferenceSummary maxStates ?s st)"
      using exits returns_from_empty [of program ?n] by (simp add: processPath_def Let_def)
    have "summary_ok program tracked ?s" using reach runs exits by (auto simp: summary_ok_def)
    from keeps_advances [OF publishSummary_keeps [OF sound this]]
    show ?thesis unfolding run
      by (rule advances_mono) (use exits runs in \<open>simp add: path_handled_def summary_key_witness [of _ _ _ "pathWitness p"]\<close>)
  next
    case other
    let ?p = "p\<lparr>pathState := ?s'\<rparr>"
    have run: "processPath program tracked maxStates p st = foldl (followOracleEdge program maxStates ?p) st (outgoingFrom program ?n)"
      using other returns_from_empty [of program ?n] by (simp add: processPath_def Let_def)
    have step: "reaches_from program tracked (pathEntry ?p) ?n (pathState p)" "passes program tracked ?n (pathState p) (pathState ?p)"
      using reach runs other by simp_all
    have edges: "e \<in> set (Edges program) \<and> From e = ?n \<and> (EdgeKind e = EdgeIntra \<or> EdgeKind e = EdgeCall)"
      if "e \<in> set (outgoingFrom program ?n)" for e
      using that other(3) graph unfolding outgoingFrom_set exit_node_def graph_ok_def by blast
    from followEdges_advance [OF sound step other(3) edges]
    show ?thesis unfolding run by (rule advances_mono) (use other runs in \<open>simp_all add: path_handled_def outgoingFrom_set\<close>)
  qed
qed

text \<open>The terminal case only records the outcome.\<close>

lemma joinOutcome_handled:
  assumes "path_handled program tracked st p" "joinOutcome out (runOutcome st) = out"
  shows "path_handled program tracked (st\<lparr>runWitness := w, runOutcome := out, runUncertainty := u\<rparr>) p"
  using assms joinOutcome_trans unfolding path_handled_def edge_followed_def has_path_def by auto

lemma recordTerminal_keeps:
  assumes "tables_sound program tracked maxStates st"
  shows "tables_sound program tracked maxStates (recordTerminal tracked p st)" and "joined_tables (recordTerminal tracked p st) = joined_tables st"
    and "has_path (recordTerminal tracked p st) = has_path st"
    and "pathEdges (recordTerminal tracked p st) = pathEdges st" and "queue (recordTerminal tracked p st) = queue st"
    and "budgetExceeded (recordTerminal tracked p st) = budgetExceeded st"
  using assms unfolding recordTerminal_def tables_sound_def oracle_tables_ok_def work_counted_def table_size_def joined_tables_def has_path_def Let_def by simp_all

lemma outcome_sound_join:
  assumes "outcome_sound program tracked st" "finishes program tracked s'"
    and "runOutcome st' = joinOutcome (runOutcome st) (referenceTerminalOutcome s' tracked)"
  shows "outcome_sound program tracked st'"
proof -
  have "joinOutcome a b = a \<or> joinOutcome a b = b" for a b by (cases a; cases b; simp add: joinOutcome_def)
  then show ?thesis using assms unfolding outcome_sound_def by metis
qed

section \<open>The loop\<close>

lemma oracleStep_inv:
  assumes graph: "graph_ok program" and inv: "run_inv program tracked maxStates st" and q: "queue st = k # ks"
  shows "run_inv program tracked maxStates (oracleStep program tracked maxStates st)"
proof -
  let ?st = "st\<lparr>queue := ks\<rparr>" and ?st' = "oracleStep program tracked maxStates st"
  note sound = inv [unfolded run_inv_def, THEN conjunct1]
  have "k \<in> dom (map_of (pathEdges st))" using sound q unfolding tables_sound_def oracle_tables_ok_def by auto
  then obtain p where p: "map_of (pathEdges st) k = Some p" by blast
  have ok: "path_ok program tracked p" using sound p unfolding tables_sound_def oracle_tables_ok_def by blast
  have run: "?st' = processPath program tracked maxStates p ?st" using p q by (simp add: oracleStep_def)
  have sound1: "tables_sound program tracked maxStates ?st" using sound q by (simp add: tables_sound_def oracle_tables_ok_def work_counted_def table_size_def)
  have same: "joined_tables ?st = joined_tables st" "has_path ?st = has_path st" "path_handled program tracked ?st = path_handled program tracked st"
      "outcome_sound program tracked ?st = outcome_sound program tracked st"
    by (simp_all add: fun_eq_iff joined_tables_def has_path_def path_handled_def edge_followed_def outcome_sound_def)
  let ?n = "nodeAt program (pathNode p)"
  show ?thesis
  proof (cases "NodeConstraint ?n \<noteq> ConstraintUNSAT \<and> Terminal ?n")
    case terminal: True
    let ?s' = "applyReferenceNode (pathState p) ?n tracked" and ?p = "p\<lparr>pathState := applyReferenceNode (pathState p) ?n tracked\<rparr>"
    have run': "?st' = recordTerminal tracked ?p ?st" using run terminal by (simp add: processPath_def Let_def)
    have "pathNode p \<in> Ref ` set (Nodes program)" using reaches_node ok graph unfolding path_ok_def by blast
    then have runs: "runs_at program tracked b (pathNode p) (pathState p) s' \<longleftrightarrow> b \<and> s' = ?s'" for b s'
      using runs_at_nodeAt [of program] terminal graph unfolding graph_ok_def by auto
    have out: "runOutcome ?st' = joinOutcome (runOutcome st) (referenceTerminalOutcome ?s' tracked)"
      using run' by (simp add: recordTerminal_def Let_def)
    have "finishes program tracked ?s'" using finishes_iff runs ok unfolding path_ok_def by blast
    then have "outcome_sound program tracked ?st'" using inv out outcome_sound_join unfolding run_inv_def by blast
    moreover have "path_handled program tracked ?st' q" if "q = p \<or> path_handled program tracked st q" for q
    proof (cases "q = p")
      case True
      then show ?thesis using runs out by (simp add: path_handled_def)
    next
      case False
      then have h: "path_handled program tracked ?st q" using that same by simp
      have "joinOutcome (runOutcome ?st') (runOutcome ?st) = runOutcome ?st'" using out by simp
      from joinOutcome_handled [OF h this] show ?thesis unfolding run' recordTerminal_def by (simp add: Let_def)
    qed
    note path_handled = this
    have fin: "tables_sound program tracked maxStates ?st'" "joined_tables ?st' = joined_tables st" "has_path ?st' = has_path st"
        "pathEdges ?st' = pathEdges st" "queue ?st' = ks" "budgetExceeded ?st' = budgetExceeded st"
      using recordTerminal_keeps [OF sound1, of ?p] same unfolding run' by simp_all
    have "path_handled program tracked ?st' r"
      if "\<not> budgetExceeded st" "map_of (pathEdges st) l = Some r" "l \<notin> set ks" for l r
    proof (rule path_handled, cases "l = k")
      case False
      then have "l \<notin> set (queue st)" using that(3) q by simp
      then show "r = p \<or> path_handled program tracked st r" using inv that(1,2) unfolding run_inv_def by blast
    qed (use that(2) p in simp)
    ultimately show ?thesis using inv fin unfolding run_inv_def by simp
  next
    case False
    note adv = oracleStep_advances [OF graph sound1 ok False, folded run]
    then have ext: "extends ?st ?st'" and sound': "tables_sound program tracked maxStates ?st'"
      and live: "\<not> budgetExceeded ?st' \<Longrightarrow> path_handled program tracked ?st' p \<and> (joined_tables ?st \<longrightarrow> joined_tables ?st')"
      by (simp_all add: advances_def)
    have "outcome_sound program tracked ?st'"
      using inv ext unfolding run_inv_def outcome_sound_def extends_def by simp
    moreover have "joined_tables ?st' \<and> has_path ?st' (root_entry program) (Entry program) (initialReferenceState program) \<and>
        (\<forall>k p. map_of (pathEdges ?st') k = Some p \<longrightarrow> k \<notin> set (queue ?st') \<longrightarrow> path_handled program tracked ?st' p)" if b: "\<not> budgetExceeded ?st'"
    proof (intro conjI allI impI)
      have "\<not> budgetExceeded st" using b ext by (auto simp: extends_def)
      then have i: "joined_tables st" "has_path st (root_entry program) (Entry program) (initialReferenceState program)"
          "\<And>k p. map_of (pathEdges st) k = Some p \<Longrightarrow> k \<notin> set (queue st) \<Longrightarrow> path_handled program tracked st p"
        using inv unfolding run_inv_def by blast+
      show "joined_tables ?st'" using live [OF b] i(1) same by simp
      show "has_path ?st' (root_entry program) (Entry program) (initialReferenceState program)"
        using has_path_extends [OF ext] i(2) same by simp
      fix l r assume r: "map_of (pathEdges ?st') l = Some r" and l: "l \<notin> set (queue ?st')"
      have e: "map_of (pathEdges st) \<subseteq>\<^sub>m map_of (pathEdges ?st')" "set ks \<subseteq> set (queue ?st')"
          "dom (map_of (pathEdges ?st')) \<subseteq> dom (map_of (pathEdges st)) \<union> set (queue ?st')"
        using ext by (simp_all add: extends_def)
      have m: "l \<in> dom (map_of (pathEdges st))" and "l \<notin> set ks" using r l e(2,3) by blast+
      have r': "map_of (pathEdges st) l = Some r" using bspec [OF e(1) [unfolded map_le_def] m] r by simp
      show "path_handled program tracked ?st' r"
      proof (cases "l = k")
        case True
        then show ?thesis using r' p live [OF b] by simp
      next
        case False
        then have "path_handled program tracked ?st r" using i(3) [OF r'] \<open>l \<notin> set ks\<close> q same by simp
        then show ?thesis using path_handled_grows [OF ext] by blast
      qed
    qed
    ultimately show ?thesis using sound' by (simp add: run_inv_def)
  qed
qed

lemma oracleLoop_inv:
  assumes "graph_ok program" and "run_inv program tracked maxStates st"
  shows "run_inv program tracked maxStates (oracleLoop program tracked maxStates st) \<and>
    (budgetExceeded (oracleLoop program tracked maxStates st) \<or> queue (oracleLoop program tracked maxStates st) = [])"
  using assms
proof (induction program tracked maxStates st rule: oracleLoop.induct)
  case (1 program tracked maxStates st)
  show ?case
  proof (cases "queue st = [] \<or> budgetExceeded st")
    case True
    then show ?thesis using 1(3) by (auto simp: oracleLoop.simps [of _ _ _ st])
  next
    case False
    then obtain k ks where q: "queue st = k # ks" by (cases "queue st") auto
    show ?thesis using 1 False oracleStep_inv [OF 1(2,3) q] by (simp add: oracleLoop.simps [of _ _ _ st])
  qed
qed

section \<open>Exactness\<close>

lemma has_path_entry:
  assumes "tables_sound program tracked maxStates st" "has_path st f n s" "entry_wf f" "state_wf s"
  obtains p where "map_of (pathEdges st) (path_key p) = Some p" "pathEntry p = f" "pathNode p = n" "pathState p = s"
proof -
  let ?q = "\<lparr>pathEntry = f, pathNode = n, pathState = s, pathWitness = []\<rparr>"
  obtain p where p: "map_of (pathEdges st) (path_key ?q) = Some p" using assms(2) unfolding has_path_def by blast
  then have k: "path_key ?q = path_key p" "path_ok program tracked p" using assms(1) unfolding tables_sound_def oracle_tables_ok_def by blast+
  have "f = pathEntry p \<and> n = pathNode p \<and> s = pathState p" using path_key_inj [OF k(1)] path_wf [OF k(2)] assms(3,4) by simp
  then show thesis using that p k(1) by simp
qed

lemma complete:
  assumes inv: "run_inv program tracked maxStates st" and fin: "\<not> budgetExceeded st" "queue st = []"
  shows "reaches_from program tracked f n s \<Longrightarrow> has_path st f n s"
proof (induction rule: reaches_from.induct)
  have sound: "tables_sound program tracked maxStates st" and joined: "joined_tables st"
    and all: "\<And>k p. map_of (pathEdges st) k = Some p \<Longrightarrow> path_handled program tracked st p"
    using inv fin unfolding run_inv_def by auto
  have at: "path_handled program tracked st \<lparr>pathEntry = f, pathNode = n, pathState = s, pathWitness = []\<rparr>"
    if h: "has_path st f n s" "reaches_from program tracked f n s" for f n s
  proof -
    obtain p where p: "map_of (pathEdges st) (path_key p) = Some p" "pathEntry p = f" "pathNode p = n" "pathState p = s"
      using has_path_entry [OF sound h(1)] reaches_wf [OF h(2)] by blast
    show ?thesis using all [OF p(1)] unfolding path_handled_def p(2-4) referencePathEdge.select_convs .
  qed
  have edge: "edge_followed program st f s' e"
    if "has_path st f n s" "reaches_from program tracked f n s" "passes program tracked n s s'" "\<not> exit_node program n"
      "edge_from program kind n e" for f n s s' e kind
    using at [OF that(1,2)] that(3-5) by (auto simp: path_handled_def edge_from_def)
  { case root show ?case using inv fin unfolding run_inv_def by blast }
  { case (flow f n s s' e) then show ?case using edge unfolding edge_followed_def by (metis edge_from_def) }
  { case (call f n s s' e) then show ?case using edge unfolding edge_followed_def by (metis edge_from_def) }
  case (ret f n s s' e r t t')
  let ?f = "\<lparr>entryNode = To e, entryState = s'\<rparr>"
  let ?d = "\<lparr>calleeEntry = ?f, calleeExit = From r, callerEntry = f, callSite = EdgeSite e, returnNode = To r, callerState = s', callerWitness = []\<rparr>"
  let ?s = "\<lparr>summaryEntry = ?f, summaryExit = From r, summaryState = t', summaryWitness = []\<rparr>"
  have "edge_followed program st f s' e" using edge [OF ret.IH(1) ret.hyps(1-4)] .
  moreover have "EdgeKind e = EdgeCall" using ret.hyps(4) by (simp add: edge_from_def)
  ultimately obtain d where d: "map_of (dependencies st) (referenceDependency_key ?d) = Some d"
    using ret.hyps(5) unfolding edge_followed_def by blast
  have "exit_node program (From r)" using ret.hyps(5) by (auto simp: matches_def edge_from_def exit_node_def)
  then obtain u where u: "map_of (summaries st) (referenceSummary_key ?s) = Some u"
    using at [OF ret.IH(2) ret.hyps(6)] ret.hyps(7) by (auto simp: path_handled_def)
  have k: "referenceDependency_key ?d = referenceDependency_key d" "dependency_ok program tracked d" "referenceSummary_key ?s = referenceSummary_key u" "summary_ok program tracked u"
    using sound d u unfolding tables_sound_def oracle_tables_ok_def by blast+
  have wf: "entry_wf f" "state_wf s'" "state_wf t'"
    using reaches_wf [OF ret.hyps(1)] reaches_wf [OF ret.hyps(6)] runs_at_wf ret.hyps(2,7) by blast+
  have "d = ?d\<lparr>callerWitness := callerWitness d\<rparr>"
    using reference_dependency_key_inj [OF k(1)] reference_dependency_wf [OF k(2)] wf by simp
  then have deq: "calleeEntry d = ?f" "calleeExit d = From r" "callerEntry d = f" "returnNode d = To r"
    by (metis referenceDependency.select_convs referenceDependency.update_convs(7))+
  have ueq: "summaryEntry u = ?f \<and> summaryExit u = From r \<and> summaryState u = t'"
    using reference_summary_key_inj [OF k(3)] reference_summary_wf [OF k(4)] wf by simp
  show ?case using joined_tablesD [OF joined d u] deq ueq by simp
qed

text \<open>What the interpreter should answer: the worst outcome of an execution.\<close>

definition meaning :: "OracleProgram \<Rightarrow> nat \<Rightarrow> Outcome" where
  "meaning program tracked =
     (if \<exists>s. finishes program tracked s \<and> referenceTerminalOutcome s tracked = OutcomeViolation then OutcomeViolation
      else if \<exists>s. finishes program tracked s \<and> referenceTerminalOutcome s tracked = OutcomeInconclusive then OutcomeInconclusive
      else OutcomeNone)"

lemma meaning_unique:
  assumes out: "out \<noteq> OutcomeNone \<longrightarrow> (\<exists>s. finishes program tracked s \<and> referenceTerminalOutcome s tracked = out)"
    and all: "\<And>s. finishes program tracked s \<Longrightarrow> joinOutcome out (referenceTerminalOutcome s tracked) = out"
  shows "out = meaning program tracked"
proof (cases out)
  case OutcomeNone
  then have "referenceTerminalOutcome s tracked = OutcomeNone" if "finishes program tracked s" for s using all [OF that] by simp
  then show ?thesis using OutcomeNone by (auto simp: meaning_def)
next
  case OutcomeViolation
  then show ?thesis using out by (auto simp: meaning_def)
next
  case OutcomeInconclusive
  have "referenceTerminalOutcome s tracked \<noteq> OutcomeViolation" if "finishes program tracked s" for s
    using all [OF that] OutcomeInconclusive by (auto simp: joinOutcome_def)
  then show ?thesis using out OutcomeInconclusive by (auto simp: meaning_def)
qed

definition started :: "OracleProgram \<Rightarrow> int \<Rightarrow> oracleRun" where
  "started program maxStates = snd (enqueuePath maxStates (rootEdge program) emptyRun)"

lemma started_inv: "run_inv program tracked maxStates (started program maxStates)"
proof -
  have e: "tables_sound program tracked maxStates emptyRun" "joined_tables emptyRun"
    by (simp_all add: emptyRun_def tables_sound_def oracle_tables_ok_def work_counted_def table_size_def keysAt_def joined_tables_def)
  have "path_ok program tracked (rootEdge program)" using reaches_from.root by (simp add: path_ok_def rootEdge_def)
  from enqueue_advances [OF e(1) this]
  have a: "tables_sound program tracked maxStates (started program maxStates)" "extends emptyRun (started program maxStates)"
    "\<not> budgetExceeded (started program maxStates) \<Longrightarrow>
       has_path (started program maxStates) (root_entry program) (Entry program) (initialReferenceState program) \<and> joined_tables (started program maxStates)"
    using e(2) by (simp_all add: advances_def started_def rootEdge_def)
  have "runOutcome (started program maxStates) = OutcomeNone" using a(2) by (simp add: extends_def emptyRun_def)
  moreover have "dom (map_of (pathEdges (started program maxStates))) \<subseteq> set (queue (started program maxStates))"
    using a(2) by (simp add: extends_def emptyRun_def)
  ultimately show ?thesis using a(1,3) unfolding run_inv_def outcome_sound_def by (auto simp: dom_def)
qed

definition finished :: "OracleProgram \<Rightarrow> nat \<Rightarrow> int \<Rightarrow> oracleRun" where
  "finished program tracked maxStates = oracleLoop program tracked maxStates (started program maxStates)"

lemma finished_sound:
  assumes "graph_ok program"
  shows "outcome_sound program tracked (finished program tracked maxStates)"
  using oracleLoop_inv [OF assms started_inv] unfolding finished_def run_inv_def by blast

lemma finished_exact:
  assumes "graph_ok program" and fin: "\<not> budgetExceeded (finished program tracked maxStates)"
  shows "runOutcome (finished program tracked maxStates) = meaning program tracked"
proof (rule meaning_unique)
  let ?st = "finished program tracked maxStates"
  have inv: "run_inv program tracked maxStates ?st" and q: "queue ?st = []"
    using oracleLoop_inv [OF assms(1) started_inv] fin unfolding finished_def by blast+
  show "runOutcome ?st \<noteq> OutcomeNone \<longrightarrow> (\<exists>s. finishes program tracked s \<and> referenceTerminalOutcome s tracked = runOutcome ?st)"
    using inv unfolding run_inv_def outcome_sound_def by blast
  fix s' assume "finishes program tracked s'"
  then obtain f n s where r: "reaches_from program tracked f n s" "runs_at program tracked True n s s'" unfolding finishes_iff by blast
  have sound: "tables_sound program tracked maxStates ?st" using inv unfolding run_inv_def by blast
  obtain p where p: "map_of (pathEdges ?st) (path_key p) = Some p" "pathEntry p = f" "pathNode p = n" "pathState p = s"
    using has_path_entry [OF sound complete [OF inv fin q r(1)]] reaches_wf [OF r(1)] by blast
  then have "path_handled program tracked ?st p" using inv fin q unfolding run_inv_def by simp
  then show "joinOutcome (runOutcome ?st) (referenceTerminalOutcome s' tracked) = runOutcome ?st"
    using r(2) p unfolding path_handled_def by blast
qed


lemma interpretIdentity_result:
  assumes "ValidateProgram program = None" "0 < maxStates" "length (Identities program) \<le> maxReferenceIdentities"
    and st: "st = finished program tracked maxStates"
  shows "ResultOutcome (interpretIdentity program tracked maxStates) =
      (if budgetExceeded st then joinOutcome (runOutcome st) OutcomeInconclusive else runOutcome st)"
    and "ResultUncertainty (interpretIdentity program tracked maxStates) =
      referenceUncertaintyNames (if budgetExceeded st then runUncertainty st OR push_bit 4 1 else runUncertainty st)"
  using assms(1-3) unfolding st finished_def started_def by (simp_all add: interpretIdentity_def Let_def)


text \<open>
  C24. A verdict of the oracle is right whatever the budget: it answers that the protocol holds only if
  every execution of the program that reaches_from a terminal node satisfies it, and reports a violation only if
  some execution violates it.
\<close>
theorem oracle_verdicts_sound:
  "(ResultOutcome (interpretIdentity program tracked maxStates) = OutcomeNone \<longrightarrow>
     (\<forall>s. finishes program tracked s \<longrightarrow> referenceTerminalOutcome s tracked = OutcomeNone)) \<and>
   (ResultOutcome (interpretIdentity program tracked maxStates) = OutcomeViolation \<longrightarrow>
     (\<exists>s. finishes program tracked s \<and> referenceTerminalOutcome s tracked = OutcomeViolation))"
proof (cases "ValidateProgram program = None \<and> 0 < maxStates \<and> length (Identities program) \<le> maxReferenceIdentities")
  case True
  let ?st = "finished program tracked maxStates"
  have graph: "graph_ok program" using valid_graph True by blast
  have result: "ResultOutcome (interpretIdentity program tracked maxStates) =
      (if budgetExceeded ?st then joinOutcome (runOutcome ?st) OutcomeInconclusive else runOutcome ?st)"
    using interpretIdentity_result(1) True by blast
  have joins: "joinOutcome out OutcomeInconclusive \<noteq> OutcomeNone" "joinOutcome out OutcomeInconclusive = OutcomeViolation \<longleftrightarrow> out = OutcomeViolation" for out
    by (cases out; simp add: joinOutcome_def)+
  have "referenceTerminalOutcome s tracked = OutcomeNone"
    if "ResultOutcome (interpretIdentity program tracked maxStates) = OutcomeNone" "finishes program tracked s" for s
  proof -
    have "meaning program tracked = OutcomeNone" using that(1) result joins(1) finished_exact [OF graph] by (simp split: if_splits)
    then show ?thesis using that(2) unfolding meaning_def by (cases "referenceTerminalOutcome s tracked") (auto split: if_splits)
  qed
  moreover have "\<exists>s. finishes program tracked s \<and> referenceTerminalOutcome s tracked = OutcomeViolation"
    if "ResultOutcome (interpretIdentity program tracked maxStates) = OutcomeViolation"
  proof -
    have "runOutcome ?st = OutcomeViolation" using that result joins(2) by (simp split: if_splits)
    then show ?thesis using finished_sound [OF graph, of tracked maxStates] unfolding outcome_sound_def by simp
  qed
  ultimately show ?thesis by blast
next
  case False
  then have "ResultOutcome (interpretIdentity program tracked maxStates) = OutcomeInconclusive" by (auto simp: interpretIdentity_def)
  then show ?thesis by simp
qed



text \<open>
  A procedure that calls another one to validate its argument before it consumes it, and one that
  does both itself.
\<close>

definition sample_node :: "nat \<Rightarrow> nat \<Rightarrow> string \<Rightarrow> bool \<Rightarrow> OracleNode" where
  "sample_node p n operation terminal = \<lparr>Ref = \<lparr>refProcedure = p, refNode = n\<rparr>, Operation = operation, NodeIdentity = 0,
     NodeCondition = ConditionalResultNil, AliasAction = [], AliasSource = 0, UnknownEffect = [], NodeConstraint = [], Terminal = terminal\<rparr>"

definition sample_edge :: "nat \<times> nat \<Rightarrow> nat \<times> nat \<Rightarrow> string \<Rightarrow> nat \<Rightarrow> OracleEdge" where
  "sample_edge n m kind site = \<lparr>From = \<lparr>refProcedure = fst n, refNode = snd n\<rparr>, To = \<lparr>refProcedure = fst m, refNode = snd m\<rparr>,
     EdgeKind = kind, EdgeSite = site\<rparr>"

definition sample_program :: "bool \<Rightarrow> OracleProgram" where
  "sample_program calls =
     \<lparr>CaseID = ''sample'',
      ProgramShape = \<lparr>ShapeProcedures = (if calls then 2 else 1), ShapeNodes = 2, ShapeIdentities = 1, ShapeCallSites = (if calls then 1 else 0),
        ShapeCallDepth = (if calls then 1 else 0), ShapeTopology = TopologyCallReturn, ShapeBranchJoin = False, ShapeRecursive = False\<rparr>,
      Entry = \<lparr>refProcedure = 0, refNode = 0\<rparr>,
      Nodes = (if calls then [sample_node 0 0 OperationNoop False, sample_node 0 1 OperationConsume True,
          sample_node 1 0 OperationValidate False, sample_node 1 1 OperationNoop False]
        else [sample_node 0 0 OperationValidate False, sample_node 0 1 OperationConsume True]),
      Edges = (if calls then [sample_edge (0, 0) (1, 0) EdgeCall 1, sample_edge (1, 0) (1, 1) EdgeIntra 0, sample_edge (1, 1) (0, 1) EdgeReturn 1]
        else [sample_edge (0, 0) (0, 1) EdgeIntra 0]),
      Identities = [0], InitialFacts = [InitialFactNeedsValidation]\<rparr>"

lemma sample_program_valid: "ValidateProgram (sample_program calls) = None" "length (Identities (sample_program calls)) \<le> maxReferenceIdentities"
proof -
  have "ValidateProgram (sample_program False) = None" by code_simp
  moreover have "ValidateProgram (sample_program True) = None" by code_simp
  ultimately show "ValidateProgram (sample_program calls) = None" by (cases calls) simp_all
  show "length (Identities (sample_program calls)) \<le> maxReferenceIdentities" by (simp add: sample_program_def go_const)
qed

definition run_verdict :: "oracleRun \<Rightarrow> bool \<times> Outcome \<times> 8 word" where
  "run_verdict st = (budgetExceeded st, runOutcome st, runUncertainty st)"

lemma sample_program_run: "run_verdict (finished (sample_program False) 0 10) = (False, OutcomeNone, 0)"
  by code_simp

lemma sample_program_result:
  "ResultOutcome (interpretIdentity (sample_program False) 0 10) = OutcomeNone"
  "ResultUncertainty (interpretIdentity (sample_program False) 0 10) = []"
  using interpretIdentity_result [OF sample_program_valid(1) _ sample_program_valid(2) refl, of 10 False 0] sample_program_run
  by (simp_all add: run_verdict_def referenceUncertaintyNames_def)

theorem oracle_verdicts_sound_witness:
  "ResultOutcome (interpretIdentity (sample_program False) 0 10) = OutcomeNone \<and>
   \<not> (\<exists>s. finishes (sample_program False) 0 s \<and> referenceTerminalOutcome s 0 \<noteq> OutcomeNone)"
  using oracle_verdicts_sound [of "sample_program False" 0 10] sample_program_result by simp



end
