(* ===== verification/Oracle_Generator.thy ===== *)
theory Oracle_Generator imports Oracle_Keys begin
text \<open>
  The corpus of the protocol oracle (\<open>internal/protocoloracle/generate.go\<close>): the manifest of its
  dimensions, the configurations enumerated from it, the program generated from a configuration,
  and the partition of the corpus into shards. The fingerprint of a program, a SHA-256 sum of JSON,
  and the sum that chooses its shard are parameters.

  Go's \<open>int\<close> is modelled unbounded; \<open>uint8\<close> conversions are written out. An index out of range, where
  the code panics, is \<open>None\<close>.
\<close>

section \<open>Manifests\<close>

definition manifestFormatVersion :: int where [go_const]: "manifestFormatVersion = 3"
definition manifestGenerator :: string where [go_const]: "manifestGenerator = ''normalized-protocol-v3''"
definition manifestEnumeration :: string where [go_const]: "manifestEnumeration = ''one-factor-plus-integrated-scheduled-v1''"

record ManifestDimensions =
  ProcedureCounts :: "int list"
  NodesPerProcedure :: "int list"
  IdentityCounts :: "int list"
  CallSiteCounts :: "int list"
  CallDepths :: "int list"
  Topologies :: "string list"
  BranchJoins :: "bool list"
  Recursion :: "bool list"
  Operations :: "string list"
  ConditionalResults :: "string list"
  AliasActions :: "string list"
  UnknownEffects :: "string list"
  DimConstraints :: "string list"
  DimInitialFacts :: "string list"

record CorpusProfile =
  Shards :: int
  MinimumPrograms :: int
  MaxStates :: int
  PairwiseSemantics :: bool
  ProfileProgramCount :: int

record BoundsManifest =
  FormatVersion :: int
  Generator :: string
  Enumeration :: string
  Dimensions :: ManifestDimensions
  Scenarios :: "string list"
  Blocking :: CorpusProfile
  Scheduled :: CorpusProfile
  RequiredFeatures :: "string list"
  ExpectedProgramCount :: int

record generatedConfiguration =
  configID :: string
  configShape :: Shape
  configOperation :: string
  configCondition :: string
  configAlias :: string
  configUnknown :: string
  configConstraint :: string
  configFact :: string
  validateFirst :: bool
  operationInCallee :: bool
  protectedIdentity :: nat

definition validateDimensions :: "ManifestDimensions \<Rightarrow> go_error option" where
  "validateDimensions dimensions = first_error
     (concat (map (\<lambda>values. error_when (values = []) ''every integer dimension must be enumerable'' [] #
          map (\<lambda>n. error_when (n \<le> 0) ''integer dimensions must be positive'' []) values)
        [ProcedureCounts dimensions, NodesPerProcedure dimensions, IdentityCounts dimensions]) @
      map (\<lambda>n. error_when (n < 4) ''nodes-per-procedure bounds must admit entry, operation, return, and terminal nodes'' [])
        (NodesPerProcedure dimensions) @
      concat (map (\<lambda>values. error_when (values = []) ''call-site and call-depth dimensions must be enumerable'' [] #
          map (\<lambda>n. error_when (n < 0) ''call-site and call-depth dimensions must be non-negative'' []) values)
        [CallSiteCounts dimensions, CallDepths dimensions]) @
      map (\<lambda>values. error_when (values = []) ''every string dimension must be enumerable'' [])
        [Topologies dimensions, Operations dimensions, ConditionalResults dimensions, AliasActions dimensions,
         UnknownEffects dimensions, DimConstraints dimensions, DimInitialFacts dimensions] @
      [error_when (BranchJoins dimensions = [] \<or> Recursion dimensions = [])
         ''branch and recursion dimensions must be enumerable'' []])"

definition validateProfile :: "string \<Rightarrow> CorpusProfile \<Rightarrow> go_error option" where
  "validateProfile name profile = error_when
     (Shards profile \<le> 0 \<or> MinimumPrograms profile \<le> 0 \<or> MaxStates profile \<le> 0 \<or> ProfileProgramCount profile \<le> 0)
     ''%s corpus profile contains a non-positive bound'' [name]"

definition validateManifest :: "BoundsManifest \<Rightarrow> go_error option" where
  "validateManifest manifest = first_error
     [error_when (FormatVersion manifest \<noteq> manifestFormatVersion \<or> Generator manifest \<noteq> manifestGenerator \<or>
          Enumeration manifest \<noteq> manifestEnumeration)
        ''unsupported protocol oracle manifest format, generator, or enumeration'' [],
      validateDimensions (Dimensions manifest),
      error_when (Scenarios manifest = [] \<or> RequiredFeatures manifest = [] \<or> ExpectedProgramCount manifest \<le> 0)
        ''manifest requires scenarios, required features, and expected cardinality'' [],
      validateProfile ''blocking'' (Blocking manifest),
      validateProfile ''scheduled'' (Scheduled manifest),
      error_when (Shards (Scheduled manifest) < Shards (Blocking manifest) \<or> MaxStates (Scheduled manifest) < MaxStates (Blocking manifest))
        ''scheduled profile must be at least as strong as the blocking profile'' []]"

definition Profile :: "BoundsManifest \<Rightarrow> string \<Rightarrow> go_error + CorpusProfile" where
  "Profile manifest name =
     (if name = ''blocking'' then Inr (Blocking manifest)
      else if name = ''scheduled'' then Inr (Scheduled manifest)
      else Inl (Errorf ''unknown protocol oracle profile %q'' [name]))"

section \<open>Configurations\<close>

text \<open>The statements of \<open>normalizeConfiguration\<close>, in order; the switch is on the topology before it.\<close>

definition normalizeCalls :: "Shape \<Rightarrow> Shape" where
  "normalizeCalls shape =
     (let shape = (if ShapeProcedures shape > 1 \<and> ShapeCallSites shape = 0
            then shape\<lparr>ShapeCallSites := ShapeProcedures shape - 1,
              ShapeCallDepth := max (ShapeCallDepth shape) (ShapeProcedures shape - 1)\<rparr> else shape);
          shape = (if ShapeCallSites shape > 0
            then shape\<lparr>ShapeProcedures := max (ShapeProcedures shape) 2, ShapeCallDepth := max (ShapeCallDepth shape) 1\<rparr> else shape)
      in if ShapeCallDepth shape > 0
         then shape\<lparr>ShapeProcedures := max (ShapeProcedures shape) (ShapeCallDepth shape + 1),
           ShapeCallSites := max (ShapeCallSites shape) (ShapeCallDepth shape)\<rparr>
         else shape)"

definition atLeast :: "int \<Rightarrow> int \<Rightarrow> int \<Rightarrow> Shape \<Rightarrow> Shape" where
  "atLeast procedures sites depth shape = shape\<lparr>ShapeProcedures := max (ShapeProcedures shape) procedures,
     ShapeCallSites := max (ShapeCallSites shape) sites, ShapeCallDepth := max (ShapeCallDepth shape) depth\<rparr>"

definition normalizeTopology :: "Shape \<Rightarrow> Shape" where
  "normalizeTopology shape =
     (if ShapeTopology shape = TopologyBranchJoin then shape\<lparr>ShapeBranchJoin := True\<rparr>
      else if ShapeTopology shape = TopologyCallReturn then atLeast 2 1 1 shape
      else if ShapeTopology shape = TopologyRecursive then (atLeast 2 2 2 shape)\<lparr>ShapeRecursive := True\<rparr>
      else shape)"

definition normalizeShape :: "Shape \<Rightarrow> Shape" where
  "normalizeShape shape =
     (let shape = normalizeTopology (normalizeCalls shape);
          shape = (if ShapeBranchJoin shape \<and> ShapeTopology shape = TopologyLinear
            then shape\<lparr>ShapeTopology := TopologyBranchJoin\<rparr> else shape)
      in if ShapeRecursive shape \<and> ShapeTopology shape \<noteq> TopologyRecursive
         then atLeast 2 2 2 (shape\<lparr>ShapeTopology := TopologyRecursive\<rparr>)
         else shape)"

definition normalizeConfiguration :: "generatedConfiguration \<Rightarrow> generatedConfiguration" where
  "normalizeConfiguration c =
     (let c = c\<lparr>configShape := normalizeShape (configShape c)\<rparr>;
          c = (if configOperation c = OperationValidate \<and> configCondition c = ConditionalResultNone
            then c\<lparr>configCondition := ConditionalResultNil\<rparr> else c);
          c = (if configCondition c \<noteq> ConditionalResultNone then c\<lparr>configOperation := OperationValidate\<rparr> else c)
      in if configAlias c \<noteq> AliasActionNone
         then c\<lparr>configShape := (configShape c)\<lparr>ShapeIdentities := max (ShapeIdentities (configShape c)) 2\<rparr>\<rparr>
         else c)"

definition baseConfiguration :: "ManifestDimensions \<Rightarrow> go_error + generatedConfiguration" where
  "baseConfiguration dimensions =
     (case validateDimensions dimensions of
        Some e \<Rightarrow> Inl e
      | None \<Rightarrow> Inr (normalizeConfiguration
          \<lparr>configID = ''baseline'',
           configShape = \<lparr>ShapeProcedures = hd (ProcedureCounts dimensions), ShapeNodes = hd (NodesPerProcedure dimensions),
             ShapeIdentities = hd (IdentityCounts dimensions), ShapeCallSites = hd (CallSiteCounts dimensions),
             ShapeCallDepth = hd (CallDepths dimensions), ShapeTopology = hd (Topologies dimensions),
             ShapeBranchJoin = hd (BranchJoins dimensions), ShapeRecursive = hd (Recursion dimensions)\<rparr>,
           configOperation = hd (Operations dimensions), configCondition = hd (ConditionalResults dimensions),
           configAlias = hd (AliasActions dimensions), configUnknown = hd (UnknownEffects dimensions),
           configConstraint = hd (DimConstraints dimensions), configFact = hd (DimInitialFacts dimensions),
           validateFirst = False, operationInCallee = False, protectedIdentity = 0\<rparr>))"

definition withTwoIdentities :: "generatedConfiguration \<Rightarrow> generatedConfiguration" where
  "withTwoIdentities c = c\<lparr>configShape := (configShape c)\<lparr>ShapeIdentities := max (ShapeIdentities (configShape c)) 2\<rparr>\<rparr>"

definition withTopology :: "string \<Rightarrow> generatedConfiguration \<Rightarrow> generatedConfiguration" where
  "withTopology topology c = c\<lparr>configShape := (configShape c)\<lparr>ShapeTopology := topology\<rparr>\<rparr>"

definition scenarioConfiguration :: "generatedConfiguration \<Rightarrow> string \<Rightarrow> go_error + generatedConfiguration" where
  "scenarioConfiguration base name =
     (let c = base\<lparr>configID := ''scenario/'' @ name\<rparr>; validates = (\<lambda>condition c. c\<lparr>configOperation := OperationValidate, configCondition := condition\<rparr>) in
      if name = ''validated-nil'' then Inr (validates ConditionalResultNil c)
      else if name = ''validation-non-nil'' then Inr (validates ConditionalResultNonNil c)
      else if name = ''validation-unknown'' then Inr (validates ConditionalResultUnknown c)
      else if name = ''alias-copy'' then Inr (withTwoIdentities (validates ConditionalResultNil (c\<lparr>configAlias := AliasActionCopy\<rparr>)))
      else if name = ''alias-kill'' then Inr (withTwoIdentities (validates ConditionalResultNil (c\<lparr>configAlias := AliasActionKill\<rparr>)))
      else if name = ''post-validation-mutation'' then Inr (c\<lparr>validateFirst := True, configOperation := OperationMutate\<rparr>)
      else if name = ''post-validation-unknown'' then
        Inr (c\<lparr>validateFirst := True, configOperation := OperationUnresolved, configUnknown := UnknownEffectUnresolved\<rparr>)
      else if name = ''matched-return'' then
        Inr ((validates ConditionalResultNil (withTopology TopologyCallReturn c))\<lparr>operationInCallee := True\<rparr>)
      else if name = ''branch-join'' then Inr (withTopology TopologyBranchJoin c)
      else if name = ''recursive-summary'' then Inr (withTopology TopologyRecursive c)
      else if name = ''post-validation-escape'' then Inr (c\<lparr>validateFirst := True, configOperation := OperationEscape\<rparr>)
      else if name = ''refinement-unsat'' then Inr (c\<lparr>configConstraint := ConstraintUNSAT\<rparr>)
      else Inl (Errorf ''unknown generated scenario %q'' [name]))"

text \<open>The configurations that vary one dimension of the base.\<close>

definition varied ::
  "generatedConfiguration \<Rightarrow> string \<Rightarrow> ('v \<Rightarrow> string) \<Rightarrow> ('v \<Rightarrow> generatedConfiguration \<Rightarrow> generatedConfiguration) \<Rightarrow> 'v list
    \<Rightarrow> generatedConfiguration list" where
  "varied base dimension show set_value values =
     map (\<lambda>v. normalizeConfiguration ((set_value v base)\<lparr>configID := ''dimension/'' @ dimension @ ''/'' @ show v\<rparr>)) (tl values)"

definition onShape :: "(Shape \<Rightarrow> Shape) \<Rightarrow> generatedConfiguration \<Rightarrow> generatedConfiguration" where
  "onShape f c = c\<lparr>configShape := f (configShape c)\<rparr>"

fun scenarioConfigurations :: "generatedConfiguration \<Rightarrow> string list \<Rightarrow> go_error + generatedConfiguration list" where
  "scenarioConfigurations base [] = Inr []"
| "scenarioConfigurations base (scenario # scenarios) =
     (case scenarioConfiguration base scenario of
        Inl e \<Rightarrow> Inl e
      | Inr c \<Rightarrow> map_sum (\<lambda>e. e) (\<lambda>cs. normalizeConfiguration c # cs) (scenarioConfigurations base scenarios))"

definition enumerateConfigurations :: "BoundsManifest \<Rightarrow> go_error + generatedConfiguration list" where
  "enumerateConfigurations manifest =
     (let d = Dimensions manifest in
      case baseConfiguration d of
        Inl e \<Rightarrow> Inl e
      | Inr base \<Rightarrow> map_sum (\<lambda>e. e)
          (\<lambda>scenarios. base #
             varied base ''procedures'' show_int (\<lambda>v. onShape (\<lambda>s. s\<lparr>ShapeProcedures := v\<rparr>)) (ProcedureCounts d) @
             varied base ''nodes'' show_int (\<lambda>v. onShape (\<lambda>s. s\<lparr>ShapeNodes := v\<rparr>)) (NodesPerProcedure d) @
             varied base ''identities'' show_int (\<lambda>v. onShape (\<lambda>s. s\<lparr>ShapeIdentities := v\<rparr>)) (IdentityCounts d) @
             varied base ''call-sites'' show_int (\<lambda>v. onShape (\<lambda>s. s\<lparr>ShapeCallSites := v\<rparr>)) (CallSiteCounts d) @
             varied base ''call-depth'' show_int (\<lambda>v. onShape (\<lambda>s. s\<lparr>ShapeCallDepth := v\<rparr>)) (CallDepths d) @
             varied base ''topology'' (\<lambda>v. v) withTopology (Topologies d) @
             varied base ''branch-join'' show_go_bool (\<lambda>v. onShape (\<lambda>s. s\<lparr>ShapeBranchJoin := v\<rparr>)) (BranchJoins d) @
             varied base ''recursion'' show_go_bool (\<lambda>v. onShape (\<lambda>s. s\<lparr>ShapeRecursive := v\<rparr>)) (Recursion d) @
             varied base ''operation'' (\<lambda>v. v) (\<lambda>v c. c\<lparr>configOperation := v\<rparr>) (Operations d) @
             varied base ''condition'' (\<lambda>v. v) (\<lambda>v c. c\<lparr>configCondition := v\<rparr>) (ConditionalResults d) @
             varied base ''alias'' (\<lambda>v. v) (\<lambda>v c. c\<lparr>configAlias := v\<rparr>) (AliasActions d) @
             varied base ''unknown'' (\<lambda>v. v) (\<lambda>v c. c\<lparr>configUnknown := v\<rparr>) (UnknownEffects d) @
             varied base ''constraint'' (\<lambda>v. v) (\<lambda>v c. c\<lparr>configConstraint := v\<rparr>) (DimConstraints d) @
             varied base ''initial-fact'' (\<lambda>v. v) (\<lambda>v c. c\<lparr>configFact := v\<rparr>) (DimInitialFacts d) @ scenarios)
          (scenarioConfigurations base (Scenarios manifest)))"

section \<open>Generating a program\<close>

definition uint8 :: "int \<Rightarrow> nat" where
  "uint8 i = nat (i mod 256)"

definition refAt :: "int \<Rightarrow> int \<Rightarrow> NodeRef" where
  "refAt procedure node = \<lparr>refProcedure = uint8 procedure, refNode = uint8 node\<rparr>"

definition edgeBetween :: "string \<Rightarrow> int \<Rightarrow> NodeRef \<Rightarrow> NodeRef \<Rightarrow> OracleEdge" where
  "edgeBetween kind site from to = \<lparr>From = from, To = to, EdgeKind = kind, EdgeSite = uint8 site\<rparr>"

definition intraEdges :: "Shape \<Rightarrow> int \<Rightarrow> int set \<Rightarrow> OracleEdge list" where
  "intraEdges shape nodesPerProcedure callSources =
     concat (map (\<lambda>procedure. concat (map (\<lambda>nodeIndex.
         if nodeIndex = 1 \<and> procedure \<in> callSources then []
         else [edgeBetween EdgeIntra 0 (refAt procedure nodeIndex) (refAt procedure (nodeIndex + 1))])
       [0..nodesPerProcedure - 2])) [0..ShapeProcedures shape - 1])"

definition siteEdges :: "Shape \<Rightarrow> int \<Rightarrow> int \<Rightarrow> OracleEdge list" where
  "siteEdges shape nodesPerProcedure site =
     (let caller = min (site - 1) (ShapeProcedures shape - 2); callee = min (caller + 1) (ShapeProcedures shape - 1)
      in [edgeBetween EdgeCall site (refAt caller 1) (refAt callee 0),
          edgeBetween EdgeReturn site (refAt callee (nodesPerProcedure - 1)) (refAt caller 2)])"

definition generatedEdges :: "Shape \<Rightarrow> int \<Rightarrow> OracleEdge list" where
  "generatedEdges shape nodesPerProcedure =
     (let nonRecursiveSites = (if ShapeRecursive shape then ShapeCallSites shape - 1 else ShapeCallSites shape);
          callSources = (\<lambda>site. min (site - 1) (ShapeProcedures shape - 2)) ` set [1..nonRecursiveSites];
          procedure = min (max nonRecursiveSites 1) (ShapeProcedures shape - 1)
      in intraEdges shape nodesPerProcedure callSources @
         (if ShapeBranchJoin shape then [edgeBetween EdgeIntra 0 (refAt 0 0) (refAt 0 (nodesPerProcedure - 1))] else []) @
         concat (map (siteEdges shape nodesPerProcedure) [1..nonRecursiveSites]) @
         (if ShapeRecursive shape then
            [edgeBetween EdgeCall (ShapeCallSites shape) (refAt procedure 1) (refAt procedure 0),
             edgeBetween EdgeReturn (ShapeCallSites shape) (refAt procedure (nodesPerProcedure - 1)) (refAt procedure 2)]
          else []))"

definition noopNode :: "int \<Rightarrow> int \<Rightarrow> OracleNode" where
  "noopNode procedure nodeIndex =
     \<lparr>Ref = refAt procedure nodeIndex, Operation = OperationNoop, NodeIdentity = 0, NodeCondition = ConditionalResultNone,
      AliasAction = AliasActionNone, AliasSource = 0, UnknownEffect = UnknownEffectNone, NodeConstraint = ConstraintNone, Terminal = False\<rparr>"

definition noopNodes :: "Shape \<Rightarrow> int \<Rightarrow> OracleNode list" where
  "noopNodes shape mainNodes = concat (map (\<lambda>procedure. map (noopNode procedure) [0..mainNodes - 1]) [0..ShapeProcedures shape - 1])"

text \<open>The element of an index is changed; \<open>None\<close> is the panic on an index out of range.\<close>

definition changeAt :: "int \<Rightarrow> ('a \<Rightarrow> 'a) \<Rightarrow> 'a list \<Rightarrow> 'a list option" where
  "changeAt i f xs = (if 0 \<le> i \<and> i < int (length xs) then Some (xs[nat i := f (xs ! nat i)]) else None)"

definition operate :: "generatedConfiguration \<Rightarrow> OracleNode \<Rightarrow> OracleNode" where
  "operate c node =
     (let node = node\<lparr>Operation := configOperation c, NodeIdentity := protectedIdentity c, NodeCondition := configCondition c,
            UnknownEffect := configUnknown c, NodeConstraint := configConstraint c, AliasAction := configAlias c\<rparr>
      in if configAlias c \<noteq> AliasActionNone then node\<lparr>NodeIdentity := 1, AliasSource := 0\<rparr> else node)"

definition validateEntry :: "OracleNode \<Rightarrow> OracleNode" where
  "validateEntry node = node\<lparr>Operation := OperationValidate, NodeCondition := ConditionalResultNil\<rparr>"

definition generatedNodes :: "generatedConfiguration \<Rightarrow> OracleNode list option" where
  "generatedNodes c =
     (let mainNodes = ShapeNodes (configShape c); operationIndex = (if operationInCallee c then mainNodes + 1 else 1) in
      case changeAt operationIndex (operate c) (noopNodes (configShape c) mainNodes) of
        None \<Rightarrow> None
      | Some nodes \<Rightarrow>
          (case (if validateFirst c then changeAt 0 validateEntry nodes else Some nodes) of
             None \<Rightarrow> None
           | Some nodes \<Rightarrow> changeAt (mainNodes - 1) (\<lambda>node. node\<lparr>Terminal := True\<rparr>) nodes))"

definition generatedProgram :: "generatedConfiguration \<Rightarrow> (OracleProgram \<times> go_error option) option" where
  "generatedProgram configuration =
     (let c = normalizeConfiguration configuration; shape = configShape c in
      map_option
        (\<lambda>nodes. let program =
           \<lparr>CaseID = configID c, ProgramShape = shape, Entry = refAt 0 0, Nodes = nodes,
            Edges = generatedEdges shape (ShapeNodes shape),
            Identities = map uint8 [0..ShapeIdentities shape - 1],
            InitialFacts = map (\<lambda>_. configFact c) [0..ShapeIdentities shape - 1]\<rparr>
          in (program, ValidateProgram program))
        (generatedNodes c))"
section \<open>Counting\<close>

definition tallied :: "('k \<times> int) list \<Rightarrow> 'k \<Rightarrow> int" where
  "tallied m k = (case map_of m k of None \<Rightarrow> 0 | Some n \<Rightarrow> n)"

lemma tallied_Nil [simp]: "tallied [] k = 0"
  by (simp add: tallied_def)

lemma tallied_tally [simp]: "tallied (tally m k') k = tallied m k + (if k = k' then 1 else 0)"
  by (simp add: tallied_def tally_def update_conv')

lemma tally_keys: "fst ` set (tally m k) = insert k (fst ` set m)"
  by (simp add: tally_def dom_update)

lemma tally_distinct: "distinct (map fst m) \<Longrightarrow> distinct (map fst (tally m k))"
  by (simp add: tally_def distinct_update)

lemma tallied_foldl: "tallied (foldl tally m ks) k = tallied m k + int (count_list ks k)"
  by (induction ks arbitrary: m) auto

lemma tally_foldl_keys: "fst ` set (foldl tally m ks) = fst ` set m \<union> set ks"
  by (induction ks arbitrary: m) (auto simp: tally_keys)

lemma tally_foldl_distinct: "distinct (map fst m) \<Longrightarrow> distinct (map fst (foldl tally m ks))"
  by (induction ks arbitrary: m) (auto simp: tally_distinct)

lemma tallied_value: "distinct (map fst m) \<Longrightarrow> (k, n) \<in> set m \<Longrightarrow> n = tallied m k"
  by (simp add: tallied_def)

lemma leastCount_constant: "0 < n \<Longrightarrow> counts \<noteq> [] \<Longrightarrow> set counts \<subseteq> {n} \<Longrightarrow> leastCount counts = n"
proof -
  assume n: "0 < n" and counts: "counts \<noteq> []" "set counts \<subseteq> {n}"
  have fold: "foldl (\<lambda>least n. if least = 0 \<or> n < least then n else least) n cs = n" if "set cs \<subseteq> {n}" for cs
    using that n by (induction cs) auto
  from counts show ?thesis using fold by (cases counts) (auto simp: leastCount_def)
qed

lemma foldl_max_member: "foldl max m xs = m \<or> foldl max m xs \<in> set xs"
  for m :: nat
proof (induction xs arbitrary: m)
  case (Cons x xs)
  show ?case using Cons [of "max m x"] by (auto simp: max_def)
qed simp

lemma foldl_max_ge: "m \<le> foldl max m xs \<and> (\<forall>x\<in>set xs. x \<le> foldl max m xs)"
  for m :: nat
proof (induction xs arbitrary: m)
  case (Cons x xs)
  show ?case using Cons [of "max m x"] by auto
qed simp

lemma foldl_max_eq:
  fixes m :: nat
  assumes "\<And>x. x \<in> set xs \<Longrightarrow> x \<le> m" and "m = 0 \<or> m \<in> set xs"
  shows "foldl max 0 xs = m"
proof (rule antisym)
  show "foldl max 0 xs \<le> m" using foldl_max_member [of 0 xs] assms(1) by auto
  show "m \<le> foldl max 0 xs" using foldl_max_ge [of 0 xs] assms(2) by auto
qed

lemma bump_foldl_new: "distinct (map fst m @ ks) \<Longrightarrow> foldl bump m ks = m @ map (\<lambda>k. (k, 1)) ks"
proof (induction ks arbitrary: m)
  case (Cons k ks)
  have "k \<notin> fst ` set m" using Cons.prems by auto
  then have "bump m k = m @ [(k, 1)]" by (simp add: bump_def update_new map_of_eq_None_iff [THEN iffD2])
  then show ?case using Cons.IH [of "m @ [(k, 1)]"] Cons.prems by simp
qed simp

section \<open>What validation asks of the parts of a program\<close>

definition node_ok :: "OracleProgram \<Rightarrow> OracleNode \<Rightarrow> bool" where
  "node_ok program node \<longleftrightarrow> int (refProcedure (Ref node)) < ShapeProcedures (ProgramShape program) \<and>
     int (refNode (Ref node)) < ShapeNodes (ProgramShape program) \<and> NodeIdentity node < length (Identities program) \<and>
     AliasSource node < length (Identities program) \<and> validateNodeEnums node = None"

lemma validateNodes_accepts:
  assumes "distinct (map Ref nodes)" and "\<And>node. node \<in> set nodes \<Longrightarrow> node_ok program node \<and> ref_key (Ref node) \<notin> seen"
  shows "validateNodes program seen byProcedure nodes =
    Inr (seen \<union> ref_key ` Ref ` set nodes, foldl tally byProcedure (map (\<lambda>node. refProcedure (Ref node)) nodes))"
  using assms
proof (induction nodes arbitrary: seen byProcedure)
  case (Cons node nodes)
  have ok: "node_ok program node" "ref_key (Ref node) \<notin> seen" using Cons.prems(2) [of node] by simp_all
  have "node_ok program n \<and> ref_key (Ref n) \<notin> insert (ref_key (Ref node)) seen" if "n \<in> set nodes" for n
    using Cons.prems that by (auto simp: image_iff)
  from Cons.IH [OF _ this] have "validateNodes program (insert (ref_key (Ref node)) seen) (tally byProcedure (refProcedure (Ref node))) nodes =
      Inr (insert (ref_key (Ref node)) seen \<union> ref_key ` Ref ` set nodes,
        foldl tally (tally byProcedure (refProcedure (Ref node))) (map (\<lambda>node. refProcedure (Ref node)) nodes))"
    using Cons.prems(1) by simp
  moreover have accepted: "first_error
        [error_when (ref_key (Ref node) \<in> seen) ''duplicate node %s'' [ref_key (Ref node)],
         error_when (int (refProcedure (Ref node)) \<ge> ShapeProcedures (ProgramShape program))
           ''node %s references procedure outside the admitted set'' [ref_key (Ref node)],
         error_when (int (refNode (Ref node)) \<ge> ShapeNodes (ProgramShape program))
           ''node %s references node index outside the admitted set'' [ref_key (Ref node)],
         error_when (NodeIdentity node \<ge> length (Identities program) \<or> AliasSource node \<ge> length (Identities program))
           ''node %s references identity outside the admitted set'' [ref_key (Ref node)],
         wrap_error ''node %s: %w'' [ref_key (Ref node)] (validateNodeEnums node)] = None"
    using ok by (simp add: node_ok_def)
  ultimately show ?case unfolding validateNodes.simps Let_def accepted by simp
qed simp

lemma validateProcedures_accepts:
  "(\<And>p. p \<in> set procedures \<Longrightarrow> tallied byProcedure (nat p mod 256) = want) \<Longrightarrow> validateProcedures byProcedure want procedures = None"
  by (induction procedures) (auto simp: Let_def tallied_def)

lemma validateIdentities_accepts:
  "length facts = length identities \<Longrightarrow> (\<And>i. i < length identities \<Longrightarrow> identities ! i = (index + i) mod 256) \<Longrightarrow>
    set facts \<subseteq> {InitialFactNeedsValidation, InitialFactValidated} \<Longrightarrow> validateIdentities index identities facts = None"
proof (induction identities arbitrary: index facts)
  case (Cons identity identities)
  then obtain f facts' where facts: "facts = f # facts'" by (cases facts) auto
  have "identity = index mod 256" using Cons.prems(2) [of 0] by simp
  moreover have "validateIdentities (Suc index) identities facts' = None"
  proof (rule Cons.IH)
    show "identities ! i = (Suc index + i) mod 256" if "i < length identities" for i using Cons.prems(2) [of "Suc i"] that by simp
  qed (use Cons.prems facts in auto)
  ultimately show ?case using Cons.prems(3) facts by auto
qed simp

definition edge_ok :: "string set \<Rightarrow> OracleEdge \<Rightarrow> bool" where
  "edge_ok keys e \<longleftrightarrow> ref_key (From e) \<in> keys \<and> ref_key (To e) \<in> keys \<and>
     (EdgeKind e = EdgeIntra \<or> (EdgeKind e = EdgeCall \<or> EdgeKind e = EdgeReturn) \<and> EdgeSite e \<noteq> 0)"

definition sitesOf :: "string \<Rightarrow> OracleEdge list \<Rightarrow> nat list" where
  "sitesOf kind edges = map EdgeSite (filter (\<lambda>e. EdgeKind e = kind) edges)"

lemma edge_kinds: "EdgeIntra \<noteq> EdgeCall" "EdgeIntra \<noteq> EdgeReturn" "EdgeCall \<noteq> EdgeReturn"
  "EdgeCall \<noteq> EdgeIntra" "EdgeReturn \<noteq> EdgeIntra" "EdgeReturn \<noteq> EdgeCall"
  by (simp_all add: go_const)

lemma validateEdges_accepts:
  "(\<And>e. e \<in> set edges \<Longrightarrow> edge_ok keys e) \<Longrightarrow>
    validateEdges keys callSites rets edges = Inr (foldl bump callSites (sitesOf EdgeCall edges), foldl bump rets (sitesOf EdgeReturn edges))"
proof (induction edges arbitrary: callSites rets)
  case (Cons e edges)
  have ok: "edge_ok keys e" using Cons.prems by simp
  then have accepted: "first_error
        [error_when (ref_key (From e) \<notin> keys \<or> ref_key (To e) \<notin> keys)
           ''edge %s -> %s has missing endpoint'' [ref_key (From e), ref_key (To e)],
         error_when (EdgeKind e \<notin> {EdgeIntra, EdgeCall, EdgeReturn})
           ''edge %s -> %s has unsupported kind %q'' [ref_key (From e), ref_key (To e), EdgeKind e],
         error_when ((EdgeKind e = EdgeCall \<or> EdgeKind e = EdgeReturn) \<and> EdgeSite e = 0)
           ''%s edge requires call site'' [EdgeKind e]] = None"
    by (auto simp: edge_ok_def EdgeIntra_def EdgeCall_def EdgeReturn_def)
  have "validateEdges keys callSites rets (e # edges) =
      validateEdges keys (if EdgeKind e = EdgeCall then bump callSites (EdgeSite e) else callSites)
        (if EdgeKind e = EdgeReturn then bump rets (EdgeSite e) else rets) edges"
    unfolding validateEdges.simps accepted by simp
  then show ?case using Cons by (simp add: sitesOf_def edge_kinds)
qed (simp add: sitesOf_def)

lemma matched_sites:
  assumes "distinct sites"
  shows "first_error (map (checkCallSite (foldl bump [] sites)) (foldl bump [] sites)) = None"
    and "first_error (map (checkReturnSite (foldl bump [] sites)) (foldl bump [] sites)) = None"
proof -
  have b: "foldl bump [] sites = map (\<lambda>k. (k, 1)) sites" using bump_foldl_new [of "[]" sites] assms by simp
  have "map_of (map (\<lambda>k. (k, 1 :: 8 word)) sites) k = Some 1" if "k \<in> set sites" for k
    using that assms by (intro map_of_is_SomeI) (auto simp: comp_def)
  then have "countAt (map (\<lambda>k. (k, 1)) sites) k = 1" if "k \<in> set sites" for k
    using that by (simp add: countAt_def)
  then show "first_error (map (checkCallSite (foldl bump [] sites)) (foldl bump [] sites)) = None"
    and "first_error (map (checkReturnSite (foldl bump [] sites)) (foldl bump [] sites)) = None"
    unfolding b by (auto simp: checkCallSite_def checkReturnSite_def)
qed

section \<open>What the metrics measure\<close>

definition intraOf :: "OracleEdge list \<Rightarrow> OracleEdge list" where
  "intraOf edges = filter (\<lambda>e. EdgeKind e = EdgeIntra) edges"

definition callsOf :: "OracleEdge list \<Rightarrow> (nat \<times> nat) list" where
  "callsOf edges = map (\<lambda>e. (refProcedure (From e), refProcedure (To e))) (filter (\<lambda>e. EdgeKind e = EdgeCall) edges)"

definition addCall :: "(nat \<times> nat list) list \<Rightarrow> nat \<times> nat \<Rightarrow> (nat \<times> nat list) list" where
  "addCall graph = (\<lambda>(caller, callee). AList.update caller
     (if callee \<in> set (callees graph caller) then callees graph caller else callees graph caller @ [callee]) graph)"

lemma scan_sites: "scanSites (foldl scanEdge scan edges) = scanSites scan \<union> set (sitesOf EdgeCall edges)"
  by (induction edges arbitrary: scan) (auto simp: scanEdge_def Let_def sitesOf_def edge_kinds)

lemma scan_graph: "scanGraph (foldl scanEdge scan edges) = foldl addCall (scanGraph scan) (callsOf edges)"
  by (induction edges arbitrary: scan) (auto simp: scanEdge_def Let_def callsOf_def addCall_def edge_kinds)

lemma scan_recursive: "scanRecursive (foldl scanEdge scan edges) \<longleftrightarrow> scanRecursive scan \<or> (\<exists>c\<in>set (callsOf edges). fst c = snd c)"
  by (induction edges arbitrary: scan) (auto simp: scanEdge_def Let_def callsOf_def edge_kinds)

lemma scan_joins:
  "scanBranchJoin (foldl scanEdge scan edges) \<longleftrightarrow> scanBranchJoin scan \<or>
     (\<exists>k\<in>set (map To (intraOf edges)). tallied (scanIncoming scan) (ref_key k) + int (count_list (map To (intraOf edges)) k) > 1)"
proof (induction edges arbitrary: scan)
  case (Cons e edges)
  show ?case
  proof (cases "EdgeKind e = EdgeIntra")
    case False
    then have "scanBranchJoin (scanEdge scan e) = scanBranchJoin scan" "scanIncoming (scanEdge scan e) = scanIncoming scan"
      by (simp_all add: scanEdge_def Let_def)
    then show ?thesis using Cons [of "scanEdge scan e"] False by (simp add: intraOf_def)
  next
    case True
    let ?m = "tally (scanIncoming scan) (ref_key (To e))"
    have step: "scanEdge scan e = scan\<lparr>scanIncoming := ?m, scanBranchJoin := scanBranchJoin scan \<or> the (map_of ?m (ref_key (To e))) > 1\<rparr>"
      using True by (simp add: scanEdge_def Let_def)
    have "the (map_of ?m (ref_key (To e))) = tallied ?m (ref_key (To e))"
      by (simp add: tallied_def tally_def update_conv')
    then have bj: "scanBranchJoin (scanEdge scan e) \<longleftrightarrow> scanBranchJoin scan \<or> tallied (scanIncoming scan) (ref_key (To e)) + 1 > 1"
      and inc: "scanIncoming (scanEdge scan e) = ?m" using step by simp_all
    let ?ks = "map To (intraOf edges)"
    have same: "tallied ?m (ref_key k) + int (count_list ?ks k) = tallied (scanIncoming scan) (ref_key k) + int (count_list (To e # ?ks) k)" for k
      by simp
    have "scanBranchJoin (foldl scanEdge scan (e # edges)) \<longleftrightarrow> scanBranchJoin scan \<or> tallied (scanIncoming scan) (ref_key (To e)) + 1 > 1 \<or>
        (\<exists>k\<in>set ?ks. tallied (scanIncoming scan) (ref_key k) + int (count_list (To e # ?ks) k) > 1)"
      unfolding foldl.simps Cons [of "scanEdge scan e"] bj inc same by (simp only: disj_assoc)
    also have "\<dots> \<longleftrightarrow> scanBranchJoin scan \<or>
        (\<exists>k\<in>set (To e # ?ks). tallied (scanIncoming scan) (ref_key k) + int (count_list (To e # ?ks) k) > 1)"
    proof (cases "To e \<in> set ?ks")
      case True
      then have "0 < count_list ?ks (To e)" by (metis count_list_0_iff gr0I)
      then show ?thesis using True by auto
    next
      case False
      then have "count_list ?ks (To e) = 0" by (simp add: count_list_0_iff)
      then show ?thesis by auto
    qed
    finally show ?thesis using True by (simp add: intraOf_def)
  qed
qed (simp add: intraOf_def)

text \<open>The call graph of a generated program is a chain, whose last procedure may call itself.\<close>

definition chain :: "nat \<Rightarrow> (nat \<times> nat list) list" where
  "chain n = map (\<lambda>i. (i, [Suc i])) [0..<n]"

definition chainGraph :: "nat \<Rightarrow> bool \<Rightarrow> (nat \<times> nat list) list" where
  "chainGraph n loops = chain n @ (if loops then [(n, [n])] else [])"

lemma chain_lookup: "map_of (chain n) i = (if i < n then Some [Suc i] else None)"
  unfolding chain_def by (induction n) (auto simp: map_of_append map_add_def split: option.splits)

lemma callees_chain: "callees (chainGraph n loops) i = (if i < n then [Suc i] else if loops \<and> i = n then [n] else [])"
  by (auto simp: callees_def chainGraph_def chain_lookup map_add_def split: option.splits)

lemma chain_Suc: "chain (Suc n) = chain n @ [(n, [Suc n])]"
  by (simp add: chain_def)

lemma callees_chain_only: "callees (chain n) i = (if i < n then [Suc i] else [])"
  by (simp add: callees_def chain_lookup)

lemma chain_fresh: "n \<notin> fst ` set (chain n)"
  by (auto simp: chain_def)

lemma chain_add_new: "addCall (chain n) (n, Suc n) = chain (Suc n)"
  by (simp add: addCall_def callees_chain_only chain_fresh update_new chain_Suc)

lemma chain_add_old: "i < n \<Longrightarrow> addCall (chain n) (i, Suc i) = chain n"
  by (simp add: addCall_def callees_chain_only chain_lookup update_triv)

lemma chain_add_loop: "addCall (chain n) (n, n) = chainGraph n True"
  by (simp add: addCall_def callees_chain_only chain_fresh update_new chainGraph_def)

lemma chain_depth:
  "active \<subseteq> {..<i} \<Longrightarrow> i \<le> n \<Longrightarrow> callDepthFrom (chainGraph n loops) active i = n - i + (if loops then 1 else 0)"
proof (induction "n - i" arbitrary: i active)
  case 0
  then have "i = n" "i \<notin> active" by auto
  moreover have "callDepthFrom (chainGraph n b) (insert n active) n = 0" for b by (simp add: callDepthFrom.simps [of _ "insert n active"])
  ultimately show ?case by (cases loops) (simp_all add: callDepthFrom.simps [of _ active] callees_chain)
next
  case (Suc d)
  then have "i < n" "i \<notin> active" by auto
  moreover have "callDepthFrom (chainGraph n loops) (insert i active) (Suc i) = n - Suc i + (if loops then 1 else 0)"
    using Suc by (intro Suc.hyps(1)) auto
  ultimately show ?case by (simp add: callDepthFrom.simps [of _ active] callees_chain)
qed

lemma chainGraph_depth: "callGraphDepth (chainGraph n loops) = n + (if loops then 1 else 0)"
  unfolding callGraphDepth_def
proof (rule foldl_max_eq)
  have keys: "set (map fst (chainGraph n loops)) \<subseteq> {..n}" by (auto simp: chainGraph_def chain_def)
  fix x assume "x \<in> set (map (callDepthFrom (chainGraph n loops) {}) (map fst (chainGraph n loops)))"
  then obtain i where "i \<le> n" "x = callDepthFrom (chainGraph n loops) {} i" using keys by auto
  then show "x \<le> n + (if loops then 1 else 0)" using chain_depth [of "{}" i n loops] by simp
next
  show "n + (if loops then 1 else 0) = 0 \<or>
      n + (if loops then 1 else 0) \<in> set (map (callDepthFrom (chainGraph n loops) {}) (map fst (chainGraph n loops)))"
  proof (cases "n = 0 \<and> \<not> loops")
    case False
    then have "0 \<in> set (map fst (chainGraph n loops))" by (auto simp: chainGraph_def chain_def image_iff)
    then show ?thesis using chain_depth [of "{}" 0 n loops] by (metis (no_types, lifting) bot_least diff_zero image_eqI le0 set_map)
  qed simp
qed

section \<open>The nodes of a generated program\<close>

lemma uint8_small: "0 \<le> i \<Longrightarrow> i < 256 \<Longrightarrow> uint8 i = nat i"
  by (simp add: uint8_def)

lemma uint8_inj: "inj_on uint8 {0..255}"
  by (rule inj_onI) (simp add: uint8_small eq_nat_nat_iff)

lemma refAt_inj: "p \<in> {0..255} \<Longrightarrow> n \<in> {0..255} \<Longrightarrow> q \<in> {0..255} \<Longrightarrow> m \<in> {0..255} \<Longrightarrow> refAt p n = refAt q m \<longleftrightarrow> p = q \<and> n = m"
  using uint8_inj by (auto simp: refAt_def inj_on_def)

lemma concat_product: "concat (map (\<lambda>x. map (f x) (filter (Q x) ys)) xs) = map (\<lambda>(x, y). f x y) (filter (\<lambda>(x, y). Q x y) (List.product xs ys))"
  by (induction xs) (simp_all add: filter_map comp_def)

lemma noopNodes_product: "noopNodes shape n = map (\<lambda>(p, i). noopNode p i) (List.product [0..ShapeProcedures shape - 1] [0..n - 1])"
  using concat_product [of noopNode "\<lambda>_ _. True" "[0..n - 1]" "[0..ShapeProcedures shape - 1]"] by (simp add: noopNodes_def)

lemma product_procedures: "count_list (map (\<lambda>(p, i). g p) (List.product ps is)) k = length is * count_list (map g ps) k"
proof (induction ps)
  case (Cons p ps)
  have "count_list (map (\<lambda>i. g p) is) k = (if g p = k then length is else 0)" by (induction "is") auto
  then show ?case using Cons by (simp add: comp_def)
qed simp

lemma count_distinct: "distinct xs \<Longrightarrow> count_list xs k = (if k \<in> set xs then 1 else 0)"
  by (induction xs) (auto simp: count_list_0_iff)

definition refs_within :: "Shape \<Rightarrow> NodeRef set" where
  "refs_within shape = {refAt p n | p n. 0 \<le> p \<and> p < ShapeProcedures shape \<and> 0 \<le> n \<and> n < ShapeNodes shape}"

lemma refs_withinI: "0 \<le> p \<Longrightarrow> p < ShapeProcedures shape \<Longrightarrow> 0 \<le> n \<Longrightarrow> n < ShapeNodes shape \<Longrightarrow> refAt p n \<in> refs_within shape"
  by (auto simp: refs_within_def)

text \<open>The bounds within which indices and sites keep their values as \<open>uint8\<close>.\<close>

definition shape_bounded :: "Shape \<Rightarrow> bool" where
  "shape_bounded shape \<longleftrightarrow> 1 \<le> ShapeProcedures shape \<and> ShapeProcedures shape \<le> 256 \<and> 4 \<le> ShapeNodes shape \<and> ShapeNodes shape \<le> 256 \<and>
     1 \<le> ShapeIdentities shape \<and> 0 \<le> ShapeCallSites shape \<and> ShapeCallSites shape \<le> 255 \<and> 0 \<le> ShapeCallDepth shape \<and>
     ShapeTopology shape \<in> {TopologyLinear, TopologyBranchJoin, TopologyCallReturn, TopologyRecursive} \<and>
     (ShapeCallSites shape > 0 \<longrightarrow> 2 \<le> ShapeProcedures shape) \<and> (ShapeRecursive shape \<longrightarrow> 2 \<le> ShapeCallSites shape)"

lemma noop_refs:
  assumes "shape_bounded shape"
  shows "distinct (map Ref (noopNodes shape (ShapeNodes shape)))" and "Ref ` set (noopNodes shape (ShapeNodes shape)) = refs_within shape"
    and "p \<in> set [0..ShapeProcedures shape - 1] \<Longrightarrow>
      int (count_list (map (\<lambda>node. refProcedure (Ref node)) (noopNodes shape (ShapeNodes shape))) (uint8 p)) = ShapeNodes shape"
    and "set (map (\<lambda>node. refProcedure (Ref node)) (noopNodes shape (ShapeNodes shape))) = uint8 ` set [0..ShapeProcedures shape - 1]"
    and "length (noopNodes shape (ShapeNodes shape)) = nat (ShapeProcedures shape) * nat (ShapeNodes shape)"
proof -
  let ?ps = "[0..ShapeProcedures shape - 1]" and ?ns = "[0..ShapeNodes shape - 1]"
  have b: "set ?ps \<subseteq> {0..255}" "set ?ns \<subseteq> {0..255}" and ne: "?ns \<noteq> []" using assms by (auto simp: shape_bounded_def)
  have refs: "map Ref (noopNodes shape (ShapeNodes shape)) = map (\<lambda>(p, i). refAt p i) (List.product ?ps ?ns)"
    by (simp add: noopNodes_product noopNode_def case_prod_beta comp_def)
  have "inj_on (\<lambda>(p, i). refAt p i) (set ?ps \<times> set ?ns)"
    using b refAt_inj unfolding inj_on_def by (simp add: subset_iff) 
  then show "distinct (map Ref (noopNodes shape (ShapeNodes shape)))" unfolding refs by (simp add: distinct_map distinct_product)
  show "Ref ` set (noopNodes shape (ShapeNodes shape)) = refs_within shape"
    unfolding set_map [symmetric] refs by (simp add: refs_within_def) force
  have procs: "map (\<lambda>node. refProcedure (Ref node)) (noopNodes shape (ShapeNodes shape)) = map (\<lambda>(p, i). uint8 p) (List.product ?ps ?ns)"
    by (simp add: noopNodes_product noopNode_def refAt_def case_prod_beta comp_def)
  have "distinct (map uint8 ?ps)" using uint8_inj b(1) by (simp add: distinct_map inj_on_subset)
  then show "int (count_list (map (\<lambda>node. refProcedure (Ref node)) (noopNodes shape (ShapeNodes shape))) (uint8 p)) = ShapeNodes shape"
    if "p \<in> set ?ps"
    unfolding procs product_procedures using that assms by (simp add: count_distinct shape_bounded_def)
  show "set (map (\<lambda>node. refProcedure (Ref node)) (noopNodes shape (ShapeNodes shape))) = uint8 ` set ?ps"
  proof -
    have "set (map (\<lambda>(p, i). uint8 p) (List.product ?ps ?ns)) = (\<lambda>(p, i). uint8 p) ` (set ?ps \<times> set ?ns)" by simp
    also have "\<dots> = uint8 ` set ?ps" using ne by (cases ?ns) force+
    finally show ?thesis unfolding procs .
  qed
  show "length (noopNodes shape (ShapeNodes shape)) = nat (ShapeProcedures shape) * nat (ShapeNodes shape)"
    by (simp add: noopNodes_product)
qed

definition fields_ok :: "nat \<Rightarrow> OracleNode \<Rightarrow> bool" where
  "fields_ok n node \<longleftrightarrow> NodeIdentity node < n \<and> AliasSource node < n \<and> validateNodeEnums node = None"

lemma changeAt_keeps:
  assumes "changeAt i f xs = Some ys" and "\<And>x. x \<in> set xs \<Longrightarrow> P x" and "\<And>x. x \<in> set xs \<Longrightarrow> P x \<Longrightarrow> P (f x)" and "\<And>x. g (f x) = g x"
  shows "(\<forall>y\<in>set ys. P y) \<and> map g ys = map g xs"
proof -
  have ys: "ys = xs[nat i := f (xs ! nat i)]" and i: "nat i < length xs" using assms(1) by (auto simp: changeAt_def split: if_splits)
  have "P (f (xs ! nat i))" using assms(2,3) i by simp
  then have "\<forall>y\<in>set ys. P y" using assms(2) set_update_subset_insert [of xs "nat i" "f (xs ! nat i)"] ys by auto
  moreover have "map g ys = map g xs" using i assms(4) by (simp add: ys map_update) (metis list_update_id nth_map)
  ultimately show ?thesis by blast
qed

lemma changeAt_exists: "0 \<le> i \<Longrightarrow> i < int (length xs) \<Longrightarrow> \<exists>ys. changeAt i f xs = Some ys"
  by (simp add: changeAt_def)

text \<open>The enumerations and the identity an operation of a configuration puts into its node.\<close>

definition effects_known :: "generatedConfiguration \<Rightarrow> bool" where
  "effects_known c \<longleftrightarrow> fields_ok (nat (ShapeIdentities (configShape c))) (operate c (noopNode 0 0))"

lemma operate_ok: "effects_known c \<Longrightarrow> AliasSource node = 0 \<Longrightarrow> fields_ok (nat (ShapeIdentities (configShape c))) (operate c node)"
proof -
  assume known: "effects_known c" and source: "AliasSource node = 0"
  have "validateNodeEnums (operate c node) = validateNodeEnums (operate c (noopNode 0 0))"
    and "NodeIdentity (operate c node) = NodeIdentity (operate c (noopNode 0 0))"
    by (simp_all add: operate_def Let_def validateNodeEnums_def)
  moreover have "AliasSource (operate c node) = AliasSource (operate c (noopNode 0 0))" using source by (simp add: operate_def Let_def noopNode_def)
  ultimately show ?thesis using known by (simp add: effects_known_def fields_ok_def)
qed

lemma generatedNodes_ok:
  assumes shape: "shape_bounded (configShape c)" and "effects_known c" and callee: "operationInCallee c \<Longrightarrow> 2 \<le> ShapeProcedures (configShape c)"
  obtains nodes where "generatedNodes c = Some nodes" and "map Ref nodes = map Ref (noopNodes (configShape c) (ShapeNodes (configShape c)))"
    and "\<And>node. node \<in> set nodes \<Longrightarrow> fields_ok (nat (ShapeIdentities (configShape c))) node"
proof -
  let ?noops = "noopNodes (configShape c) (ShapeNodes (configShape c))" and ?i = "if operationInCallee c then ShapeNodes (configShape c) + 1 else 1"
  let ?ok = "fields_ok (nat (ShapeIdentities (configShape c)))"
  let ?p = "nat (ShapeProcedures (configShape c))" and ?n = "nat (ShapeNodes (configShape c))"
  have bounds: "1 \<le> ?p" "4 \<le> ?n" "operationInCallee c \<Longrightarrow> 2 \<le> ?p" using shape callee by (auto simp: shape_bounded_def)
  have len: "length ?noops = ?p * ?n" using noop_refs(5) [OF shape] .
  have n: "?n \<le> length ?noops" using bounds(1) len by simp
  have n2: "operationInCallee c \<Longrightarrow> 2 * ?n \<le> length ?noops" using bounds(3) len by simp
  have noop: "?ok node" "AliasSource node = 0" if member: "node \<in> set ?noops" for node
  proof -
    have "1 \<le> ShapeIdentities (configShape c)" using shape by (simp add: shape_bounded_def)
    moreover obtain p i where "node = noopNode p i" using member by (auto simp: noopNodes_def)
    ultimately show "?ok node" "AliasSource node = 0" by (simp_all add: noopNode_def fields_ok_def validateNodeEnums_def)
  qed
  have "0 \<le> ?i \<and> ?i < int (length ?noops)"
  proof (cases "operationInCallee c")
    case True
    then show ?thesis using n2 bounds(2) by simp
  next
    case False
    then show ?thesis using n bounds(2) by simp
  qed
  then obtain nodes1 where c1: "changeAt ?i (operate c) ?noops = Some nodes1" using changeAt_exists by blast
  have 1: "(\<forall>y\<in>set nodes1. ?ok y) \<and> map Ref nodes1 = map Ref ?noops"
    using changeAt_keeps [OF c1, of ?ok Ref] noop operate_ok [OF assms(2)] by (simp add: operate_def Let_def)
  then have len1: "length nodes1 = length ?noops" by (metis length_map)
  have entry: "?ok (validateEntry node)" if "?ok node" for node
    using that by (auto simp: fields_ok_def validateEntry_def validateNodeEnums_def)
  obtain nodes2 where c2: "(if validateFirst c then changeAt 0 validateEntry nodes1 else Some nodes1) = Some nodes2"
  proof (cases "validateFirst c")
    case True
    have "0 < length nodes1" using len1 n bounds(2) by linarith
    then show thesis using that True changeAt_exists [of 0 nodes1 validateEntry] by auto
  qed (use that in simp)
  have 2: "(\<forall>y\<in>set nodes2. ?ok y) \<and> map Ref nodes2 = map Ref ?noops"
  proof (cases "validateFirst c")
    case True
    then have "changeAt 0 validateEntry nodes1 = Some nodes2" using c2 by simp
    from changeAt_keeps [OF this, of ?ok Ref] show ?thesis using 1 entry by (simp add: validateEntry_def)
  qed (use c2 1 in simp)
  then have len2: "length nodes2 = length ?noops" by (metis length_map)
  have "0 \<le> ShapeNodes (configShape c) - 1" "ShapeNodes (configShape c) - 1 < int (length nodes2)"
    using len2 n bounds(2) by linarith+
  then obtain nodes where c3: "changeAt (ShapeNodes (configShape c) - 1) (\<lambda>node. node\<lparr>Terminal := True\<rparr>) nodes2 = Some nodes"
    using changeAt_exists by blast
  have 3: "(\<forall>y\<in>set nodes. ?ok y) \<and> map Ref nodes = map Ref nodes2"
  proof -
    have "?ok (node\<lparr>Terminal := True\<rparr>)" if "?ok node" for node using that by (simp add: fields_ok_def validateNodeEnums_def)
    then show ?thesis using 2 by (intro changeAt_keeps [OF c3]) simp_all
  qed
  have "generatedNodes c = Some nodes" unfolding generatedNodes_def Let_def c1 option.case c2 c3 ..
  then show thesis using that 2 3 by simp
qed

section \<open>The edges of a generated program\<close>

definition chainSites :: "Shape \<Rightarrow> int" where
  "chainSites shape = (if ShapeRecursive shape then ShapeCallSites shape - 1 else ShapeCallSites shape)"

definition chainLength :: "Shape \<Rightarrow> nat" where
  "chainLength shape = nat (min (chainSites shape) (ShapeProcedures shape - 1))"

definition joinEdges :: "Shape \<Rightarrow> OracleEdge list" where
  "joinEdges shape = (if ShapeBranchJoin shape then [edgeBetween EdgeIntra 0 (refAt 0 0) (refAt 0 (ShapeNodes shape - 1))] else [])"

definition loopEdges :: "Shape \<Rightarrow> OracleEdge list" where
  "loopEdges shape =
     (let procedure = min (max (chainSites shape) 1) (ShapeProcedures shape - 1)
      in if ShapeRecursive shape then
            [edgeBetween EdgeCall (ShapeCallSites shape) (refAt procedure 1) (refAt procedure 0),
             edgeBetween EdgeReturn (ShapeCallSites shape) (refAt procedure (ShapeNodes shape - 1)) (refAt procedure 2)]
          else [])"

definition callSourcesOf :: "Shape \<Rightarrow> int set" where
  "callSourcesOf shape = (\<lambda>site. min (site - 1) (ShapeProcedures shape - 2)) ` set [1..chainSites shape]"

lemma generatedEdges_parts:
  "generatedEdges shape (ShapeNodes shape) = intraEdges shape (ShapeNodes shape) (callSourcesOf shape) @ joinEdges shape @
     concat (map (siteEdges shape (ShapeNodes shape)) [1..chainSites shape]) @ loopEdges shape"
  by (simp add: generatedEdges_def Let_def chainSites_def callSourcesOf_def joinEdges_def loopEdges_def)

definition intraEdge :: "int \<Rightarrow> int \<Rightarrow> OracleEdge" where
  "intraEdge p n = edgeBetween EdgeIntra 0 (refAt p n) (refAt p (n + 1))"

lemma concat_if: "concat (map (\<lambda>x. if Q x then [] else [f x]) xs) = map f (filter (\<lambda>x. \<not> Q x) xs)"
  by (induction xs) auto

lemma intraEdges_product:
  "intraEdges shape n sources = map (\<lambda>(p, i). intraEdge p i)
     (filter (\<lambda>(p, i). \<not> (i = 1 \<and> p \<in> sources)) (List.product [0..ShapeProcedures shape - 1] [0..n - 2]))"
  unfolding intraEdges_def concat_if intraEdge_def [symmetric] by (rule concat_product)

lemma edgeBetween_simps [simp]:
  "From (edgeBetween k s a b) = a" "To (edgeBetween k s a b) = b" "EdgeKind (edgeBetween k s a b) = k" "EdgeSite (edgeBetween k s a b) = uint8 s"
  by (simp_all add: edgeBetween_def)

lemma refAt_procedure [simp]: "refProcedure (refAt p n) = uint8 p"
  by (simp add: refAt_def)

lemma intraEdges_kinds:
  "filter (\<lambda>e. EdgeKind e = EdgeIntra) (intraEdges shape n sources) = intraEdges shape n sources"
  "filter (\<lambda>e. EdgeKind e = EdgeCall) (intraEdges shape n sources) = []"
  "filter (\<lambda>e. EdgeKind e = EdgeReturn) (intraEdges shape n sources) = []"
  by (auto simp: intraEdges_product intraEdge_def edge_kinds intro!: filter_True filter_False)

lemma siteEdges_kinds:
  "filter (\<lambda>e. EdgeKind e = EdgeIntra) (concat (map (siteEdges shape n) sites)) = []"
  "sitesOf EdgeCall (concat (map (siteEdges shape n) sites)) = map uint8 sites"
  "sitesOf EdgeReturn (concat (map (siteEdges shape n) sites)) = map uint8 sites"
  "callsOf (concat (map (siteEdges shape n) sites)) = map (\<lambda>site. (uint8 (min (site - 1) (ShapeProcedures shape - 2)),
      uint8 (min (min (site - 1) (ShapeProcedures shape - 2) + 1) (ShapeProcedures shape - 1)))) sites"
  by (induction sites) (simp_all add: siteEdges_def Let_def sitesOf_def callsOf_def edge_kinds)

lemma sitesOf_append: "sitesOf kind (xs @ ys) = sitesOf kind xs @ sitesOf kind ys"
  by (simp add: sitesOf_def)

lemma callsOf_append: "callsOf (xs @ ys) = callsOf xs @ callsOf ys"
  by (simp add: callsOf_def)

lemma intraOf_append: "intraOf (xs @ ys) = intraOf xs @ intraOf ys"
  by (simp add: intraOf_def)

lemma upto_snoc: "1 \<le> n \<Longrightarrow> [1..n - 1] @ [n] = [1..n :: int]"
  by (simp add: upto_rec2)

lemma generated_sites:
  assumes "shape_bounded shape"
  shows "sitesOf EdgeCall (generatedEdges shape (ShapeNodes shape)) = map uint8 [1..ShapeCallSites shape]"
    and "sitesOf EdgeReturn (generatedEdges shape (ShapeNodes shape)) = map uint8 [1..ShapeCallSites shape]"
proof -
  have parts: "sitesOf kind (intraEdges shape (ShapeNodes shape) (callSourcesOf shape)) = []" "sitesOf kind (joinEdges shape) = []"
    if "kind = EdgeCall \<or> kind = EdgeReturn" for kind
    using that intraEdges_kinds by (auto simp: sitesOf_def joinEdges_def edge_kinds)
  have "sitesOf kind (loopEdges shape) = (if ShapeRecursive shape then [uint8 (ShapeCallSites shape)] else [])"
    if "kind = EdgeCall \<or> kind = EdgeReturn" for kind
    using that by (auto simp: sitesOf_def loopEdges_def Let_def edge_kinds)
  moreover have "map uint8 [1..ShapeCallSites shape - 1] @ [uint8 (ShapeCallSites shape)] = map uint8 [1..ShapeCallSites shape]"
    if "ShapeRecursive shape"
  proof -
    have "1 \<le> ShapeCallSites shape" using that assms by (simp add: shape_bounded_def)
    from arg_cong [OF upto_snoc [OF this], of "map uint8"] show ?thesis by simp
  qed
  ultimately show "sitesOf EdgeCall (generatedEdges shape (ShapeNodes shape)) = map uint8 [1..ShapeCallSites shape]"
    and "sitesOf EdgeReturn (generatedEdges shape (ShapeNodes shape)) = map uint8 [1..ShapeCallSites shape]"
    by (simp_all add: generatedEdges_parts sitesOf_append parts siteEdges_kinds chainSites_def)
qed

lemma sites_distinct: "shape_bounded shape \<Longrightarrow> distinct (map uint8 [1..ShapeCallSites shape])"
  unfolding distinct_map by (auto simp: shape_bounded_def intro: inj_on_subset [OF uint8_inj])

lemma nat_upto_Suc: "[1..int (Suc k)] = [1..int k] @ [int (Suc k)]"
  by (simp add: upto_rec2)

lemma chain_of_sites:
  assumes p: "2 \<le> p" "p \<le> 256" and "k \<le> 255"
  shows "foldl addCall [] (map (\<lambda>site. (uint8 (min (site - 1) (p - 2)), uint8 (min (min (site - 1) (p - 2) + 1) (p - 1)))) [1..int k]) =
    chain (min k (nat (p - 1)))"
  using assms(3)
proof (induction k)
  case 0
  then show ?case by (simp add: chain_def)
next
  case (Suc k)
  let ?j = "min k (nat (p - 2))"
  have j: "min (int (Suc k) - 1) (p - 2) = int ?j" using p by simp
  then have "min (min (int (Suc k) - 1) (p - 2) + 1) (p - 1) = int (Suc ?j)" using p by simp
  then have call: "(uint8 (min (int (Suc k) - 1) (p - 2)), uint8 (min (min (int (Suc k) - 1) (p - 2) + 1) (p - 1))) = (?j, Suc ?j)"
    unfolding j using p by (simp add: uint8_small)
  have "foldl addCall [] (map (\<lambda>site. (uint8 (min (site - 1) (p - 2)), uint8 (min (min (site - 1) (p - 2) + 1) (p - 1)))) [1..int (Suc k)]) =
      addCall (chain (min k (nat (p - 1)))) (?j, Suc ?j)"
    unfolding nat_upto_Suc map_append foldl_append Suc.IH [OF Suc_leD [OF Suc.prems]] list.map foldl.simps call ..
  also have "\<dots> = chain (min (Suc k) (nat (p - 1)))"
  proof (cases "k < nat (p - 1)")
    case True
    then have "?j = k" "min k (nat (p - 1)) = k" "min (Suc k) (nat (p - 1)) = Suc k" using p by auto
    then show ?thesis by (simp add: chain_add_new)
  next
    case False
    then have "?j < nat (p - 1)" "min k (nat (p - 1)) = nat (p - 1)" "min (Suc k) (nat (p - 1)) = nat (p - 1)" using p by auto
    then show ?thesis by (simp add: chain_add_old)
  qed
  finally show ?case .
qed

lemma generated_calls:
  assumes "shape_bounded shape"
  shows "foldl addCall [] (callsOf (generatedEdges shape (ShapeNodes shape))) = chainGraph (chainLength shape) (ShapeRecursive shape)"
    and "(\<exists>c\<in>set (callsOf (generatedEdges shape (ShapeNodes shape))). fst c = snd c) \<longleftrightarrow> ShapeRecursive shape"
proof -
  let ?p = "ShapeProcedures shape" and ?k = "nat (chainSites shape)"
  let ?call = "\<lambda>site. (uint8 (min (site - 1) (?p - 2)), uint8 (min (min (site - 1) (?p - 2) + 1) (?p - 1)))"
  have k: "0 \<le> chainSites shape" "chainSites shape \<le> 255" "0 < chainSites shape \<longrightarrow> 2 \<le> ?p" "ShapeRecursive shape \<longrightarrow> 1 \<le> chainSites shape"
    using assms by (auto simp: shape_bounded_def chainSites_def)
  have p: "1 \<le> ?p" "?p \<le> 256" using assms by (simp_all add: shape_bounded_def)
  have parts: "callsOf (intraEdges shape (ShapeNodes shape) (callSourcesOf shape)) = []" "callsOf (joinEdges shape) = []"
    using intraEdges_kinds(2) by (auto simp: callsOf_def joinEdges_def edge_kinds)
  have "min (max (chainSites shape) 1) (?p - 1) = int (chainLength shape)" if "ShapeRecursive shape"
    using that k p by (auto simp: chainLength_def)
  then have loops: "callsOf (loopEdges shape) = (if ShapeRecursive shape then [(chainLength shape, chainLength shape)] else [])"
    using k(2) p by (auto simp: callsOf_def loopEdges_def Let_def edge_kinds uint8_small chainLength_def)
  have calls: "callsOf (generatedEdges shape (ShapeNodes shape)) = map ?call [1..int ?k] @ callsOf (loopEdges shape)"
    using k(1) by (simp add: generatedEdges_parts callsOf_append parts siteEdges_kinds)
  have len: "chainLength shape = min ?k (nat (?p - 1))" using k(1) p by (simp add: chainLength_def min_def)
  have sites: "foldl addCall [] (map ?call [1..int ?k]) = chain (chainLength shape)"
  proof (cases "?k = 0")
    case True
    then show ?thesis by (simp add: len chain_def)
  next
    case False
    then show ?thesis using chain_of_sites [of ?p ?k] k p len by simp
  qed
  show "foldl addCall [] (callsOf (generatedEdges shape (ShapeNodes shape))) = chainGraph (chainLength shape) (ShapeRecursive shape)"
    unfolding calls foldl_append sites loops by (simp add: chain_add_loop) (simp add: chainGraph_def)
  have "fst (?call site) \<noteq> snd (?call site)" if "site \<in> set [1..int ?k]" for site
  proof -
    have s: "1 \<le> site" "2 \<le> ?p" using that k(1,3) by auto
    then have "uint8 (min (site - 1) (?p - 2)) = nat (min (site - 1) (?p - 2))"
        "uint8 (min (min (site - 1) (?p - 2) + 1) (?p - 1)) = nat (min (site - 1) (?p - 2) + 1)"
      using p by (subst uint8_small; simp add: min_def)+
    moreover have "0 \<le> min (site - 1) (?p - 2)" using s by simp
    ultimately show ?thesis by (simp add: eq_nat_nat_iff)
  qed
  then show "(\<exists>c\<in>set (callsOf (generatedEdges shape (ShapeNodes shape))). fst c = snd c) \<longleftrightarrow> ShapeRecursive shape"
    unfolding calls loops by auto
qed

lemma generated_endpoints:
  assumes shape: "shape_bounded shape" and e: "e \<in> set (generatedEdges shape (ShapeNodes shape))"
  shows "From e \<in> refs_within shape \<and> To e \<in> refs_within shape \<and>
    (EdgeKind e = EdgeIntra \<or> (EdgeKind e = EdgeCall \<or> EdgeKind e = EdgeReturn) \<and> EdgeSite e \<noteq> 0)"
proof -
  have b: "1 \<le> ShapeProcedures shape" "4 \<le> ShapeNodes shape" "ShapeCallSites shape \<le> 255"
    "0 < chainSites shape \<longrightarrow> 2 \<le> ShapeProcedures shape" "chainSites shape \<le> 255" "ShapeRecursive shape \<longrightarrow> 2 \<le> ShapeCallSites shape"
    using shape by (auto simp: shape_bounded_def chainSites_def)
  from e consider (intra) p n where "e = intraEdge p n" "p \<in> set [0..ShapeProcedures shape - 1]" "n \<in> set [0..ShapeNodes shape - 2]"
    | (joins) "e \<in> set (joinEdges shape)"
    | (site) site where "site \<in> set [1..chainSites shape]" "e \<in> set (siteEdges shape (ShapeNodes shape) site)"
    | (loops) "e \<in> set (loopEdges shape)"
    by (auto simp: generatedEdges_parts intraEdges_product)
  then show ?thesis
  proof cases
    case intra
    then show ?thesis using b by (auto simp: intraEdge_def intro!: refs_withinI)
  next
    case joins
    then show ?thesis using b by (auto simp: joinEdges_def intro!: refs_withinI split: if_splits)
  next
    case site
    have s: "1 \<le> site" "site \<le> 255" "2 \<le> ShapeProcedures shape" using site(1) b by auto
    then have "uint8 site \<noteq> 0" by (simp add: uint8_small)
    then show ?thesis using site(2) s b by (auto simp: siteEdges_def Let_def intro!: refs_withinI)
  next
    case loops
    then have s: "ShapeRecursive shape" "2 \<le> ShapeCallSites shape" using b by (auto simp: loopEdges_def Let_def split: if_splits)
    then have "uint8 (ShapeCallSites shape) \<noteq> 0" using b by (simp add: uint8_small)
    moreover have "2 \<le> ShapeProcedures shape" using s shape by (auto simp: shape_bounded_def)
    ultimately show ?thesis using loops s b by (auto simp: loopEdges_def Let_def intro!: refs_withinI split: if_splits)
  qed
qed

lemma generated_joins:
  assumes shape: "shape_bounded shape"
  shows "(\<exists>k\<in>set (map To (intraOf (generatedEdges shape (ShapeNodes shape)))).
      int (count_list (map To (intraOf (generatedEdges shape (ShapeNodes shape)))) k) > 1) \<longleftrightarrow> ShapeBranchJoin shape"
proof -
  let ?S = "callSourcesOf shape" and ?N = "ShapeNodes shape"
  let ?pairs = "filter (\<lambda>(p, i). \<not> (i = 1 \<and> p \<in> ?S)) (List.product [0..ShapeProcedures shape - 1] [0..?N - 2])"
  let ?tos = "map (\<lambda>(p, i). refAt p (i + 1)) ?pairs"
  have b: "1 \<le> ShapeProcedures shape" "ShapeProcedures shape \<le> 256" "4 \<le> ?N" "?N \<le> 256" using shape by (simp_all add: shape_bounded_def)
  have sites: "intraOf (concat (map (siteEdges shape ?N) [1..chainSites shape])) = []" "intraOf (loopEdges shape) = []"
    by (auto simp: intraOf_def siteEdges_kinds(1) loopEdges_def Let_def edge_kinds)
  have "intraOf (generatedEdges shape ?N) = intraEdges shape ?N ?S @ joinEdges shape"
    unfolding generatedEdges_parts intraOf_append sites by (simp add: intraOf_def intraEdges_kinds joinEdges_def)
  then have tos: "map To (intraOf (generatedEdges shape ?N)) = ?tos @ (if ShapeBranchJoin shape then [refAt 0 (?N - 1)] else [])"
    by (simp add: intraEdges_product joinEdges_def intraEdge_def comp_def case_prod_beta)
  have "inj_on (\<lambda>(p, i). refAt p (i + 1)) (set ?pairs)"
  proof (rule inj_onI, clarify)
    fix p i q j assume m: "(p, i) \<in> set ?pairs" "(q, j) \<in> set ?pairs" and eq: "refAt p (i + 1) = refAt q (j + 1)"
    have "p \<in> {0..255}" "q \<in> {0..255}" "i + 1 \<in> {0..255}" "j + 1 \<in> {0..255}" using m b by auto
    then show "p = q \<and> i = j" using eq refAt_inj by auto
  qed
  then have d: "distinct ?tos" by (simp add: distinct_map distinct_product)
  have "refAt 0 (?N - 2 + 1) \<in> set ?tos"
    unfolding set_map using b by (intro image_eqI [of _ _ "(0, ?N - 2)"]) auto
  then have last: "refAt 0 (?N - 1) \<in> set ?tos" by (simp only: diff_add_eq) simp
  show ?thesis
  proof (cases "ShapeBranchJoin shape")
    case True
    have "count_list (?tos @ [refAt 0 (?N - 1)]) (refAt 0 (?N - 1)) = 2"
      unfolding count_list_append using count_distinct [OF d] last by simp
    then show ?thesis unfolding tos using True by auto
  next
    case False
    then show ?thesis unfolding tos using count_distinct [OF d] by auto
  qed
qed

section \<open>Generated programs are valid\<close>

definition derivedDepth :: "Shape \<Rightarrow> int" where
  "derivedDepth shape = int (chainLength shape) + (if ShapeRecursive shape then 1 else 0)"

lemma generated_metrics:
  assumes shape: "shape_bounded shape" and refs: "map Ref (Nodes program) = map Ref (noopNodes shape (ShapeNodes shape))"
    and edges: "Edges program = generatedEdges shape (ShapeNodes shape)" and ids: "int (length (Identities program)) = ShapeIdentities shape"
  shows "shapeMatches shape (Metrics program) \<longleftrightarrow> ShapeCallDepth shape = derivedDepth shape"
proof -
  let ?procs = "map (\<lambda>node. refProcedure (Ref node)) (Nodes program)"
  let ?ps = "[0..ShapeProcedures shape - 1]"
  let ?scan = "foldl scanEdge \<lparr>scanSites = {}, scanGraph = [], scanIncoming = [], scanBranchJoin = False, scanRecursive = False\<rparr> (Edges program)"
  have "map (\<lambda>node. refProcedure (Ref node)) nodes = map refProcedure (map Ref nodes)" for nodes :: "OracleNode list" by simp
  then have procs: "?procs = map (\<lambda>node. refProcedure (Ref node)) (noopNodes shape (ShapeNodes shape))" using refs by metis
  have b: "1 \<le> ShapeProcedures shape" "ShapeProcedures shape \<le> 256" "4 \<le> ShapeNodes shape" "0 \<le> ShapeCallSites shape"
    using shape by (simp_all add: shape_bounded_def)
  define m where "m = foldl tally [] ?procs"
  have m: "foldl (\<lambda>m node. tally m (refProcedure (Ref node))) [] (Nodes program) = m" by (simp add: m_def foldl_map)
  have keys: "fst ` set m = uint8 ` set ?ps" unfolding m_def tally_foldl_keys procs noop_refs(4) [OF shape] by simp
  have dist: "distinct (map fst m)" unfolding m_def by (rule tally_foldl_distinct) simp
  have "card (uint8 ` set ?ps) = card (set ?ps)" using b by (intro card_image inj_on_subset [OF uint8_inj]) auto
  then have size: "int (length m) = ShapeProcedures shape" using distinct_card [OF dist] keys b by simp
  have "n = ShapeNodes shape" if "n \<in> set (map snd m)" for n
  proof -
    from that obtain k where k: "(k, n) \<in> set m" by auto
    then have "k \<in> uint8 ` set ?ps" using keys by force
    then obtain p where "p \<in> set ?ps" "k = uint8 p" by blast
    then show ?thesis using tallied_value [OF dist k] noop_refs(3) [OF shape] unfolding m_def tallied_foldl procs by simp
  qed
  then have least: "leastCount (map snd m) = ShapeNodes shape" using size b by (intro leastCount_constant) auto
  have "card (set (map uint8 [1..ShapeCallSites shape])) = length (map uint8 [1..ShapeCallSites shape])"
    using distinct_card sites_distinct [OF shape] by blast
  then have sites: "int (card (scanSites ?scan)) = ShapeCallSites shape"
    unfolding scan_sites edges generated_sites(1) [OF shape] using b by simp
  have depth: "int (callGraphDepth (scanGraph ?scan)) = derivedDepth shape"
    unfolding scan_graph edges by (simp add: generated_calls(1) [OF shape] chainGraph_depth derivedDepth_def)
  have rec: "scanRecursive ?scan \<longleftrightarrow> ShapeRecursive shape" unfolding scan_recursive edges by (simp add: generated_calls(2) [OF shape])
  have join: "scanBranchJoin ?scan \<longleftrightarrow> ShapeBranchJoin shape" unfolding scan_joins edges using generated_joins [OF shape] by simp
  show ?thesis unfolding shapeMatches_def Metrics_def m Let_def using size least ids sites depth rec join by auto
qed

lemma generated_valid:
  assumes shape: "shape_bounded shape" and refs: "map Ref (Nodes program) = map Ref (noopNodes shape (ShapeNodes shape))"
    and ids: "Identities program = map uint8 [0..ShapeIdentities shape - 1]"
    and fields: "\<And>node. node \<in> set (Nodes program) \<Longrightarrow> fields_ok (nat (ShapeIdentities shape)) node"
    and edges: "Edges program = generatedEdges shape (ShapeNodes shape)" and "ProgramShape program = shape" "CaseID program \<noteq> []"
    and "Entry program = refAt 0 0" and facts: "InitialFacts program = map (\<lambda>_. f) [0..ShapeIdentities shape - 1]"
    and f: "f \<in> {InitialFactNeedsValidation, InitialFactValidated}"
  shows "ValidateProgram program = None \<longleftrightarrow> ShapeCallDepth shape = derivedDepth shape"
proof -
  let ?procs = "map (\<lambda>node. refProcedure (Ref node)) (Nodes program)"
  have b: "1 \<le> ShapeProcedures shape" "ShapeProcedures shape \<le> 256" "4 \<le> ShapeNodes shape" "ShapeNodes shape \<le> 256" "1 \<le> ShapeIdentities shape"
    "0 \<le> ShapeCallSites shape" "0 \<le> ShapeCallDepth shape"
    "ShapeTopology shape \<in> {TopologyLinear, TopologyBranchJoin, TopologyCallReturn, TopologyRecursive}"
    using shape by (simp_all add: shape_bounded_def)
  have len: "int (length (Identities program)) = ShapeIdentities shape" "length (InitialFacts program) = length (Identities program)"
    using ids facts b by simp_all
  have refset: "Ref ` set (Nodes program) = refs_within shape" using refs noop_refs(2) [OF shape] by (metis list.set_map)
  then have "Nodes program \<noteq> []" using refs_withinI [of 0 shape 0] b by auto
  moreover have "Identities program \<noteq> []" using ids b by auto
  moreover have "validateIdentities 0 (Identities program) (InitialFacts program) = None"
  proof (rule validateIdentities_accepts)
    show "Identities program ! i = (0 + i) mod 256" if "i < length (Identities program)" for i
      using that by (simp add: ids uint8_def nat_mod_distrib)
    show "set (InitialFacts program) \<subseteq> {InitialFactNeedsValidation, InitialFactValidated}" using f by (auto simp: facts)
  qed (rule len)
  ultimately have pre: "first_error
      [error_when (CaseID program = [] \<or> Nodes program = [] \<or> Identities program = [])
         ''program requires a case ID, nodes, and identities'' [],
       error_when (ShapeProcedures shape < 1 \<or> ShapeNodes shape < 1 \<or> ShapeIdentities shape < 1 \<or>
           ShapeCallSites shape < 0 \<or> ShapeCallDepth shape < 0)
         ''program shape contains an invalid bound'' [],
       error_when (ShapeTopology shape \<notin> {TopologyLinear, TopologyBranchJoin, TopologyCallReturn, TopologyRecursive})
         ''program shape has unsupported topology %q'' [ShapeTopology shape],
       error_when (int (length (Identities program)) \<noteq> ShapeIdentities shape) ''program admits %d identities, want %d''
         [show_nat (length (Identities program)), show_int (ShapeIdentities shape)],
       error_when (length (InitialFacts program) \<noteq> length (Identities program))
         ''program admits %d initial facts, want one for each of %d identities''
         [show_nat (length (InitialFacts program)), show_nat (length (Identities program))],
       validateIdentities 0 (Identities program) (InitialFacts program)] = None"
    using b len \<open>CaseID program \<noteq> []\<close> by simp
  have ok: "node_ok program node \<and> ref_key (Ref node) \<notin> {}" if "node \<in> set (Nodes program)" for node
  proof -
    have "Ref node \<in> refs_within shape" using refset that by blast
    then have "int (refProcedure (Ref node)) < ShapeProcedures shape \<and> int (refNode (Ref node)) < ShapeNodes shape"
      using b by (auto simp: refs_within_def refAt_def uint8_small)
    then show ?thesis using fields [OF that] len(1) \<open>ProgramShape program = shape\<close> by (auto simp: node_ok_def fields_ok_def)
  qed
  have dist: "distinct (map Ref (Nodes program))" using refs noop_refs(1) [OF shape] by simp
  have nodes: "validateNodes program {} [] (Nodes program) = Inr ({} \<union> ref_key ` Ref ` set (Nodes program), foldl tally [] ?procs)"
    by (rule validateNodes_accepts [OF dist ok])
  have "map (\<lambda>node. refProcedure (Ref node)) xs = map refProcedure (map Ref xs)" for xs :: "OracleNode list" by simp
  then have procs: "?procs = map (\<lambda>node. refProcedure (Ref node)) (noopNodes shape (ShapeNodes shape))" using refs by metis
  have "tallied (foldl tally [] ?procs) (nat p mod 256) = ShapeNodes shape" if "p \<in> set [0..ShapeProcedures shape - 1]" for p
  proof -
    have "nat p mod 256 = uint8 p" using that by (simp add: uint8_def nat_mod_distrib)
    then show ?thesis using noop_refs(3) [OF shape that] unfolding tallied_foldl procs by simp
  qed
  note procedures = validateProcedures_accepts [of "[0..ShapeProcedures shape - 1]", OF this]
  have entry: "ref_key (Entry program) \<in> {} \<union> ref_key ` Ref ` set (Nodes program)"
    using \<open>Entry program = refAt 0 0\<close> refs_withinI [of 0 shape 0] b refset by auto
  have eok: "edge_ok ({} \<union> ref_key ` Ref ` set (Nodes program)) e" if "e \<in> set (Edges program)" for e
    using generated_endpoints [OF shape] that refset unfolding edges edge_ok_def by auto
  have edgesOk: "validateEdges ({} \<union> ref_key ` Ref ` set (Nodes program)) [] [] (generatedEdges shape (ShapeNodes shape)) =
      Inr (foldl bump [] (map uint8 [1..ShapeCallSites shape]), foldl bump [] (map uint8 [1..ShapeCallSites shape]))"
    using validateEdges_accepts [OF eok, of "Edges program" "[]" "[]"] unfolding edges generated_sites [OF shape] by simp
  note matched = matched_sites [OF sites_distinct [OF shape]]
  let ?keys = "{} \<union> ref_key ` Ref ` set (Nodes program)"
  have entered: "first_error [validateProcedures (foldl tally [] ?procs) (ShapeNodes shape) [0..ShapeProcedures shape - 1],
      error_when (ref_key (Entry program) \<notin> ?keys) ''entry %s is missing'' [ref_key (Entry program)]] = None"
    using procedures entry by simp
  show ?thesis
    unfolding ValidateProgram_def Let_def \<open>ProgramShape program = shape\<close> pre option.case nodes sum.case prod.case edges entered edgesOk
    using matched generated_metrics [OF shape refs edges len(1)] by simp
qed

lemma normalize_kept: "configFact (normalizeConfiguration c) = configFact c" "configID (normalizeConfiguration c) = configID c"
  "operationInCallee (normalizeConfiguration c) = operationInCallee c"
  by (simp_all add: normalizeConfiguration_def Let_def)

lemma generated_program_result:
  assumes "shape_bounded (configShape (normalizeConfiguration c))" "effects_known (normalizeConfiguration c)"
    and "configFact c \<in> {InitialFactNeedsValidation, InitialFactValidated}" "configID c \<noteq> []"
    and callee: "operationInCallee c \<Longrightarrow> 2 \<le> ShapeProcedures (configShape (normalizeConfiguration c))"
  shows "\<exists>program err. generatedProgram c = Some (program, err) \<and> ProgramShape program = configShape (normalizeConfiguration c) \<and>
    CaseID program = configID c \<and>
    (err = None \<longleftrightarrow> ShapeCallDepth (ProgramShape program) = derivedDepth (ProgramShape program))"
proof -
  let ?c = "normalizeConfiguration c"
  obtain nodes where nodes: "generatedNodes ?c = Some nodes"
      "map Ref nodes = map Ref (noopNodes (configShape ?c) (ShapeNodes (configShape ?c)))"
      "\<And>node. node \<in> set nodes \<Longrightarrow> fields_ok (nat (ShapeIdentities (configShape ?c))) node"
    using generatedNodes_ok [OF assms(1,2)] callee by (auto simp: normalize_kept)
  let ?program = "\<lparr>CaseID = configID ?c, ProgramShape = configShape ?c, Entry = refAt 0 0, Nodes = nodes,
      Edges = generatedEdges (configShape ?c) (ShapeNodes (configShape ?c)),
      Identities = map uint8 [0..ShapeIdentities (configShape ?c) - 1],
      InitialFacts = map (\<lambda>_. configFact ?c) [0..ShapeIdentities (configShape ?c) - 1]\<rparr>"
  have "ValidateProgram ?program = None \<longleftrightarrow> ShapeCallDepth (configShape ?c) = derivedDepth (configShape ?c)"
    by (rule generated_valid) (use assms nodes(2,3) in \<open>simp_all add: normalize_kept\<close>)
  then show ?thesis using nodes(1) by (simp add: generatedProgram_def Let_def normalize_kept)
qed

text \<open>C27. A configuration within the bounds of the format always yields a program, and the validator of
  the oracle admits that program exactly when the call depth it declares is the depth of the call
  chain its edges really form: one call for every non-recursive call site up to the number of
  procedures, and one more for the recursive site.\<close>
theorem generated_program_admitted:
  assumes "shape_bounded (configShape (normalizeConfiguration c))" "effects_known (normalizeConfiguration c)"
    and "configFact c \<in> {InitialFactNeedsValidation, InitialFactValidated}" "configID c \<noteq> []"
    and "operationInCallee c \<Longrightarrow> 2 \<le> ShapeProcedures (configShape (normalizeConfiguration c))"
  shows "\<exists>program err. generatedProgram c = Some (program, err) \<and> ProgramShape program = configShape (normalizeConfiguration c) \<and>
    (err = None \<longleftrightarrow> ShapeCallDepth (ProgramShape program) = derivedDepth (ProgramShape program))"
  using generated_program_result [OF assms] by blast

definition exampleConfiguration :: generatedConfiguration where
  "exampleConfiguration =
     \<lparr>configID = ''scenario/matched-return'',
      configShape = \<lparr>ShapeProcedures = 1, ShapeNodes = 4, ShapeIdentities = 1, ShapeCallSites = 0, ShapeCallDepth = 0,
        ShapeTopology = TopologyCallReturn, ShapeBranchJoin = False, ShapeRecursive = False\<rparr>,
      configOperation = OperationValidate, configCondition = ConditionalResultNil, configAlias = AliasActionNone,
      configUnknown = UnknownEffectNone, configConstraint = ConstraintNone, configFact = InitialFactNeedsValidation,
      validateFirst = False, operationInCallee = True, protectedIdentity = 0\<rparr>"

lemma example_normalized: "configShape (normalizeConfiguration exampleConfiguration) =
  \<lparr>ShapeProcedures = 2, ShapeNodes = 4, ShapeIdentities = 1, ShapeCallSites = 1, ShapeCallDepth = 1,
   ShapeTopology = TopologyCallReturn, ShapeBranchJoin = False, ShapeRecursive = False\<rparr>"
  by code_simp

lemma example_accepted: "shape_bounded (configShape (normalizeConfiguration exampleConfiguration))"
  "effects_known (normalizeConfiguration exampleConfiguration)"
  by code_simp+

lemma example_fields: "configFact exampleConfiguration = InitialFactNeedsValidation" "configID exampleConfiguration \<noteq> []"
  by (simp_all add: exampleConfiguration_def)

lemma generated_program_admitted_witness: "\<exists>program. generatedProgram exampleConfiguration = Some (program, None)"
proof -
  have two: "2 \<le> ShapeProcedures (configShape (normalizeConfiguration exampleConfiguration))" by (simp add: example_normalized)
  have "configFact exampleConfiguration \<in> {InitialFactNeedsValidation, InitialFactValidated}" by (simp add: example_fields)
  from generated_program_admitted [OF example_accepted this example_fields(2) two]
  obtain program err where p: "generatedProgram exampleConfiguration = Some (program, err)"
      "ProgramShape program = configShape (normalizeConfiguration exampleConfiguration)"
      "err = None \<longleftrightarrow> ShapeCallDepth (ProgramShape program) = derivedDepth (ProgramShape program)" by blast
  have "err = None" unfolding p(3) unfolding p(2) example_normalized by code_simp
  then show ?thesis using p(1) by blast
qed

end
