(* ===== verification/Oracle_Corpus.thy ===== *)
theory Oracle_Corpus imports Oracle_Generator begin
text \<open>
  The corpus of the protocol oracle (\<open>internal/protocoloracle/generate.go\<close>): the programs generated
  from a manifest, identified by their fingerprints, the reviewed profiles, the shards that partition
  a profile, the semantic features of a program and their census.

  The digests are parameters: \<open>digest\<close> is the hexadecimal SHA-256 sum of a program's JSON
  (\<open>Fingerprint\<close>), \<open>checksum\<close> that of a string, and \<open>bucket\<close> the first eight bytes of the sum of a string, a
  64-bit word. Nothing is assumed of them, so the results hold of any digest, collisions included.
  An operation that indexes out of range panics: \<open>None\<close>.
\<close>

unbundle bit_operations_syntax

section \<open>Fingerprints\<close>

definition programEdgeKey :: "OracleEdge \<Rightarrow> string" where
  "programEdgeKey e = ref_key (From e) @ ''|'' @ EdgeKind e @ ''|'' @ show_nat (EdgeSite e) @ ''|'' @ ref_key (To e)"

definition Fingerprint :: "(OracleProgram \<Rightarrow> string) \<Rightarrow> OracleProgram \<Rightarrow> string" where
  "Fingerprint digest program = ''poracle3_'' @
     digest (program\<lparr>Nodes := sort_key (\<lambda>node. ref_key (Ref node)) (Nodes program), Edges := sort_key programEdgeKey (Edges program)\<rparr>)"

definition programShard :: "(OracleProgram \<Rightarrow> string) \<Rightarrow> (string \<Rightarrow> 64 word) \<Rightarrow> OracleProgram \<Rightarrow> int \<Rightarrow> int" where
  "programShard digest bucket program shards = sint (bucket (Fingerprint digest program) mod word_of_int shards)"

definition CorpusFingerprint :: "(string \<Rightarrow> string) \<Rightarrow> (OracleProgram \<Rightarrow> string) \<Rightarrow> OracleProgram list \<Rightarrow> string" where
  "CorpusFingerprint checksum digest programs =
     ''pcorpus3_'' @ checksum (strings_Join (sort (map (Fingerprint digest) programs)) [char_of (10::nat)])"

section \<open>Corpora\<close>

text \<open>The loop of \<open>generateAll\<close>, over the configurations still to generate.\<close>

fun generateEach ::
  "(OracleProgram \<Rightarrow> string) \<Rightarrow> string set \<Rightarrow> generatedConfiguration list \<Rightarrow> (go_error + OracleProgram list) option" where
  "generateEach digest seen [] = Some (Inr [])"
| "generateEach digest seen (c # cs) =
     (case generatedProgram c of
        None \<Rightarrow> None
      | Some (program, Some e) \<Rightarrow> Some (Inl e)
      | Some (program, None) \<Rightarrow>
          (let fingerprint = Fingerprint digest program in
           if fingerprint \<in> seen then Some (Inl (Errorf ''duplicate generated program %s'' [fingerprint]))
           else map_option (map_sum (\<lambda>e. e) (\<lambda>programs. program # programs)) (generateEach digest (insert fingerprint seen) cs)))"

definition generateAll :: "(OracleProgram \<Rightarrow> string) \<Rightarrow> BoundsManifest \<Rightarrow> (go_error + OracleProgram list) option" where
  "generateAll digest manifest =
     (case enumerateConfigurations manifest of
        Inl e \<Rightarrow> Some (Inl e)
      | Inr configurations \<Rightarrow>
          map_option (map_sum (\<lambda>e. e) (sort_key (Fingerprint digest))) (generateEach digest {} configurations))"

text \<open>The configurations of the integrated cross-product of the scheduled profile, and its loop, which skips a known program.\<close>

definition integratedBase :: "generatedConfiguration \<Rightarrow> generatedConfiguration" where
  "integratedBase base =
     normalizeConfiguration (onShape (\<lambda>s. s\<lparr>ShapeTopology := TopologyCallReturn, ShapeProcedures := max (ShapeProcedures s) 2,
       ShapeIdentities := max (ShapeIdentities s) 2, ShapeCallSites := max (ShapeCallSites s) 1,
       ShapeCallDepth := max (ShapeCallDepth s) 1\<rparr>) base)"

definition integratedConfiguration ::
  "generatedConfiguration \<Rightarrow> string \<Rightarrow> string \<Rightarrow> string \<Rightarrow> string \<Rightarrow> string \<Rightarrow> string \<Rightarrow> generatedConfiguration" where
  "integratedConfiguration base operation condition aliasAction unknownEffect constraint initialFact =
     (let c = base\<lparr>configID := ''scheduled/integrated/'' @
            strings_Join [operation, condition, aliasAction, unknownEffect, constraint, initialFact] ''/'',
            configOperation := operation, configCondition := condition, configAlias := aliasAction,
            configUnknown := unknownEffect, configConstraint := constraint, configFact := initialFact\<rparr>
      in if aliasAction \<noteq> AliasActionNone then withTwoIdentities c else c)"

definition integratedConfigurations :: "ManifestDimensions \<Rightarrow> generatedConfiguration \<Rightarrow> generatedConfiguration list" where
  "integratedConfigurations d base =
     [integratedConfiguration base operation condition aliasAction unknownEffect constraint initialFact.
        operation \<leftarrow> Operations d, condition \<leftarrow> ConditionalResults d, aliasAction \<leftarrow> AliasActions d,
        unknownEffect \<leftarrow> UnknownEffects d, constraint \<leftarrow> DimConstraints d, initialFact \<leftarrow> DimInitialFacts d]"

fun generateNew ::
  "(OracleProgram \<Rightarrow> string) \<Rightarrow> string set \<Rightarrow> generatedConfiguration list \<Rightarrow> (go_error + OracleProgram list) option" where
  "generateNew digest seen [] = Some (Inr [])"
| "generateNew digest seen (c # cs) =
     (case generatedProgram c of
        None \<Rightarrow> None
      | Some (program, Some e) \<Rightarrow> Some (Inl e)
      | Some (program, None) \<Rightarrow>
          (let fingerprint = Fingerprint digest program in
           if fingerprint \<in> seen then generateNew digest seen cs
           else map_option (map_sum (\<lambda>e. e) (\<lambda>programs. program # programs)) (generateNew digest (insert fingerprint seen) cs)))"

definition generateProfilePrograms ::
  "(OracleProgram \<Rightarrow> string) \<Rightarrow> BoundsManifest \<Rightarrow> string \<Rightarrow> (go_error + OracleProgram list) option" where
  "generateProfilePrograms digest manifest profileName =
     (case Profile manifest profileName of
        Inl e \<Rightarrow> Some (Inl e)
      | Inr profile \<Rightarrow>
          (case generateAll digest manifest of
             None \<Rightarrow> None
           | Some (Inl e) \<Rightarrow> Some (Inl e)
           | Some (Inr programs) \<Rightarrow>
               if \<not> PairwiseSemantics profile then Some (Inr programs)
               else (case baseConfiguration (Dimensions manifest) of
                  Inl e \<Rightarrow> Some (Inl e)
                | Inr base \<Rightarrow>
                    map_option (map_sum (\<lambda>e. e) (\<lambda>new. sort_key (Fingerprint digest) (programs @ new)))
                      (generateNew digest (set (map (Fingerprint digest) programs))
                        (integratedConfigurations (Dimensions manifest) (integratedBase base))))))"

definition Cardinality :: "(OracleProgram \<Rightarrow> string) \<Rightarrow> BoundsManifest \<Rightarrow> (go_error + int) option" where
  "Cardinality digest manifest = map_option (map_sum (\<lambda>e. e) (\<lambda>programs. int (length programs))) (generateAll digest manifest)"

definition ProfileCardinality :: "(OracleProgram \<Rightarrow> string) \<Rightarrow> BoundsManifest \<Rightarrow> string \<Rightarrow> (go_error + int) option" where
  "ProfileCardinality digest manifest profileName =
     map_option (map_sum (\<lambda>e. e) (\<lambda>programs. int (length programs))) (generateProfilePrograms digest manifest profileName)"

definition LoadBoundsManifest ::
  "(OracleProgram \<Rightarrow> string) \<Rightarrow> (string \<Rightarrow> go_error + string) \<Rightarrow> (string \<Rightarrow> go_error + BoundsManifest) \<Rightarrow> string
    \<Rightarrow> (go_error + BoundsManifest) option" where
  "LoadBoundsManifest digest ReadFile Unmarshal path =
     (case ReadFile path of
        Inl e \<Rightarrow> Some (Inl (Wrapf ''read protocol oracle bounds %s: %w'' [path] e))
      | Inr data \<Rightarrow>
     (case Unmarshal data of
        Inl e \<Rightarrow> Some (Inl (Wrapf ''decode protocol oracle bounds %s: %w'' [path] e))
      | Inr manifest \<Rightarrow>
     (case validateManifest manifest of
        Some e \<Rightarrow> Some (Inl e)
      | None \<Rightarrow>
     (case Cardinality digest manifest of
        None \<Rightarrow> None
      | Some (Inl e) \<Rightarrow> Some (Inl e)
      | Some (Inr cardinality) \<Rightarrow>
          if ExpectedProgramCount manifest \<noteq> cardinality then
            Some (Inl (Errorf ''expected_program_count=%d, admitted grammar contains %d programs''
              [show_int (ExpectedProgramCount manifest), show_int cardinality]))
          else if cardinality < MinimumPrograms (Blocking manifest) \<or> cardinality \<noteq> ProfileProgramCount (Blocking manifest) then
            Some (Inl (Errorf ''blocking corpus contains %d programs outside its reviewed bounds'' [show_int cardinality]))
          else
     (case ProfileCardinality digest manifest ''scheduled'' of
        None \<Rightarrow> None
      | Some (Inl e) \<Rightarrow> Some (Inl e)
      | Some (Inr scheduledCardinality) \<Rightarrow>
          if scheduledCardinality < MinimumPrograms (Scheduled manifest) \<or>
             scheduledCardinality \<noteq> ProfileProgramCount (Scheduled manifest) then
            Some (Inl (Errorf ''scheduled corpus contains %d programs outside its reviewed bounds'' [show_int scheduledCardinality]))
          else Some (Inr manifest))))))"

section \<open>Enumeration\<close>

text \<open>
  The callback \<open>yield\<close> acts on a state of its own; the loops stop at its first error. The result is
  the error and the state the callback leaves.
\<close>

fun yieldEach :: "(OracleProgram \<Rightarrow> 's \<Rightarrow> go_error option \<times> 's) \<Rightarrow> OracleProgram list \<Rightarrow> 's \<Rightarrow> go_error option \<times> 's" where
  "yieldEach yield [] s = (None, s)"
| "yieldEach yield (program # programs) s =
     (case yield program s of (Some e, s) \<Rightarrow> (Some e, s) | (None, s) \<Rightarrow> yieldEach yield programs s)"

definition Enumerate ::
  "(OracleProgram \<Rightarrow> string) \<Rightarrow> BoundsManifest \<Rightarrow> (OracleProgram \<Rightarrow> 's \<Rightarrow> go_error option \<times> 's) \<Rightarrow> 's
    \<Rightarrow> (go_error option \<times> 's) option" where
  "Enumerate digest manifest yield s =
     map_option (\<lambda>generated. case generated of Inl e \<Rightarrow> (Some e, s) | Inr programs \<Rightarrow> yieldEach yield programs s)
       (generateAll digest manifest)"

definition EnumerateProfile ::
  "(OracleProgram \<Rightarrow> string) \<Rightarrow> BoundsManifest \<Rightarrow> string \<Rightarrow> (OracleProgram \<Rightarrow> 's \<Rightarrow> go_error option \<times> 's) \<Rightarrow> 's
    \<Rightarrow> (go_error option \<times> 's) option" where
  "EnumerateProfile digest manifest profileName yield s =
     map_option (\<lambda>generated. case generated of Inl e \<Rightarrow> (Some e, s) | Inr programs \<Rightarrow> yieldEach yield programs s)
       (generateProfilePrograms digest manifest profileName)"

fun yieldShard ::
  "(OracleProgram \<Rightarrow> int) \<Rightarrow> int \<Rightarrow> (OracleProgram \<Rightarrow> 's \<Rightarrow> go_error option \<times> 's) \<Rightarrow> OracleProgram list \<Rightarrow> 's
    \<Rightarrow> go_error option \<times> 's" where
  "yieldShard shardOf shardIndex yield [] s = (None, s)"
| "yieldShard shardOf shardIndex yield (program # programs) s =
     (if shardOf program \<noteq> shardIndex then yieldShard shardOf shardIndex yield programs s
      else (case yield program s of
              (Some e, s) \<Rightarrow> (Some e, s)
            | (None, s) \<Rightarrow> yieldShard shardOf shardIndex yield programs s))"

definition EnumerateShard ::
  "(OracleProgram \<Rightarrow> string) \<Rightarrow> (string \<Rightarrow> 64 word) \<Rightarrow> BoundsManifest \<Rightarrow> string \<Rightarrow> int
    \<Rightarrow> (OracleProgram \<Rightarrow> 's \<Rightarrow> go_error option \<times> 's) \<Rightarrow> 's \<Rightarrow> (go_error option \<times> 's) option" where
  "EnumerateShard digest bucket manifest profileName shardIndex yield s =
     (case Profile manifest profileName of
        Inl e \<Rightarrow> Some (Some e, s)
      | Inr profile \<Rightarrow>
          if shardIndex < 0 \<or> shardIndex \<ge> Shards profile then
            Some (Some (Errorf ''shard index %d is outside [0,%d)'' [show_int shardIndex, show_int (Shards profile)]), s)
          else (case generateProfilePrograms digest manifest profileName of
              None \<Rightarrow> None
            | Some (Inl e) \<Rightarrow> Some (Some e, s)
            | Some (Inr programs) \<Rightarrow>
                Some (yieldShard (\<lambda>program. programShard digest bucket program (Shards profile)) shardIndex yield programs s)))"

definition ProfileShardCardinality ::
  "(OracleProgram \<Rightarrow> string) \<Rightarrow> (string \<Rightarrow> 64 word) \<Rightarrow> BoundsManifest \<Rightarrow> string \<Rightarrow> int \<Rightarrow> (int \<times> go_error option) option" where
  "ProfileShardCardinality digest bucket manifest profileName shardIndex =
     map_option (\<lambda>(err, count). (count, err))
       (EnumerateShard digest bucket manifest profileName shardIndex (\<lambda>_ count. (None, count + 1)) 0)"

section \<open>Features\<close>

definition nodeFeatures :: "OracleNode \<Rightarrow> string set" where
  "nodeFeatures node =
     (if Operation node \<noteq> OperationNoop then {''operation-'' @ Operation node} else {}) \<union>
     (if Operation node = OperationMutate then {''mutation''}
      else if Operation node = OperationReplace then {''replacement''} else {}) \<union>
     (if NodeCondition node \<noteq> ConditionalResultNone then {''condition-'' @ NodeCondition node} else {}) \<union>
     (if AliasAction node \<noteq> AliasActionNone then {''alias-'' @ AliasAction node} else {}) \<union>
     (if UnknownEffect node \<noteq> UnknownEffectNone then {''unknown-'' @ UnknownEffect node} else {}) \<union>
     (if NodeConstraint node \<noteq> ConstraintNone then {''constraint-'' @ NodeConstraint node} else {})"

definition programFeatures :: "OracleProgram \<Rightarrow> string set" where
  "programFeatures program =
     (let metrics = Metrics program in
      {''procedures-'' @ show_int (MetricProcedures metrics), ''identities-'' @ show_int (MetricIdentities metrics),
       ''call-sites-'' @ show_int (MetricCallSites metrics), ''call-depth-'' @ show_int (MetricCallDepth metrics)} \<union>
      (\<lambda>initialFact. ''initial-initialFact-'' @ initialFact) ` set (InitialFacts program) \<union>
      {if MetricRecursive metrics then ''topology-recursive''
       else if MetricCallSites metrics > 0 then ''topology-call-return''
       else if MetricBranchJoin metrics then ''topology-branch-join''
       else ''topology-linear''} \<union>
      (if MetricBranchJoin metrics then {''branch-join''} else {}) \<union>
      (if MetricRecursive metrics then {''recursion''} else {}) \<union>
      \<Union> (nodeFeatures ` set (Nodes program)) \<union>
      (if \<exists>edge\<in>set (Edges program). EdgeKind edge = EdgeCall \<and>
            (\<exists>candidate\<in>set (Edges program). EdgeKind candidate = EdgeReturn \<and> EdgeSite candidate = EdgeSite edge \<and>
               refProcedure (From candidate) = refProcedure (To edge))
       then {''matched-return''} else {}))"

definition FeatureCensus :: "OracleProgram list \<Rightarrow> string \<Rightarrow> int option" where
  "FeatureCensus programs =
     foldl (\<lambda>census program feature. if feature \<in> programFeatures program
         then Some ((case census feature of None \<Rightarrow> 0 | Some n \<Rightarrow> n) + 1) else census feature)
       (\<lambda>_. None) programs"

definition Features :: "OracleProgram \<Rightarrow> string list" where
  "Features program = sorted_list_of_set (programFeatures program)"

lemma generated_err: "generatedProgram c = Some (program, None) \<Longrightarrow> ValidateProgram program = None"
  by (auto simp: generatedProgram_def Let_def)

lemma map_sum_Inr: "map_sum f g x = Inr y \<longleftrightarrow> (\<exists>z. x = Inr z \<and> y = g z)"
  by (cases x) auto

section \<open>The corpus is a partition\<close>

lemma generateEach_facts:
  "generateEach digest seen cs = Some (Inr programs) \<Longrightarrow>
    distinct (map (Fingerprint digest) programs) \<and> Fingerprint digest ` set programs \<inter> seen = {} \<and>
    length programs = length cs \<and> (\<forall>program\<in>set programs. ValidateProgram program = None)"
proof (induction digest seen cs arbitrary: programs rule: generateEach.induct)
  case (2 digest seen c cs)
  then obtain program rest where g: "generatedProgram c = Some (program, None)" "Fingerprint digest program \<notin> seen"
      "generateEach digest (insert (Fingerprint digest program) seen) cs = Some (Inr rest)" "programs = program # rest"
    by (auto simp: Let_def map_sum_Inr split: option.splits if_splits)
  have "ValidateProgram program = None" using g(1) by (rule generated_err)
  then show ?case using "2.IH" [OF g(1) refl refl refl g(2,3)] g(2,4) by auto
qed simp

lemma generateNew_facts:
  "generateNew digest seen cs = Some (Inr programs) \<Longrightarrow>
    distinct (map (Fingerprint digest) programs) \<and> Fingerprint digest ` set programs \<inter> seen = {} \<and>
    (\<forall>program\<in>set programs. ValidateProgram program = None)"
proof (induction digest seen cs arbitrary: programs rule: generateNew.induct)
  case (2 digest seen c cs)
  then obtain program where g: "generatedProgram c = Some (program, None)"
    by (auto split: option.splits)
  have valid: "ValidateProgram program = None" using g by (rule generated_err)
  show ?case
  proof (cases "Fingerprint digest program \<in> seen")
    case True
    then show ?thesis using 2 g by simp
  next
    case False
    then obtain rest where r: "generateNew digest (insert (Fingerprint digest program) seen) cs = Some (Inr rest)" "programs = program # rest"
      using "2.prems" g by (auto simp: Let_def map_sum_Inr)
    then show ?thesis using "2.IH"(2) [OF g refl refl refl False r(1)] False valid by auto
  qed
qed simp

text \<open>What the callers of a corpus rely on: valid programs, in the order of their distinct fingerprints.\<close>

definition corpus_ok :: "(OracleProgram \<Rightarrow> string) \<Rightarrow> OracleProgram list \<Rightarrow> bool" where
  "corpus_ok digest programs \<longleftrightarrow> sorted (map (Fingerprint digest) programs) \<and> distinct (map (Fingerprint digest) programs) \<and>
     (\<forall>program\<in>set programs. ValidateProgram program = None)"

lemma distinct_map_sort_key [simp]: "distinct (map f (sort_key g xs)) \<longleftrightarrow> distinct (map f xs)"
  by (metis mset_map mset_sort mset_eq_imp_distinct_iff)

lemma generateAll_ok: "generateAll digest manifest = Some (Inr programs) \<Longrightarrow> corpus_ok digest programs"
  unfolding generateAll_def corpus_ok_def
  by (auto simp: map_sum_Inr dest: generateEach_facts split: sum.splits)

lemma generateProfilePrograms_parts:
  assumes "generateProfilePrograms digest manifest profileName = Some (Inr programs)"
  obtains profile blocking where "Profile manifest profileName = Inr profile" and "generateAll digest manifest = Some (Inr blocking)"
    and "corpus_ok digest programs" and "set blocking \<subseteq> set programs" and "\<not> PairwiseSemantics profile \<Longrightarrow> programs = blocking"
proof -
  from assms obtain profile blocking where p: "Profile manifest profileName = Inr profile" "generateAll digest manifest = Some (Inr blocking)"
    by (auto simp: generateProfilePrograms_def split: sum.splits option.splits)
  have ok: "corpus_ok digest blocking" using p(2) by (rule generateAll_ok)
  show ?thesis
  proof (cases "PairwiseSemantics profile")
    case False
    then have "programs = blocking" using assms p by (simp add: generateProfilePrograms_def)
    then show ?thesis using that p ok by blast
  next
    case True
    then obtain base new where new: "baseConfiguration (Dimensions manifest) = Inr base"
        "generateNew digest (set (map (Fingerprint digest) blocking))
          (integratedConfigurations (Dimensions manifest) (integratedBase base)) = Some (Inr new)"
        "programs = sort_key (Fingerprint digest) (blocking @ new)"
      using assms p by (auto simp: generateProfilePrograms_def map_sum_Inr split: sum.splits)
    have "corpus_ok digest programs"
      using generateNew_facts [OF new(2)] ok unfolding new(3) corpus_ok_def by auto
    moreover have "set blocking \<subseteq> set programs" unfolding new(3) by simp
    ultimately show ?thesis using that p True by blast
  qed
qed

lemma yieldShard_filter: "yieldShard shardOf i yield programs s = yieldEach yield (filter (\<lambda>program. shardOf program = i) programs) s"
  by (induction programs arbitrary: s) (auto split: prod.splits option.splits)

lemma yieldEach_collect: "yieldEach (\<lambda>program collected. (None, collected @ [program])) programs s = (None, s @ programs)"
  by (induction programs arbitrary: s) auto

lemma yieldEach_count: "yieldEach (\<lambda>_ count. (None, count + 1)) programs s = (None, s + int (length programs))"
  by (induction programs arbitrary: s) auto

lemma filters_partition:
  "(\<And>x. x \<in> set xs \<Longrightarrow> f x < n) \<Longrightarrow> mset (concat (map (\<lambda>i. filter (\<lambda>x. f x = i) xs) [0..<n])) = mset xs"
proof (induction n arbitrary: xs)
  case 0
  then show ?case by (cases xs) auto
next
  case (Suc n)
  let ?low = "filter (\<lambda>x. f x < n) xs"
  have "filter (\<lambda>x. f x = i) xs = filter (\<lambda>x. f x = i) ?low" if "i < n" for i using that by (auto intro: filter_cong)
  then have same: "map (\<lambda>i. filter (\<lambda>x. f x = i) xs) [0..<n] = map (\<lambda>i. filter (\<lambda>x. f x = i) ?low) [0..<n]" by simp
  have low: "mset (concat (map (\<lambda>i. filter (\<lambda>x. f x = i) xs) [0..<n])) = mset ?low" unfolding same by (rule Suc.IH) simp
  have "mset (filter (\<lambda>x. f x = n) xs) = mset (filter (\<lambda>x. \<not> f x < n) xs)"
    using Suc.prems by (metis (mono_tags, lifting) filter_cong less_SucE nat_neq_iff)
  then show ?case using low by (simp add: mset_filter multiset_partition [symmetric])
qed

lemma programShard_bounds:
  assumes "0 < shards" and "shards < 2 ^ 63"
  shows "0 \<le> programShard digest bucket program shards \<and> programShard digest bucket program shards < shards"
proof -
  let ?w = "word_of_int shards :: 64 word" and ?x = "bucket (Fingerprint digest program) mod word_of_int shards :: 64 word"
  have w: "uint ?w = shards" using assms by (simp add: uint_word_of_int)
  have x: "uint ?x = uint (bucket (Fingerprint digest program)) mod shards" by (simp add: uint_mod w)
  then have "0 \<le> uint ?x" "uint ?x < shards" using assms by simp_all
  moreover have "sint ?x = uint ?x"
    unfolding sint_uint
  proof (rule signed_take_bit_int_eq_self)
    show "- (2 ^ (LENGTH(64) - Suc 0)) \<le> uint ?x" by (rule order_trans [OF _ uint_ge_0]) simp
    show "uint ?x < 2 ^ (LENGTH(64) - Suc 0)" using \<open>uint ?x < shards\<close> assms(2) by simp
  qed
  ultimately show ?thesis by (simp add: programShard_def)
qed

text \<open>C28. A profile that generates is a set of admitted programs with pairwise different fingerprints, in
  their order, and its shards partition it: enumerating every shard below the profile's count, each
  in full, yields every program of the profile exactly once, and any other index is refused.\<close>
theorem corpus_partitioned:
  assumes profile: "Profile manifest profileName = Inr profile" and shards: "0 < Shards profile" "Shards profile < 2 ^ 63"
    and generated: "generateProfilePrograms digest manifest profileName = Some (Inr programs)"
  shows "corpus_ok digest programs \<and>
    (\<exists>parts. int (length parts) = Shards profile \<and> mset (concat parts) = mset programs \<and>
      (\<forall>i. EnumerateShard digest bucket manifest profileName i (\<lambda>program collected. (None, collected @ [program])) [] =
        (if 0 \<le> i \<and> i < Shards profile then Some (None, parts ! nat i)
         else Some (Some (Errorf ''shard index %d is outside [0,%d)'' [show_int i, show_int (Shards profile)]), []))))"
proof -
  let ?shard = "\<lambda>program. programShard digest bucket program (Shards profile)" and ?n = "nat (Shards profile)"
  let ?parts = "map (\<lambda>i. filter (\<lambda>program. nat (?shard program) = i) programs) [0..<?n]"
  have "nat (?shard program) < ?n" for program
    using programShard_bounds [OF shards, where digest = digest and bucket = bucket and program = program] by auto
  then have whole: "mset (concat ?parts) = mset programs" by (intro filters_partition) simp
  have part: "?parts ! nat i = filter (\<lambda>program. ?shard program = i) programs" if "0 \<le> i" "i < Shards profile" for i
  proof -
    have "nat (?shard program) = nat i \<longleftrightarrow> ?shard program = i" for program
      using that programShard_bounds [OF shards, where digest = digest and bucket = bucket and program = program] by auto
    then show ?thesis using that by simp
  qed
  have "EnumerateShard digest bucket manifest profileName i (\<lambda>program collected. (None, collected @ [program])) [] =
      (if 0 \<le> i \<and> i < Shards profile then Some (None, ?parts ! nat i)
       else Some (Some (Errorf ''shard index %d is outside [0,%d)'' [show_int i, show_int (Shards profile)]), []))" for i
    using part [of i] by (auto simp: EnumerateShard_def profile generated yieldShard_filter yieldEach_collect simp del: nth_map)
  moreover have "int (length ?parts) = Shards profile" using shards by simp
  moreover have "corpus_ok digest programs" using generated by (rule generateProfilePrograms_parts)
  ultimately show ?thesis using whole by blast
qed

text \<open>C30. The bounds file is loaded only when the corpus it describes is the reviewed one: the blocking
  profile's and the grammar's expected counts are the number of programs generated, the scheduled
  profile generates exactly its own expected count, at least as many as the blocking one, and its corpus contains the
  whole blocking corpus.\<close>
theorem loaded_bounds_reviewed:
  assumes "LoadBoundsManifest digest ReadFile Unmarshal path = Some (Inr manifest)"
  shows "\<exists>blocking scheduled. generateAll digest manifest = Some (Inr blocking) \<and>
    generateProfilePrograms digest manifest ''scheduled'' = Some (Inr scheduled) \<and> corpus_ok digest scheduled \<and>
    set blocking \<subseteq> set scheduled \<and> int (length blocking) \<le> int (length scheduled) \<and>
    int (length blocking) = ExpectedProgramCount manifest \<and> int (length blocking) = ProfileProgramCount (Blocking manifest) \<and>
    MinimumPrograms (Blocking manifest) \<le> int (length blocking) \<and>
    int (length scheduled) = ProfileProgramCount (Scheduled manifest) \<and> MinimumPrograms (Scheduled manifest) \<le> int (length scheduled)"
proof -
  obtain data where read: "ReadFile path = Inr data" using assms by (auto simp: LoadBoundsManifest_def split: sum.splits)
  obtain m where m: "Unmarshal data = Inr m" using assms read by (auto simp: LoadBoundsManifest_def split: sum.splits)
  have v: "validateManifest m = None" using assms read m by (auto simp: LoadBoundsManifest_def split: option.splits)
  obtain n where n: "Cardinality digest m = Some (Inr n)"
    using assms read m v by (auto simp: LoadBoundsManifest_def split: option.splits sum.splits)
  have n_ok: "ExpectedProgramCount m = n" "MinimumPrograms (Blocking m) \<le> n" "n = ProfileProgramCount (Blocking m)"
    using assms read m v n by (auto simp: LoadBoundsManifest_def split: if_splits)
  obtain k where k: "ProfileCardinality digest m ''scheduled'' = Some (Inr k)"
    using assms read m v n by (auto simp: LoadBoundsManifest_def split: option.splits sum.splits if_splits)
  have k_ok: "manifest = m" "MinimumPrograms (Scheduled m) \<le> k" "k = ProfileProgramCount (Scheduled m)"
    using assms read m v n k by (auto simp: LoadBoundsManifest_def split: if_splits)
  obtain blocking scheduled where b: "generateAll digest m = Some (Inr blocking)" "n = int (length blocking)"
      and s: "generateProfilePrograms digest m ''scheduled'' = Some (Inr scheduled)" "k = int (length scheduled)"
    using n k by (auto simp: Cardinality_def ProfileCardinality_def map_sum_Inr)
  obtain blocking' where "generateAll digest m = Some (Inr blocking')" "corpus_ok digest scheduled" "set blocking' \<subseteq> set scheduled"
    using s(1) by (rule generateProfilePrograms_parts)
  then have sub: "corpus_ok digest scheduled" "set blocking \<subseteq> set scheduled" using b(1) by simp_all
  have "distinct blocking" using generateAll_ok [OF b(1)] by (auto simp: corpus_ok_def distinct_map)
  then have "length blocking \<le> length scheduled"
    using sub(2) by (metis card_mono card_length distinct_card List.finite_set le_trans)
  then show ?thesis unfolding k_ok(1) using b s sub n_ok k_ok(2,3) by auto
qed

text \<open>The census of a corpus counts, for every feature, the programs that have it, and lists no feature that none has.\<close>
lemma feature_census_counts:
  "FeatureCensus programs feature =
    (let n = length (filter (\<lambda>program. feature \<in> programFeatures program) programs) in if n = 0 then None else Some (int n))"
proof (induction programs rule: rev_induct)
  case (snoc program programs)
  then show ?case by (auto simp: FeatureCensus_def Let_def)
qed (simp add: FeatureCensus_def)

section \<open>Programs of the fuzzer\<close>

text \<open>
  \<open>DecodeFuzzProgram\<close> (\<open>fuzz.go\<close>): bytes choose a configuration. \<open>shortSum\<close> is the hexadecimal of the
  first eight bytes of the SHA-256 sum of the data.
\<close>

definition fuzzByteAt :: "8 word list \<Rightarrow> nat \<Rightarrow> 8 word" where
  "fuzzByteAt data index = (if data = [] then 0 else data ! (index mod length data))"

definition fuzzChoice :: "'a list \<Rightarrow> 8 word list \<Rightarrow> nat \<Rightarrow> 'a" where
  "fuzzChoice choices data index = choices ! unat (fuzzByteAt data index mod of_nat (length choices))"

definition fuzzShape :: "string \<Rightarrow> Shape" where
  "fuzzShape topology =
     (let shape = \<lparr>ShapeProcedures = 2, ShapeNodes = 4, ShapeIdentities = 2, ShapeCallSites = 1, ShapeCallDepth = 1,
            ShapeTopology = topology, ShapeBranchJoin = (topology = TopologyBranchJoin), ShapeRecursive = (topology = TopologyRecursive)\<rparr>
      in if topology = TopologyRecursive then shape\<lparr>ShapeCallSites := 2, ShapeCallDepth := 2\<rparr> else shape)"

definition fuzzConfiguration :: "(8 word list \<Rightarrow> string) \<Rightarrow> 8 word list \<Rightarrow> generatedConfiguration" where
  "fuzzConfiguration shortSum data =
     \<lparr>configID = ''fuzz/'' @ shortSum data,
      configShape = fuzzShape (fuzzChoice [TopologyCallReturn, TopologyRecursive, TopologyBranchJoin] data 6),
      configOperation = fuzzChoice [OperationNoop, OperationValidate, OperationConsume, OperationMutate, OperationReplace,
        OperationEscape, OperationUnresolved] data 1,
      configCondition = fuzzChoice [ConditionalResultNone, ConditionalResultNil, ConditionalResultNonNil, ConditionalResultUnknown] data 2,
      configAlias = fuzzChoice [AliasActionNone, AliasActionCopy, AliasActionKill] data 3,
      configUnknown = fuzzChoice [UnknownEffectNone, UnknownEffectUnresolved, UnknownEffectConcurrentMutation, UnknownEffectEscapedHeap] data 4,
      configConstraint = fuzzChoice [ConstraintNone, ConstraintSAT, ConstraintUNSAT] data 5,
      configFact = fuzzChoice [InitialFactNeedsValidation, InitialFactValidated] data 0,
      validateFirst = (fuzzByteAt data 7 AND 1 \<noteq> 0), operationInCallee = False, protectedIdentity = unat (fuzzByteAt data 8 mod 2)\<rparr>"

definition DecodeFuzzProgram :: "(8 word list \<Rightarrow> string) \<Rightarrow> 8 word list \<Rightarrow> (go_error + OracleProgram) option" where
  "DecodeFuzzProgram shortSum data =
     map_option (\<lambda>(program, err). case err of
         Some e \<Rightarrow> Inl e
       | None \<Rightarrow> (case ValidateProgram program of Some e \<Rightarrow> Inl e | None \<Rightarrow> Inr program))
       (generatedProgram (fuzzConfiguration shortSum data))"

lemma fuzzChoice_in:
  assumes "choices \<noteq> []" "length choices < 256"
  shows "fuzzChoice choices data index \<in> set choices"
proof -
  have "unat (of_nat (length choices) :: 8 word) = length choices" using assms(2) by (simp add: unat_of_nat)
  then have "unat (fuzzByteAt data index mod of_nat (length choices)) < length choices"
    using assms(1) by (simp add: unat_mod)
  then show ?thesis by (simp add: fuzzChoice_def)
qed

lemma fuzz_choices:
  "configShape (fuzzConfiguration shortSum data) \<in> fuzzShape ` {TopologyCallReturn, TopologyRecursive, TopologyBranchJoin}"
  "configOperation (fuzzConfiguration shortSum data) \<in> {OperationNoop, OperationValidate, OperationConsume, OperationMutate,
     OperationReplace, OperationEscape, OperationUnresolved}"
  "configCondition (fuzzConfiguration shortSum data) \<in> {ConditionalResultNone, ConditionalResultNil, ConditionalResultNonNil, ConditionalResultUnknown}"
  "configAlias (fuzzConfiguration shortSum data) \<in> {AliasActionNone, AliasActionCopy, AliasActionKill}"
  "configUnknown (fuzzConfiguration shortSum data) \<in> {UnknownEffectNone, UnknownEffectUnresolved, UnknownEffectConcurrentMutation, UnknownEffectEscapedHeap}"
  "configConstraint (fuzzConfiguration shortSum data) \<in> {ConstraintNone, ConstraintSAT, ConstraintUNSAT}"
  "configFact (fuzzConfiguration shortSum data) \<in> {InitialFactNeedsValidation, InitialFactValidated}"
  "protectedIdentity (fuzzConfiguration shortSum data) < 2"
  "operationInCallee (fuzzConfiguration shortSum data) \<longleftrightarrow> False" "configID (fuzzConfiguration shortSum data) \<noteq> []"
proof -
  have choose: "fuzzChoice choices data index \<in> S" if "choices \<noteq> []" "length choices < 256" "set choices \<subseteq> S" for choices index and S :: "string set"
    using fuzzChoice_in [OF that(1,2)] that(3) by blast
  note fields = fuzzConfiguration_def generatedConfiguration.simps
  show "configShape (fuzzConfiguration shortSum data) \<in> fuzzShape ` {TopologyCallReturn, TopologyRecursive, TopologyBranchJoin}"
    unfolding fields by (rule imageI, rule choose) simp_all
  show "configOperation (fuzzConfiguration shortSum data) \<in> {OperationNoop, OperationValidate, OperationConsume, OperationMutate,
     OperationReplace, OperationEscape, OperationUnresolved}" unfolding fields by (rule choose) simp_all
  show "configCondition (fuzzConfiguration shortSum data) \<in>
    {ConditionalResultNone, ConditionalResultNil, ConditionalResultNonNil, ConditionalResultUnknown}" unfolding fields by (rule choose) simp_all
  show "configAlias (fuzzConfiguration shortSum data) \<in> {AliasActionNone, AliasActionCopy, AliasActionKill}"
    unfolding fields by (rule choose) simp_all
  show "configUnknown (fuzzConfiguration shortSum data) \<in>
    {UnknownEffectNone, UnknownEffectUnresolved, UnknownEffectConcurrentMutation, UnknownEffectEscapedHeap}"
    unfolding fields by (rule choose) simp_all
  show "configConstraint (fuzzConfiguration shortSum data) \<in> {ConstraintNone, ConstraintSAT, ConstraintUNSAT}"
    unfolding fields by (rule choose) simp_all
  show "configFact (fuzzConfiguration shortSum data) \<in> {InitialFactNeedsValidation, InitialFactValidated}"
    unfolding fields by (rule choose) simp_all
qed (simp_all add: fuzzConfiguration_def unat_mod)

lemma normalized_shape: "configShape (normalizeConfiguration c) =
  (let shape = normalizeShape (configShape c) in
   if configAlias c \<noteq> AliasActionNone then shape\<lparr>ShapeIdentities := max (ShapeIdentities shape) 2\<rparr> else shape)"
  by (simp add: normalizeConfiguration_def Let_def)

definition fuzzShapes :: "Shape list" where
  "fuzzShapes = map (\<lambda>t. normalizeShape (fuzzShape t)) [TopologyCallReturn, TopologyRecursive, TopologyBranchJoin]"

lemma fuzzShapes_ok: "list_all (\<lambda>shape. shape_bounded shape \<and> ShapeCallDepth shape = derivedDepth shape \<and>
    ShapeIdentities shape = 2 \<and> ShapeCallSites shape > 0) fuzzShapes"
  by code_simp

lemma fuzz_shapes:
  assumes "shape \<in> set fuzzShapes"
  shows "shape_bounded shape" "ShapeCallDepth shape = derivedDepth shape" "ShapeIdentities shape = 2" "ShapeCallSites shape > 0"
  using assms fuzzShapes_ok by (simp_all add: list_all_iff)

lemma fuzz_normalized: "configShape (normalizeConfiguration (fuzzConfiguration shortSum data)) \<in> set fuzzShapes"
proof -
  obtain t where t: "t \<in> {TopologyCallReturn, TopologyRecursive, TopologyBranchJoin}" "configShape (fuzzConfiguration shortSum data) = fuzzShape t"
    using fuzz_choices(1) by blast
  then have "normalizeShape (fuzzShape t) \<in> set fuzzShapes" unfolding fuzzShapes_def by auto
  moreover have "normalizeShape (fuzzShape t)\<lparr>ShapeIdentities := max (ShapeIdentities (normalizeShape (fuzzShape t))) 2\<rparr> = normalizeShape (fuzzShape t)"
    using fuzz_shapes(3) [OF calculation] by simp
  ultimately show ?thesis unfolding normalized_shape Let_def t(2) by simp
qed

lemma enums_known: "validateNodeEnums node = None \<longleftrightarrow>
    Operation node \<in> {OperationNoop, OperationValidate, OperationConsume, OperationMutate, OperationReplace, OperationEscape, OperationUnresolved} \<and>
    NodeCondition node \<in> {[], ConditionalResultNone, ConditionalResultNil, ConditionalResultNonNil, ConditionalResultUnknown} \<and>
    AliasAction node \<in> {[], AliasActionNone, AliasActionCopy, AliasActionKill} \<and>
    UnknownEffect node \<in> {[], UnknownEffectNone, UnknownEffectUnresolved, UnknownEffectConcurrentMutation, UnknownEffectEscapedHeap} \<and>
    NodeConstraint node \<in> {[], ConstraintNone, ConstraintSAT, ConstraintUNSAT}"
  unfolding validateNodeEnums_def by (simp only: first_error_None list.set ball_simps error_when_None not_not simp_thms)

lemma operate_fields: "Operation (operate c node) = configOperation c" "NodeCondition (operate c node) = configCondition c"
  "AliasAction (operate c node) = configAlias c" "UnknownEffect (operate c node) = configUnknown c"
  "NodeConstraint (operate c node) = configConstraint c"
  "NodeIdentity (operate c node) = (if configAlias c \<noteq> AliasActionNone then 1 else protectedIdentity c)"
  "AliasSource (operate c node) = (if configAlias c \<noteq> AliasActionNone then 0 else AliasSource node)"
  by (simp_all add: operate_def Let_def)

lemma normalized_fields: "configAlias (normalizeConfiguration c) = configAlias c" "configUnknown (normalizeConfiguration c) = configUnknown c"
  "configConstraint (normalizeConfiguration c) = configConstraint c" "protectedIdentity (normalizeConfiguration c) = protectedIdentity c"
  "configOperation (normalizeConfiguration c) = configOperation c \<or> configOperation (normalizeConfiguration c) = OperationValidate"
  "configCondition (normalizeConfiguration c) = configCondition c \<or> configCondition (normalizeConfiguration c) = ConditionalResultNil"
  by (simp_all add: normalizeConfiguration_def Let_def)

lemma fuzz_effects_known: "effects_known (normalizeConfiguration (fuzzConfiguration shortSum data))"
proof -
  let ?c = "fuzzConfiguration shortSum data"
  have n: "ShapeIdentities (configShape (normalizeConfiguration ?c)) = 2" using fuzz_shapes(3) [OF fuzz_normalized] .
  have "configOperation (normalizeConfiguration ?c) \<in> {OperationNoop, OperationValidate, OperationConsume, OperationMutate,
      OperationReplace, OperationEscape, OperationUnresolved}"
    using normalized_fields(5) [of ?c] fuzz_choices(2) [of shortSum data] by (elim disjE) simp_all
  moreover have "configCondition (normalizeConfiguration ?c) \<in>
      {[], ConditionalResultNone, ConditionalResultNil, ConditionalResultNonNil, ConditionalResultUnknown}"
    using normalized_fields(6) [of ?c] fuzz_choices(3) [of shortSum data] by (elim disjE) simp_all
  moreover have "configAlias ?c \<in> {[], AliasActionNone, AliasActionCopy, AliasActionKill}"
    using fuzz_choices(4) [of shortSum data] by simp
  moreover have "configUnknown ?c \<in>
      {[], UnknownEffectNone, UnknownEffectUnresolved, UnknownEffectConcurrentMutation, UnknownEffectEscapedHeap}"
    using fuzz_choices(5) [of shortSum data] by simp
  moreover have "configConstraint ?c \<in> {[], ConstraintNone, ConstraintSAT, ConstraintUNSAT}"
    using fuzz_choices(6) [of shortSum data] by simp
  ultimately have "validateNodeEnums (operate (normalizeConfiguration ?c) (noopNode 0 0)) = None"
    unfolding enums_known operate_fields normalized_fields(1-4) by (intro conjI)
  moreover have "NodeIdentity (operate (normalizeConfiguration ?c) (noopNode 0 0)) < 2"
    "AliasSource (operate (normalizeConfiguration ?c) (noopNode 0 0)) < 2"
    unfolding operate_fields normalized_fields using fuzz_choices(8) [of shortSum data] by (simp_all add: noopNode_def)
  ultimately show ?thesis unfolding effects_known_def n fields_ok_def by simp
qed
lemma valid_shape:
  assumes "ValidateProgram program = None"
  shows "int (length (Identities program)) = ShapeIdentities (ProgramShape program) \<and>
    MetricCallSites (Metrics program) = ShapeCallSites (ProgramShape program)"
  using assms unfolding ValidateProgram_def Let_def
  by (auto simp: shapeMatches_def split: option.splits sum.splits)

text \<open>C29. The fuzzer's decoder is total: whatever the bytes, the empty input included, it returns a program, never
  an error and never a panic, and the program is admitted by the validator, has two identities and at least one call site.\<close>
theorem fuzz_program_total:
  "\<exists>program. DecodeFuzzProgram shortSum data = Some (Inr program) \<and> ValidateProgram program = None \<and>
    length (Identities program) = 2 \<and> MetricCallSites (Metrics program) > 0"
proof -
  let ?c = "fuzzConfiguration shortSum data"
  let ?shape = "configShape (normalizeConfiguration ?c)"
  note shape = fuzz_shapes [OF fuzz_normalized, of shortSum data]
  obtain program err where p: "generatedProgram ?c = Some (program, err)" "ProgramShape program = ?shape"
      "err = None \<longleftrightarrow> ShapeCallDepth ?shape = derivedDepth ?shape"
    using generated_program_result [OF shape(1) fuzz_effects_known fuzz_choices(7) fuzz_choices(10)] fuzz_choices(9) by fastforce
  then have ok: "err = None" "ValidateProgram program = None" using shape(2) generated_err by auto
  have "int (length (Identities program)) = 2 \<and> MetricCallSites (Metrics program) > 0"
    using valid_shape [OF ok(2)] shape(3,4) p(2) by simp
  then show ?thesis using p(1) ok by (auto simp: DecodeFuzzProgram_def)
qed

section \<open>Examples\<close>

text \<open>A configuration whose program is admitted; the digest of the examples is the case ID.\<close>

definition buildable :: "generatedConfiguration \<Rightarrow> bool" where
  "buildable c \<longleftrightarrow> shape_bounded (configShape (normalizeConfiguration c)) \<and> effects_known (normalizeConfiguration c) \<and>
     configFact c \<in> {InitialFactNeedsValidation, InitialFactValidated} \<and> configID c \<noteq> [] \<and>
     (operationInCallee c \<longrightarrow> 2 \<le> ShapeProcedures (configShape (normalizeConfiguration c))) \<and>
     ShapeCallDepth (configShape (normalizeConfiguration c)) = derivedDepth (configShape (normalizeConfiguration c))"

lemma buildable_program:
  assumes "buildable c"
  shows "\<exists>program. generatedProgram c = Some (program, None) \<and> CaseID program = configID c"
proof -
  have b: "shape_bounded (configShape (normalizeConfiguration c))" "effects_known (normalizeConfiguration c)"
    "configFact c \<in> {InitialFactNeedsValidation, InitialFactValidated}" "configID c \<noteq> []"
    "operationInCallee c \<Longrightarrow> 2 \<le> ShapeProcedures (configShape (normalizeConfiguration c))"
    "ShapeCallDepth (configShape (normalizeConfiguration c)) = derivedDepth (configShape (normalizeConfiguration c))"
    using assms unfolding buildable_def by blast+
  show ?thesis using generated_program_result [OF b(1-5)] b(6) by metis
qed

lemma Fingerprint_CaseID [simp]: "Fingerprint CaseID program = ''poracle3_'' @ CaseID program"
  by (simp add: Fingerprint_def)

lemma generateEach_builds:
  "list_all buildable cs \<Longrightarrow> distinct (map configID cs) \<Longrightarrow> (\<forall>c\<in>set cs. ''poracle3_'' @ configID c \<notin> seen) \<Longrightarrow>
    \<exists>programs. generateEach CaseID seen cs = Some (Inr programs) \<and> map CaseID programs = map configID cs"
proof (induction cs arbitrary: seen)
  case (Cons c cs)
  obtain program where p: "generatedProgram c = Some (program, None)" "CaseID program = configID c"
    using buildable_program [of c] Cons.prems by auto
  have "\<forall>d\<in>set cs. ''poracle3_'' @ configID d \<notin> insert (''poracle3_'' @ configID c) seen"
    using Cons.prems(2,3) by (simp, metis image_eqI)
  then obtain programs where "generateEach CaseID (insert (''poracle3_'' @ configID c) seen) cs = Some (Inr programs)"
      "map CaseID programs = map configID cs"
    using Cons.IH [of "insert (''poracle3_'' @ configID c) seen"] Cons.prems by auto
  then show ?case using p Cons.prems by (simp add: Let_def)
qed simp

lemma generateNew_builds:
  "list_all buildable cs \<Longrightarrow> distinct (map configID cs) \<Longrightarrow> (\<forall>c\<in>set cs. ''poracle3_'' @ configID c \<notin> seen) \<Longrightarrow>
    \<exists>programs. generateNew CaseID seen cs = Some (Inr programs) \<and> map CaseID programs = map configID cs"
proof (induction cs arbitrary: seen)
  case (Cons c cs)
  obtain program where p: "generatedProgram c = Some (program, None)" "CaseID program = configID c"
    using buildable_program [of c] Cons.prems by auto
  have "\<forall>d\<in>set cs. ''poracle3_'' @ configID d \<notin> insert (''poracle3_'' @ configID c) seen"
    using Cons.prems(2,3) by (simp, metis image_eqI)
  then obtain programs where "generateNew CaseID (insert (''poracle3_'' @ configID c) seen) cs = Some (Inr programs)"
      "map CaseID programs = map configID cs"
    using Cons.IH [of "insert (''poracle3_'' @ configID c) seen"] Cons.prems by auto
  then show ?case using p Cons.prems by (simp add: Let_def)
qed simp
definition exampleManifest :: BoundsManifest where
  "exampleManifest =
     \<lparr>FormatVersion = manifestFormatVersion, Generator = manifestGenerator, Enumeration = manifestEnumeration,
      Dimensions = \<lparr>ProcedureCounts = [1], NodesPerProcedure = [4], IdentityCounts = [1], CallSiteCounts = [0], CallDepths = [0],
        Topologies = [TopologyLinear], BranchJoins = [False], Recursion = [False], Operations = [OperationConsume],
        ConditionalResults = [ConditionalResultNone], AliasActions = [AliasActionNone], UnknownEffects = [UnknownEffectNone],
        DimConstraints = [ConstraintNone], DimInitialFacts = [InitialFactNeedsValidation]\<rparr>,
      Scenarios = [''validated-nil''],
      Blocking = \<lparr>Shards = 2, MinimumPrograms = 1, MaxStates = 10, PairwiseSemantics = False, ProfileProgramCount = 2\<rparr>,
      Scheduled = \<lparr>Shards = 2, MinimumPrograms = 1, MaxStates = 10, PairwiseSemantics = True, ProfileProgramCount = 3\<rparr>,
      RequiredFeatures = [''operation-consume''], ExpectedProgramCount = 2\<rparr>"


definition exampleConfigurations :: "generatedConfiguration list" where
  "exampleConfigurations = (case enumerateConfigurations exampleManifest of Inl _ \<Rightarrow> [] | Inr cs \<Rightarrow> cs)"

definition exampleIntegrated :: "generatedConfiguration list" where
  "exampleIntegrated = (case baseConfiguration (Dimensions exampleManifest) of Inl _ \<Rightarrow> []
     | Inr base \<Rightarrow> integratedConfigurations (Dimensions exampleManifest) (integratedBase base))"

lemma example_enumerated: "\<not> isl (enumerateConfigurations exampleManifest) \<and> \<not> isl (baseConfiguration (Dimensions exampleManifest))"
  by code_simp

lemma example_configurations: "map configID exampleConfigurations = [''baseline'', ''scenario/validated-nil''] \<and>
    list_all buildable exampleConfigurations"
  by code_simp

lemma example_integrated: "list_all buildable exampleIntegrated \<and>
    map configID exampleIntegrated = [''scheduled/integrated/consume/none/none/none/none/needs-validation'']"
  by code_simp

lemma example_generated:
  obtains blocking scheduled where "generateAll CaseID exampleManifest = Some (Inr blocking)" and "length blocking = 2"
    and "generateProfilePrograms CaseID exampleManifest ''blocking'' = Some (Inr blocking)"
    and "generateProfilePrograms CaseID exampleManifest ''scheduled'' = Some (Inr scheduled)" and "length scheduled = 3"
proof -
  have cs: "enumerateConfigurations exampleManifest = Inr exampleConfigurations"
    using example_enumerated by (auto simp: exampleConfigurations_def split: sum.splits)
  obtain base where base: "baseConfiguration (Dimensions exampleManifest) = Inr base"
      "exampleIntegrated = integratedConfigurations (Dimensions exampleManifest) (integratedBase base)"
    using example_enumerated by (cases "baseConfiguration (Dimensions exampleManifest)") (auto simp: exampleIntegrated_def)
  have "distinct (map configID exampleConfigurations)" unfolding example_configurations [THEN conjunct1] by simp
  then obtain programs where programs: "generateEach CaseID {} exampleConfigurations = Some (Inr programs)"
      "map CaseID programs = [''baseline'', ''scenario/validated-nil'']"
    using generateEach_builds [of exampleConfigurations "{}"] example_configurations by auto
  let ?blocking = "sort_key (Fingerprint CaseID) programs"
  have all: "generateAll CaseID exampleManifest = Some (Inr ?blocking)" using programs by (simp add: generateAll_def cs)
  have two: "length ?blocking = 2" using arg_cong [OF programs(2), of length] by simp
  have ids: "CaseID ` set programs = {''baseline'', ''scenario/validated-nil''}" using arg_cong [OF programs(2), of set] by simp
  have "Fingerprint CaseID ` set ?blocking = (\<lambda>i. ''poracle3_'' @ i) ` CaseID ` set programs" by (simp add: image_image)
  then have fps: "set (map (Fingerprint CaseID) ?blocking) = {''poracle3_baseline'', ''poracle3_scenario/validated-nil''}"
    unfolding ids by simp
  have "configID ` set exampleIntegrated = {''scheduled/integrated/consume/none/none/none/none/needs-validation''}"
    using arg_cong [OF example_integrated [THEN conjunct2], of set] by simp
  then have "\<forall>c\<in>set exampleIntegrated. configID c = ''scheduled/integrated/consume/none/none/none/none/needs-validation''" by blast
  then have "\<forall>c\<in>set exampleIntegrated. ''poracle3_'' @ configID c \<notin> set (map (Fingerprint CaseID) ?blocking)" unfolding fps by simp
  moreover have "distinct (map configID exampleIntegrated)" unfolding example_integrated [THEN conjunct2] by simp
  ultimately obtain new where new: "generateNew CaseID (set (map (Fingerprint CaseID) ?blocking)) exampleIntegrated = Some (Inr new)"
      "map CaseID new = map configID exampleIntegrated"
    using generateNew_builds example_integrated by blast
  have "length new = 1" using arg_cong [OF new(2) [unfolded example_integrated [THEN conjunct2]], of length] by simp
  moreover have "generateProfilePrograms CaseID exampleManifest ''scheduled'' = Some (Inr (sort_key (Fingerprint CaseID) (?blocking @ new)))"
    using new(1) by (simp add: generateProfilePrograms_def Profile_def all base(1) base(2) [symmetric] del: set_map)
       (simp add: exampleManifest_def)
  moreover have "generateProfilePrograms CaseID exampleManifest ''blocking'' = Some (Inr ?blocking)"
    by (simp add: generateProfilePrograms_def Profile_def all) (simp add: exampleManifest_def)
  ultimately show ?thesis using that all two by simp
qed

lemma corpus_partitioned_witness:
  "\<exists>programs parts. generateProfilePrograms CaseID exampleManifest ''blocking'' = Some (Inr programs) \<and> corpus_ok CaseID programs \<and>
    length programs = 2 \<and> length parts = 2 \<and> mset (concat parts) = mset programs \<and>
    EnumerateShard CaseID (\<lambda>s. of_nat (length s)) exampleManifest ''blocking'' 1 (\<lambda>program collected. (None, collected @ [program])) [] =
      Some (None, parts ! 1)"
proof -
  obtain programs where p: "generateProfilePrograms CaseID exampleManifest ''blocking'' = Some (Inr programs)" "length programs = 2"
    by (rule example_generated)
  have profile: "Profile exampleManifest ''blocking'' = Inr (Blocking exampleManifest)" by (simp add: Profile_def)
  have two: "Shards (Blocking exampleManifest) = 2" by (simp add: exampleManifest_def)
  show ?thesis
    using corpus_partitioned [OF profile _ _ p(1), of "\<lambda>s. of_nat (length s)", unfolded two] p by fastforce
qed

lemma loaded_bounds_reviewed_witness:
  "\<exists>blocking scheduled. generateAll CaseID exampleManifest = Some (Inr blocking) \<and>
    generateProfilePrograms CaseID exampleManifest ''scheduled'' = Some (Inr scheduled) \<and> set blocking \<subseteq> set scheduled \<and>
    length blocking = 2 \<and> length scheduled = 3"
proof -
  obtain blocking scheduled where g: "generateAll CaseID exampleManifest = Some (Inr blocking)" "length blocking = 2"
      "generateProfilePrograms CaseID exampleManifest ''scheduled'' = Some (Inr scheduled)" "length scheduled = 3"
    by (rule example_generated)
  have valid: "validateManifest exampleManifest = None" by code_simp
  have "LoadBoundsManifest CaseID (\<lambda>_. Inr []) (\<lambda>_. Inr exampleManifest) ''bounds.json'' = Some (Inr exampleManifest)"
    by (simp add: LoadBoundsManifest_def valid Cardinality_def ProfileCardinality_def g) (simp add: exampleManifest_def)
  from loaded_bounds_reviewed [OF this] show ?thesis using g by auto
qed

end
